(* ===== verification/Prelude.thy ===== *)
theory Prelude
  imports Main "HOL-Library.Word"
begin

text \<open>
  Shared vocabulary of the development: the machine integers of the kernel, the byte-addressed
  memory, the result type of operations that may never return, the loop combinators the
  components use, and the generic facts on words, lists and options they share.
\<close>

unbundle bit_operations_syntax

section \<open>Machine integers\<close>

type_synonym u8 = "8 word"
type_synonym u16 = "16 word"
type_synonym u32 = "32 word"
type_synonym u64 = "64 word"

text \<open>
  The kernel's view of its 32-bit address space: one byte per address. A C pointer is the
  address it holds; the null pointer is \<open>0\<close>.
\<close>

type_synonym mem = "u32 \<Rightarrow> u8"

abbreviation NULL :: u32 where "NULL \<equiv> 0"

text \<open>
  A computation whose control may never come back (a \<open>hlt\<close> loop, a loop that does not end, a
  call chain that never bottoms out) is an option: \<open>None\<close> means that it does not return.
\<close>

type_synonym ('s, 'a) prog = "'s \<Rightarrow> ('a \<times> 's) option"

named_theorems state_defs \<open>record-level helper definitions unfolded together\<close>
named_theorems word_bounds \<open>bounds on machine integers\<close>

section \<open>Words\<close>

lemma unat_less_2p32 [word_bounds]: "unat (x :: u32) < 4294967296"
  using unsigned_less [of x, where ?'a = nat] by simp

lemma unat_add_noov:
  fixes a b :: u32
  assumes "unat a + unat b < 4294967296"
  shows "unat (a + b) = unat a + unat b"
  using assms unat_add_lem [of a b] by simp

lemma unat_sub_le:
  fixes a b :: u32
  assumes "b \<le> a"
  shows "unat (a - b) = unat a - unat b"
  using assms by (rule unat_sub)

lemma unat_of_nat_u32: "n < 4294967296 \<Longrightarrow> unat (of_nat n :: u32) = n"
  by (simp add: unat_of_nat take_bit_eq_mod)

lemma unat_Suc_u32:
  assumes "x < (y :: u32)"
  shows "unat (x + 1) = Suc (unat x)"
proof -
  have "unat x < unat y" using assms by (simp add: word_less_nat_alt)
  then have "unat x + unat (1 :: u32) < 4294967296"
    using unat_less_2p32 [of y] by simp
  then show ?thesis by (simp add: unat_add_noov)
qed

lemma u32_less_Suc_cases:
  assumes "x < (n :: u32) + 1" "n + 1 \<noteq> 0"
  shows "x < n \<or> x = n"
  using assms by (meson inc_le linorder_not_less order_le_less)

lemma of_nat_unat_u32 [simp]: "of_nat (unat x) = (x :: u32)"
  by simp

lemma all_less_of_nat_u32:
  "(\<forall>n < unat (k :: u32). P (of_nat n)) \<longleftrightarrow> (\<forall>i < k. P i)"
proof
  assume *: "\<forall>n < unat k. P (of_nat n)"
  have "P i" if "i < k" for i
    using * [rule_format, of "unat i"] that by (simp add: word_less_nat_alt)
  then show "\<forall>i < k. P i" by blast
next
  assume *: "\<forall>i < k. P i"
  have "P (of_nat n)" if "n < unat k" for n
    using * that unat_less_2p32 [of k] by (simp add: word_less_nat_alt unat_of_nat_u32)
  then show "\<forall>n < unat k. P (of_nat n)" by blast
qed

lemma unat_uminus_u32: "x \<noteq> 0 \<Longrightarrow> unat (- x :: u32) = 4294967296 - unat x"
  using unat_sub_if_size [of 0 x] by (simp add: word_size unat_gt_0 split: if_splits)

lemma unat_max_u32: "unat (- 1 :: u32) = 4294967295"
  by (simp add: unsigned_minus_1_eq_mask mask_eq_exp_minus_1)

section \<open>Lists\<close>

lemma nth_update_iff:
  "i < length xs \<Longrightarrow> (xs[i := v]) ! j = (if i = j then v else xs ! j)"
  by (cases "i = j") auto

lemma distinct_map_upt:
  "(\<And>i j. i < n \<Longrightarrow> j < n \<Longrightarrow> f i = f j \<Longrightarrow> i = j) \<Longrightarrow> distinct (map f [0..<n])"
  by (auto simp: distinct_map inj_on_def)

lemma sorted_remove_nth:
  assumes "sorted xs"
  shows "sorted (take i xs @ drop (Suc i) xs)"
proof (cases "i < length xs")
  case True
  have "sorted (take i xs @ xs ! i # drop (Suc i) xs)"
    using assms by (subst (asm) id_take_nth_drop [OF True])
  then show ?thesis by (simp add: sorted_append)
qed (use assms in simp)

lemma find_upt_Some_iff:
  "find P [0..<n] = Some i \<longleftrightarrow> i < n \<and> P i \<and> (\<forall>j < i. \<not> P j)"
  by (auto simp: find_Some_iff)

lemma find_upt_None_iff:
  "find P [0..<n] = None \<longleftrightarrow> (\<forall>i < n. \<not> P i)"
  by (auto simp: find_None_iff)

lemma all_filter_length: "(\<forall>x \<in> set xs. P x) \<longleftrightarrow> length (filter P xs) = length xs"
proof (induction xs)
  case (Cons x xs)
  have "length (filter P xs) \<noteq> Suc (length xs)"
    using le_imp_less_Suc [OF length_filter_le [of P xs]] less_irrefl by metis
  with Cons show ?case by simp
qed simp

end
