(* ===== verification/Memory.thy ===== *)
theory Memory
  imports Prelude
begin

text \<open>
  The memory primitives: little-endian 32-bit loads and stores on the byte memory, and the
  copy and fill routines of include/memory.h, the plain loops and the word-at-a-time ones.
\<close>

section \<open>Loads and stores\<close>

definition read32 :: "mem \<Rightarrow> u32 \<Rightarrow> u32" where
  "read32 m a = ucast (m a) OR push_bit 8 (ucast (m (a + 1)))
     OR push_bit 16 (ucast (m (a + 2))) OR push_bit 24 (ucast (m (a + 3)))"

definition write32 :: "mem \<Rightarrow> u32 \<Rightarrow> u32 \<Rightarrow> mem" where
  "write32 m a v = m(a := ucast v, a + 1 := ucast (drop_bit 8 v),
     a + 2 := ucast (drop_bit 16 v), a + 3 := ucast (drop_bit 24 v))"

text \<open>Two address ranges share no byte (addresses wrap around at the top of the space).\<close>

definition apart :: "u32 \<Rightarrow> u32 \<Rightarrow> u32 \<Rightarrow> u32 \<Rightarrow> bool" where
  "apart a n b k \<longleftrightarrow> n \<le> b - a \<and> k \<le> a - b"

lemma apart_sym: "apart a n b k = apart b k a n"
  by (auto simp: apart_def)

lemma apart_neq:
  assumes "apart a n b k" "i < n" "j < k"
  shows "a + i \<noteq> b + j"
proof
  assume eq: "a + i = b + j"
  have d1: "b - a = i - j"
  proof -
    from eq have "a + i - (a + j) = b + j - (a + j)" by simp
    then show ?thesis by simp
  qed
  then have d2: "a - b = j - i" by (metis minus_diff_eq)
  show False
  proof (cases "j \<le> i")
    case True
    then have "i - j \<le> i" by (simp add: word_sub_le)
    with assms d1 show False by (auto simp: apart_def)
  next
    case False
    then have "j - i \<le> j" by (simp add: word_sub_le)
    with assms d2 show False by (auto simp: apart_def)
  qed
qed

lemma write32_same_byte:
  assumes "x - a < (4 :: u32)"
  shows "x = a \<or> x = a + 1 \<or> x = a + 2 \<or> x = a + 3"
proof -
  have "x - a = 0 \<or> x - a = 1 \<or> x - a = 2 \<or> x - a = 3"
    using assms by unat_arith
  then show ?thesis by (auto simp: diff_eq_eq add.commute)
qed

lemma write32_other [simp]: "\<not> x - a < 4 \<Longrightarrow> write32 m a v x = m x"
  by (auto simp: write32_def)

lemma read32_write32_same [simp]: "read32 (write32 m a v) a = v"
proof -
  have "bit (read32 (write32 m a v) a) n = bit v n" if "n < 32" for n
    using that
    by (cases "n < 8"; cases "n < 16"; cases "n < 24")
       (auto simp: read32_def write32_def bit_simps not_less)
  then show ?thesis by (auto intro: bit_word_eqI)
qed

lemma read32_cong:
  assumes "\<And>i. i < 4 \<Longrightarrow> m (a + i) = m' (a + i)"
  shows "read32 m a = read32 m' a"
  using assms [of 0] assms [of 1] assms [of 2] assms [of 3] by (simp add: read32_def)

lemma read32_write32_other [simp]:
  assumes "apart a 4 b 4"
  shows "read32 (write32 m b v) a = read32 m a"
proof (rule read32_cong)
  fix i :: u32
  assume i: "i < 4"
  have "\<not> a + i - b < 4"
  proof
    assume "a + i - b < 4"
    with apart_neq [OF assms i, of "a + i - b"] show False by simp
  qed
  then show "write32 m b v (a + i) = m (a + i)" by simp
qed

lemma read32_upd_other:
  assumes "apart a 4 b 1"
  shows "read32 (m(b := v)) a = read32 m a"
proof (rule read32_cong)
  fix i :: u32
  assume "i < 4"
  from apart_neq [OF assms this, of 0] show "(m(b := v)) (a + i) = m (a + i)" by simp
qed

section \<open>memcpy, memset and memsetw\<close>

text \<open>A \<open>for\<close> loop over \<open>i = 0 .. count - 1\<close> is a fold over the list of its indices.\<close>

definition memcpy :: "mem \<Rightarrow> u32 \<Rightarrow> u32 \<Rightarrow> u32 \<Rightarrow> mem" where
  "memcpy m dest src count =
     fold (\<lambda>i m. m(dest + of_nat i := m (src + of_nat i))) [0..<unat count] m"

definition memset :: "mem \<Rightarrow> u32 \<Rightarrow> u8 \<Rightarrow> u32 \<Rightarrow> mem" where
  "memset m dest val count = fold (\<lambda>i m. m(dest + of_nat i := val)) [0..<unat count] m"

definition write16 :: "mem \<Rightarrow> u32 \<Rightarrow> u16 \<Rightarrow> mem" where
  "write16 m a v = m(a := ucast v, a + 1 := ucast (drop_bit 8 v))"

definition memsetw :: "mem \<Rightarrow> u32 \<Rightarrow> u16 \<Rightarrow> u32 \<Rightarrow> mem" where
  "memsetw m dest val count =
     fold (\<lambda>i m. write16 m (dest + 2 * of_nat i) val) [0..<unat count] m"

text \<open>The plain copy and fill over a natural number of bytes, and how they split.\<close>

definition copy_fwd :: "mem \<Rightarrow> u32 \<Rightarrow> u32 \<Rightarrow> nat \<Rightarrow> mem" where
  "copy_fwd m d s k = fold (\<lambda>i m. m(d + of_nat i := m (s + of_nat i))) [0..<k] m"

definition fill_fwd :: "mem \<Rightarrow> u32 \<Rightarrow> u8 \<Rightarrow> nat \<Rightarrow> mem" where
  "fill_fwd m d v k = fold (\<lambda>i m. m(d + of_nat i := v)) [0..<k] m"

lemma memcpy_copy_fwd: "memcpy m d s n = copy_fwd m d s (unat n)"
  by (simp add: memcpy_def copy_fwd_def)

lemma memset_fill_fwd: "memset m d v n = fill_fwd m d v (unat n)"
  by (simp add: memset_def fill_fwd_def)

lemma upt_shift_fold: "fold f [j..<j + k] m = fold (\<lambda>i. f (j + i)) [0..<k] m"
  by (induction k arbitrary: m) simp_all

lemma copy_fwd_add: "copy_fwd m d s (j + k) = copy_fwd (copy_fwd m d s j) (d + of_nat j) (s + of_nat j) k"
proof -
  have "[0..<j + k] = [0..<j] @ [j..<j + k]" by (rule upt_add_eq_append) simp
  then show ?thesis
    by (simp only: copy_fwd_def fold_append o_apply upt_shift_fold [of _ j k] of_nat_add add.assoc)
qed

lemma fill_fwd_add: "fill_fwd m d v (j + k) = fill_fwd (fill_fwd m d v j) (d + of_nat j) v k"
proof -
  have "[0..<j + k] = [0..<j] @ [j..<j + k]" by (rule upt_add_eq_append) simp
  then show ?thesis
    by (simp only: fill_fwd_def fold_append o_apply upt_shift_fold [of _ j k] of_nat_add add.assoc)
qed

lemma copy_fwd_0 [simp]: "copy_fwd m d s 0 = m" and fill_fwd_0 [simp]: "fill_fwd m d v 0 = m"
  by (simp_all add: copy_fwd_def fill_fwd_def)

lemma copy_fwd_Suc: "copy_fwd m d s (Suc k) = copy_fwd (m(d := m s)) (d + 1) (s + 1) k"
proof -
  have "copy_fwd m d s 1 = m(d := m s)" by (simp add: copy_fwd_def)
  then show ?thesis using copy_fwd_add [of m d s 1 k] by simp
qed

lemma fill_fwd_Suc: "fill_fwd m d v (Suc k) = fill_fwd (m(d := v)) (d + 1) v k"
proof -
  have "fill_fwd m d v 1 = m(d := v)" by (simp add: fill_fwd_def)
  then show ?thesis using fill_fwd_add [of m d v 1 k] by simp
qed

text \<open>What the loops compute, as one equation on the resulting memory.\<close>

lemma of_nat_diff_less:
  assumes "k \<le> 4294967296"
  shows "(\<exists>i < k. x = d + (of_nat i :: u32)) \<longleftrightarrow> unat (x - d) < k"
proof
  assume "\<exists>i < k. x = d + of_nat i"
  then obtain i where "i < k" "x - d = of_nat i" by auto
  then show "unat (x - d) < k" using assms by (simp add: unat_of_nat_u32)
next
  assume "unat (x - d) < k"
  moreover have "x = d + of_nat (unat (x - d))" by simp
  ultimately show "\<exists>i < k. x = d + of_nat i" by blast
qed

lemma fill_fwd_apply:
  assumes "k \<le> 4294967296"
  shows "fill_fwd m d v k x = (if unat (x - d) < k then v else m x)"
proof -
  have "fill_fwd m d v k x = (if \<exists>i < k. x = d + of_nat i then v else m x)"
    by (induction k) (auto simp: fill_fwd_def less_Suc_eq)
  then show ?thesis by (simp only: of_nat_diff_less [OF assms])
qed

lemma memset_apply: "memset m d v n x = (if x - d < n then v else m x)"
  using unat_less_2p32 [of n]
  by (simp add: memset_fill_fwd fill_fwd_apply word_less_nat_alt)

lemma copy_fwd_apply:
  assumes "unat n \<ge> k" and ap: "apart d n s n"
  shows "copy_fwd m d s k x = (if unat (x - d) < k then m (s + (x - d)) else m x)"
  using assms(1)
proof (induction k arbitrary: x)
  case 0
  then show ?case by simp
next
  case (Suc k)
  have k32: "k < 4294967296" using Suc.prems unat_less_2p32 [of n] by simp
  have kn: "(of_nat k :: u32) < n"
    using Suc.prems k32 by (simp add: word_less_nat_alt unat_of_nat_u32)
  have step: "copy_fwd m d s (Suc k) =
    (copy_fwd m d s k)(d + of_nat k := copy_fwd m d s k (s + of_nat k))"
    by (simp add: copy_fwd_def)
  have src: "copy_fwd m d s k (s + of_nat k) = m (s + of_nat k)"
  proof -
    have "\<not> unat (s + of_nat k - d) < k"
    proof
      assume *: "unat (s + of_nat k - d) < k"
      then have "s + of_nat k - d < n" using Suc.prems by (simp add: word_less_nat_alt)
      from apart_neq [OF ap this kn] show False by simp
    qed
    with Suc show ?thesis by simp
  qed
  have ux: "unat (x - d) = k \<longleftrightarrow> x = d + of_nat k"
    using k32 by (metis add.commute diff_add_cancel add_diff_cancel_left' unat_of_nat_u32 of_nat_unat ucast_id)
  have "copy_fwd m d s (Suc k) x =
    (if x = d + of_nat k then m (s + of_nat k) else copy_fwd m d s k x)"
    by (simp add: step src)
  also have "\<dots> = (if unat (x - d) = k then m (s + of_nat k) else copy_fwd m d s k x)"
    by (simp only: ux)
  finally show ?case
    using Suc.prems Suc.IH [of x] k32 by (auto simp: less_Suc_eq)
qed

lemma memcpy_apply:
  assumes "apart d n s n"
  shows "memcpy m d s n x = (if x - d < n then m (s + (x - d)) else m x)"
  using copy_fwd_apply [OF order_refl assms]
  by (simp add: memcpy_copy_fwd word_less_nat_alt)

section \<open>fast_memcpy and fast_memset\<close>

text \<open>The three phases of each routine: bytes up to a 4-byte boundary of the destination,
  whole words (four at a time for the copy), the remaining bytes. The byte count \<open>n\<close> is a natural
  number; each loop returns the updated memory, pointers and count.\<close>

fun fast_memcpy_align :: "mem \<Rightarrow> u32 \<Rightarrow> u32 \<Rightarrow> nat \<Rightarrow> mem \<times> u32 \<times> u32 \<times> nat" where
  "fast_memcpy_align m d s n =
     (if 0 < n \<and> d AND 3 \<noteq> 0 then fast_memcpy_align (m(d := m s)) (d + 1) (s + 1) (n - 1)
      else (m, d, s, n))"

definition copy_word :: "mem \<Rightarrow> u32 \<Rightarrow> u32 \<Rightarrow> mem" where
  "copy_word m d s = write32 m d (read32 m s)"

fun fast_memcpy_quads :: "mem \<Rightarrow> u32 \<Rightarrow> u32 \<Rightarrow> nat \<Rightarrow> mem \<times> u32 \<times> u32 \<times> nat" where
  "fast_memcpy_quads m d s n =
     (if 16 \<le> n then
        let m = copy_word m d s;
            m = copy_word m (d + 4) (s + 4);
            m = copy_word m (d + 8) (s + 8);
            m = copy_word m (d + 12) (s + 12)
        in fast_memcpy_quads m (d + 16) (s + 16) (n - 16)
      else (m, d, s, n))"

fun fast_memcpy_words :: "mem \<Rightarrow> u32 \<Rightarrow> u32 \<Rightarrow> nat \<Rightarrow> mem \<times> u32 \<times> u32 \<times> nat" where
  "fast_memcpy_words m d s n =
     (if 4 \<le> n then fast_memcpy_words (copy_word m d s) (d + 4) (s + 4) (n - 4)
      else (m, d, s, n))"

fun fast_memcpy_tail :: "mem \<Rightarrow> u32 \<Rightarrow> u32 \<Rightarrow> nat \<Rightarrow> mem" where
  "fast_memcpy_tail m d s 0 = m"
| "fast_memcpy_tail m d s (Suc n) = fast_memcpy_tail (m(d := m s)) (d + 1) (s + 1) n"

definition fast_memcpy :: "mem \<Rightarrow> u32 \<Rightarrow> u32 \<Rightarrow> u32 \<Rightarrow> mem" where
  "fast_memcpy m dest src count =
     (let (m, d, s, n) = fast_memcpy_align m dest src (unat count);
          (m, d, s, n) = fast_memcpy_quads m d s n;
          (m, d, s, n) = fast_memcpy_words m d s n
      in fast_memcpy_tail m d s n)"

fun fast_memset_align :: "mem \<Rightarrow> u32 \<Rightarrow> u8 \<Rightarrow> nat \<Rightarrow> mem \<times> u32 \<times> nat" where
  "fast_memset_align m d v n =
     (if 0 < n \<and> d AND 3 \<noteq> 0 then fast_memset_align (m(d := v)) (d + 1) v (n - 1)
      else (m, d, n))"

fun fast_memset_words :: "mem \<Rightarrow> u32 \<Rightarrow> u32 \<Rightarrow> nat \<Rightarrow> mem \<times> u32 \<times> nat" where
  "fast_memset_words m d v32 n =
     (if 4 \<le> n then fast_memset_words (write32 m d v32) (d + 4) v32 (n - 4) else (m, d, n))"

fun fast_memset_tail :: "mem \<Rightarrow> u32 \<Rightarrow> u8 \<Rightarrow> nat \<Rightarrow> mem" where
  "fast_memset_tail m d v 0 = m"
| "fast_memset_tail m d v (Suc n) = fast_memset_tail (m(d := v)) (d + 1) v n"

definition splat32 :: "u8 \<Rightarrow> u32" where
  "splat32 b = (let v = ucast b; v = v OR push_bit 8 v in v OR push_bit 16 v)"

definition fast_memset :: "mem \<Rightarrow> u32 \<Rightarrow> u32 \<Rightarrow> u32 \<Rightarrow> mem" where
  "fast_memset m dest val count =
     (let v = ucast val;
          (m, d, n) = fast_memset_align m dest v (unat count);
          (m, d, n) = fast_memset_words m d (splat32 v) n
      in fast_memset_tail m d v n)"

declare fast_memcpy_align.simps [simp del] fast_memcpy_quads.simps [simp del]
  fast_memcpy_words.simps [simp del] fast_memset_align.simps [simp del]
  fast_memset_words.simps [simp del]

text \<open>Each phase is a prefix of the plain loop; what it leaves is the rest of that loop.\<close>

lemma fast_memset_tail_fill: "fast_memset_tail m d v n = fill_fwd m d v n"
  by (induction n arbitrary: m d) (simp_all add: fill_fwd_Suc)

lemma fast_memcpy_tail_copy: "fast_memcpy_tail m d s n = copy_fwd m d s n"
  by (induction n arbitrary: m d s) (simp_all add: copy_fwd_Suc)

lemma splat32_bit: "i < 32 \<Longrightarrow> bit (splat32 v) i = bit v (i mod 8)"
  by (cases "i < 8"; cases "i < 16"; cases "i < 24")
     (auto simp: splat32_def Let_def bit_simps not_less le_mod_geq dest: bit_imp_le_length)

lemma splat32_bytes:
  "k \<in> {0, 8, 16, 24} \<Longrightarrow> ucast (drop_bit k (splat32 v)) = v"
  by (rule bit_word_eqI) (auto simp: bit_simps splat32_bit mod_add_eq [symmetric, of _ _ 8])

lemma write32_splat: "write32 m d (splat32 v) = fill_fwd m d v 4"
  using splat32_bytes [of 0 v] splat32_bytes [of 8 v] splat32_bytes [of 16 v] splat32_bytes [of 24 v]
  by (simp add: write32_def fill_fwd_def eval_nat_numeral)

lemma fast_memset_align_fill:
  "fast_memset_align m d v n = (m', d', n') \<Longrightarrow> fill_fwd m' d' v n' = fill_fwd m d v n"
proof (induction n arbitrary: m d)
  case (Suc n)
  then show ?case
    by (cases "d AND 3 = 0")
       (auto simp: fast_memset_align.simps [of m d v] fill_fwd_Suc fun_upd_def)
qed (simp add: fast_memset_align.simps)

lemma fast_memset_words_fill:
  "fast_memset_words m d (splat32 v) n = (m', d', n') \<Longrightarrow> fill_fwd m' d' v n' = fill_fwd m d v n"
proof (induction n arbitrary: m d rule: less_induct)
  case (less n)
  show ?case
  proof (cases "4 \<le> n")
    case True
    then have "fill_fwd m d v n = fill_fwd (fill_fwd m d v 4) (d + 4) v (n - 4)"
      using fill_fwd_add [of m d v 4 "n - 4"] by simp
    with True less show ?thesis
      by (simp add: fast_memset_words.simps [of m d] write32_splat)
  next
    case False
    with less.prems show ?thesis by (simp add: fast_memset_words.simps [of m d])
  qed
qed

lemma fast_memset_eq: "fast_memset m d val n = memset m d (ucast val) n"
  by (auto simp: fast_memset_def Let_def fast_memset_tail_fill memset_fill_fwd
      split: prod.splits dest!: fast_memset_words_fill fast_memset_align_fill)

lemma read32_bytes:
  "ucast (read32 m s) = m s" "ucast (drop_bit 8 (read32 m s)) = m (s + 1)"
  "ucast (drop_bit 16 (read32 m s)) = m (s + 2)" "ucast (drop_bit 24 (read32 m s)) = m (s + 3)"
  by (rule bit_word_eqI; auto simp: read32_def bit_simps dest: bit_imp_le_length)+

lemma copy_word_copy:
  assumes "4 \<le> unat (s - d)" "4 \<le> unat (d - s)"
  shows "copy_word m d s = copy_fwd m d s 4"
proof
  fix x
  have "apart d 4 s 4" using assms by (simp add: apart_def word_le_nat_alt)
  then have "copy_fwd m d s 4 x = (if unat (x - d) < 4 then m (s + (x - d)) else m x)"
    using copy_fwd_apply [of 4 4 d s] by simp
  moreover have "copy_word m d s x = (if x - d < 4 then m (s + (x - d)) else m x)"
    using write32_same_byte [of x d] by (auto simp: copy_word_def write32_def read32_bytes)
  ultimately show "copy_word m d s x = copy_fwd m d s 4 x"
    by (simp add: word_less_nat_alt)
qed

lemma fast_memcpy_align_copy:
  "fast_memcpy_align m d s n = (m', d', s', n') \<Longrightarrow>
   copy_fwd m' d' s' n' = copy_fwd m d s n \<and> n' \<le> n \<and> s' - d' = s - d"
proof (induction n arbitrary: m d s)
  case (Suc n)
  then show ?case
    by (cases "d AND 3 = 0")
       (auto simp: fast_memcpy_align.simps [of m d s] copy_fwd_Suc le_SucI fun_upd_def)
qed (simp add: fast_memcpy_align.simps)

lemma copy_fwd_split_word:
  assumes "4 \<le> n" "n \<le> unat (s - d)" "n \<le> unat (d - s)"
  shows "copy_fwd m d s n = copy_fwd (copy_word m d s) (d + 4) (s + 4) (n - 4)"
  using copy_fwd_add [of m d s 4 "n - 4"] assms by (simp add: copy_word_copy)

lemma fast_memcpy_quads_copy:
  "fast_memcpy_quads m d s n = (m', d', s', n') \<Longrightarrow> n \<le> unat (s - d) \<Longrightarrow> n \<le> unat (d - s) \<Longrightarrow>
   copy_fwd m' d' s' n' = copy_fwd m d s n \<and> n' \<le> n \<and> s' - d' = s - d \<and> d' - s' = d - s"
proof (induction n arbitrary: m d s rule: less_induct)
  case (less n)
  show ?case
  proof (cases "16 \<le> n")
    case True
    let ?m1 = "copy_word m d s"
    let ?m2 = "copy_word ?m1 (d + 4) (s + 4)"
    let ?m3 = "copy_word ?m2 (d + 8) (s + 8)"
    let ?m4 = "copy_word ?m3 (d + 12) (s + 12)"
    have "copy_fwd m d s n = copy_fwd ?m4 (d + 16) (s + 16) (n - 16)"
      using True less.prems(2,3)
        copy_fwd_split_word [of n s d m] copy_fwd_split_word [of "n - 4" "s + 4" "d + 4" ?m1]
        copy_fwd_split_word [of "n - 8" "s + 8" "d + 8" ?m2]
        copy_fwd_split_word [of "n - 12" "s + 12" "d + 12" ?m3]
      by (simp add: add.assoc)
    moreover have "fast_memcpy_quads ?m4 (d + 16) (s + 16) (n - 16) = (m', d', s', n')"
      using True less.prems(1) by (simp add: fast_memcpy_quads.simps [of m d] Let_def)
    ultimately show ?thesis
      using True less.prems less.IH [of "n - 16" ?m4 "d + 16" "s + 16"] by fastforce
  next
    case False
    with less.prems show ?thesis by (simp add: fast_memcpy_quads.simps [of m d])
  qed
qed

lemma fast_memcpy_words_copy:
  "fast_memcpy_words m d s n = (m', d', s', n') \<Longrightarrow> n \<le> unat (s - d) \<Longrightarrow> n \<le> unat (d - s) \<Longrightarrow>
   copy_fwd m' d' s' n' = copy_fwd m d s n"
proof (induction n arbitrary: m d s rule: less_induct)
  case (less n)
  show ?case
  proof (cases "4 \<le> n")
    case True
    with less.prems have "copy_fwd m d s n = copy_fwd (copy_word m d s) (d + 4) (s + 4) (n - 4)"
      by (simp add: copy_fwd_split_word)
    moreover have "fast_memcpy_words (copy_word m d s) (d + 4) (s + 4) (n - 4) = (m', d', s', n')"
      using True less.prems(1) by (simp add: fast_memcpy_words.simps [of m d])
    ultimately show ?thesis
      using True less.prems less.IH [of "n - 4" "copy_word m d s" "d + 4" "s + 4"] by simp
  next
    case False
    with less.prems show ?thesis by (simp add: fast_memcpy_words.simps [of m d])
  qed
qed

lemma fast_memcpy_eq:
  assumes "apart d n s n"
  shows "fast_memcpy m d s n = memcpy m d s n"
proof -
  obtain m1 d1 s1 n1 where a: "fast_memcpy_align m d s (unat n) = (m1, d1, s1, n1)"
    by (metis prod_cases4)
  obtain m2 d2 s2 n2 where q: "fast_memcpy_quads m1 d1 s1 n1 = (m2, d2, s2, n2)"
    by (metis prod_cases4)
  obtain m3 d3 s3 n3 where w: "fast_memcpy_words m2 d2 s2 n2 = (m3, d3, s3, n3)"
    by (metis prod_cases4)
  have ov: "unat n \<le> unat (s - d)" "unat n \<le> unat (d - s)"
    using assms by (simp_all add: apart_def word_le_nat_alt)
  from fast_memcpy_align_copy [OF a] have c1: "copy_fwd m1 d1 s1 n1 = copy_fwd m d s (unat n)"
    and l1: "n1 \<le> unat n" and e1: "s1 - d1 = s - d" by auto
  from e1 have e1': "d1 - s1 = d - s" by (metis minus_diff_eq)
  from fast_memcpy_quads_copy [OF q] l1 e1 e1' ov
  have c2: "copy_fwd m2 d2 s2 n2 = copy_fwd m1 d1 s1 n1"
    and l2: "n2 \<le> unat (s2 - d2)" "n2 \<le> unat (d2 - s2)" by auto
  from fast_memcpy_words_copy [OF w l2] have "copy_fwd m3 d3 s3 n3 = copy_fwd m2 d2 s2 n2" .
  with c1 c2 show ?thesis
    by (simp add: fast_memcpy_def a q w fast_memcpy_tail_copy memcpy_copy_fwd)
qed

lemma memset_inside:
  assumes "unat (a - d) + k \<le> unat n" "unat i < k"
  shows "memset m d v n (a + i) = v"
proof -
  have "unat (a - d + i) = unat (a - d) + unat i"
    using assms unat_less_2p32 [of n] by (intro unat_add_noov) simp
  then have "a + i - d < n"
    using assms by (simp add: word_less_nat_alt algebra_simps)
  then show ?thesis by (simp add: memset_apply)
qed

lemma memset_read32_zero:
  assumes "unat (a - d) + 4 \<le> unat n"
  shows "read32 (memset m d 0 n) a = 0"
  using memset_inside [OF assms, of _ m 0] memset_inside [OF assms, of 0 m 0]
  by (simp add: read32_def)

lemma memset_read32_other:
  assumes "apart a 4 d n"
  shows "read32 (memset m d v n) a = read32 m a"
proof (rule read32_cong)
  fix i :: u32
  assume i: "i < 4"
  have "\<not> a + i - d < n"
    using apart_neq [OF assms i, of "a + i - d"] by auto
  then show "memset m d v n (a + i) = m (a + i)" by (simp add: memset_apply)
qed

section \<open>Arrays of 32-bit entries\<close>

definition elem32 :: "u32 \<Rightarrow> u32 \<Rightarrow> u32" where
  "elem32 p i = p + 4 * i"

lemma unat_mult4: "x < (0x40000000 :: u32) \<Longrightarrow> unat (4 * x) = 4 * unat x"
  using unat_mult_lem [of "4 :: u32" x] by (simp add: word_less_nat_alt)

lemma apart_nat:
  assumes "unat a + unat n \<le> unat b" "unat b + unat k \<le> 4294967296" "n \<noteq> 0"
  shows "apart a n b k"
proof -
  have "unat a < unat b" using assms by (simp add: unat_gt_0 [symmetric])
  then show ?thesis
    using assms by (auto simp: apart_def word_le_nat_alt unat_sub_if_size word_size)
qed

lemma apart_add_left [simp]: "apart (p + x) n (p + y) k = apart x n y k"
  by (simp add: apart_def)

lemma apart_elem32:
  assumes "x \<noteq> y" "x < 0x40000000" "y < 0x40000000"
  shows "apart (elem32 p x) 4 (elem32 p y) 4"
proof -
  have "unat x \<noteq> unat y" using assms(1) by (simp add: word_unat_eq_iff)
  then consider "unat x < unat y" | "unat y < unat x" by linarith
  then show ?thesis
  proof cases
    case 1
    then have "apart (4 * x) 4 (4 * y) 4"
      using assms by (intro apart_nat) (simp_all add: unat_mult4 word_less_nat_alt)
    then show ?thesis by (simp add: elem32_def)
  next
    case 2
    then have "apart (4 * y) 4 (4 * x) 4"
      using assms by (intro apart_nat) (simp_all add: unat_mult4 word_less_nat_alt)
    then show ?thesis by (simp add: elem32_def apart_sym)
  qed
qed

lemma read32_elem_write32:
  assumes "x < 0x40000000" "y < 0x40000000"
  shows "read32 (write32 m (elem32 p y) v) (elem32 p x) = (if x = y then v else read32 m (elem32 p x))"
  using assms by (simp add: apart_elem32)

text \<open>The first \<open>n\<close> entries of the array at \<open>p\<close>.\<close>

definition mem_list :: "mem \<Rightarrow> u32 \<Rightarrow> nat \<Rightarrow> u32 list" where
  "mem_list m p n = map (\<lambda>i. read32 m (elem32 p (of_nat i))) [0..<n]"

lemma length_mem_list [simp]: "length (mem_list m p n) = n"
  by (simp add: mem_list_def)

lemma nth_mem_list [simp]: "i < n \<Longrightarrow> mem_list m p n ! i = read32 m (elem32 p (of_nat i))"
  by (simp add: mem_list_def)

lemma mem_list_0 [simp]: "mem_list m p 0 = []"
  by (simp add: mem_list_def)

lemma mem_list_Suc: "mem_list m p (Suc n) = mem_list m p n @ [read32 m (elem32 p (of_nat n))]"
  by (simp add: mem_list_def)

lemma mem_list_cong:
  "(\<And>i. i < n \<Longrightarrow> read32 m (elem32 p (of_nat i)) = read32 m' (elem32 p (of_nat i))) \<Longrightarrow>
   mem_list m p n = mem_list m' p n"
  by (simp add: mem_list_def)

text \<open>A store that misses the array leaves it alone; one inside it updates one entry.\<close>

lemma unat_elem_offset: "n \<le> 1073741824 \<Longrightarrow> i < n \<Longrightarrow> unat (4 * of_nat i :: u32) = 4 * i"
  by (subst unat_mult4) (simp_all add: word_less_nat_alt unat_of_nat_u32)

lemma apart_elem32_outside:
  assumes "apart p (4 * of_nat n) b k" "i < n" "n \<le> 536870912"
  shows "apart (elem32 p (of_nat i)) 4 b k"
proof -
  have i: "unat (4 * of_nat i :: u32) = 4 * i" and n: "unat (4 * of_nat n :: u32) = 4 * n"
    using assms unat_elem_offset [of "Suc n"] unat_elem_offset [of n i] by simp_all
  have d: "unat (b - p) \<ge> 4 * n" "unat (p - b) \<ge> unat k"
    using assms(1) n by (simp_all add: apart_def word_le_nat_alt)
  have "unat (b - p - 4 * of_nat i) = unat (b - p) - 4 * i"
    using d(1) i assms(2) by (subst unat_sub) (simp_all add: word_le_nat_alt)
  then have 1: "unat (b - elem32 p (of_nat i)) = unat (b - p) - 4 * i"
    by (simp add: elem32_def diff_diff_eq)
  show ?thesis
  proof (cases "b - p = 0")
    case True
    with d(1) assms(2) show ?thesis by simp
  next
    case False
    then have "unat (p - b) = 4294967296 - unat (b - p)"
      using unat_uminus_u32 [of "b - p"] by simp
    then have "unat (p - b) + 4 * i < 4294967296"
      using d(1) assms(2) False unat_less_2p32 [of "b - p"] by (simp add: unat_gt_0 [symmetric])
    then have "unat (p - b + 4 * of_nat i) = unat (p - b) + 4 * i"
      using i by (simp add: unat_add_noov)
    then have "unat (elem32 p (of_nat i) - b) = unat (p - b) + 4 * i"
      by (simp add: elem32_def algebra_simps)
    with 1 d assms(2) show ?thesis by (simp add: apart_def word_le_nat_alt)
  qed
qed

lemma mem_list_write32_other:
  "apart p (4 * of_nat n) b 4 \<Longrightarrow> n \<le> 536870912 \<Longrightarrow> mem_list (write32 m b v) p n = mem_list m p n"
  by (intro mem_list_cong) (simp add: apart_elem32_outside)

section \<open>Regions\<close>

definition region :: "u32 \<Rightarrow> u32 \<Rightarrow> u32 set" where
  "region a n = {x. x - a < n}"

lemma region_self: "n \<noteq> 0 \<Longrightarrow> a \<in> region a n"
  by (simp add: region_def word_neq_0_conv)

lemma apart_region:
  assumes "n \<noteq> 0" "k \<noteq> 0"
  shows "apart a n b k \<longleftrightarrow> region a n \<inter> region b k = {}"
proof
  assume ap: "apart a n b k"
  have False if "x - a < n" "x - b < k" for x
    using apart_neq [OF ap that] by simp
  then show "region a n \<inter> region b k = {}" by (auto simp: region_def)
next
  assume *: "region a n \<inter> region b k = {}"
  have "b \<notin> region a n" "a \<notin> region b k"
    using * region_self [OF assms(1)] region_self [OF assms(2)] by blast+
  then have "\<not> b - a < n" "\<not> a - b < k" by (simp_all add: region_def)
  then show "apart a n b k" by (simp add: apart_def not_less)
qed

lemma region_sub:
  assumes "unat i + unat n' \<le> unat n"
  shows "region (a + i) n' \<subseteq> region a n"
proof
  fix x assume "x \<in> region (a + i) n'"
  then have x: "unat (x - (a + i)) < unat n'" by (simp add: region_def word_less_nat_alt)
  then have "unat (x - (a + i) + i) = unat (x - (a + i)) + unat i"
    using assms unat_less_2p32 [of n] by (intro unat_add_noov) linarith
  then have "unat (x - a) = unat (x - (a + i)) + unat i" by simp
  with x assms show "x \<in> region a n" by (simp add: region_def word_less_nat_alt)
qed

lemma elem32_region:
  assumes "i < n" "n \<le> 0x10000000"
  shows "region (elem32 p i) 4 \<subseteq> region p (4 * n)"
  unfolding elem32_def
  using assms by (intro region_sub) (simp add: unat_mult4 word_less_nat_alt word_le_nat_alt)

lemma read32_region:
  "(\<And>x. x \<in> region a 4 \<Longrightarrow> m x = m' x) \<Longrightarrow> read32 m a = read32 m' a"
  by (rule read32_cong) (simp add: region_def)

lemma write32_outside: "x \<notin> region a 4 \<Longrightarrow> write32 m a v x = m x"
  by (simp add: region_def)

lemma memset_outside: "x \<notin> region d n \<Longrightarrow> memset m d v n x = m x"
  by (simp add: region_def memset_apply)

lemma read32_write32_region:
  "region a 4 \<inter> region b 4 = {} \<Longrightarrow> read32 (write32 m b v) a = read32 m a"
  using apart_region [of 4 4 a b] by simp

section \<open>Regions as intervals\<close>

lemma region_interval:
  assumes "unat h + unat n \<le> 4294967296"
  shows "x \<in> region h n \<longleftrightarrow> unat h \<le> unat x \<and> unat x < unat h + unat n"
proof (cases "unat h \<le> unat x")
  case True
  then have "unat (x - h) = unat x - unat h" by (simp add: unat_sub word_le_nat_alt)
  with True show ?thesis by (auto simp: region_def word_less_nat_alt)
next
  case False
  then have "unat (x - h) = 4294967296 + unat x - unat h"
    by (simp add: unat_sub_if_size word_size)
  with False assms show ?thesis by (simp add: region_def word_less_nat_alt)
qed

section \<open>Properties\<close>

text \<open>
  C16: \<open>fast_memcpy\<close> (byte-aligning head, unrolled word blocks, words, byte tail) has the same effect
  on memory as the byte loop \<open>memcpy\<close>, for every alignment and length, when the two ranges do not
  overlap.
\<close>

theorem fast_memcpy_is_memcpy:
  assumes "apart d n s n"
  shows "fast_memcpy m d s n = memcpy m d s n"
  using assms by (rule fast_memcpy_eq)

theorem fast_memcpy_is_memcpy_witness:
  "apart 0x1003 70 0x2001 70 \<and> fast_memcpy (\<lambda>a. ucast a) 0x1003 0x2001 70 = memcpy (\<lambda>a. ucast a) 0x1003 0x2001 70"
  using fast_memcpy_is_memcpy [of "0x1003" 70 "0x2001" "\<lambda>a. ucast a"] by (simp add: apart_def)

text \<open>
  C17: \<open>fast_memset\<close> (byte-aligning head, replicated words, byte tail) has the same effect on memory
  as \<open>memset\<close> with the value truncated to a byte, for every address, alignment and length.
\<close>

theorem fast_memset_is_memset: "fast_memset m d val n = memset m d (ucast val) n"
  by (rule fast_memset_eq)

end
