(* ===== verification/Bitmap.thy ===== *)
theory Bitmap
  imports Memory
begin

text \<open>
  The bitmap of include/bitmap.h and src/bitmap.c: a descriptor record over a region of 32-bit
  entries in memory.
\<close>

record bitmap =
  bm_array :: u32
  bit_count :: u32
  memory_size :: u32
  sizeof_type_t :: u32
  bits_per_entry :: u32

definition BITS_PER_BYTE :: u32 where "BITS_PER_BYTE = 8"

definition bitmap_init :: "bitmap \<Rightarrow> u32 \<Rightarrow> bitmap" where
  "bitmap_init b size_t = b\<lparr>bm_array := NULL, bit_count := 0, memory_size := 0,
     sizeof_type_t := size_t, bits_per_entry := size_t * BITS_PER_BYTE\<rparr>"

definition bitmap_set_bit_count :: "bitmap \<Rightarrow> u32 \<Rightarrow> bitmap" where
  "bitmap_set_bit_count b n =
     (let b = b\<lparr>bit_count := n\<rparr>; entry_count = n div bits_per_entry b
      in b\<lparr>memory_size := entry_count * sizeof_type_t b\<rparr>)"

definition bitmap_set_memory_size :: "bitmap \<Rightarrow> u32 \<Rightarrow> bitmap" where
  "bitmap_set_memory_size b n =
     (let b = b\<lparr>memory_size := n\<rparr>; entry_count = n div sizeof_type_t b
      in b\<lparr>bit_count := entry_count * bits_per_entry b\<rparr>)"

definition bitmap_place :: "bitmap \<Rightarrow> u32 \<Rightarrow> u32 \<Rightarrow> bitmap" where
  "bitmap_place b placement n = bitmap_set_memory_size (b\<lparr>bm_array := placement\<rparr>) n"

definition bitmap_index_from_bit :: "bitmap \<Rightarrow> u32 \<Rightarrow> u32" where
  "bitmap_index_from_bit b i = i div bits_per_entry b"

definition bitmap_offset_from_bit :: "bitmap \<Rightarrow> u32 \<Rightarrow> u32" where
  "bitmap_offset_from_bit b i = i mod bits_per_entry b"

definition bitmap_clear :: "mem \<Rightarrow> bitmap \<Rightarrow> mem" where
  "bitmap_clear m b = memset m (bm_array b) 0 (memory_size b)"

section \<open>Well-formed bitmaps of 32-bit entries\<close>

definition bitmap_ok :: "bitmap \<Rightarrow> bool" where
  "bitmap_ok b \<longleftrightarrow> sizeof_type_t b = 4 \<and> bits_per_entry b = 32 \<and> memory_size b < 0x20000000 \<and>
     memory_size b mod 4 = 0 \<and> bit_count b = memory_size b div 4 * 32 \<and>
     unat (bm_array b) + unat (memory_size b) \<le> 4294967296"

text \<open>The bit \<open>i\<close> of the array, as the sources read it.\<close>

definition bitmap_test :: "mem \<Rightarrow> bitmap \<Rightarrow> u32 \<Rightarrow> bool" where
  "bitmap_test m b i \<longleftrightarrow>
     drop_bit (unat (bitmap_offset_from_bit b i))
       (read32 m (elem32 (bm_array b) (bitmap_index_from_bit b i))) AND 1 \<noteq> 0"

lemma bitmap_place_ok:
  assumes "n < 0x20000000" "n mod 4 = 0" "unat a + unat n \<le> 4294967296"
  shows "bitmap_ok (bitmap_place (bitmap_init b 4) a n)"
  using assms
  by (simp add: bitmap_ok_def bitmap_place_def bitmap_init_def bitmap_set_memory_size_def
      BITS_PER_BYTE_def Let_def)

lemma unat_div32: "unat (i div 32 :: u32) = unat i div 32"
  and unat_mod32: "unat (i mod 32 :: u32) = unat i mod 32"
  by (simp_all add: unat_div unat_mod)

lemma bitmap_bits:
  assumes "bitmap_ok b"
  shows "unat (bit_count b) = 8 * unat (memory_size b)" "4 dvd unat (memory_size b)"
    "unat (memory_size b) < 536870912"
proof -
  have "unat (memory_size b mod 4) = 0" using assms by (simp add: bitmap_ok_def)
  then show d: "4 dvd unat (memory_size b)" by (simp add: unat_mod dvd_eq_mod_eq_0)
  show m: "unat (memory_size b) < 536870912"
    using assms by (simp add: bitmap_ok_def word_less_nat_alt)
  have "unat (memory_size b div 4 * 32) = unat (memory_size b) div 4 * 32"
    using iffD1 [OF unat_mult_lem, of "memory_size b div 4" 32] m by (simp add: unat_div)
  then show "unat (bit_count b) = 8 * unat (memory_size b)"
    using assms d by (auto simp: bitmap_ok_def elim: dvdE)
qed

lemma bitmap_index_bound:
  assumes "bitmap_ok b" "i < bit_count b"
  shows "bitmap_index_from_bit b i < 0x40000000"
    "4 * unat (bitmap_index_from_bit b i) + 4 \<le> unat (memory_size b)"
proof -
  have i: "bits_per_entry b = 32" "unat i < 8 * unat (memory_size b)"
    using assms bitmap_bits [OF assms(1)] by (auto simp: bitmap_ok_def word_less_nat_alt)
  show "4 * unat (bitmap_index_from_bit b i) + 4 \<le> unat (memory_size b)"
  proof -
    obtain q where q: "unat (memory_size b) = 4 * q" using bitmap_bits(2) [OF assms(1)] by (auto elim: dvdE)
    then have "unat i div 32 < q" using i by (simp add: div_less_iff_less_mult)
    then show ?thesis using i q by (simp add: bitmap_index_from_bit_def unat_div32)
  qed
  then show "bitmap_index_from_bit b i < 0x40000000"
    using bitmap_bits(3) [OF assms(1)] by (simp add: word_less_nat_alt)
qed

lemma bitmap_test_bit:
  assumes "bitmap_ok b"
  shows "bitmap_test m b i \<longleftrightarrow>
    bit (read32 m (elem32 (bm_array b) (i div 32))) (unat i mod 32)"
  using assms
  by (simp add: bitmap_test_def bitmap_ok_def bitmap_index_from_bit_def
      bitmap_offset_from_bit_def unat_mod32 bit_iff_odd_drop_bit and_one_eq odd_iff_mod_2_eq_one)

lemma bitmap_same_bit:
  "i div 32 = j div 32 \<Longrightarrow> unat i mod 32 = unat j mod 32 \<Longrightarrow> i = (j :: u32)"
  by (metis div_mult_mod_eq unat_div32 word_unat_eq_iff)

text \<open>Setting and clearing one bit, with the read-modify-write the sources use.\<close>

definition bitmap_set_bit :: "mem \<Rightarrow> bitmap \<Rightarrow> u32 \<Rightarrow> mem" where
  "bitmap_set_bit m b i =
     (let a = elem32 (bm_array b) (bitmap_index_from_bit b i)
      in write32 m a (read32 m a OR push_bit (unat (bitmap_offset_from_bit b i)) 1))"

definition bitmap_clear_bit :: "mem \<Rightarrow> bitmap \<Rightarrow> u32 \<Rightarrow> mem" where
  "bitmap_clear_bit m b i =
     (let a = elem32 (bm_array b) (bitmap_index_from_bit b i)
      in write32 m a (read32 m a AND NOT (push_bit (unat (bitmap_offset_from_bit b i)) 1)))"

lemma bitmap_write_test:
  assumes "bitmap_ok b" "i < bit_count b" "j < bit_count b"
  shows "bitmap_test (write32 m (elem32 (bm_array b) (i div 32)) v) b j \<longleftrightarrow>
    (if i div 32 = j div 32 then bit v (unat j mod 32) else bitmap_test m b j)"
  using assms bitmap_index_bound(1) [OF assms(1,2)] bitmap_index_bound(1) [OF assms(1,3)]
  by (auto simp: bitmap_test_bit read32_elem_write32 bitmap_index_from_bit_def bitmap_ok_def)

lemma bitmap_rmw_test:
  assumes "bitmap_ok b" "i < bit_count b" "j < bit_count b"
  shows "bitmap_test (bitmap_set_bit m b i) b j \<longleftrightarrow> i = j \<or> bitmap_test m b j"
    and "bitmap_test (bitmap_clear_bit m b i) b j \<longleftrightarrow> i \<noteq> j \<and> bitmap_test m b j"
proof -
  let ?r = "read32 m (elem32 (bm_array b) (i div 32))"
  have b: "bits_per_entry b = 32" using assms(1) by (simp add: bitmap_ok_def)
  have t: "bitmap_test m b j \<longleftrightarrow> bit ?r (unat j mod 32)" if "i div 32 = j div 32"
    using that assms(1) by (simp add: bitmap_test_bit)
  have eq: "i = j \<longleftrightarrow> i div 32 = j div 32 \<and> unat i mod 32 = unat j mod 32"
    using bitmap_same_bit [of i j] by auto
  have "bitmap_set_bit m b i =
      write32 m (elem32 (bm_array b) (i div 32)) (?r OR push_bit (unat i mod 32) 1)"
    and "bitmap_clear_bit m b i =
      write32 m (elem32 (bm_array b) (i div 32)) (?r AND NOT (push_bit (unat i mod 32) 1))"
    by (simp_all add: bitmap_set_bit_def bitmap_clear_bit_def Let_def bitmap_index_from_bit_def
        bitmap_offset_from_bit_def b unat_mod32)
  then show "bitmap_test (bitmap_set_bit m b i) b j \<longleftrightarrow> i = j \<or> bitmap_test m b j"
    and "bitmap_test (bitmap_clear_bit m b i) b j \<longleftrightarrow> i \<noteq> j \<and> bitmap_test m b j"
    by (auto simp only: bitmap_write_test [OF assms] t eq bit_simps split: if_splits)
       (auto simp: bit_simps)
qed

lemmas bitmap_test_set = bitmap_rmw_test(1) and bitmap_test_clear = bitmap_rmw_test(2)

lemma bitmap_test_memset:
  assumes "bitmap_ok b" "i < bit_count b"
  shows "\<not> bitmap_test (bitmap_clear m b) b i"
proof -
  let ?k = "bitmap_index_from_bit b i"
  have "unat (4 * ?k) + 4 \<le> unat (memory_size b)"
    using bitmap_index_bound [OF assms] by (simp add: unat_mult4)
  then have "read32 (bitmap_clear m b) (elem32 (bm_array b) ?k) = 0"
    by (simp add: bitmap_clear_def elem32_def memset_read32_zero)
  then show ?thesis by (simp add: bitmap_test_def)
qed

text \<open>Both writes stay inside the bitmap's own memory.\<close>

lemma bitmap_write_frame:
  assumes "bitmap_ok b" "i < bit_count b" "\<not> x - bm_array b < memory_size b"
  shows "write32 m (elem32 (bm_array b) (bitmap_index_from_bit b i)) v x = m x"
proof -
  let ?k = "4 * bitmap_index_from_bit b i"
  have "unat ?k + 4 \<le> unat (memory_size b)"
    using bitmap_index_bound [OF assms(1,2)] by (simp add: unat_mult4)
  then have "\<not> x - (bm_array b + ?k) < 4"
    using assms(3) by (simp add: diff_diff_eq [symmetric]) unat_arith
  then show ?thesis by (simp add: elem32_def)
qed

lemma bitmap_set_bit_frame:
  "bitmap_ok b \<Longrightarrow> i < bit_count b \<Longrightarrow> \<not> x - bm_array b < memory_size b \<Longrightarrow>
   bitmap_set_bit m b i x = m x"
  by (simp add: bitmap_set_bit_def Let_def bitmap_write_frame)

lemma bitmap_clear_bit_frame:
  "bitmap_ok b \<Longrightarrow> i < bit_count b \<Longrightarrow> \<not> x - bm_array b < memory_size b \<Longrightarrow>
   bitmap_clear_bit m b i x = m x"
  by (simp add: bitmap_clear_bit_def Let_def bitmap_write_frame)

section \<open>Properties\<close>

text \<open>
  On a well-formed bitmap, setting a bit makes exactly that bit test true, clearing it makes
  exactly that bit test false, every other bit keeps its value, and no byte outside the bitmap's
  memory changes.
\<close>

theorem bitmap_bits_independent:
  assumes "bitmap_ok b" "i < bit_count b" "j < bit_count b" "\<not> x - bm_array b < memory_size b"
  shows "(bitmap_test (bitmap_set_bit m b i) b j \<longleftrightarrow> i = j \<or> bitmap_test m b j) \<and>
    (bitmap_test (bitmap_clear_bit m b i) b j \<longleftrightarrow> i \<noteq> j \<and> bitmap_test m b j) \<and>
    bitmap_set_bit m b i x = m x \<and> bitmap_clear_bit m b i x = m x"
  using assms by (simp add: bitmap_test_set bitmap_test_clear bitmap_set_bit_frame bitmap_clear_bit_frame)

definition empty_bitmap :: bitmap where
  "empty_bitmap = \<lparr>bm_array = 0, bit_count = 0, memory_size = 0, sizeof_type_t = 0, bits_per_entry = 0\<rparr>"

theorem bitmap_bits_independent_witness:
  "let b = bitmap_place (bitmap_init empty_bitmap 4) 0x1000 8; m = (\<lambda>_. 0) in
   bitmap_test (bitmap_set_bit m b 37) b 37 \<and> \<not> bitmap_test (bitmap_set_bit m b 37) b 36"
  using bitmap_bits_independent [of "bitmap_place (bitmap_init empty_bitmap 4) 0x1000 8" 37 37 "0x1008" "\<lambda>_. 0"]
    bitmap_bits_independent [of "bitmap_place (bitmap_init empty_bitmap 4) 0x1000 8" 37 36 "0x1008" "\<lambda>_. 0"]
  by (simp add: bitmap_ok_def empty_bitmap_def bitmap_place_def bitmap_init_def bitmap_set_memory_size_def
      BITS_PER_BYTE_def Let_def bitmap_test_def read32_def)

end
