(* ===== verification/Physical_Memory.thy ===== *)
theory Physical_Memory
  imports Bitmap
begin

text \<open>
  The physical memory manager (physical-memory-manager.c): one bit per 4 KiB frame, first-fit
  allocation. The interface the paging code relies on is the locale of frame allocators, which
  the manager's model interprets.
\<close>

definition PAGE_SIZE :: u32 where "PAGE_SIZE = 0x1000"

text \<open>
  \<open>failure\<close> is the optional handler the paging code calls when no frame is left; it lives outside
  the sources (the kernel installs none), so it is a function on memory.
\<close>

record physical_memory_manager =
  pm_bitmap :: bitmap
  pm_initialized :: bool
  block_used :: u32
  failed :: bool
  failure :: "(mem \<Rightarrow> mem) option"

definition physical_memory_manager_get_first_free_block ::
  "mem \<Rightarrow> physical_memory_manager \<Rightarrow> u32 option" where
  "physical_memory_manager_get_first_free_block m p =
     (if \<not> pm_initialized p then None
      else map_option of_nat
        (find (\<lambda>i. \<not> bitmap_test m (pm_bitmap p) (of_nat i)) [0..<unat (bit_count (pm_bitmap p))]))"

definition physical_memory_manager_allocate_block ::
  "mem \<times> physical_memory_manager \<Rightarrow> u32 \<times> mem \<times> physical_memory_manager" where
  "physical_memory_manager_allocate_block s =
     (let (m, p) = s in
      if \<not> pm_initialized p then (-1, m, p)
      else case physical_memory_manager_get_first_free_block m p of
        Some free_block \<Rightarrow>
          (free_block, bitmap_set_bit m (pm_bitmap p) free_block, p\<lparr>block_used := block_used p + 1\<rparr>)
      | None \<Rightarrow> (-1, m, p))"

definition physical_memory_manager_free_block ::
  "u32 \<Rightarrow> mem \<times> physical_memory_manager \<Rightarrow> mem \<times> physical_memory_manager" where
  "physical_memory_manager_free_block block s =
     (let (m, p) = s in
      if \<not> pm_initialized p then (m, p)
      else (bitmap_clear_bit m (pm_bitmap p) block, p\<lparr>block_used := block_used p - 1\<rparr>))"

definition physical_memory_manager_is_valid_block :: "physical_memory_manager \<Rightarrow> u32 \<Rightarrow> bool" where
  "physical_memory_manager_is_valid_block p block \<longleftrightarrow>
     bitmap_index_from_bit (pm_bitmap p) block < memory_size (pm_bitmap p) div sizeof_type_t (pm_bitmap p)"

section \<open>The frames in use\<close>

definition pmm_blocks :: "mem \<times> physical_memory_manager \<Rightarrow> u32 set" where
  "pmm_blocks s = {b. b < bit_count (pm_bitmap (snd s))}"

definition pmm_used :: "mem \<times> physical_memory_manager \<Rightarrow> u32 set" where
  "pmm_used s = {b \<in> pmm_blocks s. bitmap_test (fst s) (pm_bitmap (snd s)) b}"

definition pmm_inv :: "mem \<times> physical_memory_manager \<Rightarrow> bool" where
  "pmm_inv s \<longleftrightarrow> pm_initialized (snd s) \<and> bitmap_ok (pm_bitmap (snd s)) \<and>
     unat (block_used (snd s)) = card (pmm_used s)"

lemma bit_count_less_max: "bitmap_ok b \<Longrightarrow> \<not> - 1 < bit_count b"
  using bitmap_bits [of b] by (simp add: word_less_nat_alt unat_max_u32)

lemma is_valid_block_iff:
  assumes "bitmap_ok (pm_bitmap p)"
  shows "physical_memory_manager_is_valid_block p b \<longleftrightarrow> b < bit_count (pm_bitmap p)"
proof -
  let ?b = "pm_bitmap p"
  have e: "sizeof_type_t ?b = 4" "bits_per_entry ?b = 32" using assms by (simp_all add: bitmap_ok_def)
  have "unat b div 32 < unat (memory_size ?b) div 4 \<longleftrightarrow> unat b < 8 * unat (memory_size ?b)"
    using bitmap_bits(2) [OF assms] by (auto simp: div_less_iff_less_mult elim: dvdE)
  then show ?thesis
    by (simp only: physical_memory_manager_is_valid_block_def bitmap_index_from_bit_def e
        word_less_nat_alt unat_div bitmap_bits(1) [OF assms] unat_numeral) simp
qed

lemma first_free_Some:
  assumes "physical_memory_manager_get_first_free_block m p = Some b"
  shows "b < bit_count (pm_bitmap p) \<and> \<not> bitmap_test m (pm_bitmap p) b \<and>
    (\<forall>i < b. bitmap_test m (pm_bitmap p) i)"
proof -
  let ?b = "pm_bitmap p"
  from assms obtain n where n: "b = of_nat n" "n < unat (bit_count ?b)" "\<not> bitmap_test m ?b (of_nat n)"
    "\<forall>j < n. bitmap_test m ?b (of_nat j)"
    by (auto simp: physical_memory_manager_get_first_free_block_def find_upt_Some_iff split: if_splits)
  have un: "unat b = n" using n(1,2) unat_less_2p32 [of "bit_count ?b"] by (simp add: unat_of_nat_u32)
  have "bitmap_test m ?b i" if "i < b" for i
    using n(4) that un by (metis of_nat_unat ucast_id word_less_nat_alt)
  with n un show ?thesis by (simp add: word_less_nat_alt)
qed

lemma first_free_None:
  assumes "pm_initialized p"
  shows "physical_memory_manager_get_first_free_block m p = None \<longleftrightarrow>
    (\<forall>i < bit_count (pm_bitmap p). bitmap_test m (pm_bitmap p) i)"
  using assms all_less_of_nat_u32 [where P = "bitmap_test m (pm_bitmap p)"]
  by (simp add: physical_memory_manager_get_first_free_block_def find_upt_None_iff)

lemma finite_pmm_used [simp]: "finite (pmm_used s)"
  by (rule finite_subset [of _ UNIV]) auto

lemma allocate_block_found:
  assumes "pm_initialized p" "bitmap_ok (pm_bitmap p)"
    "physical_memory_manager_get_first_free_block m p = Some b"
  shows "physical_memory_manager_allocate_block (m, p) =
      (b, bitmap_set_bit m (pm_bitmap p) b, p\<lparr>block_used := block_used p + 1\<rparr>)"
    and "b \<in> pmm_blocks (m, p) - pmm_used (m, p)"
    and "pmm_used (bitmap_set_bit m (pm_bitmap p) b, p\<lparr>block_used := c\<rparr>) = insert b (pmm_used (m, p))"
  using assms first_free_Some [OF assms(3)]
  by (auto simp: physical_memory_manager_allocate_block_def pmm_blocks_def pmm_used_def bitmap_test_set)

lemma allocate_block_full:
  "pm_initialized p \<Longrightarrow> physical_memory_manager_get_first_free_block m p = None \<Longrightarrow>
   physical_memory_manager_allocate_block (m, p) = (-1, m, p)"
  by (simp add: physical_memory_manager_allocate_block_def)

lemma card_pmm_used: "card (pmm_used s) \<le> unat (bit_count (pm_bitmap (snd s)))"
proof -
  have "pmm_used s \<subseteq> (of_nat :: nat \<Rightarrow> u32) ` {..<unat (bit_count (pm_bitmap (snd s)))}"
    by (auto simp: pmm_used_def pmm_blocks_def word_less_nat_alt intro!: image_eqI [of _ _ "unat _"])
  then show ?thesis by (metis card_image_le card_lessThan card_mono finite_imageI finite_lessThan le_trans)
qed

lemma card_pmm_blocks: "card (pmm_blocks s) = unat (bit_count (pm_bitmap (snd s)))"
proof -
  let ?n = "unat (bit_count (pm_bitmap (snd s)))"
  have "pmm_blocks s = (of_nat :: nat \<Rightarrow> u32) ` {..<?n}"
    by (auto simp: pmm_blocks_def word_less_nat_alt unat_of_nat_u32 less_trans [OF _ unat_less_2p32]
        intro!: image_eqI [of _ _ "unat _"])
  moreover have "inj_on (of_nat :: nat \<Rightarrow> u32) {..<?n}"
    by (rule inj_on_inverseI [where g = unat]) (simp add: unat_of_nat_u32 less_trans [OF _ unat_less_2p32])
  ultimately show ?thesis by (simp add: card_image)
qed

section \<open>The allocator interface\<close>

locale frame_allocator =
  fixes alloc :: "'s \<Rightarrow> 'b \<times> 's"
    and release :: "'b \<Rightarrow> 's \<Rightarrow> 's"
    and used :: "'s \<Rightarrow> 'b set"
    and blocks :: "'s \<Rightarrow> 'b set"
    and inv :: "'s \<Rightarrow> bool"
  assumes used_blocks: "inv s \<Longrightarrow> used s \<subseteq> blocks s"
    and alloc_free_block: "inv s \<Longrightarrow> used s \<noteq> blocks s \<Longrightarrow> alloc s = (b, s') \<Longrightarrow>
      b \<in> blocks s - used s \<and> used s' = insert b (used s) \<and> blocks s' = blocks s \<and> inv s'"
    and alloc_exhausted: "inv s \<Longrightarrow> used s = blocks s \<Longrightarrow> alloc s = (b, s') \<Longrightarrow> b \<notin> blocks s \<and> s' = s"
    and release_block: "inv s \<Longrightarrow> b \<in> used s \<Longrightarrow>
      used (release b s) = used s - {b} \<and> blocks (release b s) = blocks s \<and> inv (release b s)"
begin

lemma alloc_release:
  assumes "inv s" "alloc s = (b, s')" "b \<in> blocks s"
  shows "used (release b s') = used s \<and> inv (release b s')"
proof -
  have "used s \<noteq> blocks s" using assms alloc_exhausted by blast
  with assms have "b \<notin> used s" "used s' = insert b (used s)" "inv s'"
    using alloc_free_block by blast+
  then show ?thesis using release_block [of s' b] by auto
qed

text \<open>Allocations in a row, each of which succeeds, hand out different blocks.\<close>

fun alloc_many :: "nat \<Rightarrow> 's \<Rightarrow> 'b list \<times> 's" where
  "alloc_many 0 s = ([], s)"
| "alloc_many (Suc n) s =
     (let (b, s1) = alloc s; (bs, s2) = alloc_many n s1 in (b # bs, s2))"

lemma alloc_many_distinct:
  "inv s \<Longrightarrow> alloc_many n s = (bs, s') \<Longrightarrow> set bs \<subseteq> blocks s \<Longrightarrow>
   distinct bs \<and> set bs \<inter> used s = {} \<and> used s' = used s \<union> set bs \<and> blocks s' = blocks s \<and> inv s'"
proof (induction n arbitrary: s bs s')
  case (Suc n)
  obtain b s1 where a: "alloc s = (b, s1)" by fastforce
  obtain cs s2 where r: "alloc_many n s1 = (cs, s2)" by fastforce
  from Suc.prems a r have bs: "bs = b # cs" "s' = s2" by auto
  then have "b \<in> blocks s" using Suc.prems by simp
  then have "used s \<noteq> blocks s" using alloc_exhausted [OF Suc.prems(1) _ a] by blast
  from alloc_free_block [OF Suc.prems(1) this a]
  have s1: "b \<notin> used s" "used s1 = insert b (used s)" "blocks s1 = blocks s" "inv s1" by auto
  with Suc.IH [OF s1(4) r] Suc.prems(3) bs show ?case by auto
qed simp

end

interpretation pmm: frame_allocator physical_memory_manager_allocate_block
  physical_memory_manager_free_block pmm_used pmm_blocks pmm_inv
proof unfold_locales
  fix s :: "mem \<times> physical_memory_manager" and b s'
  obtain m p where s: "s = (m, p)" by fastforce
  show "pmm_used s \<subseteq> pmm_blocks s" by (auto simp: pmm_used_def)
  assume inv: "pmm_inv s"
  then have i: "pm_initialized p" "bitmap_ok (pm_bitmap p)"
    "unat (block_used p) = card (pmm_used s)" by (auto simp: pmm_inv_def s)
  {
    assume al: "physical_memory_manager_allocate_block s = (b, s')" and ne: "pmm_used s \<noteq> pmm_blocks s"
    then have "physical_memory_manager_get_first_free_block m p \<noteq> None"
      using first_free_None [OF i(1), of m] by (auto simp: pmm_used_def pmm_blocks_def s)
    then obtain f where f: "physical_memory_manager_get_first_free_block m p = Some f" by auto
    note fb = allocate_block_found [OF i(1,2) f]
    have s': "b = f" "s' = (bitmap_set_bit m (pm_bitmap p) f, p\<lparr>block_used := block_used p + 1\<rparr>)"
      using al fb(1) by (auto simp: s)
    have u: "pmm_used s' = insert b (pmm_used s)" using fb(3) by (simp add: s' s)
    have "card (pmm_used s') = Suc (card (pmm_used s))" using u fb(2) by (simp add: s' s)
    moreover have "card (pmm_used s') < 4294967296"
      using card_pmm_used [of s'] unat_less_2p32 by (meson le_less_trans)
    ultimately have "unat (block_used p + 1) = card (pmm_used s')"
      using i(3) unat_add_noov [of "block_used p" 1] by simp
    then show "b \<in> pmm_blocks s - pmm_used s \<and> pmm_used s' = insert b (pmm_used s) \<and>
        pmm_blocks s' = pmm_blocks s \<and> pmm_inv s'"
      using fb(2) u i by (auto simp: s' s pmm_blocks_def pmm_inv_def)
  }
  {
    assume al: "physical_memory_manager_allocate_block s = (b, s')" and eq: "pmm_used s = pmm_blocks s"
    then have "physical_memory_manager_get_first_free_block m p = None"
      using first_free_None [OF i(1), of m] by (auto simp: pmm_used_def pmm_blocks_def s)
    with al i show "b \<notin> pmm_blocks s \<and> s' = s"
      using bit_count_less_max [OF i(2)] by (auto simp: s allocate_block_full pmm_blocks_def)
  }
  {
    assume b: "b \<in> pmm_used s"
    have lt: "b < bit_count (pm_bitmap p)" using b by (simp add: pmm_used_def pmm_blocks_def s)
    let ?s = "(bitmap_clear_bit m (pm_bitmap p) b, p\<lparr>block_used := block_used p - 1\<rparr>)"
    have s': "physical_memory_manager_free_block b s = ?s"
      using i by (simp add: physical_memory_manager_free_block_def s)
    have u: "pmm_used ?s = pmm_used s - {b}"
      using i(2) lt by (auto simp: s pmm_used_def pmm_blocks_def bitmap_test_clear)
    have "0 < card (pmm_used s)" using b by (metis card_gt_0_iff empty_iff finite_pmm_used)
    then have "unat (block_used p - 1) = card (pmm_used s) - 1"
      using i(3) by (metis unat_minus_one unat_0_iff less_numeral_extra(3))
    then have "pmm_inv ?s" using u b i by (simp add: pmm_inv_def)
    then show "pmm_used (physical_memory_manager_free_block b s) = pmm_used s - {b} \<and>
        pmm_blocks (physical_memory_manager_free_block b s) = pmm_blocks s \<and>
        pmm_inv (physical_memory_manager_free_block b s)"
      using u by (simp add: s' pmm_blocks_def) (simp add: s)
  }
qed

text \<open>Freeing a frame that is not in use leaves the bitmap alone but still counts down.\<close>

lemma free_unused_block:
  assumes "pmm_inv (m, p)" "b \<in> pmm_blocks (m, p) - pmm_used (m, p)"
  shows "pmm_used (physical_memory_manager_free_block b (m, p)) = pmm_used (m, p)"
    and "\<not> pmm_inv (physical_memory_manager_free_block b (m, p))"
proof -
  have i: "pm_initialized p" "bitmap_ok (pm_bitmap p)" "unat (block_used p) = card (pmm_used (m, p))"
    and lt: "b < bit_count (pm_bitmap p)"
    using assms by (auto simp: pmm_inv_def pmm_blocks_def)
  show u: "pmm_used (physical_memory_manager_free_block b (m, p)) = pmm_used (m, p)"
    using i lt assms(2)
    by (auto simp: physical_memory_manager_free_block_def pmm_used_def pmm_blocks_def bitmap_test_clear)
  have "block_used p - 1 \<noteq> block_used p" by simp
  then have "unat (block_used p - 1) \<noteq> unat (block_used p)" by (metis word_unat_eq_iff)
  then show "\<not> pmm_inv (physical_memory_manager_free_block b (m, p))"
    using i u by (auto simp: pmm_inv_def physical_memory_manager_free_block_def)
qed

lemma allocate_block_frame:
  assumes "pm_initialized p" "bitmap_ok (pm_bitmap p)"
    "physical_memory_manager_allocate_block (m, p) = (b, m', p')"
  shows "\<not> x - bm_array (pm_bitmap p) < memory_size (pm_bitmap p) \<Longrightarrow> m' x = m x"
    and "pm_bitmap p' = pm_bitmap p" "pm_initialized p'"
  using assms bitmap_set_bit_frame [OF assms(2)] first_free_Some
  by (auto simp: physical_memory_manager_allocate_block_def split: option.splits)

text \<open>The block handed out is the lowest free one.\<close>

lemma allocate_block_lowest:
  assumes "pmm_inv s" "pmm_used s \<noteq> pmm_blocks s"
    "physical_memory_manager_allocate_block s = (b, s')"
  shows "\<forall>i < b. i \<in> pmm_used s"
proof -
  obtain m p where s: "s = (m, p)" by fastforce
  have i: "pm_initialized p" "bitmap_ok (pm_bitmap p)" using assms(1) by (auto simp: pmm_inv_def s)
  obtain f where f: "physical_memory_manager_get_first_free_block m p = Some f"
    using first_free_None [OF i(1), of m] assms(2) by (fastforce simp: pmm_used_def pmm_blocks_def s)
  then have "b = f" using allocate_block_found(1) [OF i f] assms(3) by (simp add: s)
  then show ?thesis using first_free_Some [OF f] by (auto simp: pmm_used_def pmm_blocks_def s)
qed

section \<open>Properties\<close>

text \<open>
  In an initialised manager with a free frame, allocation returns the lowest free frame, marks
  exactly it as used, keeps the count of used blocks equal to the number of set bits, and touches
  no byte outside the bitmap.
\<close>

theorem physical_memory_first_fit:
  assumes "pmm_inv s" "pmm_used s \<noteq> pmm_blocks s"
    "physical_memory_manager_allocate_block s = (b, s')"
  shows "b \<in> pmm_blocks s - pmm_used s \<and> (\<forall>i < b. i \<in> pmm_used s) \<and>
    pmm_used s' = insert b (pmm_used s) \<and> pmm_inv s' \<and>
    (\<forall>x. \<not> x - bm_array (pm_bitmap (snd s)) < memory_size (pm_bitmap (snd s)) \<longrightarrow> fst s' x = fst s x)"
proof -
  obtain m p m' p' where s: "s = (m, p)" "s' = (m', p')" by (metis surj_pair)
  have i: "pm_initialized p" "bitmap_ok (pm_bitmap p)" using assms(1) by (auto simp: pmm_inv_def s)
  show ?thesis
    using pmm.alloc_free_block [OF assms] allocate_block_lowest [OF assms]
      allocate_block_frame(1) [OF i, of m b m' p'] assms(3)
    by (auto simp: s)
qed

definition witness_pmm :: "mem \<times> physical_memory_manager" where
  "witness_pmm = (\<lambda>_. 0, \<lparr>pm_bitmap = bitmap_place (bitmap_init \<lparr>bm_array = 0, bit_count = 0,
     memory_size = 0, sizeof_type_t = 0, bits_per_entry = 0\<rparr> 4) 0x1000 8, pm_initialized = True,
     block_used = 0, failed = False, failure = None\<rparr>)"

lemma witness_pmm:
  "pmm_inv witness_pmm" "pmm_blocks witness_pmm = {b. b < 64}" "pmm_used witness_pmm = {}"
  "pmm_used witness_pmm \<noteq> pmm_blocks witness_pmm"
proof -
  have b: "bitmap_place (bitmap_init \<lparr>bm_array = 0, bit_count = 0, memory_size = 0, sizeof_type_t = 0,
      bits_per_entry = 0\<rparr> 4) 0x1000 8 = \<lparr>bm_array = 0x1000, bit_count = 64, memory_size = 8,
      sizeof_type_t = 4, bits_per_entry = 32\<rparr>"
    by (simp add: bitmap_place_def bitmap_init_def bitmap_set_memory_size_def BITS_PER_BYTE_def Let_def)
  show bl: "pmm_blocks witness_pmm = {b. b < 64}" by (simp add: pmm_blocks_def witness_pmm_def b)
  show u: "pmm_used witness_pmm = {}"
    by (auto simp: pmm_used_def witness_pmm_def b bitmap_test_def read32_def)
  show "pmm_inv witness_pmm"
    by (simp add: pmm_inv_def u) (simp add: witness_pmm_def b bitmap_ok_def)
  have "0 \<in> pmm_blocks witness_pmm" by (simp add: bl)
  with u show "pmm_used witness_pmm \<noteq> pmm_blocks witness_pmm" by auto
qed

theorem physical_memory_first_fit_witness:
  "fst (physical_memory_manager_allocate_block witness_pmm) \<in> {b. b < 64} \<and>
   pmm_inv (snd (physical_memory_manager_allocate_block witness_pmm))"
  using physical_memory_first_fit [OF witness_pmm(1,4) prod.collapse [symmetric]]
  by (simp add: witness_pmm)

text \<open>
  C11: Any number of frames allocated in a row, as long as each request succeeds, are pairwise
  different and none was in use before; releasing the last one restores the set of used frames.
\<close>

theorem physical_memory_frames_distinct:
  assumes "pmm_inv s" "pmm.alloc_many n s = (bs, s1)" "set bs \<subseteq> pmm_blocks s"
    "physical_memory_manager_allocate_block s1 = (b, s2)" "b \<in> pmm_blocks s"
  shows "distinct (bs @ [b]) \<and> set (bs @ [b]) \<inter> pmm_used s = {} \<and>
    pmm_used s2 = pmm_used s \<union> set (bs @ [b]) \<and>
    pmm_used (physical_memory_manager_free_block b s2) = pmm_used s \<union> set bs \<and>
    pmm_inv (physical_memory_manager_free_block b s2)"
proof -
  note m = pmm.alloc_many_distinct [OF assms(1-3)]
  have s1: "pmm_inv s1" "b \<in> pmm_blocks s1" using m assms(5) by auto
  then have "pmm_used s1 \<noteq> pmm_blocks s1" using pmm.alloc_exhausted assms(4) by blast
  with m pmm.alloc_free_block [OF s1(1) this assms(4)]
    pmm.alloc_release [OF s1(1) assms(4) s1(2)] show ?thesis by auto
qed

theorem physical_memory_frames_distinct_witness:
  "let (b, s) = physical_memory_manager_allocate_block witness_pmm
   in pmm_used (physical_memory_manager_free_block b s) = {} \<and>
      pmm_inv (physical_memory_manager_free_block b s)"
proof -
  obtain b s where a: "physical_memory_manager_allocate_block witness_pmm = (b, s)" by (metis surj_pair)
  have "b \<in> pmm_blocks witness_pmm"
    using pmm.alloc_free_block [OF witness_pmm(1,4) a] by simp
  with physical_memory_frames_distinct [OF witness_pmm(1), of 0 "[]", OF _ _ a] show ?thesis
    by (simp add: a witness_pmm(3))
qed

end
