(* ===== verification/Ordered_Array.thy ===== *)
theory Ordered_Array
  imports Memory "HOL-Library.Multiset"
begin

text \<open>
  The ordered array of src/ordered-array.c: pointers kept in an array in memory, inserted by
  binary search. The comparison handle may read the memory the pointers lead to.
\<close>

record ordered_array =
  oa_array :: u32
  oa_size :: u32
  oa_max_size :: u32
  oa_is_less_than :: "(mem \<Rightarrow> u32 \<Rightarrow> u32 \<Rightarrow> bool) option"

definition ordered_array_init ::
  "ordered_array \<Rightarrow> u32 \<Rightarrow> (mem \<Rightarrow> u32 \<Rightarrow> u32 \<Rightarrow> bool) option \<Rightarrow> ordered_array" where
  "ordered_array_init oa max_size cmp =
     oa\<lparr>oa_array := NULL, oa_size := 0, oa_max_size := max_size, oa_is_less_than := cmp\<rparr>"

definition ordered_array_place :: "mem \<Rightarrow> ordered_array \<Rightarrow> u32 \<Rightarrow> mem \<times> ordered_array" where
  "ordered_array_place m oa address =
     (fold (\<lambda>i m. m(address + of_nat i := 0)) [0..<unat (oa_max_size oa * 4)] m,
      oa\<lparr>oa_array := address, oa_size := 0\<rparr>)"

definition ordered_array_get :: "mem \<Rightarrow> ordered_array \<Rightarrow> u32 \<Rightarrow> u32" where
  "ordered_array_get m oa i = read32 m (elem32 (oa_array oa) i)"

text \<open>The binary search of \<open>ordered_array_insert\<close>.\<close>

function oa_search :: "(u32 \<Rightarrow> bool) \<Rightarrow> u32 \<Rightarrow> u32 \<Rightarrow> u32" where
  "oa_search below left right =
     (if left < right then
        let mid = left + (right - left) div 2 in
        if below mid then oa_search below (mid + 1) right else oa_search below left mid
      else left)"
  by pat_completeness auto

lemma oa_mid:
  assumes "left < (right :: u32)"
  shows "unat (left + (right - left) div 2) = unat left + (unat right - unat left) div 2"
    "left \<le> left + (right - left) div 2" "left + (right - left) div 2 < right"
proof -
  have lr: "unat left < unat right" "unat (right - left) = unat right - unat left"
    using assms unat_sub [OF less_imp_le [OF assms]] by (simp_all add: word_less_nat_alt)
  then have d: "unat ((right - left) div 2) = (unat right - unat left) div 2"
    by (simp only: unat_div unat_numeral) simp
  have "unat left + (unat right - unat left) div 2 < unat right" using lr(1) by linarith
  then show u: "unat (left + (right - left) div 2) = unat left + (unat right - unat left) div 2"
    using unat_less_2p32 [of right] d by (subst unat_add_noov) simp_all
  show "left \<le> left + (right - left) div 2" "left + (right - left) div 2 < right"
    using lr by (auto simp: word_le_nat_alt word_less_nat_alt u)
qed

termination oa_search
proof (relation "measure (\<lambda>(below, left, right). unat right - unat left)")
  fix below :: "u32 \<Rightarrow> bool" and left right mid :: u32
  assume lr: "left < right" and mid: "mid = left + (right - left) div 2"
  then show "((below, left, mid), below, left, right) \<in> measure (\<lambda>(below, left, right). unat right - unat left)"
    using oa_mid [OF lr] by (simp add: word_less_nat_alt word_le_nat_alt)
  have "unat (mid + 1) = Suc (unat mid)" using oa_mid(3) [OF lr] mid unat_Suc_u32 by blast
  moreover have "unat left \<le> unat mid" "unat mid < unat right"
    using oa_mid(2,3) [OF lr] mid by (simp_all add: word_less_nat_alt word_le_nat_alt)
  ultimately show "((below, mid + 1, right), below, left, right) \<in> measure (\<lambda>(below, left, right). unat right - unat left)"
    by simp
qed simp

declare oa_search.simps [simp del]

function oa_shift_up :: "u32 \<Rightarrow> mem \<Rightarrow> u32 \<Rightarrow> u32 \<Rightarrow> mem" where
  "oa_shift_up arr m i left =
     (if left < i then
        oa_shift_up arr (write32 m (elem32 arr i) (read32 m (elem32 arr (i - 1)))) (i - 1) left
      else m)"
  by pat_completeness auto
termination
  by (relation "measure (\<lambda>(arr, m, i, left). unat i)") (auto intro!: measure_unat)

function oa_shift_down :: "u32 \<Rightarrow> mem \<Rightarrow> u32 \<Rightarrow> u32 \<Rightarrow> mem" where
  "oa_shift_down arr m i stop =
     (if i < stop then
        oa_shift_down arr (write32 m (elem32 arr i) (read32 m (elem32 arr (i + 1)))) (i + 1) stop
      else m)"
  by pat_completeness auto
termination
  by (relation "measure (\<lambda>(arr, m, i, stop). unat stop - unat i)")
     (auto simp: unat_Suc_u32 word_less_nat_alt [symmetric] diff_less_mono2)

declare oa_shift_up.simps [simp del] oa_shift_down.simps [simp del]

definition ordered_array_insert ::
  "mem \<Rightarrow> ordered_array \<Rightarrow> u32 \<Rightarrow> bool \<times> mem \<times> ordered_array" where
  "ordered_array_insert m oa item =
     (case oa_is_less_than oa of None \<Rightarrow> (False, m, oa)
      | Some is_less \<Rightarrow>
        if oa_max_size oa \<le> oa_size oa then (False, m, oa)
        else
          let left = oa_search (\<lambda>i. is_less m (ordered_array_get m oa i) item) 0 (oa_size oa);
              m = oa_shift_up (oa_array oa) m (oa_size oa) left;
              m = write32 m (elem32 (oa_array oa) left) item
          in (True, m, oa\<lparr>oa_size := oa_size oa + 1\<rparr>))"

definition ordered_array_remove :: "mem \<Rightarrow> ordered_array \<Rightarrow> u32 \<Rightarrow> mem \<times> ordered_array" where
  "ordered_array_remove m oa index =
     (if oa_size oa \<le> index then (m, oa)
      else (oa_shift_down (oa_array oa) m index (oa_size oa - 1), oa\<lparr>oa_size := oa_size oa - 1\<rparr>))"

definition ordered_array_clear :: "mem \<Rightarrow> ordered_array \<Rightarrow> mem \<times> ordered_array" where
  "ordered_array_clear m oa = (memset m (oa_array oa) 0 (oa_max_size oa), oa\<lparr>oa_size := 0\<rparr>)"

section \<open>The list an ordered array holds\<close>

definition oa_list :: "mem \<Rightarrow> ordered_array \<Rightarrow> u32 list" where
  "oa_list m oa = mem_list m (oa_array oa) (unat (oa_size oa))"

definition oa_ok :: "ordered_array \<Rightarrow> bool" where
  "oa_ok oa \<longleftrightarrow> oa_size oa \<le> oa_max_size oa \<and> oa_max_size oa \<le> 0x20000000 \<and>
     unat (oa_array oa) + 4 * unat (oa_max_size oa) \<le> 4294967296"

text \<open>
  Whatever the order of the entries, the search stops at a boundary: what stands just before the
  place is below the item, what stands at the place is not.
\<close>

lemma oa_search_boundary:
  "left \<le> right \<Longrightarrow> lo \<le> left \<Longrightarrow> right \<le> hi \<Longrightarrow>
   left = lo \<or> below (left - 1) \<Longrightarrow> right = hi \<or> \<not> below right \<Longrightarrow>
   k = oa_search below left right \<Longrightarrow>
   left \<le> k \<and> k \<le> right \<and> (k = lo \<or> below (k - 1)) \<and> (k = hi \<or> \<not> below k)"
proof (induction below left right rule: oa_search.induct)
  case (1 below left right)
  show ?case
  proof (cases "left < right")
    case True
    let ?mid = "left + (right - left) div 2"
    note mid = oa_mid [OF True]
    have s: "?mid + 1 \<le> right" "left \<le> ?mid + 1"
      using mid inc_le [of ?mid right] unat_Suc_u32 [of ?mid right]
      by (auto simp: word_le_nat_alt word_less_nat_alt)
    show ?thesis
    proof (cases "below ?mid")
      case b: True
      then have k: "k = oa_search below (?mid + 1) right"
        using "1.prems"(6) True by (subst (asm) oa_search.simps) (simp add: Let_def)
      show ?thesis
        using "1.IH"(1) [OF True refl b s(1) _ "1.prems"(3) _ "1.prems"(5) k] "1.prems"(2) s b
        by (auto intro: order_trans)
    next
      case b: False
      then have k: "k = oa_search below left ?mid"
        using "1.prems"(6) True by (subst (asm) oa_search.simps) (simp add: Let_def)
      show ?thesis
        using "1.IH"(2) [OF True refl b mid(2) "1.prems"(2) _ "1.prems"(4) _ k] "1.prems"(3) mid b
        by (auto intro: order_trans less_imp_le)
    qed
  next
    case False
    with "1.prems" have "k = left" "left = right" by (simp_all add: oa_search.simps)
    with "1.prems" show ?thesis by auto
  qed
qed

lemma oa_shift_up_read:
  "i < 0x40000000 \<Longrightarrow> j < 0x40000000 \<Longrightarrow>
   read32 (oa_shift_up arr m i left) (elem32 arr j) =
     read32 m (elem32 arr (if left < j \<and> j \<le> i then j - 1 else j))"
proof (induction arr m i left rule: oa_shift_up.induct)
  case (1 arr m i left)
  show ?case
  proof (cases "left < i")
    case True
    have i1: "i - 1 < 0x40000000" "i - 1 < i"
      using "1.prems" True by unat_arith+
    have "j \<le> i - 1 \<longleftrightarrow> j \<le> i \<and> j \<noteq> i" using True by unat_arith
    moreover have "j - 1 \<noteq> i" if "left < j" "j \<le> i" using that by unat_arith
    moreover have "j - 1 < 0x40000000" if "left < j" using that "1.prems" by unat_arith
    ultimately show ?thesis
      using 1 True i1 by (subst oa_shift_up.simps) (auto simp: read32_elem_write32)
  next
    case False
    then show ?thesis by (subst oa_shift_up.simps) auto
  qed
qed

lemma oa_shift_down_read:
  "stop < 0x40000000 \<Longrightarrow> j < 0x40000000 \<Longrightarrow>
   read32 (oa_shift_down arr m i stop) (elem32 arr j) =
     read32 m (elem32 arr (if i \<le> j \<and> j < stop then j + 1 else j))"
proof (induction arr m i stop rule: oa_shift_down.induct)
  case (1 arr m i stop)
  show ?case
  proof (cases "i < stop")
    case True
    have i: "i < 0x40000000" "i + 1 \<le> stop" "i < i + 1"
      using "1.prems" True inc_le [OF True] unat_Suc_u32 [OF True]
      by (auto simp: word_less_nat_alt)
    have j: "i + 1 \<le> j \<longleftrightarrow> i \<le> j \<and> i \<noteq> j"
      using i(3) unat_Suc_u32 [OF True]
      by (auto simp: word_le_nat_alt word_unat_eq_iff)
    have j1: "j + 1 \<le> stop" "j < j + 1" if "j < stop"
      using inc_le [OF that] unat_Suc_u32 [OF that] by (auto simp: word_less_nat_alt)
    have "j + 1 < 0x40000000" if "j < stop" using j1 [OF that] "1.prems"(1) by simp
    moreover have "j + 1 \<noteq> i" if "i \<le> j" "j < stop" using j1 [OF that(2)] that by auto
    ultimately show ?thesis
      using 1 True i j by (subst oa_shift_down.simps) (auto simp: read32_elem_write32)
  next
    case False
    then show ?thesis by (subst oa_shift_down.simps) auto
  qed
qed

lemma elem32_outside:
  assumes "i < 0x40000000" "4 * unat i + 4 \<le> unat (x - p)"
  shows "\<not> x - elem32 p i < 4"
proof -
  have "unat (x - p - 4 * i) = unat (x - p) - 4 * unat i"
    using assms by (subst unat_sub) (simp_all add: word_le_nat_alt unat_mult4)
  with assms show ?thesis
    by (simp add: elem32_def word_less_nat_alt diff_diff_eq)
qed

lemma oa_shift_up_frame:
  "i < 0x40000000 \<Longrightarrow> 4 * unat i + 4 \<le> unat (x - arr) \<Longrightarrow> oa_shift_up arr m i left x = m x"
proof (induction arr m i left rule: oa_shift_up.induct)
  case (1 arr m i left)
  show ?case
  proof (cases "left < i")
    case True
    then have "i - 1 < 0x40000000" "unat (i - 1) \<le> unat i"
      using "1.prems"(1) by unat_arith+
    with 1 True elem32_outside [OF "1.prems"] show ?thesis
      by (subst oa_shift_up.simps) simp
  next
    case False
    then show ?thesis by (subst oa_shift_up.simps) simp
  qed
qed

lemma oa_shift_down_frame:
  "stop < 0x40000000 \<Longrightarrow> 4 * unat stop + 4 \<le> unat (x - arr) \<Longrightarrow> oa_shift_down arr m i stop x = m x"
proof (induction arr m i stop rule: oa_shift_down.induct)
  case (1 arr m i stop)
  show ?case
  proof (cases "i < stop")
    case True
    then have "i < 0x40000000" "4 * unat i + 4 \<le> unat (x - arr)"
      using "1.prems" by (auto simp: word_less_nat_alt)
    with 1 True elem32_outside [of i x arr] show ?thesis
      by (subst oa_shift_down.simps) simp
  next
    case False
    then show ?thesis by (subst oa_shift_down.simps) simp
  qed
qed

section \<open>Insertion and removal on the list\<close>

lemma oa_ok_size:
  "oa_ok oa \<Longrightarrow> unat (oa_size oa) \<le> unat (oa_max_size oa)"
  "oa_ok oa \<Longrightarrow> unat (oa_max_size oa) \<le> 536870912"
  by (auto simp: oa_ok_def word_le_nat_alt)

lemma ordered_array_get_nth:
  "i < oa_size oa \<Longrightarrow> ordered_array_get m oa i = oa_list m oa ! unat i"
  by (simp add: ordered_array_get_def oa_list_def word_less_nat_alt)

lemma word_of_nat_less: "n < unat (k :: u32) \<Longrightarrow> of_nat n < k \<and> unat (of_nat n :: u32) = n"
  using unat_less_2p32 [of k] by (simp add: word_less_nat_alt unat_of_nat_u32)

lemma oa_list_insert:
  assumes ok: "oa_ok oa" and less: "oa_is_less_than oa = Some is_less"
    and room: "oa_size oa < oa_max_size oa"
    and ins: "ordered_array_insert m oa item = (r, m', oa')"
  shows "\<exists>k \<le> length (oa_list m oa).
      oa_list m' oa' = take k (oa_list m oa) @ item # drop k (oa_list m oa) \<and>
      (k = 0 \<or> is_less m (oa_list m oa ! (k - 1)) item) \<and>
      (k = length (oa_list m oa) \<or> \<not> is_less m (oa_list m oa ! k) item)"
    and "r" "oa' = oa\<lparr>oa_size := oa_size oa + 1\<rparr>"
    and "\<And>x. 4 * unat (oa_max_size oa) \<le> unat (x - oa_array oa) \<Longrightarrow> m' x = m x"
proof -
  let ?n = "oa_size oa" and ?xs = "oa_list m oa" and ?a = "oa_array oa"
  let ?below = "\<lambda>i. is_less m (ordered_array_get m oa i) item"
  define k where "k = oa_search ?below 0 ?n"
  let ?m1 = "oa_shift_up ?a m ?n k"
  have eq: "r" "m' = write32 ?m1 (elem32 ?a k) item" "oa' = oa\<lparr>oa_size := ?n + 1\<rparr>"
    using ins less room room [THEN not_le [THEN iffD2]] by (simp_all add: ordered_array_insert_def k_def Let_def)
  then show "r" "oa' = oa\<lparr>oa_size := oa_size oa + 1\<rparr>" by auto
  have n1: "unat (?n + 1) = Suc (unat ?n)" using room by (rule unat_Suc_u32)
  have bound: "unat ?n < 536870912" "?n < 0x40000000"
    using oa_ok_size [OF ok] room by (auto simp: word_less_nat_alt)
  have kb: "k \<le> ?n" "k = 0 \<or> ?below (k - 1)" "k = ?n \<or> \<not> ?below k"
    using oa_search_boundary [OF _ _ _ _ _ k_def, of 0 ?n] by auto
  then have kn: "unat k \<le> unat ?n" by (simp add: word_le_nat_alt)
  then have kn': "k < 0x40000000" using bound(1) by (simp add: word_less_nat_alt)
  have nth: "oa_list m' oa' ! j = (take (unat k) ?xs @ item # drop (unat k) ?xs) ! j"
    if j: "j < Suc (unat ?n)" for j
  proof -
    have uj: "unat (of_nat j :: u32) = j" and jb: "(of_nat j :: u32) < 0x40000000"
      using j bound by (simp_all add: unat_of_nat_u32 word_less_nat_alt)
    have j1: "of_nat j - 1 = (of_nat (j - 1) :: u32)" if "unat k < j"
      using that by (simp add: of_nat_diff)
    have "oa_list m' oa' ! j =
        (if of_nat j = k then item
         else read32 m (elem32 ?a (if k < of_nat j \<and> of_nat j \<le> ?n then of_nat j - 1 else of_nat j)))"
      using j jb kn' bound(2)
      by (simp add: oa_list_def eq n1 read32_elem_write32 oa_shift_up_read)
    also have "\<dots> = (if j = unat k then item else if unat k < j then ?xs ! (j - 1) else ?xs ! j)"
      using j uj j1 kn by (auto simp: word_less_nat_alt word_le_nat_alt oa_list_def)
    also have "\<dots> = (take (unat k) ?xs @ item # drop (unat k) ?xs) ! j"
      using j kn by (auto simp: nth_append nth_Cons' oa_list_def min_def)
    finally show ?thesis .
  qed
  have "oa_list m' oa' = take (unat k) ?xs @ item # drop (unat k) ?xs"
    by (rule nth_equalityI) (use nth kn in \<open>simp_all add: oa_list_def eq n1\<close>)
  moreover have "k - 1 < ?n" if "k \<noteq> 0" using that kb(1) by unat_arith
  then have "unat k = 0 \<or> is_less m (?xs ! (unat k - 1)) item"
    using kb(2) unat_minus_one [of k]
    by (cases "k = 0") (auto simp: ordered_array_get_nth)
  moreover have "unat k = length ?xs \<or> \<not> is_less m (?xs ! unat k) item"
    using kb(1,3) by (cases "k = ?n") (auto simp: ordered_array_get_nth oa_list_def)
  moreover have "unat k \<le> length ?xs" using kn by (simp add: oa_list_def)
  ultimately show "\<exists>k \<le> length ?xs. oa_list m' oa' = take k ?xs @ item # drop k ?xs \<and>
      (k = 0 \<or> is_less m (?xs ! (k - 1)) item) \<and> (k = length ?xs \<or> \<not> is_less m (?xs ! k) item)"
    by blast
  fix x assume "4 * unat (oa_max_size oa) \<le> unat (x - ?a)"
  then have x: "4 * unat ?n + 4 \<le> unat (x - ?a)"
    using room by (simp add: word_less_nat_alt)
  then have "4 * unat k + 4 \<le> unat (x - ?a)" using kn by simp
  with x show "m' x = m x"
    using elem32_outside [OF kn'] oa_shift_up_frame [OF bound(2)] by (simp add: eq(2))
qed

lemma oa_list_remove:
  assumes ok: "oa_ok oa" and i: "i < oa_size oa"
    and rem: "ordered_array_remove m oa i = (m', oa')"
  shows "oa_list m' oa' = take (unat i) (oa_list m oa) @ drop (Suc (unat i)) (oa_list m oa)"
    and "oa' = oa\<lparr>oa_size := oa_size oa - 1\<rparr>"
    and "\<And>x. 4 * unat (oa_max_size oa) \<le> unat (x - oa_array oa) \<Longrightarrow> m' x = m x"
proof -
  let ?n = "oa_size oa" and ?xs = "oa_list m oa" and ?a = "oa_array oa"
  have eq: "m' = oa_shift_down ?a m i (?n - 1)" "oa' = oa\<lparr>oa_size := ?n - 1\<rparr>"
    using rem i [THEN not_le [THEN iffD2]] by (simp_all add: ordered_array_remove_def)
  then show "oa' = oa\<lparr>oa_size := oa_size oa - 1\<rparr>" by simp
  have n0: "?n \<noteq> 0" using i by auto
  then have n1: "unat (?n - 1) = unat ?n - 1" "0 < unat ?n"
    by (simp_all add: unat_minus_one unat_gt_0)
  have bound: "unat ?n \<le> 536870912" "?n - 1 < 0x40000000"
    using oa_ok_size [OF ok] n1 by (auto simp: word_less_nat_alt)
  have ui: "unat i < unat ?n" using i by (simp add: word_less_nat_alt)
  show "oa_list m' oa' = take (unat i) ?xs @ drop (Suc (unat i)) ?xs"
  proof (rule nth_equalityI)
    show "length (oa_list m' oa') = length (take (unat i) ?xs @ drop (Suc (unat i)) ?xs)"
      using n1 ui by (simp add: oa_list_def eq)
    fix j assume "j < length (oa_list m' oa')"
    then have j: "j < unat ?n - 1" by (simp add: oa_list_def eq n1)
    then have uj: "unat (of_nat j :: u32) = j" and jb: "(of_nat j :: u32) < 0x40000000"
      using bound by (simp_all add: unat_of_nat_u32 word_less_nat_alt)
    have "oa_list m' oa' ! j = read32 m (elem32 ?a (if i \<le> of_nat j \<and> of_nat j < ?n - 1 then of_nat j + 1 else of_nat j))"
      using j jb bound(2) by (simp add: oa_list_def eq n1 oa_shift_down_read)
    also have "\<dots> = (if unat i \<le> j then ?xs ! Suc j else ?xs ! j)"
      using j uj n1 by (auto simp: word_less_nat_alt word_le_nat_alt oa_list_def add.commute)
    also have "\<dots> = (take (unat i) ?xs @ drop (Suc (unat i)) ?xs) ! j"
      using j ui by (auto simp: nth_append oa_list_def min_def)
    finally show "oa_list m' oa' ! j = (take (unat i) ?xs @ drop (Suc (unat i)) ?xs) ! j" .
  qed
  fix x assume "4 * unat (oa_max_size oa) \<le> unat (x - ?a)"
  then have "4 * unat (?n - 1) + 4 \<le> unat (x - ?a)"
    using oa_ok_size [OF ok] n1 by simp
  then show "m' x = m x" using oa_shift_down_frame [OF bound(2)] by (simp add: eq)
qed

text \<open>When the entries are in the order of their keys, insertion keeps them so.\<close>

lemma insert_sorted_pos:
  fixes key :: "'a \<Rightarrow> 'b::linorder"
  assumes s: "sorted (map key xs)" and "k \<le> length xs"
    and "k = 0 \<or> key (xs ! (k - 1)) < key x" and "k = length xs \<or> \<not> key (xs ! k) < key x"
  shows "sorted (map key (take k xs @ x # drop k xs))"
proof -
  have "key y \<le> key x" if "y \<in> set (take k xs)" for y
  proof -
    from that obtain j where j: "j < k" "y = xs ! j" "j < length xs"
      by (auto simp: in_set_conv_nth)
    have "key (xs ! j) \<le> key (xs ! (k - 1))"
      using sorted_nth_mono [OF s, of j "k - 1"] j assms(2) by auto
    with j assms(3) show ?thesis by auto
  qed
  moreover have "key x \<le> key y" if "y \<in> set (drop k xs)" for y
  proof -
    from that obtain j where j: "k \<le> j" "y = xs ! j" "j < length xs"
      by (auto simp: in_set_conv_nth) (metis add.commute le_add1 less_diff_conv)
    then show ?thesis
      using sorted_nth_mono [OF s, of k j] assms(4) by auto
  qed
  moreover have "sorted (map key (take k xs @ drop k xs))" using s by simp
  ultimately show ?thesis
    unfolding map_append sorted_append by (auto simp: sorted_append)
qed

lemma oa_insert_sorted:
  fixes key :: "mem \<Rightarrow> u32 \<Rightarrow> u32"
  assumes "oa_ok oa" "oa_is_less_than oa = Some (\<lambda>m a b. key m a < key m b)"
    "sorted (map (key m) (oa_list m oa))" "ordered_array_insert m oa item = (r, m', oa')"
  shows "if oa_size oa < oa_max_size oa
    then r \<and> oa_ok oa' \<and> oa' = oa\<lparr>oa_size := oa_size oa + 1\<rparr> \<and> sorted (map (key m) (oa_list m' oa')) \<and>
      mset (oa_list m' oa') = add_mset item (mset (oa_list m oa)) \<and>
      (\<forall>x. 4 * unat (oa_max_size oa) \<le> unat (x - oa_array oa) \<longrightarrow> m' x = m x)
    else \<not> r \<and> m' = m \<and> oa' = oa"
proof (cases "oa_size oa < oa_max_size oa")
  case True
  note ins = oa_list_insert [OF assms(1,2) True assms(4)]
  obtain k where k: "k \<le> length (oa_list m oa)"
    "oa_list m' oa' = take k (oa_list m oa) @ item # drop k (oa_list m oa)"
    "k = 0 \<or> key m (oa_list m oa ! (k - 1)) < key m item"
    "k = length (oa_list m oa) \<or> \<not> key m (oa_list m oa ! k) < key m item"
    using ins(1) by blast
  have "mset (oa_list m' oa') = add_mset item (mset (take k (oa_list m oa) @ drop k (oa_list m oa)))"
    unfolding k(2) mset_append by simp
  moreover have "oa_ok oa'"
    using assms(1) True by (simp add: ins(3) oa_ok_def inc_le)
  ultimately show ?thesis
    using True ins insert_sorted_pos [OF assms(3) k(1,3,4)] k(2) by (simp only: append_take_drop_id) simp
next
  case False
  then have "oa_max_size oa \<le> oa_size oa" by simp
  with assms(2,4) False show ?thesis by (simp add: ordered_array_insert_def)
qed

section \<open>Properties\<close>


definition witness_array :: "mem \<times> ordered_array" where
  "witness_array = (write32 (write32 (\<lambda>_. 0) 0x1000 5) 0x1004 9,
     \<lparr>oa_array = 0x1000, oa_size = 2, oa_max_size = 8, oa_is_less_than = Some (\<lambda>m a b. a < b)\<rparr>)"

lemma witness_array:
  "oa_ok (snd witness_array)" "oa_list (fst witness_array) (snd witness_array) = [5, 9]"
proof -
  have "apart 0x1000 4 0x1004 4" by (simp add: apart_def)
  then have "read32 (fst witness_array) 0x1000 = 5" "read32 (fst witness_array) 0x1004 = 9"
    unfolding witness_array_def by (simp_all only: fst_conv read32_write32_other read32_write32_same)
  then show "oa_list (fst witness_array) (snd witness_array) = [5, 9]"
    unfolding oa_list_def mem_list_def
    by (simp add: elem32_def upt_rec witness_array_def)
qed (simp add: witness_array_def oa_ok_def)


text \<open>
  Removal by index deletes exactly that entry and keeps the order of the others; an index past
  the end changes nothing.
\<close>

theorem ordered_array_remove_entry:
  assumes "oa_ok oa" "ordered_array_remove m oa i = (m', oa')"
  shows "if i < oa_size oa
    then oa_list m' oa' = take (unat i) (oa_list m oa) @ drop (Suc (unat i)) (oa_list m oa) \<and> oa_ok oa'
    else m' = m \<and> oa' = oa"
proof (cases "i < oa_size oa")
  case True
  have "unat (oa_size oa - 1) \<le> unat (oa_size oa)"
    using True by (subst unat_minus_one) auto
  then have "oa_size oa - 1 \<le> oa_max_size oa"
    using assms(1) by (simp add: oa_ok_def word_le_nat_alt)
  with True oa_list_remove [OF assms(1) True assms(2)] assms(1) show ?thesis by (simp add: oa_ok_def)
qed (use assms in \<open>simp add: ordered_array_remove_def not_less\<close>)

theorem ordered_array_remove_entry_witness:
  "let (m, oa) = ordered_array_remove (fst witness_array) (snd witness_array) 0 in oa_list m oa = [9]"
proof -
  obtain m oa where r: "ordered_array_remove (fst witness_array) (snd witness_array) 0 = (m, oa)"
    by (metis surj_pair)
  have "(0 :: u32) < oa_size (snd witness_array)" by (simp add: witness_array_def)
  with ordered_array_remove_entry [OF witness_array(1) r] show ?thesis
    by (simp add: r witness_array(2))
qed

end
