(* ===== verification/Kernel_State.thy ===== *)
theory Kernel_State
  imports Physical_Memory Ordered_Array
begin

text \<open>
  The state the memory-management code shares: the memory, the one heap manager, the one
  physical memory manager and the one paging manager of \<open>kernel_context\<close>, the two static flags of
  paging-manager.c and the control registers it writes.
\<close>

datatype heap_status = HEAP_UNINITIALIZED | HEAP_BOOTSTRAPED | HEAP_INITIALIZED

text \<open>
  A pointer from one manager to another is either null or leads to the one instance, so it is the
  truth value ``not null''. The \<open>uint8_t\<close> flags that are only tested are truth values as well.
\<close>

record heap_manager =
  hm_paging_manager :: bool
  placement_address :: u32
  status :: heap_status
  is_supervisor :: bool
  is_readonly :: bool
  use_identity_mapping :: bool
  start_address :: u32
  end_address :: u32
  max_end_address :: u32
  heap_array :: ordered_array

record paging_manager =
  pg_heap_manager :: bool
  page_directory :: u32
  pg_initialized :: bool

record kmem =
  mem :: mem
  heap :: heap_manager
  pmm :: physical_memory_manager
  paging :: paging_manager
  paging_enabled :: bool
  pse_enabled :: bool
  cr0 :: u32
  cr3 :: u32
  cr4 :: u32

text \<open>The state at power-on: memory and all fields zero, paging off, page-size extensions on.\<close>

definition power_on :: kmem where
  "power_on = \<lparr>mem = (\<lambda>_. 0),
     heap = \<lparr>hm_paging_manager = False, placement_address = 0, status = HEAP_UNINITIALIZED,
       is_supervisor = False, is_readonly = False, use_identity_mapping = False, start_address = 0,
       end_address = 0, max_end_address = 0,
       heap_array = \<lparr>oa_array = 0, oa_size = 0, oa_max_size = 0, oa_is_less_than = None\<rparr>\<rparr>,
     pmm = \<lparr>pm_bitmap = empty_bitmap, pm_initialized = False, block_used = 0, failed = False, failure = None\<rparr>,
     paging = \<lparr>pg_heap_manager = False, page_directory = 0, pg_initialized = False\<rparr>,
     paging_enabled = False, pse_enabled = True, cr0 = 0, cr3 = 0, cr4 = 0\<rparr>"

end
