(* ===== verification/Paging.thy ===== *)
theory Paging
  imports Kernel_State
begin

text \<open>
  The paging manager (paging-manager.c): two-level page tables in memory, address translation,
  mapping and unmapping of single pages and of ranges. The heap's allocation routine, which in the
  sources is a mutual recursion through \<open>heap_manager_malloc\<close>, is the argument \<open>malloc\<close> of the
  operations that need it; theory Kernel_Memory ties the knot.
\<close>

section \<open>Entries and their bit fields\<close>

definition set_flag :: "nat \<Rightarrow> bool \<Rightarrow> u32 \<Rightarrow> u32" where
  "set_flag n b w = (if b then set_bit n w else unset_bit n w)"

definition set_frame :: "u32 \<Rightarrow> u32 \<Rightarrow> u32" where
  "set_frame f w = (w AND 0xFFF) OR push_bit 12 f"

definition entry_present :: "u32 \<Rightarrow> bool" where "entry_present w = bit w 0"
definition entry_frame :: "u32 \<Rightarrow> u32" where "entry_frame w = drop_bit 12 w"

text \<open>The layout of \<open>page_directory_t\<close>: 1024 hardware entries, then 1024 table pointers.\<close>

definition dir_index :: "u32 \<Rightarrow> u32" where "dir_index va = drop_bit 22 va"
definition table_index :: "u32 \<Rightarrow> u32" where "table_index va = drop_bit 12 va AND 0x3FF"
definition page_offset :: "u32 \<Rightarrow> u32" where "page_offset va = va AND 0xFFF"

definition pde_addr :: "u32 \<Rightarrow> u32 \<Rightarrow> u32" where "pde_addr pd i = elem32 pd i"
definition ref_addr :: "u32 \<Rightarrow> u32 \<Rightarrow> u32" where "ref_addr pd i = elem32 (pd + 0x1000) i"

definition ref_table :: "mem \<Rightarrow> u32 \<Rightarrow> u32 \<Rightarrow> u32" where
  "ref_table m pd i = read32 m (ref_addr pd i)"

definition pte_addr :: "u32 \<Rightarrow> u32 \<Rightarrow> u32" where
  "pte_addr table va = elem32 table (table_index va)"

section \<open>Translation\<close>

definition virtual_2_physical :: "kmem \<Rightarrow> u32 \<Rightarrow> u32 \<Rightarrow> u32" where
  "virtual_2_physical k pd va =
     (if \<not> paging_enabled k then va - 0xC0000000
      else if pd = NULL then 0
      else
        let table = ref_table (mem k) pd (dir_index va) in
        if table = NULL then 0
        else
          let e = read32 (mem k) (pte_addr table va) in
          if \<not> entry_present e then 0
          else push_bit 12 (entry_frame e) + page_offset va)"

definition paging_manager_get_physical_address :: "kmem \<Rightarrow> u32 \<Rightarrow> u32" where
  "paging_manager_get_physical_address k va = virtual_2_physical k (page_directory (paging k)) va"

section \<open>Mapping one page\<close>

text \<open>The page table of \<open>va\<close>, made and entered into the directory when there is none.\<close>

definition get_table ::
  "(u32 \<Rightarrow> bool \<Rightarrow> (kmem, u32) prog) \<Rightarrow> u32 \<Rightarrow> u32 \<Rightarrow> bool \<Rightarrow> bool \<Rightarrow> (kmem, u32) prog" where
  "get_table malloc pd va is_kernel is_writeable k =
     (let i = dir_index va; table = ref_table (mem k) pd i in
      if table \<noteq> NULL then Some (table, k)
      else
        case malloc 0x1000 True k of None \<Rightarrow> None
        | Some (table, k) \<Rightarrow>
          let k = k\<lparr>mem := memset (mem k) table 0 0x1000\<rparr>;
              t = virtual_2_physical k pd table;
              e = read32 (mem k) (pde_addr pd i);
              e = set_flag 7 False (set_flag 2 (\<not> is_kernel) (set_flag 1 is_writeable
                    (set_flag 0 True (set_frame (drop_bit 12 t) e))));
              m = write32 (mem k) (pde_addr pd i) e;
              m = write32 m (ref_addr pd i) table
          in Some (table, k\<lparr>mem := m\<rparr>))"

text \<open>
  The frame for a page: the one asked for, or a block of the physical memory manager. When that has
  none left the failure handler runs (\<open>None\<close>: no frame, mapping is abandoned); without a handler the
  machine halts for good and the call does not return.
\<close>

definition get_frame :: "u32 \<Rightarrow> (kmem, u32 option) prog" where
  "get_frame frame k =
     (if frame \<noteq> 0 then Some (Some frame, k)
      else
        let (t, m, p) = physical_memory_manager_allocate_block (mem k, pmm k);
            k = k\<lparr>mem := m, pmm := p\<rparr>
        in if \<not> physical_memory_manager_is_valid_block (pmm k) t then
             let k = k\<lparr>pmm := (pmm k)\<lparr>failed := True\<rparr>\<rparr> in
             (case failure (pmm k) of
                None \<Rightarrow> None
              | Some handler \<Rightarrow> Some (None, k\<lparr>mem := handler (mem k)\<rparr>))
           else Some (Some t, k))"

definition allocate_page ::
  "(u32 \<Rightarrow> bool \<Rightarrow> (kmem, u32) prog) \<Rightarrow> u32 \<Rightarrow> u32 \<Rightarrow> u32 \<Rightarrow> bool \<Rightarrow> bool \<Rightarrow> kmem \<Rightarrow> kmem option" where
  "allocate_page malloc pd va frame is_kernel is_writeable k =
     (case get_table malloc pd va is_kernel is_writeable k of None \<Rightarrow> None
      | Some (table, k) \<Rightarrow>
        if entry_present (read32 (mem k) (pte_addr table va)) then Some k
        else
          (case get_frame frame k of None \<Rightarrow> None
           | Some (None, k) \<Rightarrow> Some k
           | Some (Some t, k) \<Rightarrow>
             let e = read32 (mem k) (pte_addr table va);
                 e = set_flag 2 (\<not> is_kernel) (set_flag 1 is_writeable
                       (set_flag 0 True (set_frame t e)))
             in Some (k\<lparr>mem := write32 (mem k) (pte_addr table va) e\<rparr>)))"

definition free_page :: "u32 \<Rightarrow> u32 \<Rightarrow> bool \<Rightarrow> kmem \<Rightarrow> kmem" where
  "free_page pd va should_free k =
     (let table = ref_table (mem k) pd (dir_index va) in
      if table = NULL then k
      else
        let a = pte_addr table va in
        if \<not> entry_present (read32 (mem k) a) then k
        else
          let (m, p) = (if should_free
                then physical_memory_manager_free_block (entry_frame (read32 (mem k) a)) (mem k, pmm k)
                else (mem k, pmm k))
          in k\<lparr>mem := write32 m a (set_frame 0 (set_flag 0 False (read32 m a))), pmm := p\<rparr>)"

section \<open>The manager's operations\<close>

definition paging_manager_init :: "u32 \<Rightarrow> bool \<Rightarrow> bool \<Rightarrow> kmem \<Rightarrow> kmem" where
  "paging_manager_init pd heap_manager should_clear k =
     (let k = k\<lparr>paging := (paging k)\<lparr>pg_heap_manager := heap_manager, page_directory := pd\<rparr>\<rparr>;
          k = (if should_clear then k\<lparr>mem := memset (mem k) pd 0 0x2000\<rparr> else k)
      in k\<lparr>paging := (paging k)\<lparr>pg_initialized := True\<rparr>\<rparr>)"

definition paging_manager_set_system_paging :: "bool \<Rightarrow> kmem \<Rightarrow> kmem" where
  "paging_manager_set_system_paging is_physical k =
     (let pd = page_directory (paging k)
      in k\<lparr>cr3 := (if \<not> is_physical then virtual_2_physical k pd pd else pd)\<rparr>)"

definition paging_manager_set_cr3 :: "u32 \<Rightarrow> bool \<Rightarrow> kmem \<Rightarrow> kmem" where
  "paging_manager_set_cr3 c is_physical k =
     k\<lparr>cr3 := (if \<not> is_physical then virtual_2_physical k (page_directory (paging k)) c else c)\<rparr>"

definition disable_pse_reg :: "kmem \<Rightarrow> kmem" where
  "disable_pse_reg k =
     (if \<not> pse_enabled k then k else k\<lparr>cr4 := cr4 k AND 0xFFFFFFEF, pse_enabled := False\<rparr>)"

definition paging_manager_enable :: "kmem \<Rightarrow> kmem" where
  "paging_manager_enable k =
     (let k = disable_pse_reg k in k\<lparr>cr0 := cr0 k OR 0x80000000, paging_enabled := True\<rparr>)"

definition paging_ready :: "kmem \<Rightarrow> bool" where
  "paging_ready k \<longleftrightarrow> pg_initialized (paging k) \<and> pg_heap_manager (paging k)"

text \<open>
  The three range operations share the loop
  \<open>for (; start_address <= end_address; start_address += PAGE_SIZE)\<close>. The addition wraps, so for an
  end in the last page of the address space the loop does not end.
\<close>

partial_function (option) page_loop ::
  "(u32 \<Rightarrow> kmem \<Rightarrow> kmem option) \<Rightarrow> u32 \<Rightarrow> u32 \<Rightarrow> kmem \<Rightarrow> kmem option" where
  "page_loop body a e k =
     (if a \<le> e then Option.bind (body a k) (page_loop body (a + PAGE_SIZE) e) else Some k)"

definition paging_manager_identity_allocate_single where
  "paging_manager_identity_allocate_single malloc address is_kernel is_writeable k =
     (if \<not> paging_ready k then Some k
      else allocate_page malloc (page_directory (paging k)) address (address div PAGE_SIZE) is_kernel is_writeable k)"

definition paging_manager_identity_allocate_range where
  "paging_manager_identity_allocate_range malloc a e is_kernel is_writeable k =
     (if \<not> paging_ready k then Some k
      else page_loop (\<lambda>a k. allocate_page malloc (page_directory (paging k)) a (a div PAGE_SIZE) is_kernel is_writeable k) a e k)"

definition paging_manager_allocate_single where
  "paging_manager_allocate_single malloc address is_kernel is_writeable k =
     (if \<not> paging_ready k then Some k
      else allocate_page malloc (page_directory (paging k)) address 0 is_kernel is_writeable k)"

definition paging_manager_allocate_range where
  "paging_manager_allocate_range malloc a e is_kernel is_writeable k =
     (if \<not> paging_ready k then Some k
      else page_loop (\<lambda>a k. allocate_page malloc (page_directory (paging k)) a 0 is_kernel is_writeable k) a e k)"

definition paging_manager_free_single :: "u32 \<Rightarrow> bool \<Rightarrow> kmem \<Rightarrow> kmem" where
  "paging_manager_free_single address should_free k =
     (if \<not> pg_initialized (paging k) then k
      else free_page (page_directory (paging k)) address should_free k)"

definition paging_manager_free_range :: "u32 \<Rightarrow> u32 \<Rightarrow> bool \<Rightarrow> kmem \<Rightarrow> kmem option" where
  "paging_manager_free_range a e should_free k =
     (if \<not> pg_initialized (paging k) then Some k
      else page_loop (\<lambda>a k. Some (free_page (page_directory (paging k)) a should_free k)) a e k)"

definition paging_manager_allocate_to_physical where
  "paging_manager_allocate_to_physical malloc va pa is_kernel is_writeable k =
     (if \<not> paging_ready k then Some k
      else allocate_page malloc (page_directory (paging k)) va (drop_bit 12 pa) is_kernel is_writeable k)"

section \<open>Bit fields and indices\<close>

lemma bit_set_flag: "n < 32 \<Longrightarrow> bit (set_flag n b w) i = (if i = n then b else bit w i)"
  by (auto simp: set_flag_def bit_simps)

lemma set_flag_present [simp]:
  "0 < n \<Longrightarrow> n < 32 \<Longrightarrow> entry_present (set_flag n b w) = entry_present w"
  "entry_present (set_flag 0 b w) = b" "entry_present (set_frame f w) = entry_present w"
  by (auto simp: entry_present_def bit_set_flag set_frame_def bit_simps)

lemma set_flag_frame [simp]: "n < 12 \<Longrightarrow> entry_frame (set_flag n b w) = entry_frame w"
  by (rule bit_word_eqI) (auto simp: entry_frame_def bit_simps bit_set_flag)

lemma and_0xFFF: "w AND 0xFFF = take_bit 12 (w :: u32)"
  by (simp add: take_bit_eq_mask mask_eq_exp_minus_1)

lemma and_0x3FF: "w AND 0x3FF = take_bit 10 (w :: u32)"
  by (simp add: take_bit_eq_mask mask_eq_exp_minus_1)

lemma unat_and_0xFFF: "unat (p AND 0xFFF :: u32) = unat p mod 4096"
  by (simp add: and_0xFFF take_bit_eq_mod unat_mod)

lemma unat_and_0xFFFFF000: "unat (p AND 0xFFFFF000 :: u32) = unat p div 4096 * 4096"
proof -
  have "(0xFFFFF000 :: u32) = NOT (mask 12)" by (simp add: mask_eq_exp_minus_1)
  moreover have "p AND NOT (mask 12) = push_bit 12 (drop_bit 12 p)"
    by (rule bit_word_eqI) (auto simp: bit_simps)
  ultimately have "p AND 0xFFFFF000 = drop_bit 12 p * 4096" by (simp add: push_bit_eq_mult)
  moreover have "unat (drop_bit 12 p) = unat p div 4096" by (simp add: drop_bit_eq_div unat_div)
  moreover have "unat p div 4096 * 4096 \<le> unat p" by simp
  ultimately show ?thesis
    using unat_less_2p32 [of p] iffD1 [OF unat_mult_lem, of "drop_bit 12 p" 4096] by simp
qed

lemma entry_frame_set_frame [simp]: "entry_frame (set_frame f w) = take_bit 20 f"
  by (rule bit_word_eqI) (auto simp: entry_frame_def set_frame_def and_0xFFF bit_simps)

lemma dir_index_bound: "dir_index va < 1024"
proof -
  have "unat (dir_index va) = unat va div 4194304"
    by (simp add: dir_index_def drop_bit_eq_div unat_div)
  then show ?thesis
    using unat_less_2p32 [of va] by (simp add: word_less_nat_alt div_less_iff_less_mult)
qed

lemma table_index_bound: "table_index va < 1024"
proof -
  have "unat (table_index va) < 1024"
    by (simp add: table_index_def and_0x3FF take_bit_eq_mod unat_mod)
  then show ?thesis by (simp add: word_less_nat_alt)
qed

text \<open>The page number of an address is its directory index and its table index.\<close>

definition page_number :: "u32 \<Rightarrow> u32" where "page_number va = drop_bit 12 va"

lemma bit_page_number:
  "bit (page_number va) i = (if i < 10 then bit (table_index va) i else bit (dir_index va) (i - 10))"
  by (auto simp: page_number_def table_index_def dir_index_def and_0x3FF bit_simps)

lemma page_number_split:
  "page_number va = page_number va' \<longleftrightarrow> dir_index va = dir_index va' \<and> table_index va = table_index va'"
proof
  assume *: "page_number va = page_number va'"
  have "table_index v = take_bit 10 (page_number v)" "dir_index v = drop_bit 10 (page_number v)" for v
    by (simp_all add: page_number_def table_index_def dir_index_def and_0x3FF)
  with * show "dir_index va = dir_index va' \<and> table_index va = table_index va'" by simp
next
  assume "dir_index va = dir_index va' \<and> table_index va = table_index va'"
  then show "page_number va = page_number va'"
    by (intro bit_word_eqI) (simp add: bit_page_number)
qed

section \<open>The address space a directory describes\<close>

text \<open>The frame a page is mapped to.\<close>

definition mapped :: "mem \<Rightarrow> u32 \<Rightarrow> u32 \<Rightarrow> u32 option" where
  "mapped m pd va =
     (let t = ref_table m pd (dir_index va) in
      if t = NULL then None
      else let e = read32 m (pte_addr t va) in
        if entry_present e then Some (entry_frame e) else None)"

lemma virtual_2_physical_mapped:
  "paging_enabled k \<Longrightarrow> pd \<noteq> NULL \<Longrightarrow> virtual_2_physical k pd va =
     (case mapped (mem k) pd va of None \<Rightarrow> 0 | Some f \<Rightarrow> push_bit 12 f + page_offset va)"
  by (simp add: virtual_2_physical_def mapped_def Let_def)

text \<open>The bytes the directory and its tables occupy, and when they do not overlap.\<close>

definition table_area :: "mem \<Rightarrow> u32 \<Rightarrow> u32 \<Rightarrow> u32 set" where
  "table_area m pd i = (if ref_table m pd i = NULL then {} else region (ref_table m pd i) 0x1000)"

definition paging_area :: "mem \<Rightarrow> u32 \<Rightarrow> u32 set" where
  "paging_area m pd = region pd 0x2000 \<union> (\<Union>i \<in> {i. i < 1024}. table_area m pd i)"

text \<open>
  The hardware half of the directory agrees with the table pointers: the entry of a slot without a
  table is not present, and the entry of a slot with one is a present entry of a page table (not a
  4 MB page) at the physical address of the table.
\<close>

definition entry_ok :: "mem \<Rightarrow> u32 \<Rightarrow> u32 \<Rightarrow> bool" where
  "entry_ok m pd i \<longleftrightarrow>
     (let t = ref_table m pd i; e = read32 m (pde_addr pd i) in
      if t = NULL then \<not> entry_present e
      else entry_present e \<and> \<not> bit e 7 \<and> push_bit 12 (entry_frame e) = t - 0xC0000000)"

definition paging_wf :: "mem \<Rightarrow> u32 \<Rightarrow> bool" where
  "paging_wf m pd \<longleftrightarrow> pd AND 0xFFF = 0 \<and> (\<forall>i < 1024. entry_ok m pd i) \<and>
     (\<forall>i < 1024. table_area m pd i \<inter> region pd 0x2000 = {}) \<and>
     (\<forall>i < 1024. \<forall>j < 1024. i \<noteq> j \<longrightarrow> table_area m pd i \<inter> table_area m pd j = {})"

lemma ref_addr_elem: "ref_addr pd i = elem32 pd (0x400 + i)"
  by (simp add: ref_addr_def elem32_def)

lemma index_1024: "i < (1024 :: u32) \<Longrightarrow> unat (0x400 + i) = 0x400 + unat i"
  by (subst unat_add_noov) (simp_all add: word_less_nat_alt)

lemma directory_regions:
  assumes "i < 1024"
  shows "region (pde_addr pd i) 4 \<subseteq> region pd 0x2000" "region (ref_addr pd i) 4 \<subseteq> region pd 0x2000"
proof -
  have "i < 0x800" "0x400 + i < 0x800"
    using assms index_1024 [OF assms] by (simp_all add: word_less_nat_alt)
  then show "region (pde_addr pd i) 4 \<subseteq> region pd 0x2000" "region (ref_addr pd i) 4 \<subseteq> region pd 0x2000"
    using elem32_region [of _ "0x800" pd] by (simp_all add: pde_addr_def ref_addr_elem)
qed

lemma pte_region: "region (pte_addr t va) 4 \<subseteq> region t 0x1000"
  using elem32_region [OF table_index_bound, of t va] by (simp add: pte_addr_def)

lemma directory_apart:
  assumes "i < 1024" "j < 1024"
  shows "apart (ref_addr pd i) 4 (pde_addr pd j) 4" "i \<noteq> j \<Longrightarrow> apart (ref_addr pd i) 4 (ref_addr pd j) 4"
    "i \<noteq> j \<Longrightarrow> apart (pde_addr pd i) 4 (pde_addr pd j) 4"
proof -
  have b: "0x400 + i < 0x40000000" "0x400 + j < 0x40000000" "j < 0x40000000" "i < 0x40000000" "0x400 + i \<noteq> j"
    using assms index_1024 [OF assms(1)] index_1024 [OF assms(2)]
    by (auto simp: word_less_nat_alt word_unat_eq_iff)
  then show "apart (ref_addr pd i) 4 (pde_addr pd j) 4"
    by (simp add: ref_addr_elem pde_addr_def apart_elem32)
  show "i \<noteq> j \<Longrightarrow> apart (ref_addr pd i) 4 (ref_addr pd j) 4"
    using b by (simp add: ref_addr_elem apart_elem32)
  show "i \<noteq> j \<Longrightarrow> apart (pde_addr pd i) 4 (pde_addr pd j) 4"
    using b by (simp add: pde_addr_def apart_elem32)
qed

lemma table_area_sub: "i < 1024 \<Longrightarrow> table_area m pd i \<subseteq> paging_area m pd"
  by (auto simp: paging_area_def)

lemma directory_area_sub: "region pd 0x2000 \<subseteq> paging_area m pd"
  by (auto simp: paging_area_def)

text \<open>The address space depends on the memory of the directory and its tables only.\<close>

lemma ref_table_cong:
  "i < 1024 \<Longrightarrow> (\<And>x. x \<in> region pd 0x2000 \<Longrightarrow> m x = m' x) \<Longrightarrow> ref_table m pd i = ref_table m' pd i"
  unfolding ref_table_def using directory_regions(2) [of i pd] by (intro read32_region) auto

lemma pde_cong:
  "i < 1024 \<Longrightarrow> (\<And>x. x \<in> region pd 0x2000 \<Longrightarrow> m x = m' x) \<Longrightarrow>
     read32 m (pde_addr pd i) = read32 m' (pde_addr pd i)"
  using directory_regions(1) [of i pd] by (intro read32_region) auto

lemma entry_ok_cong:
  "i < 1024 \<Longrightarrow> (\<And>x. x \<in> region pd 0x2000 \<Longrightarrow> m x = m' x) \<Longrightarrow> entry_ok m pd i = entry_ok m' pd i"
  unfolding entry_ok_def using ref_table_cong pde_cong by metis

lemma paging_cong:
  assumes "\<And>x. x \<in> paging_area m pd \<Longrightarrow> m x = m' x"
  shows "\<And>i. i < 1024 \<Longrightarrow> ref_table m' pd i = ref_table m pd i"
    and "mapped m' pd va = mapped m pd va"
    and "paging_area m' pd = paging_area m pd" and "paging_wf m' pd \<longleftrightarrow> paging_wf m pd"
proof -
  show r: "ref_table m' pd i = ref_table m pd i" if "i < 1024" for i
    using ref_table_cong [OF that, of pd m m'] assms directory_area_sub by (auto simp: subset_iff)
  then have t: "table_area m' pd i = table_area m pd i" if "i < 1024" for i
    using that by (simp add: table_area_def)
  have "entry_ok m' pd i = entry_ok m pd i" if "i < 1024" for i
    using entry_ok_cong [OF that, of pd m m'] assms directory_area_sub by (auto simp: subset_iff)
  with t show "paging_area m' pd = paging_area m pd" "paging_wf m' pd \<longleftrightarrow> paging_wf m pd"
    by (simp_all add: paging_area_def paging_wf_def)
  have "read32 m' (pte_addr (ref_table m pd (dir_index va)) va) = read32 m (pte_addr (ref_table m pd (dir_index va)) va)"
    if "ref_table m pd (dir_index va) \<noteq> NULL"
    using that table_area_sub [OF dir_index_bound, of m pd va] assms pte_region
    by (intro read32_region) (fastforce simp: table_area_def subset_iff)
  then show "mapped m' pd va = mapped m pd va"
    by (simp add: mapped_def Let_def r [OF dir_index_bound])
qed

text \<open>Writing one page-table entry changes the mapping of that page only.\<close>

lemma write_entry:
  fixes e :: u32
  assumes wf: "paging_wf m pd" and t: "ref_table m pd (dir_index va) = t" "t \<noteq> NULL"
  defines "m' \<equiv> write32 m (pte_addr t va) e"
  shows "\<And>i. i < 1024 \<Longrightarrow> ref_table m' pd i = ref_table m pd i"
    and "mapped m' pd va' = (if page_number va' = page_number va
      then if entry_present e then Some (entry_frame e) else None else mapped m pd va')"
    and "paging_area m' pd = paging_area m pd" and "paging_wf m' pd"
    and "\<And>x. x \<notin> table_area m pd (dir_index va) \<Longrightarrow> m' x = m x"
proof -
  let ?i = "dir_index va"
  have ta: "table_area m pd ?i = region t 0x1000" using t by (simp add: table_area_def)
  show out: "m' x = m x" if "x \<notin> table_area m pd ?i" for x
    using that pte_region [of t va] by (auto simp: ta m'_def intro!: write32_outside)
  have dir: "m x = m' x" if "x \<in> region pd 0x2000" for x
    using wf dir_index_bound that out [of x] by (fastforce simp: paging_wf_def)
  show r: "ref_table m' pd i = ref_table m pd i" if "i < 1024" for i
    using ref_table_cong [OF that dir] by simp
  then have ta': "table_area m' pd i = table_area m pd i" if "i < 1024" for i
    using that by (simp add: table_area_def)
  have "entry_ok m' pd i = entry_ok m pd i" if "i < 1024" for i
    using entry_ok_cong [OF that dir] by simp
  with ta' show "paging_area m' pd = paging_area m pd" "paging_wf m' pd"
    using wf by (simp_all add: paging_area_def paging_wf_def)
  let ?j = "dir_index va'"
  show "mapped m' pd va' = (if page_number va' = page_number va
      then if entry_present e then Some (entry_frame e) else None else mapped m pd va')"
  proof (cases "?j = ?i")
    case True
    have "read32 m' (pte_addr t va') = (if table_index va' = table_index va then e else read32 m (pte_addr t va'))"
      unfolding m'_def pte_addr_def
      by (rule read32_elem_write32) (rule less_trans [OF table_index_bound], simp)+
    then show ?thesis
      using True t r [OF dir_index_bound] by (simp add: mapped_def page_number_split Let_def)
  next
    case False
    then have "table_area m pd ?j \<inter> table_area m pd ?i = {}"
      using wf dir_index_bound by (simp add: paging_wf_def)
    then have "m' x = m x" if "x \<in> table_area m pd ?j" for x using that out by blast
    then have "read32 m' (pte_addr (ref_table m pd ?j) va') = read32 m (pte_addr (ref_table m pd ?j) va')"
      if "ref_table m pd ?j \<noteq> NULL"
      using that pte_region [of "ref_table m pd ?j" va'] by (intro read32_region) (auto simp: table_area_def)
    then show ?thesis
      using False r [OF dir_index_bound] by (simp add: mapped_def page_number_split Let_def)
  qed
qed

text \<open>Entering a fresh, cleared table into the directory maps nothing yet.\<close>

definition enter_table :: "mem \<Rightarrow> u32 \<Rightarrow> u32 \<Rightarrow> u32 \<Rightarrow> u32 \<Rightarrow> mem" where
  "enter_table m pd i t e =
     write32 (write32 (memset m t 0 0x1000) (pde_addr pd i) e) (ref_addr pd i) t"

text \<open>The entry that is written for a new table at the kernel address \<open>t\<close>, over an old entry.\<close>

definition table_entry :: "u32 \<Rightarrow> bool \<Rightarrow> bool \<Rightarrow> u32 \<Rightarrow> u32" where
  "table_entry t is_kernel is_writeable e =
     set_flag 7 False (set_flag 2 (\<not> is_kernel) (set_flag 1 is_writeable
       (set_flag 0 True (set_frame (drop_bit 12 (t - 0xC0000000)) e))))"

lemma aligned_kernel_address:
  assumes "t AND 0xFFF = (0 :: u32)"
  shows "(t - 0xC0000000) AND 0xFFF = 0"
proof -
  have "unat t mod 4096 = 0" using assms unat_and_0xFFF [of t] by simp
  then obtain q where q: "unat t = 4096 * q" by (auto simp: mod_eq_0_iff_dvd elim: dvdE)
  have "unat (t - 0xC0000000) mod 4096 = 0"
    using q by (simp add: unat_sub_if' mod_eq_0_iff_dvd)
  then show ?thesis using unat_and_0xFFF [of "t - 0xC0000000"] by (simp only: unat_eq_0)
qed

lemma push_drop_aligned: "(w :: u32) AND 0xFFF = 0 \<Longrightarrow> push_bit 12 (drop_bit 12 w) = w"
  using bits_ident [of 12 w] by (simp add: and_0xFFF)

lemma table_entry:
  "entry_present (table_entry t is_kernel is_writeable e)"
  "\<not> bit (table_entry t is_kernel is_writeable e) 7"
  "t AND 0xFFF = 0 \<Longrightarrow> push_bit 12 (entry_frame (table_entry t is_kernel is_writeable e)) = t - 0xC0000000"
proof -
  show "entry_present (table_entry t is_kernel is_writeable e)"
    "\<not> bit (table_entry t is_kernel is_writeable e) 7"
    by (simp_all add: table_entry_def bit_set_flag)
  have "take_bit 20 (drop_bit 12 w) = drop_bit 12 w" for w :: u32
    by (rule bit_word_eqI) (auto simp: bit_simps dest: bit_imp_le_length)
  moreover assume "t AND 0xFFF = 0"
  ultimately show "push_bit 12 (entry_frame (table_entry t is_kernel is_writeable e)) = t - 0xC0000000"
    by (simp add: table_entry_def push_drop_aligned aligned_kernel_address)
qed

lemma enter_table:
  fixes m pd i t e
  assumes wf: "paging_wf m pd" and i: "i < 1024" "ref_table m pd i = NULL"
    and t: "t \<noteq> NULL" "region t 0x1000 \<inter> paging_area m pd = {}"
    and e: "entry_present e" "\<not> bit e 7" "push_bit 12 (entry_frame e) = t - 0xC0000000"
  defines "m' \<equiv> enter_table m pd i t e"
  shows "\<And>j. j < 1024 \<Longrightarrow> ref_table m' pd j = (if j = i then t else ref_table m pd j)"
    and "mapped m' pd va = mapped m pd va"
    and "paging_area m' pd = paging_area m pd \<union> region t 0x1000" and "paging_wf m' pd"
    and "\<And>x. x \<notin> region pd 0x2000 \<union> region t 0x1000 \<Longrightarrow> m' x = m x"
proof -
  let ?D = "region pd 0x2000" and ?T = "region t 0x1000"
  have dt: "?T \<inter> ?D = {}" using t(2) directory_area_sub by blast
  have mx: "m' x = memset m t 0 0x1000 x" if "x \<notin> ?D" for x
  proof -
    have "x \<notin> region (pde_addr pd i) 4" "x \<notin> region (ref_addr pd i) 4"
      using that directory_regions [OF i(1), of pd] by blast+
    then show ?thesis by (simp add: m'_def enter_table_def write32_outside)
  qed
  then show out: "m' x = m x" if "x \<notin> ?D \<union> ?T" for x
    using that by (simp add: memset_outside)
  have zero: "m' x = 0" if "x \<in> ?T" for x
    using that mx [of x] dt by (auto simp: memset_apply region_def [of t])
  show r: "ref_table m' pd j = (if j = i then t else ref_table m pd j)" if j: "j < 1024" for j
  proof (cases "j = i")
    case True
    then show ?thesis by (simp add: m'_def enter_table_def ref_table_def)
  next
    case False
    have "apart (ref_addr pd j) 4 t 0x1000"
      using directory_regions(2) [OF j, of pd] dt by (subst apart_region) auto
    with False directory_apart [OF j i(1)] show ?thesis
      by (simp add: m'_def enter_table_def ref_table_def memset_read32_other)
  qed
  then have ta: "table_area m' pd j = (if j = i then ?T else table_area m pd j)" if "j < 1024" for j
    using that t(1) by (simp add: table_area_def)
  have "table_area m pd i = {}" using i(2) by (simp add: table_area_def)
  with ta i(1) show "paging_area m' pd = paging_area m pd \<union> ?T"
    by (fastforce simp: paging_area_def split: if_splits)
  have "read32 m' (pde_addr pd j) = (if j = i then e else read32 m (pde_addr pd j))" if j: "j < 1024" for j
  proof -
    have "apart (pde_addr pd j) 4 t 0x1000"
      using directory_regions(1) [OF j, of pd] dt by (subst apart_region) auto
    moreover have "apart (pde_addr pd j) 4 (ref_addr pd i) 4"
      using directory_apart(1) [OF i(1) j, of pd] by (simp add: apart_region Int_commute)
    ultimately show ?thesis using directory_apart(3) [OF j i(1), of pd]
      by (auto simp: m'_def enter_table_def memset_read32_other)
  qed
  then have "entry_ok m' pd j" if "j < 1024" for j
    using wf t(1) e r [OF that] that by (auto simp: entry_ok_def Let_def paging_wf_def)
  moreover have "?T \<inter> table_area m pd j = {}" if "j < 1024" for j
    using t(2) table_area_sub [OF that, of m pd] by blast
  ultimately show "paging_wf m' pd"
    using wf dt by (auto simp: paging_wf_def ta)
  let ?j = "dir_index va"
  show "mapped m' pd va = mapped m pd va"
  proof (cases "?j = i")
    case True
    have "read32 m' (pte_addr t va) = read32 (\<lambda>_. 0) (pte_addr t va)"
      using zero pte_region [of t va] by (intro read32_region) auto
    also have "\<dots> = 0" by (simp add: read32_def)
    finally show ?thesis
      using True r [OF i(1)] i by (simp add: mapped_def Let_def entry_present_def)
  next
    case False
    have "m' x = m x" if "x \<in> table_area m pd ?j" for x
    proof -
      have "x \<notin> ?D" using wf dir_index_bound that by (fastforce simp: paging_wf_def)
      moreover have "x \<notin> ?T" using t(2) table_area_sub [OF dir_index_bound] that by blast
      ultimately show ?thesis using out by blast
    qed
    then have "read32 m' (pte_addr (ref_table m pd ?j) va) = read32 m (pte_addr (ref_table m pd ?j) va)"
      if "ref_table m pd ?j \<noteq> NULL"
      using that pte_region [of "ref_table m pd ?j" va] by (intro read32_region) (auto simp: table_area_def)
    then show ?thesis
      using False r [OF dir_index_bound] by (simp add: mapped_def Let_def)
  qed
qed

section \<open>The translation of the processor\<close>

text \<open>
  The walk of a 32-bit x86 processor: the directory lies at the physical address in CR3, its entry
  either maps 4 MB or names a page table, whose entry maps the page. The kernel sees the physical
  address \<open>a\<close> at \<open>a + 0xC0000000\<close>. The table pointers in the second half of the directory are not read.
\<close>

definition read_phys :: "mem \<Rightarrow> u32 \<Rightarrow> u32" where "read_phys m a = read32 m (a + 0xC0000000)"

definition processor_walk :: "mem \<Rightarrow> u32 \<Rightarrow> u32 \<Rightarrow> u32 option" where
  "processor_walk m cr va =
     (let d = read_phys m (elem32 (cr AND 0xFFFFF000) (drop_bit 22 va)) in
      if \<not> bit d 0 then None
      else if bit d 7 then Some ((d AND 0xFFC00000) + (va AND 0x3FFFFF))
      else let e = read_phys m (elem32 (d AND 0xFFFFF000) (drop_bit 12 va AND 0x3FF)) in
        if \<not> bit e 0 then None else Some ((e AND 0xFFFFF000) + (va AND 0xFFF)))"

lemma and_frame_mask: "w AND 0xFFFFF000 = push_bit 12 (drop_bit 12 (w :: u32))"
proof -
  have m: "(0xFFFFF000 :: u32) = NOT (mask 12)" by (simp add: mask_eq_exp_minus_1)
  show ?thesis unfolding m by (rule bit_word_eqI) (auto simp: bit_simps)
qed

text \<open>In a well-formed directory the processor and the kernel's table pointers agree.\<close>

lemma processor_walk_mapped:
  assumes "paging_wf m pd"
  shows "processor_walk m (pd - 0xC0000000) va =
    map_option (\<lambda>f. push_bit 12 f + page_offset va) (mapped m pd va)"
proof -
  let ?i = "dir_index va"
  let ?d = "read32 m (pde_addr pd ?i)" and ?t = "ref_table m pd ?i"
  have cr: "(pd - 0xC0000000) AND 0xFFFFF000 = pd - 0xC0000000"
    using assms by (simp add: and_frame_mask push_drop_aligned aligned_kernel_address paging_wf_def)
  have e: "entry_ok m pd ?i" using assms dir_index_bound by (simp add: paging_wf_def)
  have d: "read_phys m (elem32 (pd - 0xC0000000) (drop_bit 22 va)) = ?d"
    by (simp add: read_phys_def pde_addr_def elem32_def dir_index_def)
  have t: "read_phys m (elem32 (?t - 0xC0000000) (drop_bit 12 va AND 0x3FF)) = read32 m (pte_addr ?t va)"
    by (simp add: read_phys_def pte_addr_def elem32_def table_index_def)
  show ?thesis
  proof (cases "?t = NULL")
    case True
    then show ?thesis using e
      by (simp add: processor_walk_def cr d entry_ok_def entry_present_def mapped_def)
  next
    case False
    then have "bit ?d 0" "\<not> bit ?d 7" "?d AND 0xFFFFF000 = ?t - 0xC0000000"
      using e by (simp_all add: entry_ok_def entry_present_def entry_frame_def and_frame_mask Let_def)
    then have "processor_walk m (pd - 0xC0000000) va = (let e = read32 m (pte_addr ?t va) in
        if \<not> bit e 0 then None else Some ((e AND 0xFFFFF000) + (va AND 0xFFF)))"
      by (simp add: processor_walk_def cr d t Let_def)
    then show ?thesis using False
      by (simp add: mapped_def Let_def entry_present_def entry_frame_def and_frame_mask page_offset_def)
  qed
qed

section \<open>The allocator of page tables\<close>

text \<open>
  What paging needs of \<open>malloc\<close>: as long as there is room, a request for a page-aligned page returns
  memory out of the allocator's arena, which it leaves; the memory outside the arena, the other
  managers and the processor state are not touched, and the allocator depends on its own fields and
  the bytes of its arena only.
\<close>

definition pmm_area :: "physical_memory_manager \<Rightarrow> u32 set" where
  "pmm_area p = region (bm_array (pm_bitmap p)) (memory_size (pm_bitmap p))"

definition same_but_heap :: "kmem \<Rightarrow> kmem \<Rightarrow> bool" where
  "same_but_heap k k' \<longleftrightarrow> pmm k' = pmm k \<and> paging k' = paging k \<and>
     paging_enabled k' = paging_enabled k \<and> cr3 k' = cr3 k"

locale page_allocator =
  fixes malloc :: "u32 \<Rightarrow> bool \<Rightarrow> (kmem, u32) prog"
    and arena :: "kmem \<Rightarrow> u32 set"
    and room :: "kmem \<Rightarrow> nat"
  assumes malloc_page: "0 < room k \<Longrightarrow>
      \<exists>t k'. malloc 0x1000 True k = Some (t, k') \<and> t \<noteq> NULL \<and> t AND 0xFFF = 0 \<and> region t 0x1000 \<subseteq> arena k \<and>
        arena k' \<subseteq> arena k - region t 0x1000 \<and> room k' = room k - 1 \<and>
        (\<forall>x. x \<notin> arena k \<longrightarrow> mem k' x = mem k x) \<and> same_but_heap k k'"
    and arena_cong: "heap k' = heap k \<Longrightarrow> (\<And>x. x \<in> arena k \<Longrightarrow> mem k' x = mem k x) \<Longrightarrow>
      arena k' = arena k \<and> room k' = room k"

text \<open>
  Directory and tables, the frame bitmap and the allocator's arena \<open>A\<close> do not overlap, and the frame
  bitmap is in order. Paging is still off: this is the boot phase, in which every kernel address is
  the physical address plus 0xC0000000.
\<close>

definition paging_ok :: "u32 set \<Rightarrow> kmem \<Rightarrow> u32 \<Rightarrow> bool" where
  "paging_ok A k pd \<longleftrightarrow> \<not> paging_enabled k \<and> paging_wf (mem k) pd \<and> pmm_inv (mem k, pmm k) \<and>
     pmm_area (pmm k) \<inter> paging_area (mem k) pd = {} \<and>
     A \<inter> (paging_area (mem k) pd \<union> pmm_area (pmm k)) = {}"

lemma pmm_used_cong:
  assumes "pmm_inv (m, p)" "\<And>x. x \<in> pmm_area p \<Longrightarrow> m' x = m x"
  shows "pmm_used (m', p) = pmm_used (m, p)" and "pmm_inv (m', p)"
proof -
  let ?b = "pm_bitmap p"
  have ok: "bitmap_ok ?b" using assms(1) by (simp add: pmm_inv_def)
  have "read32 m' (elem32 (bm_array ?b) (bitmap_index_from_bit ?b b)) =
      read32 m (elem32 (bm_array ?b) (bitmap_index_from_bit ?b b))" if "b < bit_count ?b" for b
  proof (rule read32_region)
    fix x assume x: "x \<in> region (elem32 (bm_array ?b) (bitmap_index_from_bit ?b b)) 4"
    have "region (elem32 (bm_array ?b) (bitmap_index_from_bit ?b b)) 4 \<subseteq> pmm_area p"
      using bitmap_index_bound [OF ok that] by (simp add: pmm_area_def elem32_def region_sub unat_mult4)
    with x assms(2) show "m' x = m x" by blast
  qed
  then show u: "pmm_used (m', p) = pmm_used (m, p)"
    by (auto simp: pmm_used_def pmm_blocks_def bitmap_test_def)
  with assms(1) show "pmm_inv (m', p)" by (simp add: pmm_inv_def)
qed

text \<open>Taking a frame keeps the directory and the allocator as they are.\<close>

lemma get_frame_given: "frame \<noteq> 0 \<Longrightarrow> get_frame frame k = Some (Some frame, k)"
  by (simp add: get_frame_def)

lemma get_frame_free:
  assumes ok: "paging_ok A k pd" and free: "pmm_used (mem k, pmm k) \<noteq> pmm_blocks (mem k, pmm k)"
  shows "\<exists>b m p. get_frame 0 k = Some (Some b, k\<lparr>mem := m, pmm := p\<rparr>) \<and>
    b \<in> pmm_blocks (mem k, pmm k) - pmm_used (mem k, pmm k) \<and> (\<forall>i < b. i \<in> pmm_used (mem k, pmm k)) \<and>
    pmm_used (m, p) = insert b (pmm_used (mem k, pmm k)) \<and> pmm_inv (m, p) \<and>
    pm_bitmap p = pm_bitmap (pmm k) \<and> (\<forall>x. x \<notin> pmm_area (pmm k) \<longrightarrow> m x = mem k x)"
proof -
  have inv: "pmm_inv (mem k, pmm k)" using ok by (simp add: paging_ok_def)
  then have i: "pm_initialized (pmm k)" "bitmap_ok (pm_bitmap (pmm k))" by (auto simp: pmm_inv_def)
  obtain b m p where a: "physical_memory_manager_allocate_block (mem k, pmm k) = (b, m, p)"
    by (metis surj_pair)
  note al = pmm.alloc_free_block [OF inv free a] allocate_block_lowest [OF inv free a]
  note fr = allocate_block_frame [OF i a]
  have "physical_memory_manager_is_valid_block p b"
    using al i fr(2) by (simp add: is_valid_block_iff pmm_blocks_def)
  then show ?thesis
    using al fr
    by (intro exI [of _ b] exI [of _ m] exI [of _ p]) (simp add: get_frame_def a pmm_area_def region_def)
qed

lemma get_frame_exhausted:
  assumes "paging_ok A k pd" "pmm_used (mem k, pmm k) = pmm_blocks (mem k, pmm k)" "failure (pmm k) = None"
  shows "get_frame 0 k = None"
proof -
  have inv: "pmm_inv (mem k, pmm k)" using assms(1) by (simp add: paging_ok_def)
  then have i: "bitmap_ok (pm_bitmap (pmm k))" by (auto simp: pmm_inv_def)
  obtain b s where a: "physical_memory_manager_allocate_block (mem k, pmm k) = (b, s)"
    by (metis surj_pair)
  then have "b \<notin> pmm_blocks (mem k, pmm k)" "s = (mem k, pmm k)"
    using pmm.alloc_exhausted [OF inv assms(2) a] by auto
  then show ?thesis
    using assms(3) i by (simp add: get_frame_def a is_valid_block_iff pmm_blocks_def)
qed

context page_allocator
begin

lemma get_table_spec:
  assumes ok: "paging_ok (arena k) k pd"
    and room: "ref_table (mem k) pd (dir_index va) \<noteq> NULL \<or> 0 < room k"
  shows "\<exists>t k'. get_table malloc pd va is_kernel is_writeable k = Some (t, k') \<and>
    t \<noteq> NULL \<and> ref_table (mem k') pd (dir_index va) = t \<and> paging_ok (arena k') k' pd \<and>
    (\<forall>va'. mapped (mem k') pd va' = mapped (mem k) pd va') \<and>
    pmm_used (mem k', pmm k') = pmm_used (mem k, pmm k) \<and> same_but_heap k k' \<and>
    room k' = room k - (if ref_table (mem k) pd (dir_index va) = NULL then 1 else 0)"
proof (cases "ref_table (mem k) pd (dir_index va) = NULL")
  case False
  then show ?thesis using ok by (simp add: get_table_def Let_def same_but_heap_def)
next
  case True
  let ?i = "dir_index va" and ?P = "paging_area (mem k) pd" and ?B = "pmm_area (pmm k)"
  obtain t k1 where m: "malloc 0x1000 True k = Some (t, k1)" "t \<noteq> NULL"
    "region t 0x1000 \<subseteq> arena k" "arena k1 \<subseteq> arena k - region t 0x1000" "room k1 = room k - 1"
    "\<forall>x. x \<notin> arena k \<longrightarrow> mem k1 x = mem k x" "same_but_heap k k1" "t AND 0xFFF = 0"
    using malloc_page room True by blast
  have dis: "arena k \<inter> ?P = {}" "arena k \<inter> ?B = {}" "?B \<inter> ?P = {}"
    and wf: "paging_wf (mem k) pd" and inv: "pmm_inv (mem k, pmm k)" and off: "\<not> paging_enabled k1"
    using ok m(7) by (auto simp: paging_ok_def same_but_heap_def)
  have eq: "mem k1 x = mem k x" if "x \<in> ?P \<union> ?B" for x
    using that dis m(6) by blast
  note pc = paging_cong [of "mem k" pd "mem k1", OF eq [symmetric], OF UnI1]
  have r1: "ref_table (mem k1) pd ?i = NULL" using True pc(1) [OF _ dir_index_bound] by simp
  have tP: "region t 0x1000 \<inter> paging_area (mem k1) pd = {}" using m(3) dis pc(3) by auto
  have w1: "paging_wf (mem k1) pd" using wf pc(4) by simp
  obtain e0 where g0: "get_table malloc pd va is_kernel is_writeable k
      = Some (t, k1\<lparr>mem := enter_table (mem k1) pd ?i t (table_entry t is_kernel is_writeable e0)\<rparr>)"
    using True off by (simp add: get_table_def m(1) Let_def enter_table_def table_entry_def virtual_2_physical_def)
  let ?e = "table_entry t is_kernel is_writeable e0"
  have g: "get_table malloc pd va is_kernel is_writeable k
      = Some (t, k1\<lparr>mem := enter_table (mem k1) pd ?i t ?e\<rparr>)" by (rule g0)
  note et = enter_table [where e = ?e, OF w1 dir_index_bound r1 m(2) tP table_entry(1,2) table_entry(3) [OF m(8)]]
  let ?m = "enter_table (mem k1) pd ?i t ?e" let ?k = "k1\<lparr>mem := ?m\<rparr>"
  have D: "region pd 0x2000 \<subseteq> ?P" by (rule directory_area_sub)
  have mA: "?m x = mem k1 x" if "x \<in> arena k1" for x
  proof -
    have "x \<notin> region pd 0x2000 \<union> region t 0x1000" using that dis D m(4) by blast
    then show ?thesis by (rule et(5))
  qed
  then have ar: "arena ?k = arena k1 \<and> room ?k = room k1"
    by (intro arena_cong) simp_all
  have mB: "?m x = mem k x" if "x \<in> ?B" for x
  proof -
    have "x \<notin> region pd 0x2000 \<union> region t 0x1000" using that dis D m(3) by blast
    then show ?thesis using et(5) eq that by simp
  qed
  have pk: "pmm k1 = pmm k" using m(7) by (simp add: same_but_heap_def)
  note pu = pmm_used_cong [OF inv mB]
  have "paging_ok (arena ?k) ?k pd"
    using ar et(3,4) pu(2) pk dis m(3,4) pc(3) off by (auto simp: paging_ok_def)
  moreover have "mapped ?m pd va' = mapped (mem k) pd va'" for va'
    using et(2) pc(2) by simp
  ultimately show ?thesis
    using g m ar pu(1) pk et(1) [OF dir_index_bound] True by (simp add: same_but_heap_def)
qed

text \<open>Rewriting the entry of one page, and taking a frame, keep everything apart.\<close>

lemma write_entry_ok:
  fixes e :: u32
  assumes ok: "paging_ok (arena k) k pd" and t: "ref_table (mem k) pd (dir_index va) = t" "t \<noteq> NULL"
  defines "k' \<equiv> k\<lparr>mem := write32 (mem k) (pte_addr t va) e\<rparr>"
  shows "paging_ok (arena k') k' pd" "room k' = room k"
    "pmm_used (mem k', pmm k') = pmm_used (mem k, pmm k)"
    "mapped (mem k') pd va' = (if page_number va' = page_number va
      then if entry_present e then Some (entry_frame e) else None else mapped (mem k) pd va')"
proof -
  have o: "paging_wf (mem k) pd" "pmm_inv (mem k, pmm k)"
    "pmm_area (pmm k) \<inter> paging_area (mem k) pd = {}"
    "arena k \<inter> (paging_area (mem k) pd \<union> pmm_area (pmm k)) = {}" "\<not> paging_enabled k"
    using ok by (simp_all add: paging_ok_def)
  note we = write_entry [where e = e, OF o(1) t]
  have out: "mem k' x = mem k x" if "x \<in> arena k \<union> pmm_area (pmm k)" for x
  proof -
    have "x \<notin> table_area (mem k) pd (dir_index va)"
      using that o(3,4) table_area_sub [OF dir_index_bound] by blast
    then show ?thesis using we(5) by (simp add: k'_def)
  qed
  have ar: "arena k' = arena k \<and> room k' = room k"
    by (intro arena_cong) (use out in \<open>simp_all add: k'_def\<close>)
  have pu: "pmm_used (mem k', pmm k) = pmm_used (mem k, pmm k)" "pmm_inv (mem k', pmm k)"
    using out by (intro pmm_used_cong [OF o(2)]; simp)+
  then show "room k' = room k" "pmm_used (mem k', pmm k') = pmm_used (mem k, pmm k)"
    using ar by (simp_all add: k'_def)
  show "paging_ok (arena k') k' pd"
    using ar o pu we(3,4) by (simp add: paging_ok_def k'_def)
  show "mapped (mem k') pd va' = (if page_number va' = page_number va
      then if entry_present e then Some (entry_frame e) else None else mapped (mem k) pd va')"
    using we(2) by (simp add: k'_def)
qed

lemma take_frame_ok:
  assumes ok: "paging_ok (arena k) k pd" and p: "pmm_inv (m, p)" "pm_bitmap p = pm_bitmap (pmm k)"
    and m: "\<forall>x. x \<notin> pmm_area (pmm k) \<longrightarrow> m x = mem k x"
  defines "k' \<equiv> k\<lparr>mem := m, pmm := p\<rparr>"
  shows "paging_ok (arena k') k' pd" "room k' = room k" "mapped m pd va = mapped (mem k) pd va"
    "\<And>i. i < 1024 \<Longrightarrow> ref_table m pd i = ref_table (mem k) pd i"
proof -
  have o: "paging_wf (mem k) pd" "pmm_area (pmm k) \<inter> paging_area (mem k) pd = {}"
    "arena k \<inter> (paging_area (mem k) pd \<union> pmm_area (pmm k)) = {}" "\<not> paging_enabled k"
    using ok by (simp_all add: paging_ok_def)
  have "mem k x = m x" if "x \<in> paging_area (mem k) pd" for x
    using that o(2) by (intro m [rule_format, symmetric]) blast
  note pc = paging_cong [of "mem k" pd m, OF this]
  have "m x = mem k x" if "x \<in> arena k" for x
    using that o(3) by (intro m [rule_format]) blast
  then have ar: "arena k' = arena k \<and> room k' = room k"
    by (intro arena_cong) (simp_all add: k'_def)
  have "pmm_area p = pmm_area (pmm k)" using p(2) by (simp add: pmm_area_def)
  then show "paging_ok (arena k') k' pd" using ar o p pc by (simp add: paging_ok_def k'_def)
  show "room k' = room k" using ar by simp
  show "mapped m pd va = mapped (mem k) pd va"
    "\<And>i. i < 1024 \<Longrightarrow> ref_table m pd i = ref_table (mem k) pd i"
    using pc by simp_all
qed

text \<open>
  Mapping a page: a mapped page keeps its frame; an unmapped one gets the frame asked for, or a frame
  that was free. Every other page keeps its mapping.
\<close>

lemma allocate_page_spec:
  assumes ok: "paging_ok (arena k) k pd"
    and room: "ref_table (mem k) pd (dir_index va) \<noteq> NULL \<or> 0 < room k"
    and free: "frame \<noteq> 0 \<or> pmm_used (mem k, pmm k) \<noteq> pmm_blocks (mem k, pmm k)"
  shows "\<exists>k'. allocate_page malloc pd va frame is_kernel is_writeable k = Some k' \<and>
    paging_ok (arena k') k' pd \<and> room k - 1 \<le> room k' \<and>
    paging k' = paging k \<and> paging_enabled k' = paging_enabled k \<and>
    pm_bitmap (pmm k') = pm_bitmap (pmm k) \<and>
    (\<forall>va'. page_number va' \<noteq> page_number va \<longrightarrow> mapped (mem k') pd va' = mapped (mem k) pd va') \<and>
    (if mapped (mem k) pd va \<noteq> None then mapped (mem k') pd va = mapped (mem k) pd va \<and>
        pmm_used (mem k', pmm k') = pmm_used (mem k, pmm k)
     else if frame \<noteq> 0 then mapped (mem k') pd va = Some (take_bit 20 frame) \<and>
        pmm_used (mem k', pmm k') = pmm_used (mem k, pmm k)
     else \<exists>b \<in> pmm_blocks (mem k, pmm k) - pmm_used (mem k, pmm k).
        (\<forall>i < b. i \<in> pmm_used (mem k, pmm k)) \<and> mapped (mem k') pd va = Some (take_bit 20 b) \<and>
        pmm_used (mem k', pmm k') = insert b (pmm_used (mem k, pmm k)))"
proof -
  obtain t k1 where g: "get_table malloc pd va is_kernel is_writeable k = Some (t, k1)"
    "t \<noteq> NULL" "ref_table (mem k1) pd (dir_index va) = t" "paging_ok (arena k1) k1 pd"
    "\<forall>va'. mapped (mem k1) pd va' = mapped (mem k) pd va'"
    "pmm_used (mem k1, pmm k1) = pmm_used (mem k, pmm k)" "same_but_heap k k1"
    "room k1 = room k - (if ref_table (mem k) pd (dir_index va) = NULL then 1 else 0)"
    using get_table_spec [OF ok room] by blast
  then have r: "room k - 1 \<le> room k1" by simp
  have s: "pmm k1 = pmm k" "paging k1 = paging k" "paging_enabled k1 = paging_enabled k"
    using g(7) by (simp_all add: same_but_heap_def)
  have mp: "mapped (mem k1) pd va = (let e = read32 (mem k1) (pte_addr t va) in
      if entry_present e then Some (entry_frame e) else None)"
    using g(2,3) by (simp add: mapped_def Let_def)
  show ?thesis
  proof (cases "entry_present (read32 (mem k1) (pte_addr t va))")
    case True
    then have "allocate_page malloc pd va frame is_kernel is_writeable k = Some k1"
      using g(1) by (simp add: allocate_page_def)
    moreover have "mapped (mem k) pd va \<noteq> None" using True mp g(5) [rule_format, of va] by simp
    ultimately show ?thesis using g(4,5,6) r s by simp
  next
    case False
    then have un: "mapped (mem k) pd va = None" using mp g(5) [rule_format, of va] by simp
    have bl: "pmm_blocks (mem k1, pmm k1) = pmm_blocks (mem k, pmm k)"
      by (simp add: s pmm_blocks_def)
    show ?thesis
    proof (cases "frame = 0")
      case True
      then have "pmm_used (mem k1, pmm k1) \<noteq> pmm_blocks (mem k1, pmm k1)" using free g(6) bl by simp
      from get_frame_free [OF g(4) this] obtain b m p where
        f: "get_frame 0 k1 = Some (Some b, k1\<lparr>mem := m, pmm := p\<rparr>)"
        "b \<in> pmm_blocks (mem k, pmm k) - pmm_used (mem k, pmm k)" "\<forall>i < b. i \<in> pmm_used (mem k, pmm k)"
        "pmm_used (m, p) = insert b (pmm_used (mem k, pmm k))" "pmm_inv (m, p)"
        "pm_bitmap p = pm_bitmap (pmm k1)" "\<forall>x. x \<notin> pmm_area (pmm k1) \<longrightarrow> m x = mem k1 x"
        unfolding bl g(6) by blast
      let ?k = "k1\<lparr>mem := m, pmm := p\<rparr>"
      note tf = take_frame_ok [OF g(4) f(5,6,7)]
      have t: "ref_table (mem ?k) pd (dir_index va) = t" using tf(4) [OF dir_index_bound] g(3) by simp
      define e where "e = set_flag 2 (\<not> is_kernel) (set_flag 1 is_writeable
        (set_flag 0 True (set_frame b (read32 m (pte_addr t va)))))"
      note we = write_entry_ok [where e = e, OF tf(1) t g(2)]
      have e: "entry_present e" "entry_frame e = take_bit 20 b" by (simp_all add: e_def)
      have "allocate_page malloc pd va frame is_kernel is_writeable k
          = Some (?k\<lparr>mem := write32 m (pte_addr t va) e\<rparr>)"
        using False True g(1) f(1) by (simp add: allocate_page_def Let_def e_def)
      moreover have "mapped m pd va' = mapped (mem k) pd va'" for va' using tf(3) g(5) by simp
      ultimately show ?thesis
        using we e tf(2) r s f(2,3,4,6) True un
        by (intro exI [of _ "?k\<lparr>mem := write32 m (pte_addr t va) e\<rparr>"]) auto
    next
      case nz: False
      define e where "e = set_flag 2 (\<not> is_kernel) (set_flag 1 is_writeable
        (set_flag 0 True (set_frame frame (read32 (mem k1) (pte_addr t va)))))"
      note we = write_entry_ok [where e = e, OF g(4,3,2)]
      have e: "entry_present e" "entry_frame e = take_bit 20 frame" by (simp_all add: e_def)
      have "allocate_page malloc pd va frame is_kernel is_writeable k
          = Some (k1\<lparr>mem := write32 (mem k1) (pte_addr t va) e\<rparr>)"
        using False nz g(1) by (simp add: allocate_page_def Let_def e_def get_frame_given)
      then show ?thesis using we e g(5,6) r s nz un by simp
    qed
  qed
qed

text \<open>Unmapping a page: it alone loses its mapping, and its frame is released when asked.\<close>

lemma free_page_spec:
  assumes ok: "paging_ok (arena k) k pd" and f: "mapped (mem k) pd va = Some f"
    and used: "should_free \<longrightarrow> f \<in> pmm_used (mem k, pmm k)"
  defines "k' \<equiv> free_page pd va should_free k"
  shows "paging_ok (arena k') k' pd \<and> room k' = room k \<and> mapped (mem k') pd va = None \<and>
    (\<forall>va'. page_number va' \<noteq> page_number va \<longrightarrow> mapped (mem k') pd va' = mapped (mem k) pd va') \<and>
    pmm_used (mem k', pmm k') = pmm_used (mem k, pmm k) - (if should_free then {f} else {})"
proof -
  let ?t = "ref_table (mem k) pd (dir_index va)"
  let ?a = "pte_addr ?t va"
  have t: "?t \<noteq> NULL" "entry_present (read32 (mem k) ?a)" "entry_frame (read32 (mem k) ?a) = f"
    using f by (auto simp: mapped_def Let_def split: if_splits)
  have inv: "pmm_inv (mem k, pmm k)" using ok by (simp add: paging_ok_def)
  obtain m p where fr: "physical_memory_manager_free_block f (mem k, pmm k) = (m, p)"
    by (metis surj_pair)
  define k1 where "k1 = (if should_free then k\<lparr>mem := m, pmm := p\<rparr> else k)"
  have k1: "paging_ok (arena k1) k1 pd" "room k1 = room k"
    "mapped (mem k1) pd va' = mapped (mem k) pd va'" "ref_table (mem k1) pd (dir_index va) = ?t"
    "pmm_used (mem k1, pmm k1) = pmm_used (mem k, pmm k) - (if should_free then {f} else {})" for va'
  proof -
    have "paging_ok (arena (k\<lparr>mem := m, pmm := p\<rparr>)) (k\<lparr>mem := m, pmm := p\<rparr>) pd \<and>
        room (k\<lparr>mem := m, pmm := p\<rparr>) = room k \<and> mapped m pd va' = mapped (mem k) pd va' \<and>
        ref_table m pd (dir_index va) = ?t \<and> pmm_used (m, p) = pmm_used (mem k, pmm k) - {f}"
      if "should_free"
    proof -
      have fu: "f \<in> pmm_used (mem k, pmm k)" using used that by simp
      then have fb: "f < bit_count (pm_bitmap (pmm k))" by (simp add: pmm_used_def pmm_blocks_def)
      have r: "m = bitmap_clear_bit (mem k) (pm_bitmap (pmm k)) f" "pm_bitmap p = pm_bitmap (pmm k)"
        using fr inv by (auto simp: physical_memory_manager_free_block_def pmm_inv_def)
      have "m x = mem k x" if "x \<notin> pmm_area (pmm k)" for x
        using that inv fb by (simp add: r(1) bitmap_clear_bit_frame pmm_inv_def pmm_area_def region_def)
      with pmm.release_block [OF inv fu] r(2) fr show ?thesis
        using take_frame_ok [OF ok, of m p] dir_index_bound by simp
    qed
    then show "paging_ok (arena k1) k1 pd" "room k1 = room k"
      "mapped (mem k1) pd va' = mapped (mem k) pd va'" "ref_table (mem k1) pd (dir_index va) = ?t"
      "pmm_used (mem k1, pmm k1) = pmm_used (mem k, pmm k) - (if should_free then {f} else {})"
      using ok by (cases should_free; simp add: k1_def)+
  qed
  let ?e = "set_frame 0 (set_flag 0 False (read32 (mem k1) ?a))"
  have k': "k' = k1\<lparr>mem := write32 (mem k1) ?a ?e\<rparr>"
    using t fr by (cases should_free) (simp_all add: k'_def k1_def free_page_def Let_def)
  note we = write_entry_ok [where e = ?e, OF k1(1,4) t(1)]
  show ?thesis using we k1 by (simp add: k')
qed

end

section \<open>The range loop\<close>

text \<open>The page addresses the loop visits, and running its body on them in turn.\<close>

definition page_list :: "u32 \<Rightarrow> u32 \<Rightarrow> u32 list" where
  "page_list a e = (if a \<le> e then map (\<lambda>i. a + 4096 * of_nat i) [0..<Suc ((unat e - unat a) div 4096)] else [])"

fun run_pages :: "(u32 \<Rightarrow> 's \<Rightarrow> 's option) \<Rightarrow> u32 list \<Rightarrow> 's \<Rightarrow> 's option" where
  "run_pages body [] k = Some k"
| "run_pages body (a # as) k = Option.bind (body a k) (run_pages body as)"

lemma page_step:
  assumes "a \<le> e" "e < 0xFFFFF000"
  shows "unat (a + PAGE_SIZE) = unat a + 4096"
  using assms by (subst unat_add_noov) (simp_all add: PAGE_SIZE_def word_le_nat_alt word_less_nat_alt)

lemma page_list_step:
  assumes "a \<le> e" "e < 0xFFFFF000"
  shows "page_list a e = a # page_list (a + PAGE_SIZE) e"
proof -
  have u: "unat (a + PAGE_SIZE) = unat a + 4096" and le: "unat a \<le> unat e"
    using page_step [OF assms] assms(1) by (simp_all add: word_le_nat_alt)
  have "page_list (a + PAGE_SIZE) e = map (\<lambda>i. a + 4096 * of_nat i) [1..<Suc ((unat e - unat a) div 4096)]"
  proof (cases "a + PAGE_SIZE \<le> e")
    case True
    then have "4096 \<le> unat e - unat a" using u by (simp add: word_le_nat_alt)
    then have "(unat e - unat a) div 4096 = Suc ((unat e - unat (a + PAGE_SIZE)) div 4096)"
      using u le by (simp add: div_if [of "unat e - unat a"])
    then show ?thesis
      using True by (simp add: page_list_def map_Suc_upt [symmetric] PAGE_SIZE_def algebra_simps
          del: upt_Suc)
  next
    case False
    then have "(unat e - unat a) div 4096 = 0" using u le by (simp add: word_le_nat_alt)
    then show ?thesis using False by (simp add: page_list_def)
  qed
  then show ?thesis
    using assms(1) by (simp add: page_list_def upt_conv_Cons [of 0] del: upt_Suc)
qed

lemma page_loop_runs:
  assumes "e < 0xFFFFF000"
  shows "page_loop body a e k = run_pages body (page_list a e) k"
proof (induction "unat e + 4096 - unat a" arbitrary: a k rule: less_induct)
  case less
  show ?case
  proof (cases "a \<le> e")
    case True
    then have "unat e + 4096 - unat (a + PAGE_SIZE) < unat e + 4096 - unat a"
      using page_step [OF True assms] by (simp add: word_le_nat_alt)
    then have "page_loop body (a + PAGE_SIZE) e k' = run_pages body (page_list (a + PAGE_SIZE) e) k'" for k'
      by (rule less)
    then show ?thesis
      using True page_list_step [OF True assms]
      by (subst page_loop.simps) (cases "body a k"; simp)
  next
    case False
    then show ?thesis by (subst page_loop.simps) (simp add: page_list_def)
  qed
qed

text \<open>From a page boundary up to the last page, the loop wraps around and goes on for ever.\<close>

lemma page_wrap:
  assumes "4096 dvd unat a" "0xFFFFF000 \<le> e"
  shows "4096 dvd unat (a + PAGE_SIZE) \<and> a + PAGE_SIZE \<le> e"
proof (cases "unat a + 4096 < 4294967296")
  case True
  then have u: "unat (a + PAGE_SIZE) = unat a + 4096" by (subst unat_add_noov) (simp_all add: PAGE_SIZE_def)
  from assms(1) obtain q where q: "unat a = 4096 * q" by (auto elim: dvdE)
  have "unat a + 4096 \<le> 4294963200" using True q by simp
  then show ?thesis using u q assms by (simp add: word_le_nat_alt)
next
  case False
  then have "unat (a + PAGE_SIZE) = (unat a + 4096 - 4294967296) mod 4294967296"
    by (simp add: PAGE_SIZE_def unat_word_ariths le_mod_geq)
  then have "unat (a + PAGE_SIZE) = unat a + 4096 - 4294967296"
    using unat_less_2p32 [of a] by simp
  moreover from assms(1) obtain q where q: "unat a = 4096 * q" by (auto elim: dvdE)
  ultimately show ?thesis
    using False unat_less_2p32 [of a] assms(2) by (simp add: word_le_nat_alt)
qed

lemma page_loop_endless:
  assumes "page_loop body a e k = Some k'"
  shows "4096 dvd unat a \<longrightarrow> a \<le> e \<longrightarrow> 0xFFFFF000 \<le> e \<longrightarrow> False"
proof (rule page_loop.raw_induct [where P = "\<lambda>body a e k r. 4096 dvd unat a \<longrightarrow> a \<le> e \<longrightarrow>
    0xFFFFF000 \<le> e \<longrightarrow> False", OF _ assms], intro impI)
  fix loop :: "(u32 \<Rightarrow> kmem \<Rightarrow> kmem option) \<Rightarrow> u32 \<Rightarrow> u32 \<Rightarrow> kmem \<Rightarrow> kmem option"
  fix body :: "u32 \<Rightarrow> kmem \<Rightarrow> kmem option" and a e :: u32 and k r
  assume IH: "\<And>body a e k r. loop body a e k = Some r \<Longrightarrow>
      4096 dvd unat a \<longrightarrow> a \<le> e \<longrightarrow> 0xFFFFF000 \<le> e \<longrightarrow> False"
    and eq: "(if a \<le> e then Option.bind (body a k) (loop body (a + PAGE_SIZE) e) else Some k) = Some r"
    and *: "4096 dvd unat a" "a \<le> e" "0xFFFFF000 \<le> e"
  obtain k1 where "loop body (a + PAGE_SIZE) e k1 = Some r"
    using eq * by (auto simp: Option.bind_eq_Some_conv)
  then show False using IH page_wrap [OF *(1,3)] *(3) by blast
qed

section \<open>Isolation of pages, and mapping of ranges\<close>

text \<open>No frame serves two pages, and every frame in the address space is marked used.\<close>

definition frames_exclusive :: "kmem \<Rightarrow> u32 \<Rightarrow> bool" where
  "frames_exclusive k pd \<longleftrightarrow>
     (\<forall>va f. mapped (mem k) pd va = Some f \<longrightarrow> f \<in> pmm_used (mem k, pmm k)) \<and>
     (\<forall>va va' f. mapped (mem k) pd va = Some f \<longrightarrow> mapped (mem k) pd va' = Some f \<longrightarrow>
        page_number va = page_number va')"

lemma mapped_page_number: "page_number va = page_number va' \<Longrightarrow> mapped m pd va = mapped m pd va'"
  by (simp add: mapped_def page_number_split pte_addr_def Let_def)

lemma take_frame_bits: "(b :: u32) < c \<Longrightarrow> c \<le> 0x100000 \<Longrightarrow> take_bit 20 b = b"
  by (simp add: word_unat_eq_iff take_bit_eq_mod unat_mod word_less_nat_alt word_le_nat_alt)

context page_allocator
begin

lemma allocate_page_exclusive:
  assumes ok: "paging_ok (arena k) k pd" and ex: "frames_exclusive k pd"
    and bits: "bit_count (pm_bitmap (pmm k)) \<le> 0x100000"
    and room: "0 < room k" and free: "pmm_used (mem k, pmm k) \<noteq> pmm_blocks (mem k, pmm k)"
  shows "\<exists>k'. allocate_page malloc pd va 0 is_kernel is_writeable k = Some k' \<and>
    paging_ok (arena k') k' pd \<and> frames_exclusive k' pd \<and> room k - 1 \<le> room k' \<and>
    paging k' = paging k \<and> paging_enabled k' = paging_enabled k \<and>
    pm_bitmap (pmm k') = pm_bitmap (pmm k) \<and>
    card (pmm_used (mem k', pmm k')) \<le> Suc (card (pmm_used (mem k, pmm k))) \<and>
    mapped (mem k') pd va \<noteq> None \<and>
    (\<forall>va'. mapped (mem k) pd va' \<noteq> None \<or> page_number va' \<noteq> page_number va \<longrightarrow>
       mapped (mem k') pd va' = mapped (mem k) pd va')"
proof -
  let ?U = "pmm_used (mem k, pmm k)"
  obtain k' where k': "allocate_page malloc pd va 0 is_kernel is_writeable k = Some k'"
    "paging_ok (arena k') k' pd" "room k - 1 \<le> room k'" "paging k' = paging k"
    "paging_enabled k' = paging_enabled k" "pm_bitmap (pmm k') = pm_bitmap (pmm k)"
    and oth: "\<And>va'. page_number va' \<noteq> page_number va \<Longrightarrow> mapped (mem k') pd va' = mapped (mem k) pd va'"
    and old: "mapped (mem k) pd va \<noteq> None \<Longrightarrow> mapped (mem k') pd va = mapped (mem k) pd va \<and>
        pmm_used (mem k', pmm k') = ?U"
    and new: "mapped (mem k) pd va = None \<Longrightarrow> \<exists>b \<in> pmm_blocks (mem k, pmm k) - ?U.
        (\<forall>i < b. i \<in> ?U) \<and> mapped (mem k') pd va = Some (take_bit 20 b) \<and> pmm_used (mem k', pmm k') = insert b ?U"
    using allocate_page_spec [OF ok, of va 0 is_kernel is_writeable] room free by auto
  show ?thesis
  proof (cases "mapped (mem k) pd va")
    case (Some f)
    have same: "mapped (mem k') pd va' = mapped (mem k) pd va'" for va'
    proof (cases "page_number va' = page_number va")
      case True
      with old Some show ?thesis by (simp add: mapped_page_number [OF True])
    qed (rule oth)
    have u: "pmm_used (mem k', pmm k') = ?U" using old Some by simp
    have "frames_exclusive k' pd" using ex unfolding frames_exclusive_def same u .
    then show ?thesis using k' by (intro exI [of _ k']) (simp add: same u Some)
  next
    case None
    then obtain b where b: "b < bit_count (pm_bitmap (pmm k))" "b \<notin> ?U"
      "mapped (mem k') pd va = Some b" "pmm_used (mem k', pmm k') = insert b ?U"
      using new take_frame_bits [OF _ bits] by (auto simp: pmm_blocks_def)
    have m: "mapped (mem k') pd va' = (if page_number va' = page_number va then Some b else mapped (mem k) pd va')" for va'
    proof (cases "page_number va' = page_number va")
      case True
      with b(3) show ?thesis by (simp add: mapped_page_number [OF True])
    qed (simp add: oth)
    have fU: "f \<in> ?U" if "mapped (mem k) pd va' = Some f" for va' f
      using ex that by (simp add: frames_exclusive_def)
    from fU b(2) have nb: "mapped (mem k) pd va' \<noteq> Some b" for va' by blast
    have "frames_exclusive k' pd"
      unfolding frames_exclusive_def
    proof (intro conjI allI impI)
      fix v f assume "mapped (mem k') pd v = Some f"
      then show "f \<in> pmm_used (mem k', pmm k')"
        using fU [of v f] b(4) m [of v] by (cases "page_number v = page_number va") simp_all
    next
      fix v v' f assume v: "mapped (mem k') pd v = Some f" "mapped (mem k') pd v' = Some f"
      show "page_number v = page_number v'"
      proof (cases "page_number v = page_number va \<or> page_number v' = page_number va")
        case True
        then have "f = b" using v m [of v] m [of v'] by auto
        then show ?thesis
          using v m [of v] m [of v'] nb [of v] nb [of v']
          by (cases "page_number v = page_number va"; cases "page_number v' = page_number va") simp_all
      next
        case False
        have "mapped (mem k) pd v = Some f"
          by (rule trans [OF sym [OF oth] v(1)]) (use False in blast)
        moreover have "mapped (mem k) pd v' = Some f"
          by (rule trans [OF sym [OF oth] v(2)]) (use False in blast)
        ultimately show ?thesis using ex unfolding frames_exclusive_def by blast
      qed
    qed
    moreover have "card (pmm_used (mem k', pmm k')) \<le> Suc (card ?U)"
      using b by (simp add: card_insert_if)
    moreover have "mapped (mem k') pd va' = mapped (mem k) pd va'"
      if "mapped (mem k) pd va' \<noteq> None \<or> page_number va' \<noteq> page_number va" for va'
      using that m [of va'] None mapped_page_number [of va' va "mem k" pd] by auto
    ultimately show ?thesis using k' b(3) by (intro exI [of _ k']) simp
  qed
qed

lemma allocate_pages_exclusive:
  assumes "paging_ok (arena k) k pd" "frames_exclusive k pd" "page_directory (paging k) = pd"
    "bit_count (pm_bitmap (pmm k)) \<le> 0x100000" "length as \<le> room k"
    "length as + card (pmm_used (mem k, pmm k)) \<le> unat (bit_count (pm_bitmap (pmm k)))"
  shows "\<exists>k'. run_pages (\<lambda>a k. allocate_page malloc (page_directory (paging k)) a 0 is_kernel is_writeable k) as k
      = Some k' \<and> paging_ok (arena k') k' pd \<and> frames_exclusive k' pd \<and>
    (\<forall>va \<in> set as. mapped (mem k') pd va \<noteq> None) \<and>
    (\<forall>va. mapped (mem k) pd va \<noteq> None \<or> page_number va \<notin> page_number ` set as \<longrightarrow>
       mapped (mem k') pd va = mapped (mem k) pd va)"
  using assms
proof (induction as arbitrary: k)
  case (Cons a as)
  have "card (pmm_used (mem k, pmm k)) < card (pmm_blocks (mem k, pmm k))"
    using Cons.prems(6) card_pmm_blocks [of "(mem k, pmm k)"] by simp
  then have free: "pmm_used (mem k, pmm k) \<noteq> pmm_blocks (mem k, pmm k)" by auto
  have "0 < room k" using Cons.prems(5) by simp
  from allocate_page_exclusive [OF Cons.prems(1,2,4) this free, of a is_kernel is_writeable]
  obtain k1 where k1: "allocate_page malloc pd a 0 is_kernel is_writeable k = Some k1"
    "paging_ok (arena k1) k1 pd" "frames_exclusive k1 pd" "room k - 1 \<le> room k1" "paging k1 = paging k"
    "pm_bitmap (pmm k1) = pm_bitmap (pmm k)"
    "card (pmm_used (mem k1, pmm k1)) \<le> Suc (card (pmm_used (mem k, pmm k)))"
    "mapped (mem k1) pd a \<noteq> None"
    "\<And>va'. mapped (mem k) pd va' \<noteq> None \<or> page_number va' \<noteq> page_number a \<Longrightarrow>
       mapped (mem k1) pd va' = mapped (mem k) pd va'" by blast
  have "\<exists>k'. run_pages (\<lambda>a k. allocate_page malloc (page_directory (paging k)) a 0 is_kernel is_writeable k) as k1
      = Some k' \<and> paging_ok (arena k') k' pd \<and> frames_exclusive k' pd \<and>
    (\<forall>va \<in> set as. mapped (mem k') pd va \<noteq> None) \<and>
    (\<forall>va. mapped (mem k1) pd va \<noteq> None \<or> page_number va \<notin> page_number ` set as \<longrightarrow>
       mapped (mem k') pd va = mapped (mem k1) pd va)"
    using Cons.prems(3-6) k1(4-7) by (intro Cons.IH [OF k1(2,3)]) simp_all
  then obtain k2 where k2:
    "run_pages (\<lambda>a k. allocate_page malloc (page_directory (paging k)) a 0 is_kernel is_writeable k) as k1 = Some k2"
    "paging_ok (arena k2) k2 pd" "frames_exclusive k2 pd" "\<forall>va \<in> set as. mapped (mem k2) pd va \<noteq> None"
    "\<And>va. mapped (mem k1) pd va \<noteq> None \<or> page_number va \<notin> page_number ` set as \<Longrightarrow>
       mapped (mem k2) pd va = mapped (mem k1) pd va" by blast
  have "mapped (mem k2) pd va = mapped (mem k) pd va"
    if "mapped (mem k) pd va \<noteq> None \<or> page_number va \<notin> page_number ` set (a # as)" for va
  proof -
    have 1: "mapped (mem k1) pd va = mapped (mem k) pd va" using that k1(9) [of va] by auto
    moreover have "mapped (mem k2) pd va = mapped (mem k1) pd va" using that 1 k2(5) [of va] by auto
    ultimately show ?thesis by simp
  qed
  moreover have "mapped (mem k2) pd a \<noteq> None" using k1(8) k2(5) [of a] by simp
  ultimately show ?case using k1(1) k2(1-4) Cons.prems(3) by auto
qed simp

text \<open>
  When the used frames are the first \<open>n\<close>, mapping fresh pages one after the other hands out the
  frames \<open>n\<close>, \<open>n + 1\<close>, and so on.
\<close>

lemma allocate_page_next:
  assumes ok: "paging_ok (arena k) k pd" and used: "pmm_used (mem k, pmm k) = {b. b < n}"
    and n: "n < bit_count (pm_bitmap (pmm k))" "bit_count (pm_bitmap (pmm k)) \<le> 0x100000"
    and room: "0 < room k" and un: "mapped (mem k) pd va = None"
  shows "\<exists>k'. allocate_page malloc pd va 0 is_kernel is_writeable k = Some k' \<and>
    paging_ok (arena k') k' pd \<and> room k - 1 \<le> room k' \<and> paging k' = paging k \<and>
    paging_enabled k' = paging_enabled k \<and> pm_bitmap (pmm k') = pm_bitmap (pmm k) \<and>
    pmm_used (mem k', pmm k') = {b. b < n + 1} \<and> mapped (mem k') pd va = Some n \<and>
    (\<forall>va'. page_number va' \<noteq> page_number va \<longrightarrow> mapped (mem k') pd va' = mapped (mem k) pd va')"
proof -
  have free: "pmm_used (mem k, pmm k) \<noteq> pmm_blocks (mem k, pmm k)"
    using n(1) unfolding used pmm_blocks_def by (auto dest: set_eq_iff [THEN iffD1, rule_format, of _ _ n])
  obtain k' b where k': "allocate_page malloc pd va 0 is_kernel is_writeable k = Some k'"
    "paging_ok (arena k') k' pd" "room k - 1 \<le> room k'" "paging k' = paging k"
    "paging_enabled k' = paging_enabled k" "pm_bitmap (pmm k') = pm_bitmap (pmm k)"
    "\<forall>va'. page_number va' \<noteq> page_number va \<longrightarrow> mapped (mem k') pd va' = mapped (mem k) pd va'"
    and b: "b \<in> pmm_blocks (mem k, pmm k) - {b. b < n}" "\<forall>i < b. i \<in> {b. b < n}"
      "mapped (mem k') pd va = Some (take_bit 20 b)" "pmm_used (mem k', pmm k') = insert b {b. b < n}"
    using allocate_page_spec [OF ok, of va 0 is_kernel is_writeable] room free un
    unfolding used by auto
  have "b = n" using b(1,2) by (metis DiffE antisym linorder_not_le mem_Collect_eq order_refl)
  moreover have "insert n {b. b < n} = {b. b < n + 1}"
    using n(1) by (auto simp: less_Suc_eq_le word_less_nat_alt word_le_nat_alt word_unat_eq_iff unat_Suc_u32)
  ultimately show ?thesis using k' b(3,4) take_frame_bits [OF n] by (intro exI [of _ k']) simp
qed

lemma allocate_pages_next:
  assumes "paging_ok (arena k) k pd" "page_directory (paging k) = pd"
    "pmm_used (mem k, pmm k) = {b. b < n}" "bit_count (pm_bitmap (pmm k)) \<le> 0x100000"
    "unat n + length as \<le> unat (bit_count (pm_bitmap (pmm k)))" "length as \<le> room k"
    "distinct (map page_number as)" "\<forall>va \<in> set as. mapped (mem k) pd va = None"
  shows "\<exists>k'. run_pages (\<lambda>a k. allocate_page malloc (page_directory (paging k)) a 0 is_kernel is_writeable k) as k
      = Some k' \<and> paging_ok (arena k') k' pd \<and> paging k' = paging k \<and> paging_enabled k' = paging_enabled k \<and>
    (\<forall>i < length as. mapped (mem k') pd (as ! i) = Some (n + of_nat i)) \<and>
    (\<forall>va. page_number va \<notin> page_number ` set as \<longrightarrow> mapped (mem k') pd va = mapped (mem k) pd va)"
  using assms
proof (induction as arbitrary: k n)
  case (Cons a as)
  have n: "n < bit_count (pm_bitmap (pmm k))" using Cons.prems(5) by (simp add: word_less_nat_alt)
  have "0 < room k" "mapped (mem k) pd a = None" using Cons.prems(6,8) by simp_all
  from allocate_page_next [OF Cons.prems(1,3) n Cons.prems(4) this, of is_kernel is_writeable]
  obtain k1 where k1: "allocate_page malloc pd a 0 is_kernel is_writeable k = Some k1"
    "paging_ok (arena k1) k1 pd" "room k - 1 \<le> room k1" "paging k1 = paging k"
    "paging_enabled k1 = paging_enabled k" "pm_bitmap (pmm k1) = pm_bitmap (pmm k)"
    "pmm_used (mem k1, pmm k1) = {b. b < n + 1}" "mapped (mem k1) pd a = Some n"
    "\<And>va'. page_number va' \<noteq> page_number a \<Longrightarrow> mapped (mem k1) pd va' = mapped (mem k) pd va'" by blast
  have un: "unat (n + 1) = Suc (unat n)" using n by (rule unat_Suc_u32)
  have "\<forall>va \<in> set as. mapped (mem k1) pd va = None"
    using Cons.prems(7,8) k1(9) by (auto simp: image_iff)
  moreover have "unat (n + 1) + length as \<le> unat (bit_count (pm_bitmap (pmm k1)))"
    using Cons.prems(5) un by (simp add: k1(6))
  ultimately have "\<exists>k'. run_pages (\<lambda>a k. allocate_page malloc (page_directory (paging k)) a 0 is_kernel is_writeable k) as k1
      = Some k' \<and> paging_ok (arena k') k' pd \<and> paging k' = paging k1 \<and> paging_enabled k' = paging_enabled k1 \<and>
    (\<forall>i < length as. mapped (mem k') pd (as ! i) = Some (n + 1 + of_nat i)) \<and>
    (\<forall>va. page_number va \<notin> page_number ` set as \<longrightarrow> mapped (mem k') pd va = mapped (mem k1) pd va)"
    using Cons.prems(2,4,6,7) k1(3,4,6) by (intro Cons.IH [OF k1(2) _ k1(7)]) simp_all
  then obtain k2 where k2:
    "run_pages (\<lambda>a k. allocate_page malloc (page_directory (paging k)) a 0 is_kernel is_writeable k) as k1 = Some k2"
    "paging_ok (arena k2) k2 pd" "paging k2 = paging k1" "paging_enabled k2 = paging_enabled k1"
    "\<And>i. i < length as \<Longrightarrow> mapped (mem k2) pd (as ! i) = Some (n + 1 + of_nat i)"
    "\<And>va. page_number va \<notin> page_number ` set as \<Longrightarrow> mapped (mem k2) pd va = mapped (mem k1) pd va" by blast
  have "mapped (mem k2) pd a = Some n" using k2(6) [of a] k1(8) Cons.prems(7) by simp
  then have "mapped (mem k2) pd ((a # as) ! i) = Some (n + of_nat i)" if "i < length (a # as)" for i
    using that k2(5) [of "i - 1"] by (cases i) (simp_all add: algebra_simps)
  moreover have "mapped (mem k2) pd va = mapped (mem k) pd va"
    if "page_number va \<notin> page_number ` set (a # as)" for va
    using that k2(6) [of va] k1(9) [of va] by simp
  ultimately show ?case using k1(1,4,5) k2(1-4) Cons.prems(2) by auto
qed simp

end

lemma unat_page_number: "unat (page_number va) = unat va div 4096"
  by (simp add: page_number_def drop_bit_eq_div unat_div)

lemma unat_page_offset: "unat (page_offset va) = unat va mod 4096"
  by (simp add: page_offset_def and_0xFFF take_bit_eq_mod unat_mod)

text \<open>The pages of a range that starts on a page boundary.\<close>

lemma page_list_pages:
  assumes a: "4096 dvd unat a" "a \<le> e"
  shows "length (page_list a e) = Suc ((unat e - unat a) div 4096)"
    and "i < length (page_list a e) \<Longrightarrow> unat (page_number (page_list a e ! i)) = unat a div 4096 + i"
    and "distinct (map page_number (page_list a e))"
proof -
  let ?n = "(unat e - unat a) div 4096"
  from a(1) obtain q where q: "unat a = 4096 * q" by (auto elim: dvdE)
  show l: "length (page_list a e) = Suc ?n" using a(2) by (simp add: page_list_def)
  have nth: "page_list a e ! i = a + 4096 * of_nat i" if "i < Suc ?n" for i
    using that a(2) by (simp add: page_list_def del: upt_Suc)
  have pn: "unat (page_number (page_list a e ! i)) = unat a div 4096 + i" if "i < Suc ?n" for i
  proof -
    have "i * 4096 \<le> unat e - unat a" using that by (simp add: less_Suc_eq_le less_eq_div_iff_mult_less_eq)
    then have b: "unat a + 4096 * i \<le> unat e" using a(2) by (simp add: word_le_nat_alt)
    then have "4096 * i < 4294967296" using unat_less_2p32 [of e] by linarith
    then have "unat (4096 * of_nat i :: u32) = 4096 * i"
      using iffD1 [OF unat_mult_lem, of "4096 :: u32" "of_nat i"] by (simp add: unat_of_nat_u32)
    then have "unat (a + 4096 * of_nat i) = unat a + 4096 * i"
      using b unat_less_2p32 [of e] by (subst unat_add_noov) simp_all
    then show ?thesis using nth [OF that] q by (simp add: unat_page_number)
  qed
  then show "i < length (page_list a e) \<Longrightarrow> unat (page_number (page_list a e ! i)) = unat a div 4096 + i"
    by (simp only: l)
  show "distinct (map page_number (page_list a e))"
    unfolding distinct_conv_nth
  proof (intro allI impI)
    fix i j assume ij: "i < length (map page_number (page_list a e))" "j < length (map page_number (page_list a e))" "i \<noteq> j"
    then have "unat (page_number (page_list a e ! i)) \<noteq> unat (page_number (page_list a e ! j))"
      using pn l by simp
    then show "map page_number (page_list a e) ! i \<noteq> map page_number (page_list a e) ! j"
      using ij by auto
  qed
qed

end
