(* ===== verification/Heap.thy ===== *)
theory Heap
  imports Paging
begin

text \<open>
  The heap manager (heap-manager.c): the bump allocator that serves the kernel before the heap
  exists, and the heap proper, blocks with headers and footers in memory and an index of the holes
  ordered by size. Growing the heap maps new pages; \<open>ranges\<close> stands for that operation of the paging
  manager (its first argument selects identity mapping) and is supplied by theory Kernel_Memory.
\<close>

type_synonym ranges = "bool \<Rightarrow> u32 \<Rightarrow> u32 \<Rightarrow> bool \<Rightarrow> bool \<Rightarrow> kmem \<Rightarrow> kmem option"

section \<open>Headers and footers\<close>

definition HEAP_MAGIC :: u32 where "HEAP_MAGIC = 0xDEADBEEF"
definition HEAP_INDEX_SIZE :: u32 where "HEAP_INDEX_SIZE = 0x20000"
definition HEAP_MIN_SIZE :: u32 where "HEAP_MIN_SIZE = 0x70000"
definition sizeof_header :: u32 where "sizeof_header = 12"
definition sizeof_footer :: u32 where "sizeof_footer = 8"

text \<open>\<open>heap_header_t\<close> is magic, size, is_hole and padding; \<open>heap_footer_t\<close> is magic and header.\<close>

definition header_magic :: "mem \<Rightarrow> u32 \<Rightarrow> u32" where "header_magic m h = read32 m h"
definition header_size :: "mem \<Rightarrow> u32 \<Rightarrow> u32" where "header_size m h = read32 m (h + 4)"
definition header_is_hole :: "mem \<Rightarrow> u32 \<Rightarrow> bool" where "header_is_hole m h \<longleftrightarrow> m (h + 8) \<noteq> 0"
definition footer_magic :: "mem \<Rightarrow> u32 \<Rightarrow> u32" where "footer_magic m f = read32 m f"
definition footer_header :: "mem \<Rightarrow> u32 \<Rightarrow> u32" where "footer_header m f = read32 m (f + 4)"

definition set_header_size :: "mem \<Rightarrow> u32 \<Rightarrow> u32 \<Rightarrow> mem" where
  "set_header_size m h n = write32 m (h + 4) n"

definition set_is_hole :: "mem \<Rightarrow> u32 \<Rightarrow> bool \<Rightarrow> mem" where
  "set_is_hole m h b = m(h + 8 := (if b then 1 else 0))"

definition set_footer_header :: "mem \<Rightarrow> u32 \<Rightarrow> u32 \<Rightarrow> mem" where
  "set_footer_header m f h = write32 m (f + 4) h"

definition put_header :: "mem \<Rightarrow> u32 \<Rightarrow> u32 \<Rightarrow> bool \<Rightarrow> mem" where
  "put_header m h n b = set_is_hole (write32 (set_header_size m h n) h HEAP_MAGIC) h b"

definition put_footer :: "mem \<Rightarrow> u32 \<Rightarrow> u32 \<Rightarrow> mem" where
  "put_footer m f h = write32 (set_footer_header m f h) f HEAP_MAGIC"

definition is_less_than :: "mem \<Rightarrow> u32 \<Rightarrow> u32 \<Rightarrow> bool" where
  "is_less_than m a b \<longleftrightarrow> header_size m a < header_size m b"

definition page_round_up :: "u32 \<Rightarrow> u32" where
  "page_round_up n = (if n AND 0xFFF \<noteq> 0 then (n AND 0xFFFFF000) + PAGE_SIZE else n)"

text \<open>The index operations on the state.\<close>

definition index_insert :: "u32 \<Rightarrow> kmem \<Rightarrow> kmem" where
  "index_insert h k =
     (let (_, m, oa) = ordered_array_insert (mem k) (heap_array (heap k)) h
      in k\<lparr>mem := m, heap := (heap k)\<lparr>heap_array := oa\<rparr>\<rparr>)"

definition index_remove :: "u32 \<Rightarrow> kmem \<Rightarrow> kmem" where
  "index_remove i k =
     (let (m, oa) = ordered_array_remove (mem k) (heap_array (heap k)) i
      in k\<lparr>mem := m, heap := (heap k)\<lparr>heap_array := oa\<rparr>\<rparr>)"

definition index_size :: "kmem \<Rightarrow> u32" where "index_size k = oa_size (heap_array (heap k))"

definition index_get :: "kmem \<Rightarrow> u32 \<Rightarrow> u32" where
  "index_get k i = ordered_array_get (mem k) (heap_array (heap k)) i"

section \<open>Initialisation\<close>

definition heap_manager_bootstrap :: "u32 \<Rightarrow> kmem \<Rightarrow> kmem" where
  "heap_manager_bootstrap e k =
     (if status (heap k) \<noteq> HEAP_UNINITIALIZED then k
      else k\<lparr>heap := (heap k)\<lparr>placement_address := e, status := HEAP_BOOTSTRAPED\<rparr>\<rparr>)"

definition heap_manager_init ::
  "ranges \<Rightarrow> u32 \<Rightarrow> u32 \<Rightarrow> u32 \<Rightarrow> bool \<Rightarrow> bool \<Rightarrow> bool \<Rightarrow> bool \<Rightarrow> kmem \<Rightarrow> kmem option" where
  "heap_manager_init ranges start e max_e supervisor readonly identity pm k =
     (if status (heap k) \<noteq> HEAP_BOOTSTRAPED then Some k
      else
        let k = k\<lparr>heap := (heap k)\<lparr>hm_paging_manager := pm, is_supervisor := supervisor,
                  is_readonly := readonly, use_identity_mapping := identity\<rparr>\<rparr> in
        case (if pm then ranges identity start e supervisor (\<not> readonly) k else Some k) of
          None \<Rightarrow> None
        | Some k \<Rightarrow>
          let oa = ordered_array_init (heap_array (heap k)) HEAP_INDEX_SIZE (Some is_less_than);
              (m, oa) = ordered_array_place (mem k) oa start;
              start = start + 4 * HEAP_INDEX_SIZE;
              start = (if start AND 0xFFFFF000 \<noteq> 0 then (start AND 0xFFFFF000) + PAGE_SIZE else start);
              k = k\<lparr>mem := put_header m start (e - start) True,
                    heap := (heap k)\<lparr>heap_array := oa, start_address := start, end_address := e,
                      max_end_address := max_e\<rparr>\<rparr>;
              k = index_insert start k
          in Some (k\<lparr>heap := (heap k)\<lparr>status := HEAP_INITIALIZED\<rparr>\<rparr>))"

section \<open>Finding a hole\<close>

definition hole_fits :: "mem \<Rightarrow> u32 \<Rightarrow> bool \<Rightarrow> u32 \<Rightarrow> bool" where
  "hole_fits m sz should_align h =
     (if should_align then
        let hole_start = h + sizeof_header;
            offset = (if hole_start AND 0xFFF \<noteq> 0 then PAGE_SIZE - (hole_start AND 0xFFF) else 0);
            hole_size = header_size m h - offset
        in sint sz \<le> sint hole_size
      else sz \<le> header_size m h)"

definition find_smallest_hole :: "u32 \<Rightarrow> bool \<Rightarrow> kmem \<Rightarrow> u32 option" where
  "find_smallest_hole sz should_align k =
     map_option of_nat
       (find (\<lambda>i. hole_fits (mem k) sz should_align (index_get k (of_nat i))) [0..<unat (index_size k)])"

section \<open>Growing and shrinking\<close>

definition expand :: "ranges \<Rightarrow> u32 \<Rightarrow> kmem \<Rightarrow> kmem option" where
  "expand ranges new_length k =
     (if new_length = 0 then Some k
      else
        let new_length = page_round_up new_length; h = heap k in
        case (if hm_paging_manager h
              then ranges (use_identity_mapping h) (end_address h) (start_address h + new_length)
                     (is_supervisor h) (\<not> is_readonly h) k
              else Some k) of
          None \<Rightarrow> None
        | Some k \<Rightarrow> Some (k\<lparr>heap := (heap k)\<lparr>end_address := start_address (heap k) + new_length\<rparr>\<rparr>))"

text \<open>\<open>for (i = old_size - PAGE_SIZE; new_size < i; i -= PAGE_SIZE)\<close>.\<close>

definition heap_free_single :: "u32 \<Rightarrow> kmem \<Rightarrow> kmem" where
  "heap_free_single a k =
     (if hm_paging_manager (heap k) then paging_manager_free_single a True k else k)"

partial_function (option) contract_loop :: "u32 \<Rightarrow> u32 \<Rightarrow> kmem \<Rightarrow> kmem option" where
  "contract_loop new_size i k =
     (if new_size < i then contract_loop new_size (i - PAGE_SIZE) (heap_free_single i k) else Some k)"

definition contract :: "u32 \<Rightarrow> kmem \<Rightarrow> (u32 \<times> kmem) option" where
  "contract new_size k =
     (let new_size = page_round_up new_size;
          new_size = (if new_size < HEAP_MIN_SIZE then HEAP_MIN_SIZE else new_size);
          old_size = end_address (heap k) - start_address (heap k)
      in case contract_loop new_size (old_size - PAGE_SIZE) k of
           None \<Rightarrow> None
         | Some k \<Rightarrow> Some (new_size, k\<lparr>heap := (heap k)\<lparr>end_address := start_address (heap k) + new_size\<rparr>\<rparr>))"

section \<open>Allocation\<close>

text \<open>
  The index entry with the highest address, as the search after an expansion finds it: none when
  every entry is null or the index is empty.
\<close>

definition last_hole :: "kmem \<Rightarrow> u32 option" where
  "last_hole k = fst (fold (\<lambda>i (found, value).
       let tmp = index_get k (of_nat i) in
       if value < tmp then (Some (of_nat i), tmp) else (found, value))
     [0..<unat (index_size k)] (None, 0))"

text \<open>Adding the room gained by an expansion to the last hole, or making it a hole of its own.\<close>

definition add_room :: "u32 \<Rightarrow> u32 \<Rightarrow> kmem \<Rightarrow> kmem" where
  "add_room old_end old_length k =
     (let new_length = end_address (heap k) - start_address (heap k) in
      case last_hole k of
        None \<Rightarrow>
          let sz = new_length - old_length;
              m = put_header (mem k) old_end sz True;
              m = put_footer m (old_end + sz - sizeof_footer) old_end
          in index_insert old_end (k\<lparr>mem := m\<rparr>)
      | Some idx \<Rightarrow>
          let h = index_get k idx;
              m = set_header_size (mem k) h (header_size (mem k) h + (new_length - old_length));
              m = put_footer m (h + header_size m h - sizeof_footer) h
          in k\<lparr>mem := m\<rparr>)"

text \<open>Carving a block out of the hole at index \<open>i\<close>.\<close>

definition allocate_hole :: "u32 \<Rightarrow> u32 \<Rightarrow> bool \<Rightarrow> kmem \<Rightarrow> u32 \<times> kmem" where
  "allocate_hole i sz should_align k =
     (let new_size = sz + sizeof_header + sizeof_footer;
          pos = index_get k i;
          hole_size = header_size (mem k) pos;
          leftover = hole_size - new_size;
          (sz, new_size) = (if leftover < sizeof_header + sizeof_footer
                              then (sz + leftover, hole_size) else (sz, new_size));
          (pos, hole_size, k) =
            (if should_align \<and> pos AND 0xFFFFF000 \<noteq> 0 then
               let size2 = PAGE_SIZE - (pos AND 0xFFF) - sizeof_header;
                   m = put_header (mem k) pos size2 True;
                   m = put_footer m (pos + size2 - sizeof_footer) pos
               in (pos + size2, hole_size - size2, k\<lparr>mem := m\<rparr>)
             else (pos, hole_size, index_remove i k));
          m = put_header (mem k) pos new_size False;
          m = put_footer m (pos + sizeof_header + sz) pos;
          k = k\<lparr>mem := m\<rparr>;
          k = (if hole_size - new_size > 0 then
                 let h = pos + sizeof_header + sz + sizeof_footer;
                     m = put_header (mem k) h (hole_size - new_size) True;
                     f = h + hole_size - new_size - sizeof_footer;
                     m = (if f < end_address (heap k) then put_footer m f h else m)
                 in index_insert h (k\<lparr>mem := m\<rparr>)
               else k)
      in (pos + sizeof_header, k))"

function allocate :: "ranges \<Rightarrow> u32 \<Rightarrow> bool \<Rightarrow> nat \<Rightarrow> (kmem, u32) prog" where
  "allocate ranges sz should_align iterration k =
     (let new_size = sz + sizeof_header + sizeof_footer in
      case find_smallest_hole new_size should_align k of
        Some i \<Rightarrow> Some (allocate_hole i sz should_align k)
      | None \<Rightarrow>
        let h = heap k;
            old_length = end_address h - start_address h;
            old_end = end_address h;
            new_length = old_length + new_size
        in if max_end_address h < start_address h + new_length \<or> 0 < iterration then Some (NULL, k)
           else case expand ranges (old_length + new_size) k of None \<Rightarrow> None
             | Some k \<Rightarrow> allocate ranges sz should_align (Suc iterration) (add_room old_end old_length k))"
  by pat_completeness auto
termination by (relation "measure (\<lambda>(ranges, sz, should_align, iterration, k). 1 - iterration)") auto

declare allocate.simps [simp del]

section \<open>Release\<close>

text \<open>The first index from \<open>i\<close> on that holds \<open>h\<close>, or where the search stops.\<close>

definition index_find :: "u32 \<Rightarrow> u32 \<Rightarrow> kmem \<Rightarrow> u32" where
  "index_find i h k =
     (case find (\<lambda>j. index_get k (of_nat j) = h) [unat i..<unat (index_size k)] of
        Some j \<Rightarrow> of_nat j
      | None \<Rightarrow> max i (index_size k))"

text \<open>
  \<open>unallocate\<close> reads the uninitialised variable \<open>i\<close> when nothing is merged on the right; \<open>junk\<close> is
  what it holds then. The pointer arithmetic \<open>footer + sizeof(heap_footer_t)\<close> advances by eight
  footers, that is 64 bytes.
\<close>

definition merge_left :: "u32 \<Rightarrow> u32 \<Rightarrow> mem \<Rightarrow> u32 \<times> bool \<times> mem" where
  "merge_left header footer m =
     (let test_footer = header - sizeof_footer in
      if footer_magic m test_footer = HEAP_MAGIC \<and> header_is_hole m (footer_header m test_footer) then
        let cache_size = header_size m header;
            header = footer_header m test_footer;
            m = set_footer_header m footer header;
            m = set_header_size m header (header_size m header + cache_size)
        in (header, False, m)
      else (header, True, m))"

definition merge_right :: "u32 \<Rightarrow> u32 \<Rightarrow> u32 \<Rightarrow> kmem \<Rightarrow> u32 \<times> u32 \<times> kmem" where
  "merge_right junk header footer k =
     (let test_header = footer + 8 * sizeof_footer in
      if header_magic (mem k) test_header = HEAP_MAGIC \<and> header_is_hole (mem k) test_header then
        let m = set_header_size (mem k) header (header_size (mem k) header + header_size (mem k) test_header);
            footer = test_header + header_size m test_header - sizeof_footer;
            k = k\<lparr>mem := m\<rparr>;
            i = index_find 0 test_header k
        in (i, footer, index_remove i k)
      else (junk, footer, k))"

definition unallocate :: "u32 \<Rightarrow> u32 \<Rightarrow> kmem \<Rightarrow> kmem option" where
  "unallocate junk address k =
     (if address = NULL then Some k
      else
        let header = address - sizeof_header;
            footer = header + header_size (mem k) header - sizeof_footer;
            m = set_is_hole (mem k) header True;
            (header, should_add, m) = merge_left header footer m;
            test_header = footer + 8 * sizeof_footer;
            (i, footer, k) = merge_right junk header footer (k\<lparr>mem := m\<rparr>);
            shrunk = (if footer + sizeof_footer = end_address (heap k) then
              let old_length = end_address (heap k) - start_address (heap k) in
              case contract (header - start_address (heap k)) k of None \<Rightarrow> None
              | Some (new_length, k) \<Rightarrow>
                if header_size (mem k) header - (old_length - new_length) > 0 then
                  let m = set_header_size (mem k) header
                            (header_size (mem k) header - (old_length - new_length));
                      m = put_footer m (header + header_size m header - sizeof_footer) header
                  in Some (k\<lparr>mem := m\<rparr>)
                else
                  let i = index_find i test_header k
                  in Some (if i < index_size k then index_remove i k else k)
              else Some k)
        in case shrunk of None \<Rightarrow> None
           | Some k \<Rightarrow> Some (if should_add then index_insert header k else k))"

section \<open>The manager's operations\<close>

text \<open>What \<open>heap_manager_malloc\<close> returns and, when asked, stores through \<open>physical_address\<close>.\<close>

definition heap_manager_malloc_physical ::
  "ranges \<Rightarrow> u32 \<Rightarrow> bool \<Rightarrow> (kmem, u32 \<times> u32 option) prog" where
  "heap_manager_malloc_physical ranges sz should_align k =
     (case status (heap k) of
        HEAP_INITIALIZED \<Rightarrow>
          (case allocate ranges sz should_align 0 k of None \<Rightarrow> None
           | Some (address, k) \<Rightarrow> Some ((address, Some (paging_manager_get_physical_address k address)), k))
      | HEAP_BOOTSTRAPED \<Rightarrow>
          let p = placement_address (heap k);
              base = (if should_align \<and> p AND 0xFFF \<noteq> 0 then (p AND 0xFFFFF000) + PAGE_SIZE else p)
          in Some ((base, Some base), k\<lparr>heap := (heap k)\<lparr>placement_address := base + sz\<rparr>\<rparr>)
      | HEAP_UNINITIALIZED \<Rightarrow> Some ((NULL, None), k))"

definition heap_manager_malloc :: "ranges \<Rightarrow> u32 \<Rightarrow> bool \<Rightarrow> (kmem, u32) prog" where
  "heap_manager_malloc ranges sz should_align k =
     map_option (\<lambda>((address, _), k). (address, k)) (heap_manager_malloc_physical ranges sz should_align k)"

definition heap_manager_free :: "u32 \<Rightarrow> u32 \<Rightarrow> kmem \<Rightarrow> kmem option" where
  "heap_manager_free junk address k =
     (if status (heap k) = HEAP_INITIALIZED then unallocate junk address k else Some k)"

partial_function (option) free_all_loop :: "u32 \<Rightarrow> kmem \<Rightarrow> kmem option" where
  "free_all_loop addr k =
     (if addr < end_address (heap k) then free_all_loop (addr + PAGE_SIZE) (heap_free_single addr k)
      else Some k)"

definition heap_manager_free_all :: "kmem \<Rightarrow> kmem option" where
  "heap_manager_free_all k =
     (if status (heap k) \<noteq> HEAP_INITIALIZED then Some k
      else
        let start = start_address (heap k); current_size = end_address (heap k) - start in
        case (if HEAP_MIN_SIZE < current_size then free_all_loop (start + HEAP_MIN_SIZE) k else Some k) of
          None \<Rightarrow> None
        | Some k \<Rightarrow>
          let e = start_address (heap k) + HEAP_MIN_SIZE;
              (m, oa) = ordered_array_clear (mem k) (heap_array (heap k));
              hole = start_address (heap k);
              m = put_header m hole HEAP_MIN_SIZE True;
              m = put_footer m (e - sizeof_footer) hole
          in Some (index_insert hole
               (k\<lparr>mem := m, heap := (heap k)\<lparr>end_address := e, heap_array := oa\<rparr>\<rparr>)))"

section \<open>Reading back headers and footers\<close>

lemmas header_defs = header_magic_def header_size_def header_is_hole_def
lemmas footer_defs = footer_magic_def footer_header_def

lemma apart_4: "apart h 4 (h + 4) 4" "apart (h + 4) 4 h 4"
  by (simp_all add: apart_def)

lemma apart_8_1: "apart h 4 (h + 8) 1" "apart 4 4 8 1"
  by (simp_all add: apart_def word_le_nat_alt unat_uminus_u32)

lemma put_header_read [simp]:
  "header_magic (put_header m h n b) h = HEAP_MAGIC"
  "header_size (put_header m h n b) h = n" "header_is_hole (put_header m h n b) h = b"
  by (simp_all add: header_defs put_header_def set_is_hole_def set_header_size_def
      read32_upd_other apart_4 apart_8_1)

lemma put_footer_read [simp]:
  "footer_magic (put_footer m f h) f = HEAP_MAGIC" "footer_header (put_footer m f h) f = h"
  by (simp_all add: footer_defs put_footer_def set_footer_header_def apart_4)

lemma region_parts:
  "region h 4 \<subseteq> region h 12" "region (h + 4) 4 \<subseteq> region h 12" "h + 8 \<in> region h 12"
  "region h 4 \<subseteq> region h 8" "region (h + 4) 4 \<subseteq> region h 8"
  using region_sub [of 0 4 12 h] region_sub [of 4 4 12 h] region_sub [of 0 4 8 h] region_sub [of 4 4 8 h]
  by (simp_all add: region_def)

lemma put_header_outside: "x \<notin> region h 12 \<Longrightarrow> put_header m h n b x = m x"
proof -
  assume "x \<notin> region h 12"
  then have "x \<notin> region h 4" "x \<notin> region (h + 4) 4" "x \<noteq> h + 8" using region_parts [of h] by blast+
  then show ?thesis
    by (simp add: put_header_def set_is_hole_def set_header_size_def write32_outside)
qed

lemma put_footer_outside: "x \<notin> region f 8 \<Longrightarrow> put_footer m f h x = m x"
proof -
  assume "x \<notin> region f 8"
  then have "x \<notin> region f 4" "x \<notin> region (f + 4) 4" using region_parts [of f] by blast+
  then show ?thesis by (simp add: put_footer_def set_footer_header_def write32_outside)
qed

lemma header_cong:
  assumes "\<And>x. x \<in> region h 12 \<Longrightarrow> m x = m' x"
  shows "header_magic m h = header_magic m' h" "header_size m h = header_size m' h"
    "header_is_hole m h = header_is_hole m' h"
proof -
  have "read32 m h = read32 m' h" "read32 m (h + 4) = read32 m' (h + 4)"
    by (rule read32_region, rule assms, use region_parts [of h] in blast)+
  moreover have "m (h + 8) = m' (h + 8)" using region_parts(3) by (rule assms)
  ultimately show "header_magic m h = header_magic m' h" "header_size m h = header_size m' h"
    "header_is_hole m h = header_is_hole m' h" by (simp_all add: header_defs)
qed

section \<open>The blocks of the heap\<close>

text \<open>
  From address \<open>a\<close> to \<open>e\<close> the memory is a row of blocks, each given by its address, its size and
  whether it is a hole, as its header says.
\<close>

type_synonym block = "u32 \<times> u32 \<times> bool"

fun tiles :: "mem \<Rightarrow> nat \<Rightarrow> block list \<Rightarrow> nat \<Rightarrow> bool" where
  "tiles m a [] e \<longleftrightarrow> a = e"
| "tiles m a ((p, s, h) # bs) e \<longleftrightarrow> unat p = a \<and> 20 \<le> unat s \<and> a + unat s \<le> e \<and>
     header_magic m p = HEAP_MAGIC \<and> header_size m p = s \<and> header_is_hole m p = h \<and>
     tiles m (a + unat s) bs e"

lemma tiles_le: "tiles m a bs e \<Longrightarrow> a \<le> e"
  by (induction m a bs e rule: tiles.induct) auto

lemma tiles_append:
  "tiles m a (xs @ ys) e \<longleftrightarrow> (\<exists>c \<le> e. tiles m a xs c \<and> tiles m c ys e)"
proof (induction xs arbitrary: a)
  case Nil
  then show ?case using tiles_le by auto
next
  case (Cons b xs)
  obtain p s h where b: "b = (p, s, h)" by (metis surj_pair)
  have "a + unat s \<le> e" if "c \<le> e" "tiles m (a + unat s) xs c" for c
    using tiles_le [OF that(2)] that(1) by simp
  then show ?case by (auto simp: b Cons.IH dest: tiles_le)
qed

lemma tiles_bounds:
  "tiles m a bs e \<Longrightarrow> (p, s, h) \<in> set bs \<Longrightarrow> a \<le> unat p \<and> unat p + unat s \<le> e \<and> 20 \<le> unat s"
  by (induction m a bs e rule: tiles.induct) (auto dest: tiles_le)

lemma tiles_headers:
  "tiles m a bs e \<Longrightarrow> (p, s, h) \<in> set bs \<Longrightarrow> header_size m p = s \<and> header_is_hole m p = h"
  by (induction m a bs e rule: tiles.induct) auto

lemma tiles_unique: "tiles m a xs e \<Longrightarrow> tiles m a ys e \<Longrightarrow> xs = ys"
proof (induction xs arbitrary: a ys)
  case Nil
  then show ?case using tiles_bounds by (cases ys) (fastforce dest: tiles_le)+
next
  case (Cons x xs)
  obtain p s h where x: "x = (p, s, h)" by (metis surj_pair)
  have "ys \<noteq> []" using Cons.prems tiles_le by (fastforce simp: x)
  then obtain q t g zs where y: "ys = (q, t, g) # zs" by (metis neq_Nil_conv surj_pair)
  have "p = q" using Cons.prems by (simp add: x y word_unat_eq_iff)
  with Cons show ?case by (auto simp: x y)
qed

text \<open>Different blocks do not overlap.\<close>

lemma tiles_ordered:
  "tiles m a (xs @ (p, s, h) # ys) e \<Longrightarrow> (q, t, g) \<in> set ys \<Longrightarrow> unat p + unat s \<le> unat q"
  by (auto simp: tiles_append dest: tiles_bounds)

lemma tiles_ordered':
  "tiles m a (xs @ (p, s, h) # ys) e \<Longrightarrow> (q, t, g) \<in> set xs \<Longrightarrow> unat q + unat t \<le> unat p"
  by (auto simp: tiles_append dest: tiles_bounds)

lemma tiles_distinct: "tiles m a bs e \<Longrightarrow> distinct (map fst bs)"
proof (induction m a bs e rule: tiles.induct)
  case (2 m a p s h bs e)
  have "p \<notin> fst ` set bs"
  proof
    assume "p \<in> fst ` set bs"
    then obtain t g where "(p, t, g) \<in> set bs" by auto
    moreover have "tiles m (unat p + unat s) bs e" "20 \<le> unat s" using 2 by auto
    ultimately show False using tiles_bounds by fastforce
  qed
  with 2 show ?case by auto
qed simp

text \<open>Headers lie inside their blocks, so a change outside the row keeps it.\<close>

lemma tiles_cong:
  assumes "e \<le> 4294967296" "\<And>x. a \<le> unat x \<Longrightarrow> unat x < e \<Longrightarrow> m x = m' x" "tiles m a bs e"
  shows "tiles m' a bs e"
  using assms(3,2,1)
proof (induction m a bs e rule: tiles.induct)
  case (2 m a p s h bs e)
  then have p: "unat p = a" "20 \<le> unat s" "a + unat s \<le> e" by auto
  have "m x = m' x" if "x \<in> region p 12" for x
  proof -
    have "unat p + unat (12 :: u32) \<le> 4294967296" using p 2(4) by simp
    then have "unat p \<le> unat x \<and> unat x < unat p + 12"
      using that region_interval [of p 12 x] by simp
    then show ?thesis using 2(3) p by simp
  qed
  note hc = header_cong [OF this]
  have "tiles m' (a + unat s) bs e" using 2 p by (intro "2.IH") auto
  with 2(2) hc show ?case by simp
qed simp

section \<open>The index of holes\<close>

definition index_list :: "kmem \<Rightarrow> u32 list" where
  "index_list k = oa_list (mem k) (heap_array (heap k))"

definition index_area :: "kmem \<Rightarrow> u32 set" where
  "index_area k = {x. unat (x - oa_array (heap_array (heap k))) < 4 * unat (oa_max_size (heap_array (heap k)))}"

text \<open>The index is a well-formed ordered array that lies below the heap.\<close>

definition index_ok :: "kmem \<Rightarrow> bool" where
  "index_ok k \<longleftrightarrow> (let oa = heap_array (heap k) in
     oa_ok oa \<and> oa_is_less_than oa = Some is_less_than \<and>
     unat (oa_array oa) + 4 * unat (oa_max_size oa) \<le> unat (start_address (heap k)))"

text \<open>The only change from \<open>k\<close> to \<open>k'\<close> is in the index.\<close>

definition index_only :: "kmem \<Rightarrow> kmem \<Rightarrow> bool" where
  "index_only k k' \<longleftrightarrow>
     (\<exists>m n. k' = k\<lparr>mem := m, heap := (heap k)\<lparr>heap_array := (heap_array (heap k))\<lparr>oa_size := n\<rparr>\<rparr>\<rparr> \<and>
       (\<forall>x. x \<notin> index_area k \<longrightarrow> m x = mem k x))"

lemma index_get_nth: "i < index_size k \<Longrightarrow> index_get k i = index_list k ! unat i"
  by (simp add: index_get_def index_list_def index_size_def ordered_array_get_nth)

lemma length_index_list: "length (index_list k) = unat (index_size k)"
  by (simp add: index_list_def index_size_def oa_list_def)

lemma index_below:
  assumes "index_ok k" "unat (start_address (heap k)) \<le> unat x"
  shows "x \<notin> index_area k"
proof -
  let ?a = "oa_array (heap_array (heap k))"
  have *: "unat ?a + 4 * unat (oa_max_size (heap_array (heap k))) \<le> unat x"
    using assms by (simp add: index_ok_def Let_def)
  then have "unat (x - ?a) = unat x - unat ?a" by (subst unat_sub) (simp_all add: word_le_nat_alt)
  with * show ?thesis by (simp add: index_area_def)
qed

lemma index_entry_area:
  assumes "oa_ok (heap_array (heap k))" "j < unat (index_size k)"
    "x \<in> region (elem32 (oa_array (heap_array (heap k))) (of_nat j)) 4"
  shows "x \<in> index_area k"
proof -
  let ?oa = "heap_array (heap k)"
  have b: "unat (oa_size ?oa) \<le> unat (oa_max_size ?oa)" "unat (oa_max_size ?oa) \<le> 536870912"
    using oa_ok_size [OF assms(1)] by simp_all
  have j: "j < unat (oa_size ?oa)" using assms(2) by (simp add: index_size_def)
  have u: "unat (4 * of_nat j :: u32) = 4 * j"
    using unat_elem_offset [of "unat (oa_size ?oa)" j] b j by simp
  have m: "unat (4 * oa_max_size ?oa) = 4 * unat (oa_max_size ?oa)"
    using b by (intro unat_mult4) (simp add: word_less_nat_alt)
  have "region (oa_array ?oa + 4 * of_nat j) 4 \<subseteq> region (oa_array ?oa) (4 * oa_max_size ?oa)"
    using u m j b by (intro region_sub) simp
  with assms(3) have "x \<in> region (oa_array ?oa) (4 * oa_max_size ?oa)" by (auto simp: elem32_def)
  then show ?thesis using m by (simp add: index_area_def region_def word_less_nat_alt)
qed

lemma index_insert_spec:
  assumes ok: "index_ok k" and room: "index_size k < oa_max_size (heap_array (heap k))"
    and s: "sorted (map (header_size (mem k)) (index_list k))"
  shows "mset (index_list (index_insert h k)) = add_mset h (mset (index_list k))"
    and "sorted (map (header_size (mem k)) (index_list (index_insert h k)))"
    and "index_ok (index_insert h k)" "index_only k (index_insert h k)"
proof -
  let ?oa = "heap_array (heap k)"
  have o: "oa_ok ?oa" "oa_is_less_than ?oa = Some (\<lambda>m a b. header_size m a < header_size m b)"
    and below: "unat (oa_array ?oa) + 4 * unat (oa_max_size ?oa) \<le> unat (start_address (heap k))"
    using ok by (simp_all add: index_ok_def Let_def is_less_than_def [abs_def])
  obtain r m oa where i: "ordered_array_insert (mem k) ?oa h = (r, m, oa)" by (metis surj_pair)
  have lt: "oa_size ?oa < oa_max_size ?oa" using room by (simp add: index_size_def)
  have oa: "oa_ok oa" "oa = ?oa\<lparr>oa_size := oa_size ?oa + 1\<rparr>" "sorted (map (header_size (mem k)) (oa_list m oa))"
    "mset (oa_list m oa) = add_mset h (mset (oa_list (mem k) ?oa))"
    "\<forall>x. 4 * unat (oa_max_size ?oa) \<le> unat (x - oa_array ?oa) \<longrightarrow> m x = mem k x"
    using oa_insert_sorted [OF o s [unfolded index_list_def] i] unfolding if_P [OF lt] by blast+
  have k': "index_insert h k = k\<lparr>mem := m, heap := (heap k)\<lparr>heap_array := oa\<rparr>\<rparr>"
    by (simp add: index_insert_def i)
  show "mset (index_list (index_insert h k)) = add_mset h (mset (index_list k))"
    "sorted (map (header_size (mem k)) (index_list (index_insert h k)))"
    using oa by (simp_all add: k' index_list_def)
  show "index_ok (index_insert h k)" using oa(1,2) below o by (simp add: k' index_ok_def Let_def ok [unfolded index_ok_def Let_def])
  show "index_only k (index_insert h k)"
    unfolding index_only_def
    by (rule exI [of _ m], rule exI [of _ "oa_size ?oa + 1"])
       (use oa in \<open>simp add: k' index_area_def not_less\<close>)
qed

lemma index_remove_spec:
  assumes ok: "index_ok k" and i: "i < index_size k"
  shows "index_list (index_remove i k) = take (unat i) (index_list k) @ drop (Suc (unat i)) (index_list k)"
    and "index_ok (index_remove i k)" "index_only k (index_remove i k)"
    and "index_size (index_remove i k) < oa_max_size (heap_array (heap k))"
proof -
  let ?oa = "heap_array (heap k)"
  have o: "oa_ok ?oa" "i < oa_size ?oa" using ok i by (simp_all add: index_ok_def Let_def index_size_def)
  obtain m oa where r: "ordered_array_remove (mem k) ?oa i = (m, oa)" by fastforce
  note rm = oa_list_remove [OF o r]
  have k': "index_remove i k = k\<lparr>mem := m, heap := (heap k)\<lparr>heap_array := oa\<rparr>\<rparr>"
    by (simp add: index_remove_def r)
  have "oa_size ?oa \<noteq> 0" using o(2) by auto
  then have "unat (oa_size ?oa - 1) < unat (oa_size ?oa)" by (simp add: unat_minus_one unat_gt_0)
  then have lt: "oa_size ?oa - 1 < oa_max_size ?oa"
    using o(1) by (simp add: oa_ok_def word_less_nat_alt word_le_nat_alt)
  show "index_list (index_remove i k) = take (unat i) (index_list k) @ drop (Suc (unat i)) (index_list k)"
    using rm(1) by (simp add: k' index_list_def)
  show "index_size (index_remove i k) < oa_max_size ?oa" using lt by (simp add: k' index_size_def rm(2))
  show "index_ok (index_remove i k)"
    using ok lt by (auto simp: index_ok_def Let_def k' rm(2) oa_ok_def)
  show "index_only k (index_remove i k)"
    unfolding index_only_def
    by (rule exI [of _ m], rule exI [of _ "oa_size ?oa - 1"])
       (use rm in \<open>simp add: k' index_area_def not_less\<close>)
qed

section \<open>The heap invariant\<close>

definition hole_addrs :: "block list \<Rightarrow> u32 list" where
  "hole_addrs bs = map fst (filter (\<lambda>(p, s, h). h) bs)"

lemma hole_addrs_simps [simp]:
  "hole_addrs [] = []" "hole_addrs ((p, s, h) # bs) = (if h then [p] else []) @ hole_addrs bs"
  "hole_addrs (xs @ ys) = hole_addrs xs @ hole_addrs ys"
  by (simp_all add: hole_addrs_def)

lemma in_hole_addrs: "q \<in> set (hole_addrs bs) \<longleftrightarrow> (\<exists>u. (q, u, True) \<in> set bs)"
  by (force simp: hole_addrs_def)

text \<open>
  Headers tile the heap from start to end, the index holds exactly the holes, ordered by size, and
  lies below the heap.
\<close>

definition heap_inv :: "kmem \<Rightarrow> block list \<Rightarrow> bool" where
  "heap_inv k bs \<longleftrightarrow>
     tiles (mem k) (unat (start_address (heap k))) bs (unat (end_address (heap k))) \<and> index_ok k \<and>
     mset (index_list k) = mset (hole_addrs bs) \<and>
     sorted (map (header_size (mem k)) (index_list k))"

lemma index_onlyD:
  assumes "index_only k k'"
  shows "start_address (heap k') = start_address (heap k)" "end_address (heap k') = end_address (heap k)"
    "max_end_address (heap k') = max_end_address (heap k)" "index_area k' = index_area k"
    "pmm k' = pmm k" "paging k' = paging k" "paging_enabled k' = paging_enabled k" "cr3 k' = cr3 k"
    "x \<notin> index_area k \<Longrightarrow> mem k' x = mem k x" "status (heap k') = status (heap k)"
  using assms by (auto simp: index_only_def index_area_def)

lemma hole_split:
  assumes inv: "heap_inv k bs" and i: "i < index_size k"
  shows "\<exists>xs s ys. bs = xs @ (index_get k i, s, True) # ys \<and> header_size (mem k) (index_get k i) = s"
proof -
  have "index_get k i \<in> set (index_list k)"
    using i by (simp add: index_get_nth length_index_list word_less_nat_alt)
  also have "set (index_list k) = set (hole_addrs bs)"
    using inv by (auto simp: heap_inv_def dest: mset_eq_setD)
  finally obtain s where "(index_get k i, s, True) \<in> set bs" by (auto simp: in_hole_addrs)
  moreover from this have "header_size (mem k) (index_get k i) = s"
    using inv by (auto simp: heap_inv_def dest: tiles_headers)
  ultimately show ?thesis unfolding in_set_conv_decomp by blast
qed

text \<open>How a hole of size \<open>s\<close> is split for a block of size \<open>n\<close>.\<close>

definition split_block :: "u32 \<Rightarrow> u32 \<Rightarrow> u32 \<Rightarrow> block list" where
  "split_block p s n = (if s - n < 20 then [(p, s, False)] else [(p, n, False), (p + n, s - n, True)])"

text \<open>The memory after the headers and footers of the pieces are written.\<close>

definition carve :: "mem \<Rightarrow> u32 \<Rightarrow> u32 \<Rightarrow> u32 \<Rightarrow> mem" where
  "carve m p s n =
     (if s - n < 20 then put_footer (put_header m p s False) (p + s - 8) p
      else put_footer (put_header (put_footer (put_header m p n False) (p + n - 8) p) (p + n) (s - n) True)
             (p + s - 8) (p + n))"

lemma allocate_hole_unaligned:
  assumes p: "index_get k i = p" "header_size (mem k) p = s" and n: "n = sz + 20" "n \<le> s"
    and e: "p + s - 8 < end_address (heap k)"
  shows "allocate_hole i sz False k = (p + 12,
    let k0 = index_remove i k; k1 = k0\<lparr>mem := carve (mem k0) p s n\<rparr>
    in if s - n < 20 then k1 else index_insert (p + n) k1)"
proof -
  have e0: "end_address (heap (index_remove i k)) = end_address (heap k)"
    by (simp add: index_remove_def case_prod_beta Let_def)
  show ?thesis
  proof (cases "s - n < 20")
    case True
    then show ?thesis
      by (simp add: allocate_hole_def p n(1) carve_def Let_def sizeof_header_def sizeof_footer_def
          algebra_simps)
  next
    case False
    then have "0 < s - n" using word_neq_0_conv [of "s - n"] by fastforce
    with False show ?thesis
      using e by (simp add: allocate_hole_def p n(1) carve_def Let_def sizeof_header_def sizeof_footer_def
          e0 algebra_simps)
  qed
qed

lemma block_region:
  assumes "unat p + unat s \<le> 4294967296" "unat d + unat w \<le> unat s"
  shows "region (p + d) w \<subseteq> region p s"
  using region_sub [of d w s p] assms(2) by simp

lemma header_after_footer:
  "region f 8 \<inter> region h 12 = {} \<Longrightarrow>
   header_magic (put_footer m f g) h = header_magic m h \<and> header_size (put_footer m f g) h = header_size m h \<and>
   header_is_hole (put_footer m f g) h = header_is_hole m h"
  using header_cong [of h "put_footer m f g" m] put_footer_outside [of _ f m g] by blast

lemma header_after_header:
  "region g 12 \<inter> region h 12 = {} \<Longrightarrow>
   header_magic (put_header m g n b) h = header_magic m h \<and> header_size (put_header m g n b) h = header_size m h \<and>
   header_is_hole (put_header m g n b) h = header_is_hole m h"
  using header_cong [of h "put_header m g n b" m] put_header_outside [of _ g m n b] by blast

lemma regions_apart:
  assumes "unat a + unat n \<le> unat b" "unat b + unat w \<le> 4294967296"
  shows "region a n \<inter> region b w = {}"
proof -
  have "\<not> (x \<in> region a n \<and> x \<in> region b w)" for x
    using assms region_interval [of a n x] region_interval [of b w x] by auto
  then show ?thesis by blast
qed

lemma carve_tiles:
  assumes p: "unat p + unat s \<le> 4294967296" and n: "20 \<le> unat n" "n \<le> s"
  shows "tiles (carve m p s n) (unat p) (split_block p s n) (unat p + unat s)"
    and "x \<notin> region p s \<Longrightarrow> carve m p s n x = m x"
proof -
  have le: "unat n \<le> unat s" using n(2) by (simp add: word_le_nat_alt)
  have us: "unat (s - n) = unat s - unat n" using n(2) by (rule unat_sub)
  have e8: "unat (p + s - 8) = unat p + unat s - 8" 
  proof -
    have "unat (s - 8) = unat s - 8" using n(1) le by (subst unat_sub) (simp_all add: word_le_nat_alt)
    then have "unat (p + (s - 8)) = unat p + (unat s - 8)"
      using p n(1) le unat_less_2p32 [of s] by (subst unat_add_noov) simp_all
    moreover have "p + (s - 8) = p + s - 8" by (simp add: algebra_simps)
    ultimately show ?thesis using n(1) le by simp
  qed
  have ft: "region (p + s - 8) 8 \<subseteq> region p s" "region p 12 \<subseteq> region p s"
  proof -
    have "unat (s - 8) = unat s - 8" using n(1) le by (subst unat_sub) (simp_all add: word_le_nat_alt)
    then have "region (p + (s - 8)) 8 \<subseteq> region p s" using n(1) le by (intro region_sub) simp
    then show "region (p + s - 8) 8 \<subseteq> region p s" by (simp add: algebra_simps)
    show "region p 12 \<subseteq> region p s" using region_sub [of 0 12 s p] n(1) le by simp
  qed
  show "tiles (carve m p s n) (unat p) (split_block p s n) (unat p + unat s)"
  proof (cases "s - n < 20")
    case True
    have "region p 12 \<inter> region (p + s - 8) 8 = {}"
      using e8 p n(1) le by (intro regions_apart) simp_all
    then show ?thesis
      using True le n(1) by (simp add: carve_def split_block_def header_after_footer Int_commute)
  next
    case False
    then have d: "unat s - unat n \<ge> 20" using us by (simp add: word_less_nat_alt)
    have pn: "unat (p + n) = unat p + unat n" using p d by (subst unat_add_noov) simp_all
    have "unat (n - 8) = unat n - 8" using n(1) by (subst unat_sub) (simp_all add: word_le_nat_alt)
    then have pn8: "unat (p + n - 8) = unat p + unat n - 8"
      using p d n(1) unat_add_noov [of p "n - 8"] by (simp add: algebra_simps)
    have 0: "region p 12 \<inter> region (p + n - 8) 8 = {}" "region p 12 \<inter> region (p + n) 12 = {}"
      "region p 12 \<inter> region (p + s - 8) 8 = {}" "region (p + n) 12 \<inter> region (p + s - 8) 8 = {}"
      by (rule regions_apart; use e8 pn pn8 p d n(1) le in simp)+
    have 1: "region (p + n - 8) 8 \<inter> region p 12 = {}" "region (p + n) 12 \<inter> region p 12 = {}"
      "region (p + s - 8) 8 \<inter> region p 12 = {}" "region (p + s - 8) 8 \<inter> region (p + n) 12 = {}"
      using 0 by blast+
    then show ?thesis
      using False le n(1) d pn us
      by (simp add: carve_def split_block_def header_after_footer header_after_header)
  qed
  show "carve m p s n x = m x" if x: "x \<notin> region p s"
  proof (cases "s - n < 20")
    case True
    have "x \<notin> region (p + s - 8) 8" "x \<notin> region p 12" using x ft by blast+
    with True show ?thesis by (simp add: carve_def put_footer_outside put_header_outside)
  next
    case False
    then have d: "unat s - unat n \<ge> 20" using us by (simp add: word_less_nat_alt)
    have "unat (n - 8) = unat n - 8" using n(1) by (subst unat_sub) (simp_all add: word_le_nat_alt)
    then have "region (p + (n - 8)) 8 \<subseteq> region p s" "region (p + n) 12 \<subseteq> region p s"
      using d n(1) by (intro region_sub; simp)+
    then have "x \<notin> region (p + n - 8) 8" "x \<notin> region (p + n) 12" "x \<notin> region (p + s - 8) 8" "x \<notin> region p 12"
      using x ft by (auto simp: algebra_simps)
    with False show ?thesis by (simp add: carve_def put_footer_outside put_header_outside)
  qed
qed

text \<open>Replacing one block by pieces of it keeps the row.\<close>

lemma tiles_replace:
  assumes t: "tiles m a (xs @ (p, s, h) # ys) e" "e \<le> 4294967296"
    and mid: "tiles m' (unat p) mid (unat p + unat s)"
    and out: "\<And>x. a \<le> unat x \<Longrightarrow> x \<notin> region p s \<Longrightarrow> m' x = m x"
  shows "tiles m' a (xs @ mid @ ys) e"
proof -
  from t(1) have xs: "tiles m a xs (unat p)" and b: "unat p + unat s \<le> e" "a \<le> unat p"
    and ys: "tiles m (unat p + unat s) ys e"
    by (auto simp: tiles_append dest: tiles_le)
  have r: "x \<in> region p s \<longleftrightarrow> unat p \<le> unat x \<and> unat x < unat p + unat s" for x
    using b t(2) by (intro region_interval) simp
  have "tiles m' a xs (unat p)"
    by (rule tiles_cong [OF _ _ xs]) (use b t(2) r out in \<open>auto intro!: out [symmetric]\<close>)
  moreover have "tiles m' (unat p + unat s) ys e"
    by (rule tiles_cong [OF t(2) _ ys]) (use b r in \<open>auto intro!: out [symmetric]\<close>)
  moreover have "unat p \<le> e" using b by simp
  ultimately show ?thesis using mid b unfolding tiles_append by blast
qed

lemma tiles_header_apart:
  assumes t: "tiles m a (xs @ (p, s, h) # ys) e" "e \<le> 4294967296" and q: "(q, t, g) \<in> set (xs @ ys)"
  shows "region q 12 \<inter> region p s = {}"
proof -
  have b: "unat p + unat s \<le> e" "unat q + unat t \<le> e" "20 \<le> unat t"
    using tiles_bounds [OF t(1)] q by auto
  have "unat q + unat t \<le> unat p \<or> unat p + unat s \<le> unat q"
    using q tiles_ordered [OF t(1)] tiles_ordered' [OF t(1)] by auto
  then show ?thesis
  proof
    assume "unat q + unat t \<le> unat p"
    then show ?thesis using b t(2) by (intro regions_apart) simp_all
  next
    assume "unat p + unat s \<le> unat q"
    then have "region p s \<inter> region q 12 = {}" using b t(2) by (intro regions_apart) simp_all
    then show ?thesis by blast
  qed
qed

text \<open>Entering a hole whose header is in place completes the invariant.\<close>

lemma index_insert_inv:
  assumes t: "tiles (mem k) (unat (start_address (heap k))) bs (unat (end_address (heap k)))"
    and ok: "index_ok k" and room: "index_size k < oa_max_size (heap_array (heap k))"
    and ms: "add_mset h (mset (index_list k)) = mset (hole_addrs bs)"
    and so: "sorted (map (header_size (mem k)) (index_list k))"
  shows "heap_inv (index_insert h k) bs"
proof -
  let ?k = "index_insert h k" and ?e = "unat (end_address (heap k))"
  note ins = index_insert_spec [OF ok room so, of h]
  note io = index_onlyD [OF ins(4)]
  have "mem ?k x = mem k x" if "unat (start_address (heap k)) \<le> unat x" for x
    using index_below [OF ok that] io(9) by simp
  then have t2: "tiles (mem ?k) (unat (start_address (heap k))) bs ?e"
    using unat_less_2p32 [of "end_address (heap k)"] by (intro tiles_cong [OF _ _ t]) simp_all
  have m2: "mset (index_list ?k) = mset (hole_addrs bs)" using ins(1) ms by simp
  have "header_size (mem ?k) q = header_size (mem k) q" if "q \<in> set (index_list ?k)" for q
  proof -
    have "q \<in> set (hole_addrs bs)" using that arg_cong [OF m2, of set_mset] by simp
    then obtain u where "(q, u, True) \<in> set bs" unfolding in_hole_addrs ..
    then show ?thesis using tiles_headers [OF t] tiles_headers [OF t2] by metis
  qed
  then have "sorted (map (header_size (mem ?k)) (index_list ?k))"
    using ins(2) by (simp cong: map_cong)
  then show ?thesis using t2 ins(3) m2 io by (simp add: heap_inv_def)
qed

lemma allocate_hole_inv:
  assumes inv: "heap_inv k bs" and i: "i < index_size k"
    and n: "unat sz + 20 < 4294967296" "sz + 20 \<le> header_size (mem k) (index_get k i)"
  shows "\<exists>xs p s ys k'. allocate_hole i sz False k = (p + 12, k') \<and> bs = xs @ (p, s, True) # ys \<and>
    sz + 20 \<le> s \<and> heap_inv k' (xs @ split_block p s (sz + 20) @ ys) \<and>
    start_address (heap k') = start_address (heap k) \<and> end_address (heap k') = end_address (heap k) \<and>
    pmm k' = pmm k \<and> paging k' = paging k \<and> status (heap k') = status (heap k) \<and>
    (\<forall>x. x \<notin> region p s \<longrightarrow> x \<notin> index_area k \<longrightarrow> mem k' x = mem k x)"
proof -
  let ?n = "sz + 20" and ?a = "unat (start_address (heap k))" and ?e = "unat (end_address (heap k))"
  define p where "p = index_get k i"
  obtain xs s ys where bs: "bs = xs @ (p, s, True) # ys" and s: "header_size (mem k) p = s"
    using hole_split [OF inv i] unfolding p_def by blast
  have t: "tiles (mem k) ?a (xs @ (p, s, True) # ys) ?e" and ok: "index_ok k"
    and ms: "mset (index_list k) = mset (hole_addrs bs)"
    and so: "sorted (map (header_size (mem k)) (index_list k))"
    using inv by (simp_all add: heap_inv_def bs)
  have e: "?e \<le> 4294967296" using unat_less_2p32 [of "end_address (heap k)"] by simp
  have pb: "?a \<le> unat p" "unat p + unat s \<le> ?e" "20 \<le> unat s" using tiles_bounds [OF t] by auto
  have un: "unat ?n = unat sz + 20" using n(1) by (subst unat_add_noov) simp_all
  have ns: "?n \<le> s" using n(2) s by (simp add: p_def)
  have "unat (p + s - 8) = unat p + unat s - 8"
  proof -
    have "unat (s - 8) = unat s - 8" using pb(3) by (subst unat_sub) (simp_all add: word_le_nat_alt)
    then have "unat (p + (s - 8)) = unat p + unat s - 8"
      using pb unat_less_2p32 [of "end_address (heap k)"] by (subst unat_add_noov) simp_all
    moreover have "p + (s - 8) = p + s - 8" by (simp add: algebra_simps)
    ultimately show ?thesis by simp
  qed
  then have f: "p + s - 8 < end_address (heap k)" using pb by (simp add: word_less_nat_alt)
  define k0 where "k0 = index_remove i k"
  define k1 where "k1 = k0\<lparr>mem := carve (mem k0) p s ?n\<rparr>"
  note rm = index_remove_spec [OF ok i, folded k0_def]
  note io = index_onlyD [OF rm(3)]
  have al: "allocate_hole i sz False k = (p + 12, if s - ?n < 20 then k1 else index_insert (p + ?n) k1)"
    using allocate_hole_unaligned [OF p_def [symmetric] s refl ns f]
    by (simp add: k0_def [symmetric] k1_def [symmetric] Let_def)
  have ps: "unat p + unat s \<le> 4294967296" using pb e by simp
  have "20 \<le> unat ?n" using un by simp
  note ct = carve_tiles [OF ps this ns]
  have reg: "x \<in> region p s \<longleftrightarrow> unat p \<le> unat x \<and> unat x < unat p + unat s" for x
    using ps by (rule region_interval)
  have m1: "mem k1 x = mem k x" if "x \<notin> region p s" "x \<notin> index_area k" for x
    using that ct(2) io(9) by (simp add: k1_def)
  have t1: "tiles (mem k1) ?a (xs @ split_block p s ?n @ ys) ?e"
    by (rule tiles_replace [OF t e]) (use ct(1) m1 index_below [OF ok] in \<open>auto simp: k1_def\<close>)
  \<comment> \<open>the index after the removal\<close>
  let ?l = "index_list k" and ?i = "unat i"
  have li: "?i < length ?l" using i by (simp add: length_index_list word_less_nat_alt)
  have p_nth: "?l ! ?i = p" using i by (simp add: p_def index_get_nth)
  have l1: "index_list k1 = take ?i ?l @ drop (Suc ?i) ?l"
  proof -
    have "oa_list (mem k1) (heap_array (heap k0)) = oa_list (mem k0) (heap_array (heap k0))"
      unfolding oa_list_def
    proof (intro mem_list_cong read32_region)
      fix j x assume j: "j < unat (oa_size (heap_array (heap k0)))"
        and x: "x \<in> region (elem32 (oa_array (heap_array (heap k0))) (of_nat j)) 4"
      have "x \<in> index_area k0"
        using x j rm(2) index_entry_area [of k0 j x] by (simp add: index_ok_def Let_def index_size_def)
      then have "x \<in> index_area k" using io(4) by simp
      then have "\<not> unat p \<le> unat x" using index_below [OF ok, of x] pb(1) by auto
      then have "x \<notin> region p s" using reg by simp
      then show "mem k1 x = mem k0 x" using ct(2) by (simp add: k1_def)
    qed
    then show ?thesis using rm(1) by (simp add: index_list_def k1_def)
  qed
  have "add_mset p (mset (take ?i ?l @ drop (Suc ?i) ?l)) = mset ?l"
    using id_take_nth_drop [OF li] p_nth by (metis mset_append mset.simps(2) union_mset_add_mset_right)
  then have ms1: "mset (index_list k1) = mset (hole_addrs xs) + mset (hole_addrs ys)"
    using ms by (simp add: l1 bs)
  have hs: "header_size (mem k1) q = header_size (mem k) q" if "q \<in> set (index_list k1)" for q
  proof -
    have "q \<in> set (hole_addrs xs) \<union> set (hole_addrs ys)"
      using that arg_cong [OF ms1, of set_mset] by simp
    then obtain u where q: "(q, u, True) \<in> set (xs @ ys)" by (auto simp: in_hole_addrs)
    have "mem k1 x = mem k x" if x: "x \<in> region q 12" for x
    proof -
      have "?a \<le> unat q" "unat q + unat u \<le> ?e" "20 \<le> unat u"
        using tiles_bounds [OF t, of q u True] q by auto
      then have "?a \<le> unat x" using x region_interval [of q 12 x] e by simp
      then show ?thesis using m1 tiles_header_apart [OF t e q] x index_below [OF ok] by blast
    qed
    then show ?thesis by (rule header_cong(2))
  qed
  have so1: "sorted (map (header_size (mem k1)) (index_list k1))"
  proof -
    have "sorted (map (header_size (mem k)) (index_list k1))"
      using sorted_remove_nth [OF so, of ?i] by (simp add: l1 take_map drop_map)
    then show ?thesis using hs by (simp cong: map_cong)
  qed
  have ok1: "index_ok k1" using rm(2) by (simp add: k1_def index_ok_def)
  show ?thesis
  proof (cases "s - ?n < 20")
    case True
    have "heap_inv k1 (xs @ split_block p s ?n @ ys)"
      using t1 ok1 so1 ms1 io True by (simp add: heap_inv_def split_block_def k1_def)
    then show ?thesis
      using True al bs ns m1 io
      by (intro exI [of _ xs] exI [of _ p] exI [of _ s] exI [of _ ys] exI [of _ k1]) (simp add: k1_def)
  next
    case False
    have room: "index_size k1 < oa_max_size (heap_array (heap k1))"
      using rm(3,4) by (auto simp: index_only_def k1_def index_size_def)
    let ?k = "index_insert (p + ?n) k1"
    note io1 = index_onlyD [OF index_insert_spec(4) [OF ok1 room so1, of "p + ?n"]]
    have ia: "index_area k1 = index_area k" using io(4) by (simp add: k1_def index_area_def)
    have st: "start_address (heap k1) = start_address (heap k)" "end_address (heap k1) = end_address (heap k)"
      using io by (simp_all add: k1_def)
    have "heap_inv ?k (xs @ split_block p s ?n @ ys)"
      using t1 ok1 room so1 ms1 st False by (intro index_insert_inv) (simp_all add: split_block_def)
    then show ?thesis
      using False al bs ns m1 io io1 ia st
      by (intro exI [of _ xs] exI [of _ p] exI [of _ s] exI [of _ ys] exI [of _ ?k]) (simp add: k1_def)
  qed
qed

section \<open>The search for a hole\<close>

lemma find_smallest_hole_Some:
  assumes "find_smallest_hole n al k = Some i"
  shows "i < index_size k" "hole_fits (mem k) n al (index_get k i)"
    "j < i \<Longrightarrow> \<not> hole_fits (mem k) n al (index_get k j)"
proof -
  obtain v where v: "i = of_nat v" "v < unat (index_size k)"
    "hole_fits (mem k) n al (index_get k (of_nat v))"
    "\<forall>j < v. \<not> hole_fits (mem k) n al (index_get k (of_nat j))"
    using assms by (auto simp: find_smallest_hole_def find_upt_Some_iff)
  note u = word_of_nat_less [OF v(2)]
  show "i < index_size k" "hole_fits (mem k) n al (index_get k i)" using v u by auto
  assume "j < i"
  then have "unat j < v" using u v(1) by (simp add: word_less_nat_alt)
  then show "\<not> hole_fits (mem k) n al (index_get k j)" using v(4) [rule_format, of "unat j"] by simp
qed

lemma find_smallest_hole_None:
  "find_smallest_hole n al k = None \<longleftrightarrow> (\<forall>i < index_size k. \<not> hole_fits (mem k) n al (index_get k i))"
  using all_less_of_nat_u32 [where P = "\<lambda>i. \<not> hole_fits (mem k) n al (index_get k i)"]
  by (simp add: find_smallest_hole_def find_upt_None_iff)

text \<open>With the index ordered by size, first fit is best fit.\<close>

lemma find_smallest_hole_best:
  assumes inv: "heap_inv k bs" and f: "find_smallest_hole n False k = Some i"
    and q: "(q, u, True) \<in> set bs" "n \<le> u"
  shows "header_size (mem k) (index_get k i) \<le> u"
proof -
  note fs = find_smallest_hole_Some [OF f]
  have qs: "header_size (mem k) q = u" using inv q(1) by (auto simp: heap_inv_def dest: tiles_headers)
  have "q \<in> set (index_list k)"
    using inv q(1) in_hole_addrs [of q bs] by (auto simp: heap_inv_def dest: mset_eq_setD)
  then obtain j where j: "j < length (index_list k)" "q = index_list k ! j" by (auto simp: in_set_conv_nth)
  then have ju: "unat (of_nat j :: u32) = j" "of_nat j < index_size k"
    using word_of_nat_less [of j "index_size k"] by (simp_all add: length_index_list)
  then have "index_get k (of_nat j) = q" using j by (simp add: index_get_nth)
  then have "\<not> of_nat j < i" using fs(3) [of "of_nat j"] q(2) qs by (auto simp: hole_fits_def)
  then have "unat i \<le> j" using ju by (simp add: word_less_nat_alt)
  then have "header_size (mem k) (index_list k ! unat i) \<le> header_size (mem k) (index_list k ! j)"
    using inv j(1) sorted_nth_mono [of "map (header_size (mem k)) (index_list k)" "unat i" j]
    by (simp add: heap_inv_def)
  then show ?thesis using index_get_nth [OF fs(1)] j(2) qs by simp
qed

text \<open>An allocation that finds a hole.\<close>

lemma allocate_found:
  "find_smallest_hole (sz + 20) al k = Some i \<Longrightarrow>
   allocate ranges sz al it k = Some (allocate_hole i sz al k)"
  by (subst allocate.simps) (simp add: sizeof_header_def sizeof_footer_def add.assoc)

lemma allocate_best_fit:
  assumes inv: "heap_inv k bs" and n: "unat sz + 20 < 4294967296"
    and fit: "(q, u, True) \<in> set bs" "sz + 20 \<le> u"
  shows "\<exists>xs p s ys k'. allocate ranges sz False it k = Some (p + 12, k') \<and> bs = xs @ (p, s, True) # ys \<and>
    sz + 20 \<le> s \<and> (\<forall>(q, u, h) \<in> set bs. h \<longrightarrow> sz + 20 \<le> u \<longrightarrow> s \<le> u) \<and>
    heap_inv k' (xs @ split_block p s (sz + 20) @ ys) \<and>
    start_address (heap k') = start_address (heap k) \<and> end_address (heap k') = end_address (heap k) \<and>
    pmm k' = pmm k \<and> paging k' = paging k \<and> status (heap k') = status (heap k) \<and>
    (\<forall>x. x \<notin> region p s \<longrightarrow> x \<notin> index_area k \<longrightarrow> mem k' x = mem k x)"
proof -
  have "q \<in> set (index_list k)"
    using inv fit(1) in_hole_addrs [of q bs] by (auto simp: heap_inv_def dest: mset_eq_setD)
  then obtain j where j: "j < length (index_list k)" "q = index_list k ! j" by (auto simp: in_set_conv_nth)
  then have ju: "unat (of_nat j :: u32) = j" "of_nat j < index_size k"
    using word_of_nat_less [of j "index_size k"] by (simp_all add: length_index_list)
  then have "index_get k (of_nat j) = q" using j by (simp add: index_get_nth)
  moreover have "header_size (mem k) q = u"
    using inv fit(1) by (auto simp: heap_inv_def dest: tiles_headers)
  ultimately have "find_smallest_hole (sz + 20) False k \<noteq> None"
    using ju(2) fit(2) by (auto simp: find_smallest_hole_None hole_fits_def)
  then obtain i where f: "find_smallest_hole (sz + 20) False k = Some i" by blast
  note fs = find_smallest_hole_Some [OF f]
  have "sz + 20 \<le> header_size (mem k) (index_get k i)" using fs(2) by (simp add: hole_fits_def)
  from allocate_hole_inv [OF inv fs(1) n this] obtain xs p s ys k' where
    a: "allocate_hole i sz False k = (p + 12, k')" "bs = xs @ (p, s, True) # ys" "sz + 20 \<le> s"
    "heap_inv k' (xs @ split_block p s (sz + 20) @ ys)"
    "start_address (heap k') = start_address (heap k)" "end_address (heap k') = end_address (heap k)"
    "pmm k' = pmm k" "paging k' = paging k" "status (heap k') = status (heap k)"
    "\<forall>x. x \<notin> region p s \<longrightarrow> x \<notin> index_area k \<longrightarrow> mem k' x = mem k x" by blast
  have "index_get k i = p"
    using a(1) by (simp add: allocate_hole_def Let_def sizeof_header_def split: if_splits prod.splits)
  moreover have "header_size (mem k) p = s"
    using inv a(2) by (auto simp: heap_inv_def dest: tiles_headers)
  ultimately have "\<forall>(q, u, h) \<in> set bs. h \<longrightarrow> sz + 20 \<le> u \<longrightarrow> s \<le> u"
    using find_smallest_hole_best [OF inv f] by auto
  with a allocate_found [OF f] show ?thesis by (metis (no_types, lifting))
qed

lemma allocate_no_room:
  assumes "find_smallest_hole (sz + 20) al k = None"
    "max_end_address (heap k) < start_address (heap k) + (end_address (heap k) - start_address (heap k) + (sz + 20))"
  shows "allocate ranges sz al it k = Some (NULL, k)"
  using assms by (subst allocate.simps) (simp add: sizeof_header_def sizeof_footer_def add.assoc Let_def)

section \<open>Shrinking\<close>

lemma heap_free_single_heap [simp]: "heap (heap_free_single a k) = heap k"
  by (simp add: heap_free_single_def paging_manager_free_single_def free_page_def Let_def case_prod_beta)

lemma heap_free_fold_heap [simp]: "heap (fold heap_free_single xs k) = heap k"
  by (induction xs arbitrary: k) auto

text \<open>The loop ends, and the addresses it unmaps are the offsets between the new size and \<open>i\<close>.\<close>

lemma contract_loop_fold:
  assumes "4096 \<le> unat new_size"
  shows "\<exists>xs. contract_loop new_size i k = Some (fold heap_free_single xs k) \<and>
    (\<forall>a \<in> set xs. new_size < a \<and> a \<le> i) \<and> (new_size < i \<longrightarrow> i \<in> set xs)"
proof (induction "unat i" arbitrary: i k rule: less_induct)
  case less
  show ?case
  proof (cases "new_size < i")
    case True
    then have u: "unat (i - PAGE_SIZE) = unat i - 4096"
      using assms by (subst unat_sub) (simp_all add: PAGE_SIZE_def word_less_nat_alt word_le_nat_alt)
    then have lt: "unat (i - PAGE_SIZE) < unat i" "i - PAGE_SIZE \<le> i"
      using True assms by (simp_all add: word_less_nat_alt word_le_nat_alt)
    obtain xs where "contract_loop new_size (i - PAGE_SIZE) (heap_free_single i k)
        = Some (fold heap_free_single xs (heap_free_single i k))"
      "\<forall>a \<in> set xs. new_size < a \<and> a \<le> i - PAGE_SIZE"
      using less [OF lt(1)] by blast
    then show ?thesis
      using True lt(2) by (intro exI [of _ "i # xs"], subst contract_loop.simps) auto
  next
    case False
    then show ?thesis by (intro exI [of _ "[]"], subst contract_loop.simps) simp
  qed
qed

lemma contract_spec:
  assumes sz: "unat (start_address (heap k)) + 4096 \<le> unat (end_address (heap k))"
    and below: "end_address (heap k) - start_address (heap k) \<le> start_address (heap k)"
  shows "\<exists>xs n. contract new_size k = Some (n, (fold heap_free_single xs k)
      \<lparr>heap := (heap k)\<lparr>end_address := start_address (heap k) + n\<rparr>\<rparr>) \<and> HEAP_MIN_SIZE \<le> n \<and>
    (\<forall>a \<in> set xs. a < start_address (heap k)) \<and>
    (n < end_address (heap k) - start_address (heap k) - PAGE_SIZE \<longrightarrow> xs \<noteq> [])"
proof -
  define n where "n = max (page_round_up new_size) HEAP_MIN_SIZE"
  let ?old = "end_address (heap k) - start_address (heap k)"
  have nm: "HEAP_MIN_SIZE \<le> n" by (simp add: n_def)
  have page_max: "(if w < HEAP_MIN_SIZE then HEAP_MIN_SIZE else w) = max w HEAP_MIN_SIZE" for w
    by (auto simp: max_def)
  from nm have n: "4096 \<le> unat n" by (simp add: HEAP_MIN_SIZE_def word_le_nat_alt)
  have "unat ?old = unat (end_address (heap k)) - unat (start_address (heap k))"
    using sz by (subst unat_sub) (simp_all add: word_le_nat_alt)
  then have "unat (?old - PAGE_SIZE) < unat ?old"
    using sz by (subst unat_sub) (simp_all add: PAGE_SIZE_def word_le_nat_alt)
  then have lt: "?old - PAGE_SIZE < start_address (heap k)"
    using below by (simp add: word_less_nat_alt word_le_nat_alt)
  obtain xs where xs: "contract_loop n (?old - PAGE_SIZE) k = Some (fold heap_free_single xs k)"
    "\<forall>a \<in> set xs. n < a \<and> a \<le> ?old - PAGE_SIZE" "n < ?old - PAGE_SIZE \<longrightarrow> ?old - PAGE_SIZE \<in> set xs"
    using contract_loop_fold [OF n] by blast
  have "contract new_size k = Some (n, (fold heap_free_single xs k)
      \<lparr>heap := (heap k)\<lparr>end_address := start_address (heap k) + n\<rparr>\<rparr>)"
    using xs(1) by (simp add: contract_def Let_def page_max n_def)
  moreover have "\<forall>a \<in> set xs. a < start_address (heap k)" using xs(2) lt by auto
  moreover have "n < ?old - PAGE_SIZE \<longrightarrow> xs \<noteq> []" using xs(3) by auto
  ultimately show ?thesis using nm by blast
qed

section \<open>Growing\<close>

lemma last_hole_fold:
  fixes g :: "nat \<Rightarrow> u32"
  assumes "fold (\<lambda>i (found, value). let tmp = g i in if value < tmp then (Some (of_nat i :: u32), tmp) else (found, value))
     [0..<n] (None, 0) = (f, v)"
  shows "(\<forall>i < n. g i \<le> v) \<and> (case f of None \<Rightarrow> v = 0 | Some j \<Rightarrow> \<exists>i < n. j = of_nat i \<and> g i = v \<and> v \<noteq> 0)"
  using assms
proof (induction n arbitrary: f v)
  case (Suc n)
  obtain f0 v0 where p: "fold (\<lambda>i (found, value). let tmp = g i in if value < tmp then (Some (of_nat i :: u32), tmp) else (found, value))
     [0..<n] (None, 0) = (f0, v0)" by fastforce
  note IH = Suc.IH [OF p]
  have fv: "(f, v) = (if v0 < g n then (Some (of_nat n), g n) else (f0, v0))"
    using Suc.prems p by (simp add: Let_def)
  show ?case
  proof (cases "v0 < g n")
    case True
    then have "f = Some (of_nat n)" "v = g n" using fv by simp_all
    then show ?thesis using IH True by (auto simp: less_Suc_eq intro: less_imp_le le_less_trans)
  next
    case False
    then have "f = f0" "v = v0" using fv by simp_all
    moreover have "g n \<le> v0" using False by simp
    ultimately show ?thesis using IH by (auto simp: less_Suc_eq split: option.splits)
  qed
qed simp

lemma last_hole_max:
  assumes "i < index_size k" "index_get k i = p" "p \<noteq> 0" "\<And>j. j < index_size k \<Longrightarrow> index_get k j \<le> p"
  shows "\<exists>j. last_hole k = Some j \<and> j < index_size k \<and> index_get k j = p"
proof -
  obtain f v where fv: "fold (\<lambda>i (found, value). let tmp = index_get k (of_nat i) in
      if value < tmp then (Some (of_nat i :: u32), tmp) else (found, value)) [0..<unat (index_size k)] (None, 0) = (f, v)"
    by fastforce
  note lh = last_hole_fold [OF fv]
  have "index_get k (of_nat (unat i)) \<le> v"
    using lh [THEN conjunct1, rule_format, of "unat i"] assms(1) by (simp add: word_less_nat_alt)
  then have pv: "p \<le> v" using assms(2) by simp
  then have "v \<noteq> 0" using assms(3) by auto
  then obtain j where j: "f = Some (of_nat j)" "j < unat (index_size k)" "index_get k (of_nat j) = v"
    using lh by (auto split: option.splits)
  have "v \<le> p" using assms(4) [of "of_nat j"] word_of_nat_less [OF j(2)] j(3) by simp
  then have "v = p" using pv by simp
  then show ?thesis using j fv word_of_nat_less [OF j(2)] by (simp add: last_hole_def)
qed

text \<open>
  After an expansion the room gained is added to the hole with the highest address, wherever that
  hole lies: the blocks between it and the old end of the heap end up inside it.
\<close>

lemma add_room_grows:
  assumes inv: "heap_inv k bs" and bs: "bs = xs @ (p, s, True) # ys" and p: "p \<noteq> 0"
    and last: "hole_addrs ys = []"
    and k1: "k1 = k\<lparr>heap := (heap k)\<lparr>end_address := e'\<rparr>\<rparr>"
  shows "header_size (mem (add_room old_end (end_address (heap k) - start_address (heap k)) k1)) p
    = s + (e' - end_address (heap k)) \<or> s + (e' - end_address (heap k)) < 20"
proof -
  let ?d = "e' - start_address (heap k) - (end_address (heap k) - start_address (heap k))"
  have t: "tiles (mem k) (unat (start_address (heap k))) (xs @ (p, s, True) # ys) (unat (end_address (heap k)))"
    and ms: "mset (index_list k) = mset (hole_addrs bs)"
    using inv by (simp_all add: heap_inv_def bs)
  have ig: "index_get k1 j = index_get k j" "index_size k1 = index_size k" for j
    by (simp_all add: k1 index_get_def index_size_def)
  have mem: "index_get k j \<in> set (hole_addrs bs)" if "j < index_size k" for j
    using that arg_cong [OF ms, of set_mset] nth_mem [of "unat j" "index_list k"]
    by (simp add: index_get_nth length_index_list word_less_nat_alt)
  have "q \<le> p" if "q \<in> set (hole_addrs bs)" for q
  proof -
    have "q = p \<or> q \<in> set (hole_addrs xs)" using that last by (auto simp: bs)
    then show ?thesis
    proof
      assume "q \<in> set (hole_addrs xs)"
      then obtain u where "(q, u, True) \<in> set xs" unfolding in_hole_addrs ..
      then show ?thesis using tiles_ordered' [OF t] by (fastforce simp: word_le_nat_alt)
    qed simp
  qed
  then have le: "index_get k1 j \<le> p" if "j < index_size k1" for j using that mem ig by simp
  have "p \<in> set (index_list k)"
    using arg_cong [OF ms, of set_mset] by (simp add: bs)
  then obtain n where n: "n < length (index_list k)" "index_list k ! n = p" by (auto simp: in_set_conv_nth)
  then have "of_nat n < index_size k1" "index_get k1 (of_nat n) = p"
    using word_of_nat_less [of n "index_size k"] by (simp_all add: ig length_index_list index_get_nth)
  from last_hole_max [OF this p le] obtain j where j: "last_hole k1 = Some j" "index_get k1 j = p" by blast
  have hs: "header_size (mem k1) p = s" using tiles_headers [OF t, of p s True] by (simp add: k1)
  have d: "?d = e' - end_address (heap k)" by simp
  let ?m = "set_header_size (mem k1) p (s + (e' - end_address (heap k)))"
  have r: "header_size ?m p = s + (e' - end_address (heap k))"
    by (simp add: header_size_def set_header_size_def)
  have ar: "mem (add_room old_end (end_address (heap k) - start_address (heap k)) k1)
      = put_footer ?m (p + header_size ?m p - 8) p"
    using j hs by (simp add: add_room_def Let_def sizeof_footer_def k1)
  show ?thesis
  proof (cases "s + (e' - end_address (heap k)) < 20")
    case False
    let ?n = "s + (e' - end_address (heap k))"
    have "region (p + ?n - 8) 8 \<inter> region (p + 4) 4 = {}"
    proof -
      have "apart (p + (?n - 8)) 8 (p + 4) 4"
      proof -
        have "unat (?n - 8) = unat ?n - 8" "20 \<le> unat ?n"
          using False by (auto simp: word_less_nat_alt word_le_nat_alt unat_sub_if_size word_size)
        then have "apart 4 4 (?n - 8) 8"
          using unat_less_2p32 [of ?n] by (intro apart_nat) simp_all
        then show ?thesis by (simp add: apart_sym)
      qed
      moreover have "p + (?n - 8) = p + ?n - 8" by (simp add: algebra_simps)
      ultimately show ?thesis using apart_region [of 8 4 "p + ?n - 8" "p + 4"] by (simp only:) simp
    qed
    then have "read32 (put_footer ?m (p + ?n - 8) p) (p + 4) = read32 ?m (p + 4)"
      by (intro read32_region put_footer_outside) blast
    then show ?thesis using ar r by (simp add: header_size_def)
  qed simp
qed

section \<open>The heap right after initialisation\<close>

lemma index_insert_empty:
  assumes ok: "index_ok k" and empty: "index_size k = 0" and room: "0 < oa_max_size (heap_array (heap k))"
  shows "index_list (index_insert h k) = [h]" "index_ok (index_insert h k)" "index_only k (index_insert h k)"
proof -
  have l: "index_list k = []" using empty length_index_list [of k] by simp
  have "index_size k < oa_max_size (heap_array (heap k))" using empty room by simp
  note ii = index_insert_spec [OF ok this, unfolded l, simplified]
  from ii(1) [of h] show "index_list (index_insert h k) = [h]" by simp
  show "index_ok (index_insert h k)" "index_only k (index_insert h k)" by (rule ii)+
qed

text \<open>The heap proper starts at the first page boundary above the index.\<close>

definition heap_first :: "u32 \<Rightarrow> u32" where
  "heap_first start = ((start + 0x80000) AND 0xFFFFF000) + PAGE_SIZE"

lemma heap_first:
  assumes "unat start + 0x81000 < 4294967296"
  shows "unat (start + 0x80000) = unat start + 0x80000"
    "unat start + 0x80000 < unat (heap_first start)" "unat (heap_first start) \<le> unat start + 0x81000"
    "(start + 0x80000) AND 0xFFFFF000 \<noteq> 0"
proof -
  let ?s = "start + 0x80000"
  show s: "unat ?s = unat start + 0x80000" using assms by (subst unat_add_noov) simp_all
  have d: "unat ?s div 4096 * 4096 \<le> unat ?s" "unat ?s < unat ?s div 4096 * 4096 + 4096"
    using div_mult_mod_eq [of "unat ?s" 4096] mod_less_divisor [of 4096 "unat ?s"] by linarith+
  then have "unat (heap_first start) = unat ?s div 4096 * 4096 + 4096"
    using assms s unfolding heap_first_def
    by (subst unat_add_noov) (simp_all only: unat_and_0xFFFFF000, simp_all add: PAGE_SIZE_def)
  then show "unat start + 0x80000 < unat (heap_first start)" "unat (heap_first start) \<le> unat start + 0x81000"
    using d s by simp_all
  have "unat (?s AND 0xFFFFF000) \<noteq> 0"
  proof -
    have "0 < unat ?s div 4096" using s by (simp add: div_greater_zero_iff)
    then show ?thesis by (simp only: unat_and_0xFFFFF000)
  qed
  then show "?s AND 0xFFFFF000 \<noteq> 0" by auto
qed

lemma heap_init_inv:
  assumes st: "status (heap k) = HEAP_BOOTSTRAPED"
    and rg: "pm \<longrightarrow> (\<exists>k1. ranges identity start e super (\<not> ro) (k\<lparr>heap := (heap k)\<lparr>hm_paging_manager := pm,
        is_supervisor := super, is_readonly := ro, use_identity_mapping := identity\<rparr>\<rparr>) = Some k1)"
    and b: "unat start + 0x81000 + 20 \<le> unat e"
  shows "\<exists>k'. heap_manager_init ranges start e max_e super ro identity pm k = Some k' \<and>
    heap_inv k' [(heap_first start, e - heap_first start, True)] \<and> status (heap k') = HEAP_INITIALIZED \<and>
    start_address (heap k') = heap_first start \<and> end_address (heap k') = e \<and> max_end_address (heap k') = max_e"
proof -
  let ?k = "k\<lparr>heap := (heap k)\<lparr>hm_paging_manager := pm, is_supervisor := super, is_readonly := ro,
    use_identity_mapping := identity\<rparr>\<rparr>"
  obtain k1 where k1: "(if pm then ranges identity start e super (\<not> ro) ?k else Some ?k) = Some k1"
    using rg by (cases pm) auto
  have lt: "unat start + 0x81000 < 4294967296" using b unat_less_2p32 [of e] by simp
  note hf = heap_first [OF lt]
  let ?f = "heap_first start"
  obtain m oa where pl: "ordered_array_place (mem k1)
      (ordered_array_init (heap_array (heap k1)) HEAP_INDEX_SIZE (Some is_less_than)) start = (m, oa)" by fastforce
  then have oa: "oa_array oa = start" "oa_size oa = 0" "oa_max_size oa = 0x20000"
    "oa_is_less_than oa = Some is_less_than"
    by (auto simp: ordered_array_place_def ordered_array_init_def HEAP_INDEX_SIZE_def)
  define k2 where "k2 = k1\<lparr>mem := put_header m ?f (e - ?f) True,
    heap := (heap k1)\<lparr>heap_array := oa, start_address := ?f, end_address := e, max_end_address := max_e\<rparr>\<rparr>"
  let ?k3 = "index_insert ?f k2"
  let ?k4 = "?k3\<lparr>heap := (heap ?k3)\<lparr>status := HEAP_INITIALIZED\<rparr>\<rparr>"
  have init: "heap_manager_init ranges start e max_e super ro identity pm k = Some ?k4"
    using st k1 pl hf(4)
    by (simp add: heap_manager_init_def Let_def HEAP_INDEX_SIZE_def k2_def heap_first_def [symmetric])
  have ok: "index_ok k2"
    using oa hf(1,2) lt by (simp add: index_ok_def k2_def oa_ok_def Let_def)
  have z: "index_size k2 = 0" "0 < oa_max_size (heap_array (heap k2))"
    using oa by (simp_all add: index_size_def k2_def)
  note ii = index_insert_empty [OF ok z, of ?f]
  note io = index_onlyD [OF ii(3)]
  have us: "unat (e - ?f) = unat e - unat ?f" using hf(3) b by (subst unat_sub) (simp_all add: word_le_nat_alt)
  have t2: "tiles (mem k2) (unat ?f) [(?f, e - ?f, True)] (unat e)"
    using us hf(3) b by (simp add: k2_def)
  have "mem ?k3 x = mem k2 x" if "unat ?f \<le> unat x" for x
    using that io(9) [of x] index_below [OF ok, of x] by (simp add: k2_def)
  then have t4: "tiles (mem ?k4) (unat ?f) [(?f, e - ?f, True)] (unat e)"
    using unat_less_2p32 [of e] by (intro tiles_cong [OF _ _ t2]) simp_all
  have l4: "index_list ?k4 = [?f]" using ii(1) by (simp add: index_list_def)
  have "index_ok ?k4" using ii(2) by (simp add: index_ok_def)
  with t4 l4 io have "heap_inv ?k4 [(?f, e - ?f, True)]"
    by (simp add: heap_inv_def k2_def)
  with init io show ?thesis by (intro exI [of _ ?k4]) (simp add: k2_def)
qed

section \<open>Release of a block\<close>

lemma set_is_hole_read [simp]:
  "header_magic (set_is_hole m h b) h = header_magic m h"
  "header_size (set_is_hole m h b) h = header_size m h" "header_is_hole (set_is_hole m h b) h = b"
  by (simp_all add: header_defs set_is_hole_def read32_upd_other apart_8_1)

text \<open>
  With nothing to merge on either side, and away from the end of the heap, the block becomes a hole
  and enters the index.
\<close>

lemma unallocate_plain:
  assumes inv: "heap_inv k (xs @ (p, s, False) # ys)"
    and room: "index_size k < oa_max_size (heap_array (heap k))"
    and nz: "p + 12 \<noteq> NULL" and notlast: "p + s \<noteq> end_address (heap k)"
  defines "m \<equiv> set_is_hole (mem k) p True"
  assumes left: "\<not> (footer_magic m (p - 8) = HEAP_MAGIC \<and> header_is_hole m (footer_header m (p - 8)))"
    and right: "\<not> (header_magic m (p + s + 56) = HEAP_MAGIC \<and> header_is_hole m (p + s + 56))"
  shows "\<exists>k'. unallocate junk (p + 12) k = Some k' \<and> heap_inv k' (xs @ (p, s, True) # ys) \<and>
    end_address (heap k') = end_address (heap k)"
proof -
  let ?a = "unat (start_address (heap k))" and ?e = "unat (end_address (heap k))"
  have t: "tiles (mem k) ?a (xs @ (p, s, False) # ys) ?e" and ok: "index_ok k"
    and ms: "mset (index_list k) = mset (hole_addrs (xs @ (p, s, False) # ys))"
    and so: "sorted (map (header_size (mem k)) (index_list k))"
    using inv by (simp_all add: heap_inv_def)
  have e: "?e \<le> 4294967296" using unat_less_2p32 [of "end_address (heap k)"] by simp
  have pb: "?a \<le> unat p" "unat p + unat s \<le> ?e" "20 \<le> unat s" using tiles_bounds [OF t] by auto
  have hp: "header_size (mem k) p = s" "header_magic (mem k) p = HEAP_MAGIC"
    using t by (auto simp: tiles_append)
  let ?k = "k\<lparr>mem := m\<rparr>"
  have mo: "m x = mem k x" if "x \<noteq> p + 8" for x using that by (simp add: m_def set_is_hole_def)
  have p8: "p + 8 \<in> region p s"
    using region_sub [of 0 12 s p] pb(3) region_parts(3) by auto
  have t1: "tiles m ?a (xs @ [(p, s, True)] @ ys) ?e"
  proof (rule tiles_replace [OF t e])
    show "tiles m (unat p) [(p, s, True)] (unat p + unat s)"
      using hp pb by (simp add: m_def)
    show "m x = mem k x" if "x \<notin> region p s" for x using that p8 mo by metis
  qed
  have u8: "unat (p + 8) = unat p + 8" using pb e by (subst unat_add_noov) simp_all
  have li: "index_list ?k = index_list k"
    unfolding index_list_def oa_list_def
  proof (simp, intro mem_list_cong read32_region)
    fix j x assume j: "j < unat (oa_size (heap_array (heap k)))"
      and x: "x \<in> region (elem32 (oa_array (heap_array (heap k))) (of_nat j)) 4"
    have "x \<in> index_area k"
      using x j ok index_entry_area [of k j x] by (simp add: index_ok_def Let_def index_size_def)
    then have "x \<noteq> p + 8" using index_below [OF ok, of "p + 8"] u8 pb(1) by auto
    then show "m x = mem k x" by (rule mo)
  qed
  have hs: "header_size m q = header_size (mem k) q" if "q \<in> set (index_list k)" for q
  proof -
    have "q \<in> set (hole_addrs (xs @ (p, s, False) # ys))" using that arg_cong [OF ms, of set_mset] by simp
    then obtain u where "(q, u, True) \<in> set (xs @ ys)" by (auto simp: in_hole_addrs)
    from tiles_header_apart [OF t e this] have "x \<noteq> p + 8" if "x \<in> region q 12" for x using that p8 by blast
    then show ?thesis using mo by (intro header_cong(2)) blast
  qed
  have "heap_inv (index_insert p ?k) (xs @ (p, s, True) # ys)"
  proof (rule index_insert_inv)
    show "sorted (map (header_size (mem ?k)) (index_list ?k))"
      using so hs by (simp add: li cong: map_cong)
  qed (use t1 ok room ms li in \<open>simp_all add: index_ok_def index_size_def\<close>)
  moreover have "unallocate junk (p + 12) k = Some (index_insert p ?k)"
  proof -
    have nl: "p + s - 8 + 8 \<noteq> end_address (heap k)" using notlast by simp
    have "merge_left p (p + s - 8) m = (p, True, m)"
      using left by (simp add: merge_left_def sizeof_footer_def Let_def)
    moreover have "merge_right junk p (p + s - 8) ?k = (junk, p + s - 8, ?k)"
    proof -
      have eq: "p + s - 8 + 8 * 8 = p + s + 56" by simp
      show ?thesis unfolding merge_right_def sizeof_footer_def eq Let_def using right by auto
    qed
    ultimately show ?thesis
      using nz nl hp by (simp add: unallocate_def sizeof_header_def sizeof_footer_def Let_def m_def [symmetric])
  qed
  ultimately show ?thesis by (auto simp: index_insert_def case_prod_beta Let_def)
qed

section \<open>Properties\<close>

text \<open>
  Initialising the heap over a range that holds the index and one block leaves a heap of one
  hole that fills it, with that hole in the index.
\<close>

theorem heap_init_one_hole:
  assumes "status (heap k) = HEAP_BOOTSTRAPED" "unat start + 0x81000 + 20 \<le> unat e"
  shows "\<exists>k'. heap_manager_init ranges start e max_e super ro identity False k = Some k' \<and>
    heap_inv k' [(heap_first start, e - heap_first start, True)] \<and> status (heap k') = HEAP_INITIALIZED \<and>
    start_address (heap k') = heap_first start \<and> end_address (heap k') = e \<and> max_end_address (heap k') = max_e"
  using heap_init_inv [OF assms(1) _ assms(2), where pm = False] by simp

definition witness_ranges :: ranges where "witness_ranges _ _ _ _ _ k = Some k"

definition witness_boot :: kmem where
  "witness_boot = heap_manager_bootstrap 0x8000 power_on"

lemma witness_boot [simp]: "status (heap witness_boot) = HEAP_BOOTSTRAPED"
  by (simp add: witness_boot_def heap_manager_bootstrap_def power_on_def)

definition witness_heap :: kmem where
  "witness_heap = the (heap_manager_init witness_ranges 0x10000 0x200000 0x300000 True False False False witness_boot)"

lemma witness_heap:
  "heap_inv witness_heap [(0x91000, 0x16F000, True)]" "status (heap witness_heap) = HEAP_INITIALIZED"
  "start_address (heap witness_heap) = 0x91000" "end_address (heap witness_heap) = 0x200000"
  "max_end_address (heap witness_heap) = 0x300000"
proof -
  have f: "heap_first 0x10000 = 0x91000" by (simp add: heap_first_def PAGE_SIZE_def)
  obtain k' where "heap_manager_init witness_ranges 0x10000 0x200000 0x300000 True False False False witness_boot = Some k'"
    "heap_inv k' [(0x91000, 0x16F000, True)]" "status (heap k') = HEAP_INITIALIZED"
    "start_address (heap k') = 0x91000" "end_address (heap k') = 0x200000" "max_end_address (heap k') = 0x300000"
    using heap_init_inv [of witness_boot False witness_ranges False "0x10000" "0x200000" True False "0x300000"]
    by (auto simp: f)
  then show "heap_inv witness_heap [(0x91000, 0x16F000, True)]" "status (heap witness_heap) = HEAP_INITIALIZED"
    "start_address (heap witness_heap) = 0x91000" "end_address (heap witness_heap) = 0x200000"
    "max_end_address (heap witness_heap) = 0x300000" by (simp_all add: witness_heap_def)
qed

theorem heap_init_one_hole_witness:
  "\<exists>k'. heap_manager_init witness_ranges 0x10000 0x200000 0x300000 True False False False witness_boot = Some k' \<and>
     heap_inv k' [(0x91000, 0x16F000, True)]"
  using heap_init_one_hole [of witness_boot "0x10000" "0x200000" witness_ranges "0x300000" True False False]
  by (auto simp: heap_first_def PAGE_SIZE_def)

text \<open>
  C4: On an initialised heap with a hole large enough, an unaligned request is served from a
  smallest sufficient hole: the block starts there, the rest stays a hole when it can hold a header
  and a footer, all other blocks and all memory outside that hole and the index are untouched, and
  the heap invariant holds again.
\<close>

theorem heap_malloc_best_fit:
  assumes "status (heap k) = HEAP_INITIALIZED" "heap_inv k bs" "unat sz + 20 < 4294967296"
    "(q, u, True) \<in> set bs" "sz + 20 \<le> u"
  shows "\<exists>xs p s ys k'. heap_manager_malloc ranges sz False k = Some (p + 12, k') \<and>
    bs = xs @ (p, s, True) # ys \<and> sz + 20 \<le> s \<and> (\<forall>(q, u, h) \<in> set bs. h \<longrightarrow> sz + 20 \<le> u \<longrightarrow> s \<le> u) \<and>
    heap_inv k' (xs @ (if s - (sz + 20) < 20 then [(p, s, False)]
                       else [(p, sz + 20, False), (p + (sz + 20), s - (sz + 20), True)]) @ ys) \<and>
    (\<forall>x. x \<notin> region p s \<longrightarrow> x \<notin> index_area k \<longrightarrow> mem k' x = mem k x)"
proof -
  from allocate_best_fit [OF assms(2-5), of ranges 0] obtain xs p s ys k' where
    a: "allocate ranges sz False 0 k = Some (p + 12, k')" "bs = xs @ (p, s, True) # ys" "sz + 20 \<le> s"
    "\<forall>(q, u, h) \<in> set bs. h \<longrightarrow> sz + 20 \<le> u \<longrightarrow> s \<le> u"
    "heap_inv k' (xs @ split_block p s (sz + 20) @ ys)"
    "\<forall>x. x \<notin> region p s \<longrightarrow> x \<notin> index_area k \<longrightarrow> mem k' x = mem k x" by blast
  have "heap_manager_malloc ranges sz False k = Some (p + 12, k')"
    using assms(1) a(1) by (simp add: heap_manager_malloc_def heap_manager_malloc_physical_def)
  with a show ?thesis
    by (intro exI [of _ xs] exI [of _ p] exI [of _ s] exI [of _ ys] exI [of _ k']) (simp add: split_block_def)
qed

theorem heap_malloc_best_fit_witness:
  "\<exists>k'. heap_manager_malloc witness_ranges 100 False witness_heap = Some (0x9100C, k') \<and>
     heap_inv k' [(0x91000, 120, False), (0x91078, 0x16EF88, True)]"
  using heap_malloc_best_fit [OF witness_heap(2,1), of 100 "0x91000" "0x16F000" witness_ranges]
  by (auto simp: Cons_eq_append_conv)

lemma payload_inside:
  assumes "unat sz + 20 < 4294967296" "sz + 20 \<le> n"
  shows "region (p + 12) sz \<subseteq> region p n"
proof -
  have "unat (sz + 20) = unat sz + 20" using assms(1) by (subst unat_add_noov) simp_all
  then show ?thesis using assms(2) by (intro region_sub) (simp add: word_le_nat_alt)
qed

lemma blocks_apart:
  assumes t: "tiles m a (xs @ (p, s, h) # ys) e" "e \<le> 4294967296" and q: "(q, t, g) \<in> set (xs @ ys)"
  shows "region q t \<inter> region p s = {}"
proof -
  have b: "unat p + unat s \<le> e" "unat q + unat t \<le> e"
    using tiles_bounds [OF t(1)] q by auto
  have "unat q + unat t \<le> unat p \<or> unat p + unat s \<le> unat q"
    using q tiles_ordered [OF t(1)] tiles_ordered' [OF t(1)] by auto
  then show ?thesis
    using b t(2) regions_apart [of q t p s] regions_apart [of p s q t] by auto
qed

text \<open>What a granted request gets: memory inside the heap that no block in use covers.\<close>

lemma request_granted:
  assumes inv: "heap_inv k bs" and n: "unat sz + 20 < 4294967296" and fit: "(q, u, True) \<in> set bs" "sz + 20 \<le> u"
    and al: "allocate ranges sz False 0 k = Some (a, k1)"
  shows "\<exists>p n bs'. heap_inv k1 bs' \<and> (p, n, False) \<in> set bs' \<and> region a sz \<subseteq> region p n \<and>
    (\<forall>(q, u, h) \<in> set bs. \<not> h \<longrightarrow> (q, u, h) \<in> set bs' \<and> region q u \<inter> region a sz = {}) \<and>
    region a sz \<subseteq> {x. start_address (heap k) \<le> x \<and> x < end_address (heap k)} \<and>
    start_address (heap k1) = start_address (heap k) \<and> end_address (heap k1) = end_address (heap k) \<and>
    status (heap k1) = status (heap k)"
proof -
  from allocate_best_fit [OF inv n fit, of ranges 0] al obtain xs p s ys where
    1: "a = p + 12" "bs = xs @ (p, s, True) # ys" "sz + 20 \<le> s" "heap_inv k1 (xs @ split_block p s (sz + 20) @ ys)"
      "start_address (heap k1) = start_address (heap k)" "end_address (heap k1) = end_address (heap k)"
      "status (heap k1) = status (heap k)" by auto
  let ?e = "unat (end_address (heap k))"
  have t: "tiles (mem k) (unat (start_address (heap k))) (xs @ (p, s, True) # ys) ?e"
    using inv by (simp add: heap_inv_def 1(2))
  have e: "?e \<le> 4294967296" using unat_less_2p32 [of "end_address (heap k)"] by simp
  have in_p: "region a sz \<subseteq> region p s" using payload_inside [OF n 1(3), of p] 1(1) by simp
  have tb: "unat (start_address (heap k)) \<le> unat p" "unat p + unat s \<le> ?e"
    using tiles_bounds [OF t, of p s True] by auto
  have "region p s \<subseteq> {x. start_address (heap k) \<le> x \<and> x < end_address (heap k)}"
  proof
    fix x assume "x \<in> region p s"
    then have "unat p \<le> unat x \<and> unat x < unat p + unat s"
      using region_interval [of p s x] tb(2) e by simp
    then show "x \<in> {x. start_address (heap k) \<le> x \<and> x < end_address (heap k)}"
      using tb by (simp add: word_le_nat_alt word_less_nat_alt)
  qed
  moreover have "x \<notin> region a sz" if "(q, u, False) \<in> set (xs @ ys)" "x \<in> region q u" for q u x
    using blocks_apart [OF t e that(1)] that(2) in_p by blast
  moreover define n where "n = (if s - (sz + 20) < 20 then s else sz + 20)"
  have "(p, n, False) \<in> set (split_block p s (sz + 20))" "sz + 20 \<le> n"
    using 1(3) by (auto simp: split_block_def n_def)
  moreover from this have "region a sz \<subseteq> region p n" using payload_inside [OF n, of n p] 1(1) by simp
  ultimately show ?thesis
    using 1(2,4-7) in_p
    by - (rule exI [of _ p], rule exI [of _ n],
        rule exI [of _ "xs @ split_block p s (sz + 20) @ ys"], auto, blast+)
qed

text \<open>
  C5: On an initialised heap, two requests in a row that do not ask for a page boundary and each find
  a hole that is large enough get memory that does not overlap, lies between the start and the end of
  the heap, and overlaps no block that was in use before them.
\<close>

theorem heap_malloc_disjoint:
  assumes "status (heap k) = HEAP_INITIALIZED" "heap_inv k bs" "unat sz + 20 < 4294967296"
    "(q, u, True) \<in> set bs" "sz + 20 \<le> u"
    "heap_manager_malloc ranges sz False k = Some (a, k1)"
    "heap_inv k1 bs1" "unat sz' + 20 < 4294967296"
    "(q', u', True) \<in> set bs1" "sz' + 20 \<le> u'"
    "heap_manager_malloc ranges sz' False k1 = Some (b, k2)"
  shows "region a sz \<inter> region b sz' = {} \<and>
    region a sz \<union> region b sz' \<subseteq> {x. start_address (heap k) \<le> x \<and> x < end_address (heap k)} \<and>
    (\<forall>(p, n, hole) \<in> set bs. \<not> hole \<longrightarrow> region p n \<inter> (region a sz \<union> region b sz') = {})"
proof -
  have al: "allocate ranges sz False 0 k = Some (a, k1)"
    using assms(1,6)
    by (auto simp: heap_manager_malloc_def heap_manager_malloc_physical_def split: option.splits)
  from request_granted [OF assms(2-5) this] obtain p n bs' where
    1: "heap_inv k1 bs'" "(p, n, False) \<in> set bs'" "region a sz \<subseteq> region p n"
      "\<forall>(q, u, h) \<in> set bs. \<not> h \<longrightarrow> (q, u, h) \<in> set bs' \<and> region q u \<inter> region a sz = {}"
      "region a sz \<subseteq> {x. start_address (heap k) \<le> x \<and> x < end_address (heap k)}"
      "start_address (heap k1) = start_address (heap k)" "end_address (heap k1) = end_address (heap k)"
      "status (heap k1) = status (heap k)" by blast
  have bs: "bs1 = bs'"
    using tiles_unique assms(7) 1(1) unfolding heap_inv_def by blast
  have al2: "allocate ranges sz' False 0 k1 = Some (b, k2)"
    using 1(8) assms(1,11)
    by (auto simp: heap_manager_malloc_def heap_manager_malloc_physical_def split: option.splits)
  from request_granted [OF assms(7-10) this]
  have 2: "\<forall>(q, u, h) \<in> set bs1. \<not> h \<longrightarrow> region q u \<inter> region b sz' = {}"
      "region b sz' \<subseteq> {x. start_address (heap k) \<le> x \<and> x < end_address (heap k)}"
    using 1(6,7) by auto
  have "region p n \<inter> region b sz' = {}" using 2(1) 1(2) bs by auto
  then have "region a sz \<inter> region b sz' = {}" using 1(3) by blast
  moreover have "region a sz \<union> region b sz' \<subseteq> {x. start_address (heap k) \<le> x \<and> x < end_address (heap k)}"
    using 1(5) 2(2) by (rule Un_least)
  moreover have "\<forall>(p, n, hole) \<in> set bs. \<not> hole \<longrightarrow> region p n \<inter> (region a sz \<union> region b sz') = {}"
  proof (rule ballI)
    fix x assume x: "x \<in> set bs"
    obtain p' n' h where p': "x = (p', n', h)" by (metis surj_pair)
    have "region p' n' \<inter> (region a sz \<union> region b sz') = {}" if "\<not> h"
    proof -
      have 3: "(p', n', h) \<in> set bs1" "region p' n' \<inter> region a sz = {}"
        using bspec [OF 1(4) x] bs that by (simp_all add: p')
      have "region p' n' \<inter> region b sz' = {}" using bspec [OF 2(1) 3(1)] that by simp
      with 3(2) show ?thesis by (simp only: Int_Un_distrib Un_empty_left)
    qed
    then show "case x of (p, n, hole) \<Rightarrow> \<not> hole \<longrightarrow> region p n \<inter> (region a sz \<union> region b sz') = {}"
      by (simp add: p')
  qed
  ultimately show ?thesis by blast
qed

theorem heap_malloc_disjoint_witness:
  "\<exists>a k1 b k2. heap_manager_malloc witness_ranges 100 False witness_heap = Some (a, k1) \<and>
     heap_manager_malloc witness_ranges 200 False k1 = Some (b, k2) \<and> region a 100 \<inter> region b 200 = {} \<and>
     region a 100 \<union> region b 200 \<subseteq> {x. start_address (heap witness_heap) \<le> x \<and> x < end_address (heap witness_heap)}"
proof -
  have m: "heap_manager_malloc r n False k = allocate r n False 0 k" if "status (heap k) = HEAP_INITIALIZED" for r n k
    using that by (auto simp: heap_manager_malloc_def heap_manager_malloc_physical_def split: option.splits)
  obtain k1 where k1: "allocate witness_ranges 100 False 0 witness_heap = Some (0x9100C, k1)"
    "heap_inv k1 [(0x91000, 120, False), (0x91078, 0x16EF88, True)]" "status (heap k1) = HEAP_INITIALIZED"
    using allocate_best_fit [OF witness_heap(1), of 100 "0x91000" "0x16F000" witness_ranges 0] witness_heap(2)
    by (auto simp: Cons_eq_append_conv split_block_def)
  obtain b k2 where k2: "allocate witness_ranges 200 False 0 k1 = Some (b, k2)"
    using allocate_best_fit [OF k1(2), of 200 "0x91078" "0x16EF88" witness_ranges 0] by auto
  have "region 0x9100C 100 \<inter> region b 200 = {} \<and>
      region 0x9100C 100 \<union> region b 200 \<subseteq> {x. start_address (heap witness_heap) \<le> x \<and> x < end_address (heap witness_heap)} \<and>
      (\<forall>(p, n, hole) \<in> set [(0x91000, 0x16F000, True)]. \<not> hole \<longrightarrow> region p n \<inter> (region 0x9100C 100 \<union> region b 200) = {})"
    by (rule heap_malloc_disjoint [OF witness_heap(2,1) _ _ _ _ k1(2), of 100 "0x91000" "0x16F000" witness_ranges
          "0x9100C" 200 "0x91078" "0x16EF88" b k2])
       (use k1 k2 m witness_heap(2) in \<open>simp_all\<close>)
  then show ?thesis using k1 k2 m witness_heap(2) by auto
qed

text \<open>
  When no hole fits and growing by the request would pass the heap's upper limit, the request
  returns null and nothing changes.
\<close>

theorem heap_malloc_exhausted:
  assumes "status (heap k) = HEAP_INITIALIZED" "heap_inv k bs"
    "\<forall>(q, u, h) \<in> set bs. h \<longrightarrow> u < sz + 20"
    "max_end_address (heap k) < start_address (heap k) + (end_address (heap k) - start_address (heap k) + (sz + 20))"
  shows "heap_manager_malloc ranges sz False k = Some (NULL, k)"
proof -
  have "\<not> hole_fits (mem k) (sz + 20) False (index_get k i)" if i: "i < index_size k" for i
  proof -
    obtain xs s ys where "bs = xs @ (index_get k i, s, True) # ys" "header_size (mem k) (index_get k i) = s"
      using hole_split [OF assms(2) i] by blast
    then show ?thesis using assms(3) by (simp add: hole_fits_def not_le)
  qed
  then have "find_smallest_hole (sz + 20) False k = None" by (simp add: find_smallest_hole_None)
  from allocate_no_room [OF this assms(4), of ranges 0] show ?thesis
    using assms(1) by (simp add: heap_manager_malloc_def heap_manager_malloc_physical_def)
qed

theorem heap_malloc_exhausted_witness:
  "heap_manager_malloc witness_ranges 0x400000 False witness_heap = Some (NULL, witness_heap)"
  using heap_malloc_exhausted [OF witness_heap(2,1), of "0x400000" witness_ranges]
  by (simp add: witness_heap)

text \<open>
  The size of a request is not checked for wrap-around: on a heap with any hole a request for
  \<open>2^32 - 20 + n\<close> bytes, \<open>n\<close> up to 20, is granted like one that needs \<open>n\<close> bytes.
\<close>

theorem heap_malloc_wraps:
  assumes "status (heap k) = HEAP_INITIALIZED" "heap_inv k bs" "(q, u, True) \<in> set bs" "n \<le> 20"
  shows "\<exists>p s k'. heap_manager_malloc ranges (n - 20) False k = Some (p + 12, k') \<and> (p, s, True) \<in> set bs"
proof -
  have "20 \<le> u" using assms(2,3) tiles_bounds by (fastforce simp: heap_inv_def word_le_nat_alt)
  then have nu: "n - 20 + 20 \<le> u" using assms(4) by simp
  have "q \<in> set (index_list k)"
    using assms(2,3) in_hole_addrs [of q bs] by (auto simp: heap_inv_def dest: mset_eq_setD)
  then obtain j where j: "j < length (index_list k)" "q = index_list k ! j" by (auto simp: in_set_conv_nth)
  then have ju: "of_nat j < index_size k" "index_get k (of_nat j) = q"
    using word_of_nat_less [of j "index_size k"] by (simp_all add: length_index_list index_get_nth)
  have "header_size (mem k) q = u" using assms(2,3) by (auto simp: heap_inv_def dest: tiles_headers)
  then have "find_smallest_hole (n - 20 + 20) False k \<noteq> None"
    using ju nu by (auto simp: find_smallest_hole_None hole_fits_def)
  then obtain i where f: "find_smallest_hole (n - 20 + 20) False k = Some i" by blast
  obtain xs s ys where b: "bs = xs @ (index_get k i, s, True) # ys"
    using hole_split [OF assms(2) find_smallest_hole_Some(1) [OF f]] by blast
  obtain r k' where r: "allocate_hole i (n - 20) False k = (r, k')" by fastforce
  then have "r = index_get k i + 12"
    by (simp add: allocate_hole_def Let_def sizeof_header_def split: if_splits prod.splits)
  with allocate_found [OF f, of ranges 0] r b assms(1) show ?thesis
    by (intro exI [of _ "index_get k i"] exI [of _ s] exI [of _ k'])
       (simp add: heap_manager_malloc_def heap_manager_malloc_physical_def)
qed

theorem heap_malloc_wraps_witness:
  "\<exists>k'. heap_manager_malloc witness_ranges 0xFFFFFFF0 False witness_heap = Some (0x9100C, k')"
proof -
  have eq: "(4 - 20 :: u32) = 0xFFFFFFF0" by simp
  obtain p s k' where "heap_manager_malloc witness_ranges 0xFFFFFFF0 False witness_heap = Some (p + 12, k')"
    "(p, s, True) \<in> {(0x91000, 0x16F000, True)}"
    using heap_malloc_wraps [OF witness_heap(2,1), of "0x91000" "0x16F000" 4 witness_ranges, unfolded eq] by auto
  then show ?thesis by (intro exI [of _ k']) simp
qed

text \<open>
  C10: Freeing a block away from the end of the heap, with nothing that looks like a hole where the
  code looks for its neighbours, turns exactly that block into a hole, enters it in the index and
  keeps the heap invariant. A hole that directly follows the block is not merged: the code looks 64
  bytes after the footer, not at the next header.
\<close>

theorem heap_free_plain:
  assumes "status (heap k) = HEAP_INITIALIZED" "heap_inv k (xs @ (p, s, False) # ys)"
    "index_size k < oa_max_size (heap_array (heap k))" "p + 12 \<noteq> NULL" "p + s \<noteq> end_address (heap k)"
    "let m = set_is_hole (mem k) p True in
     \<not> (footer_magic m (p - 8) = HEAP_MAGIC \<and> header_is_hole m (footer_header m (p - 8))) \<and>
     \<not> (header_magic m (p + s + 56) = HEAP_MAGIC \<and> header_is_hole m (p + s + 56))"
  shows "\<exists>k'. heap_manager_free junk (p + 12) k = Some k' \<and> heap_inv k' (xs @ (p, s, True) # ys)"
  using unallocate_plain [OF assms(2-5)] assms(1,6) by (auto simp: heap_manager_free_def Let_def)

definition witness_two_blocks :: kmem where
  "witness_two_blocks = power_on\<lparr>
     mem := put_header (put_header (\<lambda>_. 0) 0x1000 0x80 False) 0x1080 0x80 False,
     heap := (heap power_on)\<lparr>status := HEAP_INITIALIZED, start_address := 0x1000, end_address := 0x1100,
       heap_array := \<lparr>oa_array = 0x100, oa_size = 0, oa_max_size = 8, oa_is_less_than = Some is_less_than\<rparr>\<rparr>\<rparr>"

lemma witness_two_blocks: "heap_inv witness_two_blocks [(0x1000, 0x80, False), (0x1080, 0x80, False)]"
proof -
  have "region 0x1000 12 \<inter> region 0x1080 12 = {}" by (intro regions_apart) simp_all
  then have "region 0x1080 12 \<inter> region 0x1000 12 = {}" by blast
  then show ?thesis
    by (simp add: heap_inv_def witness_two_blocks_def header_after_header index_ok_def oa_ok_def
        index_list_def oa_list_def)
qed

lemma witness_two_blocks_clear:
  assumes "unat a + 4 \<le> 0x1000 \<or> 0x100C \<le> unat a \<and> unat a + 4 \<le> 0x1080 \<or> 0x108C \<le> unat a \<and> unat a < 0xFFFFFFF0"
  shows "read32 (set_is_hole (mem witness_two_blocks) 0x1000 True) a = 0"
proof -
  have "set_is_hole (mem witness_two_blocks) 0x1000 True x = 0" if x: "x \<in> region a 4" for x
  proof -
    have "x \<notin> region 0x1000 12" "x \<notin> region 0x1080 12" "x \<noteq> 0x1008"
      using assms x region_interval [of a 4 x] region_interval [of "0x1000" 12 x] region_interval [of "0x1080" 12 x]
      by auto
    then show ?thesis by (simp add: set_is_hole_def witness_two_blocks_def put_header_outside)
  qed
  then have "read32 (set_is_hole (mem witness_two_blocks) 0x1000 True) a = read32 (\<lambda>_. 0) a"
    by (intro read32_region) simp
  then show ?thesis by (simp add: read32_def)
qed

theorem heap_free_plain_witness:
  "\<exists>k'. heap_manager_free 0 0x100C witness_two_blocks = Some k' \<and>
     heap_inv k' [(0x1000, 0x80, True), (0x1080, 0x80, False)]"
proof -
  let ?m = "set_is_hole (mem witness_two_blocks) 0x1000 True"
  have "footer_magic ?m 0xFF8 = 0" "header_magic ?m 0x10B8 = 0"
    by (simp_all add: footer_defs header_defs witness_two_blocks_clear)
  then show ?thesis
    using heap_free_plain [of witness_two_blocks "[]" "0x1000" "0x80" "[(0x1080, 0x80, False)]" 0] witness_two_blocks
    by (simp add: Let_def HEAP_MAGIC_def index_size_def witness_two_blocks_def [THEN arg_cong, of heap] power_on_def)
qed

text \<open>
  After an expansion the new room is added to the size of the hole with the highest address,
  also when that hole is not the last block: the live block behind it then lies inside the hole.
\<close>

theorem heap_growth_swallows_block:
  assumes "heap_inv k (xs @ (p, s, True) # (q, t, False) # ys)" "p \<noteq> 0" "hole_addrs ys = []"
    "unat s + unat d < 4294967296" "0 < d"
  shows "let k1 = k\<lparr>heap := (heap k)\<lparr>end_address := end_address (heap k) + d\<rparr>\<rparr>;
      k2 = add_room old_end (end_address (heap k) - start_address (heap k)) k1
    in unat p < unat q \<and> unat q < unat p + unat (header_size (mem k2) p)"
proof -
  let ?bs = "xs @ (p, s, True) # (q, t, False) # ys"
  have ti: "tiles (mem k) (unat (start_address (heap k))) ?bs (unat (end_address (heap k)))"
    using assms(1) by (simp add: heap_inv_def)
  then have pq: "unat q = unat p + unat s" "20 \<le> unat s" by (auto simp: tiles_append)
  have sd: "unat (s + d) = unat s + unat d" using assms(4) by (rule unat_add_noov)
  then have nl: "\<not> s + d < 20" using pq(2) by (simp add: word_less_nat_alt)
  have "header_size (mem (add_room old_end (end_address (heap k) - start_address (heap k))
      (k\<lparr>heap := (heap k)\<lparr>end_address := end_address (heap k) + d\<rparr>\<rparr>))) p = s + d"
    using add_room_grows [OF assms(1) refl assms(2) _ refl, of old_end "end_address (heap k) + d"] assms(3) nl
    by simp
  then show ?thesis using pq sd assms(5) by (simp add: Let_def word_less_nat_alt)
qed

text \<open>A heap whose only hole is followed by a live block.\<close>

definition witness_hole_first :: kmem where
  "witness_hole_first = power_on\<lparr>
     mem := put_header (put_header (write32 (\<lambda>_. 0) 0x100 0x1000) 0x1000 0x80 True) 0x1080 0x80 False,
     heap := (heap power_on)\<lparr>status := HEAP_INITIALIZED, start_address := 0x1000, end_address := 0x1100,
       heap_array := \<lparr>oa_array = 0x100, oa_size = 1, oa_max_size = 8, oa_is_less_than = Some is_less_than\<rparr>\<rparr>\<rparr>"

lemma witness_hole_first: "heap_inv witness_hole_first [(0x1000, 0x80, True), (0x1080, 0x80, False)]"
proof -
  have "region 0x1000 12 \<inter> region 0x1080 12 = {}" by (intro regions_apart) simp_all
  then have d: "region 0x1080 12 \<inter> region 0x1000 12 = {}" by blast
  let ?m = "write32 (\<lambda>_. 0) 0x100 0x1000"
  have "read32 (put_header (put_header ?m 0x1000 0x80 True) 0x1080 0x80 False) 0x100 = read32 ?m 0x100"
  proof (rule read32_region)
    fix x :: u32 assume x: "x \<in> region 0x100 4"
    then have "x \<notin> region 0x1000 12" "x \<notin> region 0x1080 12"
      using region_interval [of "0x100" 4 x] region_interval [of "0x1000" 12 x] region_interval [of "0x1080" 12 x]
      by auto
    then show "put_header (put_header ?m 0x1000 0x80 True) 0x1080 0x80 False x = ?m x"
      by (simp add: put_header_outside)
  qed
  with d show ?thesis
    by (simp add: heap_inv_def witness_hole_first_def header_after_header index_ok_def oa_ok_def
        index_list_def oa_list_def mem_list_def elem32_def)
qed

theorem heap_growth_swallows_block_witness:
  "let k = witness_hole_first; k1 = k\<lparr>heap := (heap k)\<lparr>end_address := end_address (heap k) + 0x1000\<rparr>\<rparr>;
     k2 = add_room 0x1100 (end_address (heap k) - start_address (heap k)) k1
   in 0x1080 < 0x1000 + unat (header_size (mem k2) 0x1000)"
  using heap_growth_swallows_block [of witness_hole_first "[]" "0x1000" "0x80" "0x1080" "0x80" "[]" "0x1000" "0x1100"]
    witness_hole_first by (simp add: Let_def)

text \<open>
  Shrinking the heap ends, but it unmaps offsets instead of addresses: when the heap is smaller
  than its start address, every page it unmaps lies below the heap, and none belongs to it.
\<close>

theorem heap_contract_unmaps_below:
  assumes "unat (start_address (heap k)) + 4096 \<le> unat (end_address (heap k))"
    "end_address (heap k) - start_address (heap k) \<le> start_address (heap k)"
  shows "\<exists>as n k'. contract new_size k = Some (n, k') \<and> mem k' = mem (fold heap_free_single as k) \<and>
    end_address (heap k') = start_address (heap k) + n \<and> HEAP_MIN_SIZE \<le> n \<and>
    (\<forall>a \<in> set as. a < start_address (heap k)) \<and>
    (n < end_address (heap k) - start_address (heap k) - PAGE_SIZE \<longrightarrow> as \<noteq> [])"
proof -
  obtain as n where "contract new_size k = Some (n, (fold heap_free_single as k)
      \<lparr>heap := (heap k)\<lparr>end_address := start_address (heap k) + n\<rparr>\<rparr>)" "HEAP_MIN_SIZE \<le> n"
    "\<forall>a \<in> set as. a < start_address (heap k)"
    "n < end_address (heap k) - start_address (heap k) - PAGE_SIZE \<longrightarrow> as \<noteq> []"
    using contract_spec [OF assms, of new_size] by blast
  then show ?thesis
    by (intro exI [of _ as] exI [of _ n]
        exI [of _ "(fold heap_free_single as k)\<lparr>heap := (heap k)\<lparr>end_address := start_address (heap k) + n\<rparr>\<rparr>"]) simp
qed

definition witness_high_heap :: kmem where
  "witness_high_heap = power_on\<lparr>heap := (heap power_on)\<lparr>status := HEAP_INITIALIZED,
     start_address := 0xC0481000, end_address := 0xC0581000\<rparr>\<rparr>"

theorem heap_contract_unmaps_below_witness:
  "\<exists>as n k'. contract 0x1000 witness_high_heap = Some (n, k') \<and> (\<forall>a \<in> set as. a < 0xC0481000) \<and>
     mem k' = mem (fold heap_free_single as witness_high_heap) \<and> (n < 0xFF000 \<longrightarrow> as \<noteq> [])"
  using heap_contract_unmaps_below [of witness_high_heap "0x1000"]
  by (auto simp: witness_high_heap_def PAGE_SIZE_def)

end
