(* ===== verification/Kernel_Memory.thy ===== *)
theory Kernel_Memory
  imports Heap
begin

text \<open>
  The memory services tied together: the mutual recursion of allocation and paging, the set-up of
  the frame manager, the calls of kernel-memory.c, and the memory part of kernel-main.c.
\<close>

section \<open>Allocation and paging call each other\<close>

text \<open>
  \<open>heap_manager_malloc\<close> grows the heap through the paging manager, which takes page tables from
  \<open>heap_manager_malloc\<close>. The first argument bounds how deeply the calls nest; a call that needs more
  is the value \<open>None\<close>, like one that never returns.
\<close>

definition page_ranges :: "(u32 \<Rightarrow> bool \<Rightarrow> (kmem, u32) prog) \<Rightarrow> ranges" where
  "page_ranges malloc identity a e is_kernel is_writeable k =
     (if identity then paging_manager_identity_allocate_range malloc a e is_kernel is_writeable k
      else paging_manager_allocate_range malloc a e is_kernel is_writeable k)"

primrec malloc :: "nat \<Rightarrow> u32 \<Rightarrow> bool \<Rightarrow> (kmem, u32) prog" where
  "malloc 0 sz should_align k = None"
| "malloc (Suc n) sz should_align k = heap_manager_malloc (page_ranges (malloc n)) sz should_align k"

section \<open>The calls of kernel-memory.c\<close>

definition kernel_malloc :: "nat \<Rightarrow> u32 \<Rightarrow> (kmem, u32) prog" where
  "kernel_malloc n sz k = malloc n sz False k"

definition kernel_free :: "u32 \<Rightarrow> u32 \<Rightarrow> kmem \<Rightarrow> kmem option" where
  "kernel_free junk p k = heap_manager_free junk p k"

definition kernel_amalloc :: "nat \<Rightarrow> u32 \<Rightarrow> (kmem, u32) prog" where
  "kernel_amalloc n sz k = malloc n sz True k"

definition kernel_calloc :: "nat \<Rightarrow> u32 \<Rightarrow> u32 \<Rightarrow> (kmem, u32) prog" where
  "kernel_calloc n cnt sz k =
     (let total = cnt * sz in
      case kernel_amalloc n total k of None \<Rightarrow> None
      | Some (p, k) \<Rightarrow>
        Some (p, if p \<noteq> NULL then k\<lparr>mem := memset (mem k) p 0 total\<rparr> else k))"

definition kernel_realloc :: "nat \<Rightarrow> u32 \<Rightarrow> u32 \<Rightarrow> u32 \<Rightarrow> (kmem, u32) prog" where
  "kernel_realloc n junk p sz k =
     (if p = NULL then kernel_amalloc n sz k
      else if sz = 0 then map_option (\<lambda>k. (NULL, k)) (kernel_free junk p k)
      else case kernel_amalloc n sz k of None \<Rightarrow> None
        | Some (q, k) \<Rightarrow>
          if q = NULL then Some (NULL, k)
          else map_option (\<lambda>k. (q, k)) (kernel_free junk p (k\<lparr>mem := memcpy (mem k) q p sz\<rparr>)))"

section \<open>Setting up the frame manager\<close>

definition physical_memory_manager_init ::
  "nat \<Rightarrow> u32 \<Rightarrow> (mem \<Rightarrow> mem) option \<Rightarrow> kmem \<Rightarrow> kmem option" where
  "physical_memory_manager_init n memory_sz handler k =
     (if pm_initialized (pmm k) then Some k
      else
        let p = (pmm k)\<lparr>block_used := 0, failed := False, failure := handler,
                  pm_bitmap := bitmap_init (pm_bitmap (pmm k)) 4\<rparr>;
            bits = memory_sz div PAGE_SIZE;
            entries = bits div bits_per_entry (pm_bitmap p);
            sz = entries * sizeof_type_t (pm_bitmap p)
        in case malloc n sz True (k\<lparr>pmm := p\<rparr>) of None \<Rightarrow> None
           | Some (array, k) \<Rightarrow>
             if array = NULL then Some k
             else
               let b = bitmap_place (pm_bitmap (pmm k)) array sz
               in Some (k\<lparr>mem := bitmap_clear (mem k) b,
                    pmm := (pmm k)\<lparr>pm_bitmap := b, pm_initialized := True\<rparr>\<rparr>))"

section \<open>The memory part of kernel_main\<close>

text \<open>
  The addresses the linker script provides are arguments: the end of the kernel image, the start of
  the kernel's address space, and the heap's limits.
\<close>

definition kernel_paging_setup :: "nat \<Rightarrow> u32 \<Rightarrow> u32 \<Rightarrow> u32 \<Rightarrow> kmem \<Rightarrow> kmem option" where
  "kernel_paging_setup n end_of_kernel kernel_space useable_memory k =
     (case physical_memory_manager_init n useable_memory None (heap_manager_bootstrap end_of_kernel k) of
        None \<Rightarrow> None
      | Some k \<Rightarrow>
        case malloc n 0x2000 True k of None \<Rightarrow> None
        | Some (pd, k) \<Rightarrow>
          let k = paging_manager_init pd True True k in
          case paging_manager_allocate_range (malloc n) kernel_space
                 (placement_address (heap k) + PAGE_SIZE) True True k of
            None \<Rightarrow> None
          | Some k \<Rightarrow> Some (paging_manager_enable (paging_manager_set_system_paging False k)))"

definition kernel_heap_setup :: "nat \<Rightarrow> u32 \<Rightarrow> u32 \<Rightarrow> u32 \<Rightarrow> u32 \<Rightarrow> u32 \<Rightarrow> kmem \<Rightarrow> kmem option" where
  "kernel_heap_setup n heap_start heap_end heap_max low_start low_end k =
     (case heap_manager_init (page_ranges (malloc n)) heap_start heap_end heap_max True False False True k of
        None \<Rightarrow> None
      | Some k \<Rightarrow> paging_manager_identity_allocate_range (malloc n) low_start low_end True True k)"

section \<open>The bump allocator is a page allocator\<close>

definition align_up :: "u32 \<Rightarrow> u32" where
  "align_up p = (if p AND 0xFFF \<noteq> 0 then (p AND 0xFFFFF000) + PAGE_SIZE else p)"

lemma align_up:
  assumes "p \<le> 0xFFFFF000"
  shows "unat p \<le> unat (align_up p)" "unat (align_up p) < unat p + 4096" "4096 dvd unat (align_up p)"
proof -
  show "unat p \<le> unat (align_up p)" "unat (align_up p) < unat p + 4096" "4096 dvd unat (align_up p)"
  proof -
    consider "unat p mod 4096 = 0" | "unat p mod 4096 \<noteq> 0" by blast
    then have "unat p \<le> unat (align_up p) \<and> unat (align_up p) < unat p + 4096 \<and> 4096 dvd unat (align_up p)"
    proof cases
      case 1
      then have "p AND 0xFFF = 0" using unat_and_0xFFF [of p] by (simp only: unat_eq_0)
      with 1 show ?thesis by (simp add: align_up_def dvd_eq_mod_eq_0)
    next
      case 2
      have ne: "p AND 0xFFF \<noteq> 0" using 2 unat_and_0xFFF [of p] by auto
      have "unat p \<noteq> 4294963200" using 2 by auto
      then have "unat p < 4294963200" using assms by (simp add: word_le_nat_alt)
      then have "unat p div 4096 * 4096 + 4096 < 4294967296" by (simp add: div_less_iff_less_mult)
      then have "unat ((p AND 0xFFFFF000) + PAGE_SIZE) = unat p div 4096 * 4096 + 4096"
        by (subst unat_add_noov) (simp_all add: unat_and_0xFFFFF000 PAGE_SIZE_def)
      then have "unat (align_up p) = unat p div 4096 * 4096 + 4096" using ne by (simp add: align_up_def)
      moreover have "unat p div 4096 * 4096 + unat p mod 4096 = unat p" "unat p mod 4096 < 4096"
        by (simp_all only: div_mult_mod_eq mod_less_divisor zero_less_numeral)
      moreover have "4096 dvd unat p div 4096 * 4096 + (4096 :: nat)" by (intro dvd_add) simp_all
      moreover have "0 < unat p mod 4096" using 2 by simp
      ultimately have "4096 dvd unat (align_up p)" "unat p \<le> unat (align_up p)"
        "unat (align_up p) < unat p + 4096" by (metis, linarith, linarith)
      then show ?thesis by blast
    qed
    then show "unat p \<le> unat (align_up p)" "unat (align_up p) < unat p + 4096" "4096 dvd unat (align_up p)"
      by blast+
  qed
qed

lemma aligned_page: "4096 dvd unat p \<Longrightarrow> p AND 0xFFF = (0 :: u32)"
  using unat_and_0xFFF [of p] by (simp add: unat_eq_0 dvd_eq_mod_eq_0)

definition bump_arena :: "kmem \<Rightarrow> u32 set" where
  "bump_arena k = (if status (heap k) = HEAP_BOOTSTRAPED then {x. placement_address (heap k) \<le> x} else UNIV)"

definition bump_room :: "kmem \<Rightarrow> nat" where
  "bump_room k =
     (let p = placement_address (heap k) in
      if status (heap k) = HEAP_BOOTSTRAPED \<and> p \<noteq> 0 \<and> p \<le> 0xFFFFF000
      then (4294967295 - unat (align_up p)) div 4096 else 0)"

lemma malloc_bump:
  assumes "status (heap k) = HEAP_BOOTSTRAPED"
  shows "malloc (Suc n) sz al k =
    (let base = (if al then align_up (placement_address (heap k)) else placement_address (heap k))
     in Some (base, k\<lparr>heap := (heap k)\<lparr>placement_address := base + sz\<rparr>\<rparr>))"
  using assms
  by (simp add: heap_manager_malloc_def heap_manager_malloc_physical_def Let_def align_up_def)

interpretation bump: page_allocator "malloc (Suc n)" bump_arena bump_room for n
proof unfold_locales
  fix k k' :: kmem
  assume "heap k' = heap k"
  then show "bump_arena k' = bump_arena k \<and> bump_room k' = bump_room k"
    by (simp add: bump_arena_def bump_room_def)
next
  fix k :: kmem
  let ?p = "placement_address (heap k)"
  let ?b = "align_up ?p"
  let ?k = "k\<lparr>heap := (heap k)\<lparr>placement_address := ?b + 0x1000\<rparr>\<rparr>"
  assume r: "0 < bump_room k"
  then have st: "status (heap k) = HEAP_BOOTSTRAPED" and p: "?p \<noteq> 0" "?p \<le> 0xFFFFF000"
    and rm: "bump_room k = (4294967295 - unat ?b) div 4096"
    by (auto simp: bump_room_def Let_def split: if_splits)
  note al = align_up [OF p(2)]
  obtain q where q: "unat ?b = 4096 * q" using al(3) by (auto elim: dvdE)
  have fits: "unat ?b + 4096 \<le> 4294967295"
    using r unfolding rm by (simp add: div_greater_zero_iff)
  then have ub: "unat (?b + 0x1000) = unat ?b + 4096" by (subst unat_add_noov) simp_all
  have le: "unat (?b + 0x1000) \<le> 4294963200" using fits q ub by simp
  have "0 < unat ?p" using p(1) by (simp add: unat_gt_0)
  then have b0: "?b \<noteq> 0" using al(1) by auto
  have up: "align_up (?b + 0x1000) = ?b + 0x1000"
  proof -
    have "unat ((?b + 0x1000) AND 0xFFF) = 0" using q ub by (simp add: unat_and_0xFFF)
    then show ?thesis by (simp add: align_up_def unat_eq_0)
  qed
  have reg: "x \<in> region ?b 0x1000 \<longleftrightarrow> unat ?b \<le> unat x \<and> unat x < unat ?b + 4096" for x
    using fits region_interval [of ?b "0x1000" x] by simp
  have "malloc (Suc n) 0x1000 True k = Some (?b, ?k)" using malloc_bump [OF st] by (simp add: Let_def)
  moreover have "region ?b 0x1000 \<subseteq> bump_arena k"
    using reg al(1) by (auto simp: bump_arena_def st word_le_nat_alt)
  moreover have "bump_arena ?k \<subseteq> bump_arena k - region ?b 0x1000"
    using reg ub al(1) by (auto simp: bump_arena_def st word_le_nat_alt)
  moreover have "bump_room ?k = bump_room k - 1"
  proof -
    have "?b + 0x1000 \<noteq> 0" using ub by (auto simp: word_unat_eq_iff)
    moreover have "?b + 0x1000 \<le> 0xFFFFF000" using le by (simp add: word_le_nat_alt)
    ultimately have "bump_room ?k = (4294967295 - (unat ?b + 4096)) div 4096"
      using ub up by (simp add: bump_room_def st)
    also have "\<dots> = (4294967295 - unat ?b) div 4096 - 1"
      using fits by (subst (2) div_if) simp
    finally show ?thesis using rm by simp
  qed
  moreover have "?b AND 0xFFF = 0" using aligned_page [OF al(3)] .
  ultimately show "\<exists>t k'. malloc (Suc n) 0x1000 True k = Some (t, k') \<and> t \<noteq> NULL \<and> t AND 0xFFF = 0 \<and>
      region t 0x1000 \<subseteq> bump_arena k \<and> bump_arena k' \<subseteq> bump_arena k - region t 0x1000 \<and>
      bump_room k' = bump_room k - 1 \<and> (\<forall>x. x \<notin> bump_arena k \<longrightarrow> mem k' x = mem k x) \<and> same_but_heap k k'"
    using b0 by (intro exI [of _ ?b] exI [of _ ?k]) (simp add: same_but_heap_def)
qed

section \<open>Turning paging on\<close>

text \<open>The layout of the boot: where the frame bitmap and the page directory go.\<close>

definition boot_bitmap_bytes :: "u32 \<Rightarrow> u32" where "boot_bitmap_bytes m = m div PAGE_SIZE div 32 * 4"

definition boot_directory :: "u32 \<Rightarrow> u32 \<Rightarrow> u32" where
  "boot_directory e m = align_up (align_up e + boot_bitmap_bytes m)"

lemma unat_boot_bitmap_bytes: "unat (boot_bitmap_bytes m) = unat m div 131072 * 4"
proof -
  have "unat (m div PAGE_SIZE div 32) = unat m div 131072"
    by (simp add: PAGE_SIZE_def unat_div div_mult2_eq [symmetric])
  moreover have "unat m div 131072 < 32768" using unat_less_2p32 [of m] by (simp add: div_less_iff_less_mult)
  ultimately show ?thesis
    using iffD1 [OF unat_mult_lem, of "m div PAGE_SIZE div 32" 4] by (simp add: boot_bitmap_bytes_def)
qed

lemma boot_layout:
  fixes e m
  assumes "0xC0000000 \<le> e" "e \<le> 0xCF000000"
  defines "a \<equiv> align_up e" and "w \<equiv> boot_bitmap_bytes m" and "pd \<equiv> boot_directory e m"
  shows "unat e \<le> unat a" "unat a < unat e + 4096" "unat w \<le> 131068" "unat (a + w) = unat a + unat w"
    "unat (a + w) \<le> unat pd" "unat pd < unat (a + w) + 4096" "4096 dvd unat pd" "unat pd < 0xCF030000"
proof -
  have e: "unat e \<le> 0xCF000000" "3221225472 \<le> unat e" "e \<le> 0xFFFFF000"
    using assms(1,2) by (simp_all add: word_le_nat_alt)
  note a = align_up [OF e(3), folded a_def]
  have "unat m div 131072 < 32768" using unat_less_2p32 [of m] by (simp add: div_less_iff_less_mult)
  then show w: "unat w \<le> 131068" by (simp add: w_def unat_boot_bitmap_bytes)
  then show aw: "unat (a + w) = unat a + unat w" using a(2) e(1) by (subst unat_add_noov) simp_all
  have "a + w \<le> 0xFFFFF000" using aw a(2) e(1) w by (simp add: word_le_nat_alt)
  note p = align_up [OF this, unfolded a_def w_def, folded boot_directory_def, folded a_def w_def pd_def]
  show "unat e \<le> unat a" "unat a < unat e + 4096" by (rule a)+
  show "unat (a + w) \<le> unat pd" "unat pd < unat (a + w) + 4096" "4096 dvd unat pd" by (rule p)+
  show "unat pd < 0xCF030000" using p(2) aw a(2) e(1) w by simp
qed

lemma cleared_directory:
  fixes m pd
  assumes al: "pd AND 0xFFF = 0"
  defines "m' \<equiv> memset m pd 0 0x2000"
  shows "mapped m' pd va = None" "paging_wf m' pd" "paging_area m' pd = region pd 0x2000"
proof -
  have "read32 m' (pde_addr pd i) = 0" if "i < 1024" for i :: u32
  proof -
    have "unat i < 1024" "i < 0x40000000" using that by (simp_all add: word_less_nat_alt)
    then have "unat (pde_addr pd i - pd) + 4 \<le> 0x2000"
      by (simp only: pde_addr_def elem32_def add_diff_cancel_left' unat_mult4)
    then show ?thesis by (simp add: m'_def memset_read32_zero)
  qed
  note p = this
  have z: "ref_table m' pd i = NULL" if "i < 1024" for i
  proof -
    have "0x400 + i < 0x40000000" "unat (0x400 + i) < 2048"
      using index_1024 [OF that] that by (simp_all add: word_less_nat_alt)
    moreover have "ref_addr pd i - pd = 4 * (0x400 + i)"
      by (simp only: ref_addr_elem elem32_def add_diff_cancel_left')
    ultimately have "unat (ref_addr pd i - pd) + 4 \<le> 0x2000" by (simp only: unat_mult4)
    then show ?thesis by (simp add: ref_table_def m'_def memset_read32_zero)
  qed
  then show "mapped m' pd va = None" by (simp add: mapped_def dir_index_bound)
  have "entry_ok m' pd i" if "i < 1024" for i :: u32
    using z [OF that] p [OF that] by (simp add: entry_ok_def entry_present_def)
  note eo = this
  have "table_area m' pd i = {}" if "i < 1024" for i using z [OF that] by (simp add: table_area_def)
  then show "paging_wf m' pd" "paging_area m' pd = region pd 0x2000"
    using al eo by (simp_all add: paging_wf_def paging_area_def)
qed

text \<open>The state in which the kernel's own address range is about to be mapped.\<close>

lemma boot_ready:
  fixes e m
  assumes st: "status (heap k) = HEAP_UNINITIALIZED" and pi: "\<not> pm_initialized (pmm k)"
    and pe: "\<not> paging_enabled k" and e: "0xC0000000 \<le> e" "e \<le> 0xCF000000"
  defines "pd \<equiv> boot_directory e m" and "w \<equiv> boot_bitmap_bytes m"
  shows "\<exists>k1 k3. physical_memory_manager_init (Suc n) m None (heap_manager_bootstrap e k) = Some k1 \<and>
    (\<exists>k2. malloc (Suc n) 0x2000 True k1 = Some (pd, k2) \<and> k3 = paging_manager_init pd True True k2) \<and>
    paging_ok (bump_arena k3) k3 pd \<and> pmm_used (mem k3, pmm k3) = {} \<and>
    unat (bit_count (pm_bitmap (pmm k3))) = 8 * unat w \<and> (\<forall>va. mapped (mem k3) pd va = None) \<and>
    placement_address (heap k3) = pd + 0x2000 \<and> status (heap k3) = HEAP_BOOTSTRAPED \<and>
    page_directory (paging k3) = pd \<and> paging_ready k3 \<and> paging_enabled k3 = paging_enabled k"
proof -
  let ?a = "align_up e"
  note bl = boot_layout(1,2) [OF e] boot_layout(3-8) [OF e, of m, folded pd_def w_def]
  let ?ini = "bitmap_init (pm_bitmap (pmm k)) 4"
  let ?b = "bitmap_place ?ini ?a w"
  have wz: "w < 0x20000000" "w mod 4 = 0"
  proof -
    show "w < 0x20000000" using bl(3) by (simp add: word_less_nat_alt)
    have "unat (w mod 4) = 0" by (simp add: w_def unat_mod unat_boot_bitmap_bytes)
    then show "w mod 4 = 0" by (simp only: unat_eq_0)
  qed
  have bok: "bitmap_ok ?b" and bf: "bm_array ?b = ?a" "memory_size ?b = w"
    using bitmap_place_ok [OF wz, of ?a] bl(4) unat_less_2p32 [of "?a + w"]
    by (simp_all add: bitmap_place_def bitmap_set_memory_size_def Let_def)
  have e0: "0 < unat e" using e(1) by (simp add: word_le_nat_alt)
  then have a0: "?a \<noteq> NULL" using bl(1) by auto
  define k1 where "k1 = k\<lparr>mem := bitmap_clear (mem k) ?b,
    heap := (heap k)\<lparr>placement_address := ?a + w, status := HEAP_BOOTSTRAPED\<rparr>,
    pmm := (pmm k)\<lparr>pm_bitmap := ?b, pm_initialized := True, block_used := 0, failed := False, failure := None\<rparr>\<rparr>"
  have bits: "m div PAGE_SIZE div bits_per_entry ?ini * sizeof_type_t ?ini = w"
    by (simp add: w_def boot_bitmap_bytes_def bitmap_init_def BITS_PER_BYTE_def)
  have s1: "physical_memory_manager_init (Suc n) m None (heap_manager_bootstrap e k) = Some k1"
    using st pi a0 bits
    by (simp add: physical_memory_manager_init_def heap_manager_bootstrap_def malloc_bump Let_def k1_def
        del: malloc.simps)
  define k2 where "k2 = k1\<lparr>heap := (heap k1)\<lparr>placement_address := pd + 0x2000\<rparr>\<rparr>"
  have s2: "malloc (Suc n) 0x2000 True k1 = Some (pd, k2)"
    by (simp add: malloc_bump Let_def k1_def k2_def pd_def boot_directory_def w_def del: malloc.simps)
  define k3 where "k3 = paging_manager_init pd True True k2"
  have m3: "mem k3 = memset (mem k1) pd 0 0x2000" and f3: "pmm k3 = pmm k1" "heap k3 = heap k2"
    by (simp_all add: k3_def k2_def paging_manager_init_def Let_def)
  note cd = cleared_directory [OF aligned_page [OF bl(7)], of "mem k1", folded m3]
  have off: "\<not> paging_enabled k3"
    using pe by (simp add: k3_def k2_def k1_def paging_manager_init_def Let_def)
  have pd2: "unat (pd + 0x2000) = unat pd + 0x2000" using bl(8) by (subst unat_add_noov) simp_all
  have area: "pmm_area (pmm k1) = region ?a w" by (simp add: pmm_area_def k1_def bf)
  have dis: "region ?a w \<inter> region pd 0x2000 = {}" using bl(4,5,8) by (intro regions_apart) simp_all
  have reg: "x \<in> region pd 0x2000 \<longleftrightarrow> unat pd \<le> unat x \<and> unat x < unat pd + 0x2000"
    "x \<in> region ?a w \<longleftrightarrow> unat ?a \<le> unat x \<and> unat x < unat ?a + unat w" for x
    using bl(8) region_interval [of pd "0x2000" x] region_interval [of ?a w x] bl(4) unat_less_2p32 [of "?a + w"]
    by simp_all
  have "pmm_used (mem k1, pmm k1) = {}"
    using bitmap_test_memset [OF bok, of _ "mem k"] by (auto simp: pmm_used_def pmm_blocks_def k1_def)
  moreover from this have "pmm_inv (mem k1, pmm k1)" by (simp add: pmm_inv_def) (simp add: k1_def bok)
  moreover have "mem k3 x = mem k1 x" if "x \<in> pmm_area (pmm k1)" for x
    using that dis unfolding area m3 by (intro memset_outside) blast
  ultimately have u3: "pmm_used (mem k3, pmm k3) = {}" "pmm_inv (mem k3, pmm k3)"
    using pmm_used_cong [of "mem k1" "pmm k1" "mem k3"] by (simp_all add: f3)
  have ar: "bump_arena k3 = {x. pd + 0x2000 \<le> x}" by (simp add: bump_arena_def f3 k2_def k1_def)
  have "bump_arena k3 \<inter> (region pd 0x2000 \<union> region ?a w) = {}"
    using reg bl(4,5) pd2 by (auto simp: ar word_le_nat_alt)
  then have "paging_ok (bump_arena k3) k3 pd"
    using cd(2,3) u3(2) dis area off by (simp add: paging_ok_def f3)
  moreover have "unat (bit_count (pm_bitmap (pmm k3))) = 8 * unat w"
    using bitmap_bits(1) [OF bok] by (simp add: f3 k1_def bf)
  ultimately show ?thesis
    using s1 s2 u3(1) cd(1)
    by (intro exI [of _ k1] exI [of _ k3])
       (simp add: f3 k2_def k1_def k3_def [symmetric], simp add: k3_def k2_def k1_def paging_manager_init_def paging_ready_def Let_def)
qed

lemma boot_frames:
  fixes e m
  assumes e: "0xC0000000 \<le> e" "e \<le> 0xCF000000"
    and m: "unat e - 3221225472 + 0x48000 \<le> unat m"
  defines "pd \<equiv> boot_directory e m" and "w \<equiv> boot_bitmap_bytes m"
  shows "Suc ((unat (pd + 0x3000) - 3221225472) div 4096) \<le> 8 * unat w"
    "unat (pd + 0x3000) = unat pd + 0x3000"
proof -
  note bl = boot_layout(1,2) [OF e] boot_layout(3-8) [OF e, of m, folded pd_def w_def]
  show pd: "unat (pd + 0x3000) = unat pd + 0x3000" using bl(8) by (subst unat_add_noov) simp_all
  let ?q = "unat m div 131072"
  have w: "unat w = ?q * 4" by (simp add: w_def unat_boot_bitmap_bytes)
  have "unat m < 131072 * ?q + 131072"
    using div_mult_mod_eq [of "unat m" 131072] mod_less_divisor [of 131072 "unat m"] by linarith
  moreover have "unat pd + 0x3000 - 3221225472 \<le> unat e - 3221225472 + 0x26000"
    using bl(2-6) e(1) by (simp add: word_le_nat_alt)
  ultimately have "unat pd + 0x3000 - 3221225472 < 131072 * ?q" using m by simp
  then have "(unat pd + 0x3000 - 3221225472) div 4096 < 32 * ?q"
    by (simp add: div_less_iff_less_mult)
  then show "Suc ((unat (pd + 0x3000) - 3221225472) div 4096) \<le> 8 * unat w"
    by (simp add: pd w)
qed

text \<open>
  Paging is switched on with every kernel page mapped to the frame it lies in already: addresses
  translate as they did before.
\<close>

lemma paging_setup_identity:
  fixes e m
  assumes st: "status (heap k) = HEAP_UNINITIALIZED" and pi: "\<not> pm_initialized (pmm k)"
    and pe: "\<not> paging_enabled k"
    and e: "0xC0000000 \<le> e" "e \<le> 0xCF000000"
    and m: "unat e - 3221225472 + 0x48000 \<le> unat m"
  defines "pd \<equiv> boot_directory e m"
  shows "\<exists>k'. kernel_paging_setup (Suc n) e 0xC0000000 m k = Some k' \<and> paging_enabled k' \<and>
    page_directory (paging k') = pd \<and> cr3 k' = pd - 0xC0000000 \<and> bit (cr0 k') 31 \<and>
    (\<forall>va. 0xC0000000 \<le> va \<longrightarrow> va < pd + 0x4000 \<longrightarrow>
       virtual_2_physical k' pd va = va - 0xC0000000 \<and>
       processor_walk (mem k') (cr3 k') va = Some (va - 0xC0000000))"
proof -
  define w where "w = boot_bitmap_bytes m"
  obtain k1 k2 k3 where b:
    "physical_memory_manager_init (Suc n) m None (heap_manager_bootstrap e k) = Some k1"
    "malloc (Suc n) 0x2000 True k1 = Some (pd, k2)" "k3 = paging_manager_init pd True True k2"
    "paging_ok (bump_arena k3) k3 pd" "pmm_used (mem k3, pmm k3) = {}"
    "unat (bit_count (pm_bitmap (pmm k3))) = 8 * unat w" "\<forall>va. mapped (mem k3) pd va = None"
    "placement_address (heap k3) = pd + 0x2000" "status (heap k3) = HEAP_BOOTSTRAPED"
    "page_directory (paging k3) = pd" "paging_ready k3" "paging_enabled k3 = paging_enabled k"
    using boot_ready [OF st pi pe e, of n m] unfolding pd_def w_def by blast
  note bl = boot_layout(1,2) [OF e] boot_layout(3-8) [OF e, of m, folded pd_def w_def]
  note fr = boot_frames [OF e m, folded pd_def w_def]
  let ?s = "0xC0000000 :: u32" and ?top = "pd + 0x3000"
  let ?as = "page_list ?s ?top"
  have se: "?s \<le> ?top" using fr(2) bl(1,4,5) e(1) by (simp add: word_le_nat_alt)
  have "4096 dvd unat ?s" by simp
  note pl = page_list_pages [OF this se]
  have el: "?top < 0xFFFFF000" using fr(2) bl(8) by (simp add: word_less_nat_alt)
  have pd2: "unat (pd + 0x2000) = unat pd + 0x2000" using bl(8) by (subst unat_add_noov) simp_all
  have rm: "length ?as \<le> bump_room k3"
  proof -
    have "pd + 0x2000 \<noteq> 0" "pd + 0x2000 \<le> 0xFFFFF000" "pd + 0x2000 \<le> 0xCF040000"
      using pd2 bl(8) by (auto simp: word_unat_eq_iff word_le_nat_alt)
    moreover from this have "unat (align_up (pd + 0x2000)) < 3489660928"
      using align_up(2) [of "pd + 0x2000"] by (simp add: word_le_nat_alt)
    ultimately have "196607 \<le> bump_room k3"
      using b(8,9) by (simp add: bump_room_def Let_def less_eq_div_iff_mult_less_eq)
    moreover have "length ?as \<le> 65536"
      using pl(1) fr(2) bl(8) by (simp add: Suc_le_eq div_less_iff_less_mult)
    ultimately show ?thesis by simp
  qed
  have bc: "bit_count (pm_bitmap (pmm k3)) \<le> 0x100000"
    using b(6) bl(3) by (simp add: word_le_nat_alt)
  have used: "pmm_used (mem k3, pmm k3) = {b. b < 0}" using b(5) by simp
  have fit: "unat (0 :: u32) + length ?as \<le> unat (bit_count (pm_bitmap (pmm k3)))"
    using b(6) fr(1) pl(1) by simp
  have un: "\<forall>va \<in> set ?as. mapped (mem k3) pd va = None" using b(7) by simp
  obtain k4 where k4: "run_pages (\<lambda>a k. allocate_page (malloc (Suc n)) (page_directory (paging k)) a 0 True True k) ?as k3 = Some k4"
    "paging k4 = paging k3" "paging_enabled k4 = paging_enabled k3"
    "\<forall>i < length ?as. mapped (mem k4) pd (?as ! i) = Some (of_nat i)" "paging_wf (mem k4) pd"
    using bump.allocate_pages_next [OF b(4,10) used bc fit rm pl(3) un, of n True True]
    unfolding paging_ok_def by auto
  define k' where "k' = paging_manager_enable (paging_manager_set_system_paging False k4)"
  have "kernel_paging_setup (Suc n) e ?s m k = Some k'"
    using b(1-3,8,11) k4(1)
    by (simp add: kernel_paging_setup_def paging_manager_allocate_range_def page_loop_runs [OF el]
        PAGE_SIZE_def k'_def add.assoc del: malloc.simps)
  moreover have k'f: "mem k' = mem k4" "paging k' = paging k4" "paging_enabled k'" "cr3 k' = pd - ?s"
    "bit (cr0 k') 31"
    using k4(2,3) b(10,12) pe
    by (simp_all add: k'_def paging_manager_enable_def paging_manager_set_system_paging_def
        disable_pse_reg_def virtual_2_physical_def Let_def bit_or_iff)
  moreover have "virtual_2_physical k' pd va = va - ?s \<and>
      processor_walk (mem k') (cr3 k') va = Some (va - ?s)" if va: "?s \<le> va" "va < pd + 0x4000" for va
  proof -
    have pd4: "unat (pd + 0x4000) = unat pd + 0x4000" using bl(8) by (subst unat_add_noov) simp_all
    define i where "i = unat va div 4096 - 786432"
    obtain q where q: "unat pd = 4096 * q" using bl(7) by (auto elim: dvdE)
    have va': "3221225472 \<le> unat va" "unat va < unat pd + 0x4000"
      using va pd4 by (simp_all add: word_le_nat_alt word_less_nat_alt)
    then have "unat va div 4096 < q + 4" using q by (simp add: div_less_iff_less_mult)
    moreover have "786432 \<le> unat va div 4096" using va'(1) by (simp add: less_eq_div_iff_mult_less_eq)
    moreover have "(unat ?top - unat ?s) div 4096 = q + 3 - 786432"
    proof -
      have "unat ?top - unat ?s = 4096 * (q + 3 - 786432)" using fr(2) q by simp
      then show ?thesis by simp
    qed
    ultimately have i: "i < length ?as" "unat va div 4096 = 786432 + i"
      using pl(1) by (simp_all add: i_def)
    have "unat (page_number (?as ! i)) = unat (page_number va)"
      using pl(2) [OF i(1)] i(2) by (simp add: unat_page_number)
    then have "page_number va = page_number (?as ! i)" by (simp add: word_unat_eq_iff)
    then have "mapped (mem k4) pd va = mapped (mem k4) pd (?as ! i)" by (rule mapped_page_number)
    then have "mapped (mem k') pd va = Some (of_nat i)" using k4(4) i(1) k'f(1) by simp
    note mp = this
    have "pd \<noteq> NULL" using bl(1,4,5) e(1) by (auto simp: word_le_nat_alt)
    with mp have v: "virtual_2_physical k' pd va = push_bit 12 (of_nat i) + page_offset va"
      using k'f(3) by (simp add: virtual_2_physical_mapped)
    have ib: "i < 1048576" using i(2) unat_less_2p32 [of va] by (simp add: i_def div_less_iff_less_mult less_imp_diff_less)
    have "unat (push_bit 12 (of_nat i :: u32)) = i * 4096"
      using ib iffD1 [OF unat_mult_lem, of "of_nat i :: u32" 4096]
      by (simp add: push_bit_eq_mult unat_of_nat_u32)
    moreover have "unat va mod 4096 < 4096" by simp
    ultimately have "unat (push_bit 12 (of_nat i) + page_offset va) = i * 4096 + unat va mod 4096"
      using ib by (subst unat_add_noov) (simp_all add: unat_page_offset)
    also have "\<dots> = unat va - 3221225472"
      using i(2) div_mult_mod_eq [of "unat va" 4096] by simp
    also have "\<dots> = unat (va - ?s)" using va(1) by (simp add: unat_sub)
    finally have r: "push_bit 12 (of_nat i) + page_offset va = va - ?s" by (simp add: word_unat_eq_iff)
    have "processor_walk (mem k') (cr3 k') va = Some (va - ?s)"
      using processor_walk_mapped [OF k4(5), of va] mp r by (simp add: k'f(1,4))
    then show ?thesis using v r by simp
  qed
  ultimately show ?thesis using b(10) k4(2) by auto
qed

section \<open>Properties\<close>

lemma paging_ok_walk:
  "paging_ok A k pd \<Longrightarrow> processor_walk (mem k) (pd - 0xC0000000) va =
     map_option (\<lambda>f. push_bit 12 f + page_offset va) (mapped (mem k) pd va)"
  unfolding paging_ok_def by (intro processor_walk_mapped) blast

text \<open>The state in which the boot code starts to map the kernel, as a concrete example.\<close>

definition witness_mapping :: kmem where
  "witness_mapping = (let k1 = the (physical_memory_manager_init 1 0x2000000 None (heap_manager_bootstrap 0xC0200000 power_on));
     (pd, k2) = the (malloc 1 0x2000 True k1) in paging_manager_init pd True True k2)"

definition witness_directory :: u32 where "witness_directory = boot_directory 0xC0200000 0x2000000"

lemma witness_mapping:
  "paging_ok (bump_arena witness_mapping) witness_mapping witness_directory"
  "pmm_used (mem witness_mapping, pmm witness_mapping) = {}"
  "unat (bit_count (pm_bitmap (pmm witness_mapping))) = 8192"
  "mapped (mem witness_mapping) witness_directory va = None"
  "placement_address (heap witness_mapping) = witness_directory + 0x2000"
  "status (heap witness_mapping) = HEAP_BOOTSTRAPED" "paging_ready witness_mapping"
  "page_directory (paging witness_mapping) = witness_directory" "\<not> paging_enabled witness_mapping"
proof -
  have p: "status (heap power_on) = HEAP_UNINITIALIZED" "\<not> pm_initialized (pmm power_on)" "\<not> paging_enabled power_on"
    by (simp_all add: power_on_def)
  obtain k1 k2 k3 where k: "physical_memory_manager_init (Suc 0) 0x2000000 None (heap_manager_bootstrap 0xC0200000 power_on) = Some k1"
    "malloc (Suc 0) 0x2000 True k1 = Some (witness_directory, k2)" "k3 = paging_manager_init witness_directory True True k2"
    "paging_ok (bump_arena k3) k3 witness_directory" "pmm_used (mem k3, pmm k3) = {}"
    "unat (bit_count (pm_bitmap (pmm k3))) = 8 * unat (boot_bitmap_bytes 0x2000000)"
    "\<forall>va. mapped (mem k3) witness_directory va = None" "placement_address (heap k3) = witness_directory + 0x2000"
    "status (heap k3) = HEAP_BOOTSTRAPED" "page_directory (paging k3) = witness_directory" "paging_ready k3"
    "paging_enabled k3 = paging_enabled power_on"
    using boot_ready [OF p, of "0xC0200000" 0 "0x2000000"] unfolding witness_directory_def by auto
  have w: "witness_mapping = k3"
    using k(1,2,3) by (simp add: witness_mapping_def Let_def del: malloc.simps)
  have "unat (boot_bitmap_bytes 0x2000000) = 1024" by (simp add: unat_boot_bitmap_bytes)
  with k p w show "paging_ok (bump_arena witness_mapping) witness_mapping witness_directory"
    "pmm_used (mem witness_mapping, pmm witness_mapping) = {}"
    "unat (bit_count (pm_bitmap (pmm witness_mapping))) = 8192"
    "mapped (mem witness_mapping) witness_directory va = None"
    "placement_address (heap witness_mapping) = witness_directory + 0x2000"
    "status (heap witness_mapping) = HEAP_BOOTSTRAPED" "paging_ready witness_mapping"
    "page_directory (paging witness_mapping) = witness_directory" "\<not> paging_enabled witness_mapping"
    by simp_all
qed

lemma witness_room: "1000 \<le> bump_room witness_mapping"
proof -
  note bl = boot_layout(8) [of "0xC0200000" "0x2000000", folded witness_directory_def]
  have u: "unat (witness_directory + 0x2000) = unat witness_directory + 0x2000"
    using bl by (subst unat_add_noov) simp_all
  have p: "witness_directory + 0x2000 \<noteq> 0" "witness_directory + 0x2000 \<le> 0xFFFFF000"
    using u bl by (auto simp: word_unat_eq_iff word_le_nat_alt)
  have "unat (align_up (witness_directory + 0x2000)) < 3489660928"
    using align_up(2) [OF p(2)] u bl by simp
  then show ?thesis
    using p witness_mapping(5,6) by (simp add: bump_room_def Let_def less_eq_div_iff_mult_less_eq)
qed

lemma witness_free: "pmm_used (mem witness_mapping, pmm witness_mapping) \<noteq> pmm_blocks (mem witness_mapping, pmm witness_mapping)"
proof -
  have "card (pmm_blocks (mem witness_mapping, pmm witness_mapping)) = 8192"
    using card_pmm_blocks [of "(mem witness_mapping, pmm witness_mapping)"] witness_mapping(3) by simp
  then show ?thesis using witness_mapping(2) by auto
qed

text \<open>
  C12: The kernel's memory set-up (frame bitmap, page directory, mapping of the kernel's pages,
  loading of CR3, enabling), run before anything is initialised, for a kernel that ends between
  0xC0000000 and 0xCF000000 and at least 0x48000 bytes of memory beyond it, returns with paging on. Every
  kernel address up to two pages past the directory then translates to the address minus
  0xC0000000, as before: both in the kernel's own translation over its table pointers and in the
  walk of the processor from CR3 over the hardware entries.
\<close>

theorem paging_setup_keeps_addresses:
  assumes "status (heap k) = HEAP_UNINITIALIZED" "\<not> pm_initialized (pmm k)" "\<not> paging_enabled k"
    "0xC0000000 \<le> e" "e \<le> 0xCF000000" "unat e - 3221225472 + 0x48000 \<le> unat m"
  shows "\<exists>k'. kernel_paging_setup (Suc n) e 0xC0000000 m k = Some k' \<and> paging_enabled k' \<and>
    page_directory (paging k') = boot_directory e m \<and> cr3 k' = boot_directory e m - 0xC0000000 \<and> bit (cr0 k') 31 \<and>
    (\<forall>va. 0xC0000000 \<le> va \<longrightarrow> va < boot_directory e m + 0x4000 \<longrightarrow>
       virtual_2_physical k' (boot_directory e m) va = va - 0xC0000000 \<and>
       processor_walk (mem k') (cr3 k') va = Some (va - 0xC0000000))"
  using paging_setup_identity [OF assms] by blast

theorem paging_setup_keeps_addresses_witness:
  "\<exists>k'. kernel_paging_setup 1 0xC0200000 0xC0000000 0x2000000 power_on = Some k' \<and> paging_enabled k'"
  using paging_setup_keeps_addresses [of power_on "0xC0200000" "0x2000000" 0]
  by (auto simp: power_on_def)

text \<open>
  C6: In the boot phase (paging still off, page tables from the placement allocator), with a frame
  free and room for a page table, mapping a page without naming a frame returns, maps that page to
  a frame nobody else has, keeps the mapping of every other page and of every page mapped before,
  and keeps the directory, its tables, the frame bitmap and the allocator's memory apart. The walk of
  the processor over the hardware entries, from the physical address of the directory, gives for
  every address exactly what the kernel's table pointers give.
\<close>

theorem map_page_isolated:
  assumes "paging_ok (bump_arena k) k pd" "frames_exclusive k pd" "bit_count (pm_bitmap (pmm k)) \<le> 0x100000"
    "0 < bump_room k" "pmm_used (mem k, pmm k) \<noteq> pmm_blocks (mem k, pmm k)"
  shows "\<exists>k'. allocate_page (malloc (Suc n)) pd va 0 is_kernel is_writeable k = Some k' \<and>
    paging_ok (bump_arena k') k' pd \<and> frames_exclusive k' pd \<and> mapped (mem k') pd va \<noteq> None \<and>
    (\<forall>va. processor_walk (mem k') (pd - 0xC0000000) va =
       map_option (\<lambda>f. push_bit 12 f + page_offset va) (mapped (mem k') pd va)) \<and>
    (\<forall>va'. mapped (mem k) pd va' \<noteq> None \<or> page_number va' \<noteq> page_number va \<longrightarrow>
       mapped (mem k') pd va' = mapped (mem k) pd va')"
  using bump.allocate_page_exclusive [OF assms, of n va is_kernel is_writeable] paging_ok_walk by blast

lemma witness_exclusive: "frames_exclusive witness_mapping witness_directory"
  by (simp add: frames_exclusive_def witness_mapping)

lemma witness_bits: "bit_count (pm_bitmap (pmm witness_mapping)) \<le> 0x100000"
  by (simp add: word_le_nat_alt witness_mapping)

theorem map_page_isolated_witness:
  "\<exists>k'. allocate_page (malloc 1) witness_directory 0xC0000000 0 True True witness_mapping = Some k' \<and>
     frames_exclusive k' witness_directory \<and> mapped (mem k') witness_directory 0xC0000000 \<noteq> None"
  using map_page_isolated [OF witness_mapping(1) witness_exclusive witness_bits _ witness_free, of 0 "0xC0000000" True True]
    witness_room by auto

text \<open>
  Mapping a page to a named frame maps an unmapped page to exactly that frame and takes no frame
  from the frame manager; a page that is mapped keeps its frame.
\<close>

theorem map_page_to_frame:
  assumes "paging_ok (bump_arena k) k pd" "0 < bump_room k" "frame \<noteq> 0"
  shows "\<exists>k'. allocate_page (malloc (Suc n)) pd va frame is_kernel is_writeable k = Some k' \<and>
    mapped (mem k') pd va = (case mapped (mem k) pd va of None \<Rightarrow> Some (take_bit 20 frame) | Some f \<Rightarrow> Some f) \<and>
    pmm_used (mem k', pmm k') = pmm_used (mem k, pmm k) \<and> paging_ok (bump_arena k') k' pd \<and>
    (\<forall>va'. page_number va' \<noteq> page_number va \<longrightarrow> mapped (mem k') pd va' = mapped (mem k) pd va')"
proof -
  obtain k' where "allocate_page (malloc (Suc n)) pd va frame is_kernel is_writeable k = Some k'"
    "paging_ok (bump_arena k') k' pd"
    "\<forall>va'. page_number va' \<noteq> page_number va \<longrightarrow> mapped (mem k') pd va' = mapped (mem k) pd va'"
    "if mapped (mem k) pd va \<noteq> None then mapped (mem k') pd va = mapped (mem k) pd va \<and>
        pmm_used (mem k', pmm k') = pmm_used (mem k, pmm k)
     else mapped (mem k') pd va = Some (take_bit 20 frame) \<and>
        pmm_used (mem k', pmm k') = pmm_used (mem k, pmm k)"
    using bump.allocate_page_spec [OF assms(1), of va frame n is_kernel is_writeable] assms(2,3) by auto
  then show ?thesis by (intro exI [of _ k']) (auto split: option.splits if_splits)
qed

theorem map_page_to_frame_witness:
  "\<exists>k'. allocate_page (malloc 1) witness_directory 0xB8000 0xB8 True True witness_mapping = Some k' \<and>
     mapped (mem k') witness_directory 0xB8000 = Some 0xB8"
  using map_page_to_frame [OF witness_mapping(1), of "0xB8" 0 "0xB8000" True True] witness_room
  by (auto simp: witness_mapping(4))

text \<open>
  Unmapping a mapped page removes the mapping of that page alone, and its frame goes back to the
  frame manager exactly when that is asked for; unmapping undoes mapping.
\<close>

theorem unmap_page:
  assumes "paging_ok (bump_arena k) k pd" "mapped (mem k) pd va = Some f"
    "should_free \<longrightarrow> f \<in> pmm_used (mem k, pmm k)"
  shows "let k' = free_page pd va should_free k in
    paging_ok (bump_arena k') k' pd \<and> mapped (mem k') pd va = None \<and>
    (\<forall>va'. page_number va' \<noteq> page_number va \<longrightarrow> mapped (mem k') pd va' = mapped (mem k) pd va') \<and>
    pmm_used (mem k', pmm k') = pmm_used (mem k, pmm k) - (if should_free then {f} else {})"
  using bump.free_page_spec [OF assms] by (simp add: Let_def)

theorem unmap_page_witness:
  "\<exists>k'. allocate_page (malloc 1) witness_directory 0xB8000 0xB8 True True witness_mapping = Some k' \<and>
     mapped (mem (free_page witness_directory 0xB8000 False k')) witness_directory 0xB8000 = None"
proof -
  obtain k' where k': "allocate_page (malloc (Suc 0)) witness_directory 0xB8000 0xB8 True True witness_mapping = Some k'"
    "paging_ok (bump_arena k') k' witness_directory" "mapped (mem k') witness_directory 0xB8000 = Some 0xB8"
    using bump.allocate_page_spec [OF witness_mapping(1), of "0xB8000" "0xB8" 0 True True] witness_room
    by (auto simp: witness_mapping(4))
  show ?thesis using unmap_page [OF k'(2,3), of False] k'(1) by (auto simp: Let_def)
qed

text \<open>
  C3: In the boot phase (paging still off, page tables from the placement allocator), with a free
  frame and room for a page table per page of the range, mapping a range that ends below the last
  page of the address space returns, maps every page of it, leaves all pages outside and all pages
  mapped before as they were, and no two pages of the whole address space share a frame afterwards.
  The walk of the processor over the hardware entries agrees with this mapping on every address.
\<close>

theorem map_range_isolated:
  assumes "paging_ok (bump_arena k) k pd" "frames_exclusive k pd" "page_directory (paging k) = pd" "paging_ready k"
    "bit_count (pm_bitmap (pmm k)) \<le> 0x100000" "e < 0xFFFFF000" "length (page_list a e) \<le> bump_room k"
    "length (page_list a e) + card (pmm_used (mem k, pmm k)) \<le> unat (bit_count (pm_bitmap (pmm k)))"
  shows "\<exists>k'. paging_manager_allocate_range (malloc (Suc n)) a e is_kernel is_writeable k = Some k' \<and>
    paging_ok (bump_arena k') k' pd \<and> frames_exclusive k' pd \<and>
    (\<forall>va \<in> set (page_list a e). mapped (mem k') pd va \<noteq> None) \<and>
    (\<forall>va. processor_walk (mem k') (pd - 0xC0000000) va =
       map_option (\<lambda>f. push_bit 12 f + page_offset va) (mapped (mem k') pd va)) \<and>
    (\<forall>va. mapped (mem k) pd va \<noteq> None \<or> page_number va \<notin> page_number ` set (page_list a e) \<longrightarrow>
       mapped (mem k') pd va = mapped (mem k) pd va)"
proof -
  have "paging_manager_allocate_range (malloc (Suc n)) a e is_kernel is_writeable k =
      run_pages (\<lambda>a k. allocate_page (malloc (Suc n)) (page_directory (paging k)) a 0 is_kernel is_writeable k)
        (page_list a e) k"
    using assms(4) by (simp add: paging_manager_allocate_range_def page_loop_runs [OF assms(6)])
  then show ?thesis
    using bump.allocate_pages_exclusive [OF assms(1-3,5,7,8), of n is_kernel is_writeable] paging_ok_walk
    by (simp only:) blast
qed

theorem map_range_isolated_witness:
  "\<exists>k'. paging_manager_allocate_range (malloc 1) 0xC0000000 0xC0004FFF True True witness_mapping = Some k' \<and>
     frames_exclusive k' witness_directory"
proof -
  have l: "length (page_list 0xC0000000 0xC0004FFF) = 5" by (simp add: page_list_def)
  then show ?thesis
    using map_range_isolated [OF witness_mapping(1) witness_exclusive witness_mapping(8,7) witness_bits,
        of "0xC0004FFF" "0xC0000000" 0 True True] witness_room
    by (auto simp: witness_mapping(2,3))
qed

text \<open>
  Mapping or unmapping a range whose end lies in the last page of the address space never
  returns: the address wraps to zero and the loop starts over.
\<close>

theorem range_to_top_never_returns:
  assumes "4096 dvd unat a" "a \<le> e" "0xFFFFF000 \<le> e"
  shows "(paging_ready k \<longrightarrow> paging_manager_allocate_range m a e is_kernel is_writeable k = None \<and>
      paging_manager_identity_allocate_range m a e is_kernel is_writeable k = None) \<and>
    (pg_initialized (paging k) \<longrightarrow> paging_manager_free_range a e should_free k = None)"
proof -
  have "page_loop body a e k = None" for body
    using page_loop_endless assms by (cases "page_loop body a e k") blast+
  then show ?thesis
    by (simp add: paging_manager_allocate_range_def paging_manager_identity_allocate_range_def
        paging_manager_free_range_def)
qed

theorem range_to_top_never_returns_witness:
  "paging_manager_allocate_range (malloc 1) 0xFFFFF000 0xFFFFFFFF True True witness_mapping = None"
  using range_to_top_never_returns [of "0xFFFFF000" "0xFFFFFFFF" witness_mapping "malloc 1" True True False]
  by (simp add: witness_mapping)

text \<open>
  Unmapping a range that ends below the last page always returns, in any state, after visiting
  each page of the range once from the bottom up.
\<close>

theorem unmap_range_returns:
  assumes "e < 0xFFFFF000"
  shows "paging_manager_free_range a e should_free k =
    Some (if pg_initialized (paging k)
      then fold (\<lambda>va k. free_page (page_directory (paging k)) va should_free k) (page_list a e) k else k)"
proof -
  have "run_pages (\<lambda>a k. Some (free_page (page_directory (paging k)) a should_free k)) as k
      = Some (fold (\<lambda>va k. free_page (page_directory (paging k)) va should_free k) as k)" for as k
    by (induction as arbitrary: k) simp_all
  then show ?thesis by (simp add: paging_manager_free_range_def page_loop_runs [OF assms])
qed

theorem unmap_range_returns_witness:
  "paging_manager_free_range 0x1000 0x2FFF True power_on = Some power_on"
  using unmap_range_returns [of "0x2FFF" "0x1000" True power_on] by (simp add: power_on_def)

text \<open>
  Before the heap exists, aligned requests get page-aligned addresses, and as long as the
  placement address does not wrap, the memory of two requests in a row does not overlap and lies
  above everything handed out before.
\<close>

theorem bump_malloc_disjoint:
  assumes "status (heap k) = HEAP_BOOTSTRAPED" "placement_address (heap k) \<le> 0xFFFFF000"
    "malloc (Suc n) sz al k = Some (a, k1)" "placement_address (heap k1) \<le> 0xFFFFF000"
    "unat a + unat sz < 4294967296"
    "malloc (Suc n) sz' al' k1 = Some (b, k2)" "unat b + unat sz' < 4294967296"
  shows "placement_address (heap k) \<le> a \<and> (al \<longrightarrow> 4096 dvd unat a) \<and> (al' \<longrightarrow> 4096 dvd unat b) \<and>
    region a sz \<inter> region b sz' = {} \<and> mem k2 = mem k"
proof -
  let ?p = "placement_address (heap k)"
  have a: "a = (if al then align_up ?p else ?p)" "k1 = k\<lparr>heap := (heap k)\<lparr>placement_address := a + sz\<rparr>\<rparr>"
    using assms(3) malloc_bump [OF assms(1), of n sz al] by (auto simp: Let_def simp del: malloc.simps)
  have st: "status (heap k1) = HEAP_BOOTSTRAPED" using assms(1) by (simp add: a(2))
  have b: "b = (if al' then align_up (a + sz) else a + sz)" "mem k2 = mem k"
    using assms(6) malloc_bump [OF st, of n sz' al'] by (auto simp: a(2) Let_def simp del: malloc.simps)
  note al = align_up [OF assms(2)] and al' = align_up [OF assms(4)]
  have as: "unat (a + sz) = unat a + unat sz" using assms(5) by (rule unat_add_noov)
  have "unat (a + sz) \<le> unat b" using b al' by (simp add: a(2))
  then have "region a sz \<inter> region b sz' = {}" using as assms(7) by (intro regions_apart) simp_all
  moreover have "?p \<le> a" using a(1) al(1) by (simp add: word_le_nat_alt)
  moreover have "al \<longrightarrow> 4096 dvd unat a" "al' \<longrightarrow> 4096 dvd unat b" using a b al(3) al'(3) by auto
  ultimately show ?thesis using b(2) by simp
qed

theorem bump_malloc_disjoint_witness:
  "\<exists>k1 k2. malloc 1 100 True witness_boot = Some (0x8000, k1) \<and> malloc 1 50 True k1 = Some (0x9000, k2) \<and>
     region 0x8000 100 \<inter> region 0x9000 50 = {}"
proof -
  have p: "placement_address (heap witness_boot) = 0x8000"
    by (simp add: witness_boot_def heap_manager_bootstrap_def power_on_def)
  have u: "align_up 0x8000 = 0x8000" "align_up 0x8064 = 0x9000" by (simp_all add: align_up_def PAGE_SIZE_def)
  let ?k1 = "witness_boot\<lparr>heap := (heap witness_boot)\<lparr>placement_address := 0x8064\<rparr>\<rparr>"
  let ?k2 = "?k1\<lparr>heap := (heap ?k1)\<lparr>placement_address := 0x9032\<rparr>\<rparr>"
  have m1: "malloc (Suc 0) 100 True witness_boot = Some (0x8000, ?k1)"
    by (subst malloc_bump) (simp_all add: p u Let_def)
  have m2: "malloc (Suc 0) 50 True ?k1 = Some (0x9000, ?k2)"
    by (subst malloc_bump) (simp_all add: u Let_def)
  show ?thesis
    using bump_malloc_disjoint [OF witness_boot _ m1 _ _ m2] m1 m2 by (auto simp: p simp del: malloc.simps)
qed

end
