(* ===== verification/Descriptors.thy ===== *)
theory Descriptors
  imports Prelude
begin

text \<open>
  The descriptor tables of the processor: the global descriptor table, the interrupt descriptor
  table and the task state segment (src/kernel/descriptors). The addresses of the tables are
  arguments; the loading instructions set the fields \<open>gdtr\<close>, \<open>idtr\<close> and \<open>task_register\<close>.
\<close>

section \<open>The tables\<close>

record gdt_entry =
  gdt_limit_low :: u16
  gdt_base_low :: u16
  gdt_base_middle :: u8
  gdt_access :: u8
  gdt_granularity :: u8
  gdt_base_high :: u8

record idt_entry =
  idt_base_low :: u16
  idt_selector :: u16
  idt_always0 :: u8
  idt_flags :: u8
  idt_base_high :: u16

record task_state_segment_entry =
  tss_prev_tss :: u32
  tss_esp0 :: u32
  tss_ss0 :: u32
  tss_esp1 :: u32
  tss_ss1 :: u32
  tss_esp2 :: u32
  tss_ss2 :: u32
  tss_cr3 :: u32
  tss_eip :: u32
  tss_eflags :: u32
  tss_eax :: u32
  tss_ecx :: u32
  tss_edx :: u32
  tss_ebx :: u32
  tss_esp :: u32
  tss_ebp :: u32
  tss_esi :: u32
  tss_edi :: u32
  tss_es :: u32
  tss_cs :: u32
  tss_ss :: u32
  tss_ds :: u32
  tss_fs :: u32
  tss_gs :: u32
  tss_ldt :: u32
  tss_trap :: u16
  tss_iomap :: u16

record descriptor_ptr =
  dp_limit :: u16
  dp_base :: u32

record descriptors =
  pGDT :: "gdt_entry list"
  gdt_ptr :: descriptor_ptr
  gdtr :: "descriptor_ptr option"
  pIDT :: "idt_entry list"
  idt_ptr :: descriptor_ptr
  idtr :: "descriptor_ptr option"
  tss :: task_state_segment_entry
  task_register :: u16

definition KERNEL_DESCRIPTORS_GDT_ENTRYCOUT :: nat where "KERNEL_DESCRIPTORS_GDT_ENTRYCOUT = 8"
definition KERNEL_DESCRIPTORS_IDT_ENTRYCOUT :: nat where "KERNEL_DESCRIPTORS_IDT_ENTRYCOUT = 256"

definition null_gdt_entry :: gdt_entry where
  "null_gdt_entry = \<lparr>gdt_limit_low = 0, gdt_base_low = 0, gdt_base_middle = 0, gdt_access = 0,
     gdt_granularity = 0, gdt_base_high = 0\<rparr>"

definition null_idt_entry :: idt_entry where
  "null_idt_entry = \<lparr>idt_base_low = 0, idt_selector = 0, idt_always0 = 0, idt_flags = 0, idt_base_high = 0\<rparr>"

definition null_tss :: task_state_segment_entry where
  "null_tss =
  \<lparr>tss_prev_tss = 0, tss_esp0 = 0, tss_ss0 = 0, tss_esp1 = 0, tss_ss1 = 0, tss_esp2 = 0, tss_ss2 = 0,
    tss_cr3 = 0, tss_eip = 0, tss_eflags = 0, tss_eax = 0, tss_ecx = 0, tss_edx = 0, tss_ebx = 0,
    tss_esp = 0, tss_ebp = 0, tss_esi = 0, tss_edi = 0, tss_es = 0, tss_cs = 0, tss_ss = 0,
    tss_ds = 0, tss_fs = 0, tss_gs = 0, tss_ldt = 0,
    tss_trap = 0, tss_iomap = 0\<rparr>"

section \<open>The global descriptor table\<close>

definition make_gdt_entry :: "u32 \<Rightarrow> u32 \<Rightarrow> u8 \<Rightarrow> u8 \<Rightarrow> gdt_entry \<Rightarrow> gdt_entry" where
  "make_gdt_entry base limit access granularity e =
     (let e = e\<lparr>gdt_base_low := ucast (base AND 0xFFFF),
                gdt_base_middle := ucast (drop_bit 16 base AND 0xFF),
                gdt_base_high := ucast (drop_bit 24 base AND 0xFF),
                gdt_limit_low := ucast (limit AND 0xFFFF),
                gdt_granularity := ucast (drop_bit 16 limit AND 0x0F)\<rparr>
      in e\<lparr>gdt_granularity := gdt_granularity e OR (granularity AND 0xF0), gdt_access := access\<rparr>)"

definition kernel_global_descriptor_set_gate ::
  "nat \<Rightarrow> u32 \<Rightarrow> u32 \<Rightarrow> u8 \<Rightarrow> u8 \<Rightarrow> descriptors \<Rightarrow> descriptors" where
  "kernel_global_descriptor_set_gate index base limit access granularity d =
     d\<lparr>pGDT := (pGDT d)[index := make_gdt_entry base limit access granularity (pGDT d ! index)]\<rparr>"

definition kernel_global_descriptor_table_init :: "u32 \<Rightarrow> descriptors \<Rightarrow> descriptors" where
  "kernel_global_descriptor_table_init gdt_address d =
     d\<lparr>gdt_ptr := \<lparr>dp_limit = of_nat (8 * KERNEL_DESCRIPTORS_GDT_ENTRYCOUT - 1), dp_base = gdt_address\<rparr>,
       pGDT := replicate KERNEL_DESCRIPTORS_GDT_ENTRYCOUT null_gdt_entry\<rparr>"

definition gdt_flush :: "descriptors \<Rightarrow> descriptors" where
  "gdt_flush d = d\<lparr>gdtr := Some (gdt_ptr d)\<rparr>"

definition kernel_global_descriptor_table_install :: "descriptors \<Rightarrow> descriptors" where
  "kernel_global_descriptor_table_install d =
     (let d = kernel_global_descriptor_set_gate 0 0 0 0 0 d;
          d = kernel_global_descriptor_set_gate 1 0 0xFFFFFFFF 0x9A 0xCF d;
          d = kernel_global_descriptor_set_gate 2 0 0xFFFFFFFF 0x92 0xCF d;
          d = kernel_global_descriptor_set_gate 3 0 0xFFFFFFFF 0xFA 0xCF d;
          d = kernel_global_descriptor_set_gate 4 0 0xFFFFFFFF 0xF2 0xCF d;
          d = kernel_global_descriptor_set_gate 6 0 0xFFFFFFFF 0x9A 0x0F d;
          d = kernel_global_descriptor_set_gate 7 0 0xFFFFFFFF 0x92 0x0F d
      in gdt_flush d)"

section \<open>The interrupt descriptor table\<close>

definition kernel_interrupt_descriptor_table_init :: "u32 \<Rightarrow> descriptors \<Rightarrow> descriptors" where
  "kernel_interrupt_descriptor_table_init idt_address d =
     d\<lparr>idt_ptr := \<lparr>dp_limit = of_nat (8 * KERNEL_DESCRIPTORS_IDT_ENTRYCOUT - 1), dp_base = idt_address\<rparr>,
       pIDT := replicate KERNEL_DESCRIPTORS_IDT_ENTRYCOUT null_idt_entry\<rparr>"

definition kernel_interrupt_descriptor_table_finalize :: "descriptors \<Rightarrow> descriptors" where
  "kernel_interrupt_descriptor_table_finalize d = d\<lparr>idtr := Some (idt_ptr d)\<rparr>"

definition kernel_interrupt_descriptor_set_gate ::
  "u8 \<Rightarrow> u32 \<Rightarrow> u16 \<Rightarrow> u8 \<Rightarrow> descriptors \<Rightarrow> descriptors" where
  "kernel_interrupt_descriptor_set_gate num base selector flags d =
     d\<lparr>pIDT := (pIDT d)[unat num := (pIDT d ! unat num)
         \<lparr>idt_base_high := ucast (drop_bit 16 base AND 0xFFFF), idt_base_low := ucast (base AND 0xFFFF),
          idt_always0 := 0, idt_selector := selector, idt_flags := flags\<rparr>]\<rparr>"

section \<open>The task state segment\<close>

definition sizeof_tss :: u32 where "sizeof_tss = 25 * 4 + 2 * 2"

definition kernel_task_state_segment_set_stack :: "u32 \<Rightarrow> u32 \<Rightarrow> descriptors \<Rightarrow> descriptors" where
  "kernel_task_state_segment_set_stack kss kesp d =
     d\<lparr>tss := (tss d)\<lparr>tss_ss0 := kss, tss_esp0 := kesp\<rparr>\<rparr>"

definition tss_flush :: "descriptors \<Rightarrow> descriptors" where
  "tss_flush d = d\<lparr>task_register := 0x28\<rparr>"

definition kernel_task_state_segment_int :: "u32 \<Rightarrow> nat \<Rightarrow> u32 \<Rightarrow> u32 \<Rightarrow> descriptors \<Rightarrow> descriptors" where
  "kernel_task_state_segment_int tss_address idx kss kesp d =
     (let base = tss_address;
          d = kernel_global_descriptor_set_gate idx base (base + sizeof_tss - 1) 0xE9 0x0 d;
          t = null_tss\<lparr>tss_ss0 := kss, tss_esp0 := kesp, tss_cs := 0x0b, tss_ds := 0x13, tss_es := 0x13,
                tss_fs := 0x13, tss_gs := 0x13, tss_ss := 0x13\<rparr>
      in tss_flush (d\<lparr>tss := t\<rparr>))"

section \<open>How the processor reads the entries\<close>

definition gdt_base :: "gdt_entry \<Rightarrow> u32" where
  "gdt_base e = ucast (gdt_base_low e) OR push_bit 16 (ucast (gdt_base_middle e))
     OR push_bit 24 (ucast (gdt_base_high e))"

definition gdt_limit :: "gdt_entry \<Rightarrow> u32" where
  "gdt_limit e = ucast (gdt_limit_low e) OR push_bit 16 (ucast (gdt_granularity e AND 0x0F))"

definition gdt_flags :: "gdt_entry \<Rightarrow> u8" where
  "gdt_flags e = gdt_granularity e AND 0xF0"

text \<open>Privilege level, present and executable bits of an access byte.\<close>

definition access_dpl :: "u8 \<Rightarrow> u8" where "access_dpl a = drop_bit 5 a AND 3"
definition access_present :: "u8 \<Rightarrow> bool" where "access_present a = bit a 7"

definition idt_base :: "idt_entry \<Rightarrow> u32" where
  "idt_base e = ucast (idt_base_low e) OR push_bit 16 (ucast (idt_base_high e))"

lemma and_masks:
  "(w :: u32) AND 0xFFFF = take_bit 16 w" "w AND 0xFF = take_bit 8 w" "w AND 0x0F = take_bit 4 w"
  "(b :: u8) AND 0x0F = take_bit 4 b" "b AND 0xF0 = push_bit 4 (drop_bit 4 b)"
proof -
  show "w AND 0xFFFF = take_bit 16 w" "w AND 0xFF = take_bit 8 w" "w AND 0x0F = take_bit 4 w"
    "b AND 0x0F = take_bit 4 b"
    by (simp_all add: take_bit_eq_mask mask_eq_exp_minus_1)
  have "(0xF0 :: u8) = push_bit 4 (mask 4)" by (simp add: mask_eq_exp_minus_1 push_bit_eq_mult)
  moreover have "b AND push_bit 4 (mask 4) = push_bit 4 (drop_bit 4 b)"
    by (rule bit_word_eqI) (auto simp: bit_simps)
  ultimately show "b AND 0xF0 = push_bit 4 (drop_bit 4 b)" by simp
qed

lemma make_gdt_entry_base: "gdt_base (make_gdt_entry base limit access granularity e) = base"
proof (rule bit_word_eqI)
  fix n assume "n < LENGTH(32)"
  then show "bit (gdt_base (make_gdt_entry base limit access granularity e)) n = bit base n"
    by (cases "n < 16"; cases "n < 24")
      (auto simp: gdt_base_def make_gdt_entry_def Let_def and_masks bit_simps not_less)
qed

lemma make_gdt_entry_limit:
  "gdt_limit (make_gdt_entry base limit access granularity e) = take_bit 20 limit"
proof (rule bit_word_eqI)
  fix n assume "n < LENGTH(32)"
  then show "bit (gdt_limit (make_gdt_entry base limit access granularity e)) n = bit (take_bit 20 limit) n"
    by (cases "n < 16"; cases "n < 20")
      (auto simp: gdt_limit_def make_gdt_entry_def Let_def and_masks bit_simps not_less)
qed

lemma make_gdt_entry_flags:
  "gdt_flags (make_gdt_entry base limit access granularity e) = granularity AND 0xF0"
proof (rule bit_word_eqI)
  fix n assume "n < LENGTH(8)"
  then show "bit (gdt_flags (make_gdt_entry base limit access granularity e)) n = bit (granularity AND 0xF0) n"
    by (auto simp: gdt_flags_def make_gdt_entry_def Let_def and_masks bit_simps)
qed

lemma make_gdt_entry_access: "gdt_access (make_gdt_entry base limit access granularity e) = access"
  by (simp add: make_gdt_entry_def Let_def)

lemmas make_gdt_entry_reads =
  make_gdt_entry_base make_gdt_entry_limit make_gdt_entry_flags make_gdt_entry_access

lemma idt_gate_base:
  "idt_base (e\<lparr>idt_base_high := ucast (drop_bit 16 base AND 0xFFFF), idt_base_low := ucast (base AND 0xFFFF),
     idt_always0 := 0, idt_selector := s, idt_flags := f\<rparr>) = base"
proof (rule bit_word_eqI)
  fix n assume "n < LENGTH(32)"
  then show "bit (idt_base (e\<lparr>idt_base_high := ucast (drop_bit 16 base AND 0xFFFF), idt_base_low := ucast (base AND 0xFFFF),
     idt_always0 := 0, idt_selector := s, idt_flags := f\<rparr>)) n = bit base n"
    by (cases "n < 16") (auto simp: idt_base_def and_masks bit_simps not_less)
qed

lemma take_bit_20_offset: "take_bit 20 (a + 103 :: u32) = 103 \<longleftrightarrow> take_bit 20 a = 0"
proof -
  let ?r = "unat a mod 1048576"
  have "unat (take_bit 20 w) = unat w mod 1048576" for w :: u32
    by (simp add: take_bit_eq_mod unat_mod)
  moreover have "unat (a + 103) mod 1048576 = (?r + 103) mod 1048576"
  proof -
    have "unat (a + 103) = (unat a + 103) mod 4294967296" by (simp add: unat_word_ariths(1))
    moreover have "(unat a + 103) mod 4294967296 mod 1048576 = (unat a + 103) mod 1048576"
      by (rule mod_mod_cancel) simp
    ultimately show ?thesis by (simp only: mod_add_left_eq)
  qed
  moreover have "w = 103 \<longleftrightarrow> unat w = 103" for w :: u32
    using word_unat_eq_iff [of w 103] by simp
  moreover have "w = 0 \<longleftrightarrow> unat w = 0" for w :: u32 by (rule unat_eq_0 [symmetric])
  ultimately have "take_bit 20 (a + 103) = 103 \<longleftrightarrow> (?r + 103) mod 1048576 = 103"
    "take_bit 20 a = 0 \<longleftrightarrow> ?r = 0"
    by (simp_all only:)
  moreover have "(?r + 103) mod 1048576 = 103 \<longleftrightarrow> ?r = 0"
  proof (cases "?r + 103 < 1048576")
    case True
    then show ?thesis by simp
  next
    case False
    moreover have r: "?r < 1048576" by simp
    ultimately have "(?r + 103) mod 1048576 = ?r + 103 - 1048576"
      by (subst le_mod_geq) (simp_all del: mod_less_divisor)
    with False r show ?thesis by linarith
  qed
  ultimately show ?thesis by simp
qed

lemma boot_gdt:
  fixes gdt_address :: u32 and d0 :: descriptors
  defines "d \<equiv> kernel_global_descriptor_table_install (kernel_global_descriptor_table_init gdt_address d0)"
  shows "gdtr d = Some \<lparr>dp_limit = 63, dp_base = gdt_address\<rparr>" "length (pGDT d) = 8"
    "pGDT d ! 0 = null_gdt_entry"
    "i \<in> {1, 2, 3, 4, 6, 7} \<Longrightarrow> \<exists>a f e. pGDT d ! i = make_gdt_entry 0 0xFFFFFFFF a f e \<and>
       a = (if i = 3 then 0xFA else if i = 4 then 0xF2 else if i = 2 \<or> i = 7 then 0x92 else 0x9A)"
proof -
  have z: "make_gdt_entry 0 0 0 0 null_gdt_entry = null_gdt_entry"
    by (simp add: make_gdt_entry_def null_gdt_entry_def Let_def)
  show "gdtr d = Some \<lparr>dp_limit = 63, dp_base = gdt_address\<rparr>" "length (pGDT d) = 8"
    "pGDT d ! 0 = null_gdt_entry"
    by (simp_all add: d_def kernel_global_descriptor_table_install_def kernel_global_descriptor_table_init_def
        gdt_flush_def kernel_global_descriptor_set_gate_def KERNEL_DESCRIPTORS_GDT_ENTRYCOUT_def Let_def z)
  show "\<exists>a f e. pGDT d ! i = make_gdt_entry 0 0xFFFFFFFF a f e \<and>
       a = (if i = 3 then 0xFA else if i = 4 then 0xF2 else if i = 2 \<or> i = 7 then 0x92 else 0x9A)"
    if "i \<in> {1, 2, 3, 4, 6, 7}"
    using that
    by (auto simp add: d_def kernel_global_descriptor_table_install_def kernel_global_descriptor_table_init_def
        gdt_flush_def kernel_global_descriptor_set_gate_def KERNEL_DESCRIPTORS_GDT_ENTRYCOUT_def Let_def) blast+
qed

section \<open>Properties\<close>

text \<open>
  What the processor reads from a segment descriptor after \<open>kernel_global_descriptor_set_gate\<close>
  is what was asked for: the base address, the low 20 bits of the limit, the upper four flag bits
  and the access byte; all other descriptors of the table stay as they were.
\<close>

theorem segment_descriptor_round_trip:
  assumes "i < length (pGDT d)"
  shows "let e = pGDT (kernel_global_descriptor_set_gate i base limit access granularity d) ! i in
    gdt_base e = base \<and> gdt_limit e = take_bit 20 limit \<and> gdt_flags e = granularity AND 0xF0 \<and>
    gdt_access e = access \<and>
    (\<forall>j. j \<noteq> i \<longrightarrow> pGDT (kernel_global_descriptor_set_gate i base limit access granularity d) ! j = pGDT d ! j)"
  using assms by (simp add: kernel_global_descriptor_set_gate_def make_gdt_entry_reads Let_def)

definition witness_descriptors :: descriptors where
  "witness_descriptors = \<lparr>pGDT = replicate 8 null_gdt_entry, gdt_ptr = \<lparr>dp_limit = 0, dp_base = 0\<rparr>, gdtr = None,
     pIDT = replicate 256 null_idt_entry, idt_ptr = \<lparr>dp_limit = 0, dp_base = 0\<rparr>, idtr = None,
     tss = null_tss, task_register = 0\<rparr>"

theorem segment_descriptor_round_trip_witness:
  "gdt_base (pGDT (kernel_global_descriptor_set_gate 3 0xC0123456 0x12345 0xFA 0xCF witness_descriptors) ! 3) = 0xC0123456"
  using segment_descriptor_round_trip [of 3 witness_descriptors "0xC0123456" "0x12345" "0xFA" "0xCF"]
  by (simp add: witness_descriptors_def Let_def)

text \<open>
  After the set-up of the tables the processor sees flat kernel and user segments of the whole
  address space at privilege levels 0 and 3, all present. The descriptor of the task state segment
  has its address as base, but as limit the low 20 bits of the segment's end address instead of its
  size less one, so the two agree only when the address is a multiple of 1 MiB.
\<close>

theorem boot_segments:
  "let d = kernel_task_state_segment_int tss_address 5 0x10 stack
        (kernel_global_descriptor_table_install (kernel_global_descriptor_table_init gdt_address d0)); g = pGDT d in
   gdtr d = Some \<lparr>dp_limit = 63, dp_base = gdt_address\<rparr> \<and> length g = 8 \<and> g ! 0 = null_gdt_entry \<and>
   list_all (\<lambda>i. gdt_base (g ! i) = 0 \<and> gdt_limit (g ! i) = 0xFFFFF \<and> access_present (gdt_access (g ! i)))
     [1, 2, 3, 4, 6, 7] \<and>
   map (\<lambda>i. access_dpl (gdt_access (g ! i))) [1, 2, 3, 4] = [0, 0, 3, 3] \<and>
   gdt_base (g ! 5) = tss_address \<and> gdt_limit (g ! 5) = take_bit 20 (tss_address + 103) \<and>
   (gdt_limit (g ! 5) = sizeof_tss - 1 \<longleftrightarrow> take_bit 20 tss_address = 0) \<and>
   tss_ss0 (tss d) = 0x10 \<and> tss_esp0 (tss d) = stack \<and> task_register d = 8 * 5"
proof -
  let ?d = "kernel_global_descriptor_table_install (kernel_global_descriptor_table_init gdt_address d0)"
  note g = boot_gdt [where gdt_address = gdt_address and ?d0.0 = d0]
  have flat: "gdt_base (pGDT ?d ! i) = 0 \<and> gdt_limit (pGDT ?d ! i) = 0xFFFFF \<and>
      gdt_access (pGDT ?d ! i) = (if i = 3 then 0xFA else if i = 4 then 0xF2 else if i = 2 \<or> i = 7 then 0x92 else 0x9A)"
    if "i \<in> {1, 2, 3, 4, 6, 7}" for i
    using g(4) [OF that] by (auto simp: make_gdt_entry_reads)
  let ?e = "kernel_global_descriptor_set_gate 5 tss_address (tss_address + sizeof_tss - 1) 0xE9 0 ?d"
  have t: "gdt_base (pGDT ?e ! 5) = tss_address" "gdt_limit (pGDT ?e ! 5) = take_bit 20 (tss_address + 103)"
    "gdt_limit (pGDT ?e ! 5) = sizeof_tss - 1 \<longleftrightarrow> take_bit 20 tss_address = 0"
    using g(2) take_bit_20_offset [of tss_address]
    by (simp_all add: kernel_global_descriptor_set_gate_def make_gdt_entry_reads sizeof_tss_def add.commute)
  have o: "pGDT ?e ! i = pGDT ?d ! i" if "i \<noteq> 5" for i
    using that by (simp add: kernel_global_descriptor_set_gate_def)
  show ?thesis
    using g(1-3) t flat [of 1] flat [of 2] flat [of 3] flat [of 4] flat [of 6] flat [of 7]
    by (simp add: kernel_task_state_segment_int_def tss_flush_def Let_def o access_dpl_def access_present_def
        kernel_global_descriptor_set_gate_def [of 5])
qed

end
