(* ===== verification/Sync.thy ===== *)
theory Sync
  imports Prelude
begin

text \<open>
  Mutual exclusion in the kernel: the spinlock of include/spinlock.h and the nesting counter of
  disabled interrupts of include/kernel/util.h.
\<close>

section \<open>Spinlocks\<close>

text \<open>On the single CPU the kernel runs on, taking a lock that is held spins for ever.\<close>

type_synonym spinlock = u8

definition spinlock_init :: spinlock where "spinlock_init = 0"

definition spinlock_lock :: "spinlock \<Rightarrow> spinlock option" where
  "spinlock_lock l = (if l \<noteq> 0 then None else Some 1)"

definition spinlock_unlock :: "spinlock \<Rightarrow> spinlock" where
  "spinlock_unlock l = 0"

lemma spinlock_free [simp]:
  "spinlock_lock 0 = Some 1" "spinlock_unlock l = 0" "spinlock_init = 0"
  by (simp_all add: spinlock_lock_def spinlock_unlock_def spinlock_init_def)

section \<open>Disabling interrupts\<close>

text \<open>The counter \<open>system_interrupt_disable_counter\<close> and the interrupt flag of the processor.\<close>

record interrupts =
  disable_counter :: int
  interrupt_flag :: bool

definition disable_interrupts :: "interrupts \<Rightarrow> interrupts" where
  "disable_interrupts i = i\<lparr>disable_counter := disable_counter i + 1, interrupt_flag := False\<rparr>"

definition enable_interrupts :: "interrupts \<Rightarrow> interrupts" where
  "enable_interrupts i =
     (let i = i\<lparr>disable_counter := disable_counter i - 1\<rparr>
      in if disable_counter i = 0 then i\<lparr>interrupt_flag := True\<rparr> else i)"

text \<open>
  The flag agrees with the counter when interrupts are on exactly at nesting depth zero. Then a
  disabled section leaves the processor as it found it, at every depth.
\<close>

definition interrupts_ok :: "interrupts \<Rightarrow> bool" where
  "interrupts_ok i \<longleftrightarrow> 0 \<le> disable_counter i \<and> (interrupt_flag i \<longleftrightarrow> disable_counter i = 0)"

lemma enable_disable [simp]: "interrupts_ok i \<Longrightarrow> enable_interrupts (disable_interrupts i) = i"
  by (cases i) (auto simp: enable_interrupts_def disable_interrupts_def interrupts_ok_def Let_def)

lemma interrupts_ok_disable [simp]: "interrupts_ok i \<Longrightarrow> interrupts_ok (disable_interrupts i)"
  by (auto simp: disable_interrupts_def interrupts_ok_def)

lemma disable_flag [simp]:
  "interrupt_flag (disable_interrupts i) = False"
  "disable_counter (disable_interrupts i) = disable_counter i + 1"
  by (simp_all add: disable_interrupts_def)

end
