(* ===== verification/Interrupts.thy ===== *)
theory Interrupts
  imports Descriptors Sync
begin

text \<open>
  Interrupt dispatch (src/kernel/interrupts), the interrupt controller (pic-8259.c) and the interval
  timer (programable-interval-timer.c). Port output is a list of writes. A handler in a table is a
  tag of type \<open>'h\<close>; what the tags do to a state is an argument of the dispatcher.
\<close>

section \<open>Port output and the interrupt controller\<close>

datatype port_write = Outb u16 u8 | Outw u16 u16 | Outl u16 u32

definition PIC1 :: u16 where "PIC1 = 0x20"
definition PIC2 :: u16 where "PIC2 = 0xA0"
definition PIC_MASTER_OFFSET :: u8 where "PIC_MASTER_OFFSET = 0x20"
definition PIC_SLAVE_OFFSET :: u8 where "PIC_SLAVE_OFFSET = 0x28"

definition io_wait :: port_write where "io_wait = Outb 0x80 0"

definition pic_8259_remap :: "port_write list" where
  "pic_8259_remap =
     [Outb PIC1 (0x10 OR 0x01), io_wait, Outb PIC2 (0x10 OR 0x01), io_wait,
      Outb (PIC1 + 1) PIC_MASTER_OFFSET, io_wait, Outb (PIC2 + 1) PIC_SLAVE_OFFSET, io_wait,
      Outb (PIC1 + 1) (push_bit 2 1), io_wait, Outb (PIC2 + 1) 2, io_wait,
      Outb (PIC1 + 1) 0x01, io_wait, Outb (PIC2 + 1) 0x01, io_wait,
      Outb (PIC1 + 1) 0, Outb (PIC2 + 1) 0]"

definition pic_8259_disable :: "port_write list" where
  "pic_8259_disable = [Outb (PIC1 + 1) 0xff, Outb (PIC2 + 1) 0xff]"

definition IR_EOI :: "u32 \<Rightarrow> port_write list" where
  "IR_EOI idx = (if ucast PIC_SLAVE_OFFSET \<le> idx then [Outb PIC2 0x20] else []) @ [Outb PIC1 0x20]"

section \<open>Handlers and their dispatch\<close>

record registers =
  r_ds :: u32
  r_edi :: u32
  r_esi :: u32
  r_ebp :: u32
  r_esp :: u32
  r_ebx :: u32
  r_edx :: u32
  r_ecx :: u32
  r_eax :: u32
  interrupt :: u32
  r_error :: u32
  r_eip :: u32
  r_cs :: u32
  r_eflags :: u32
  r_usermode_esp :: u32
  r_usermode_ss :: u32

type_synonym 'h handles = "'h option list"

definition kernel_interrupts_add_service_handle :: "u16 \<Rightarrow> 'h option \<Rightarrow> 'h handles \<Rightarrow> 'h handles" where
  "kernel_interrupts_add_service_handle isr_index handle hs =
     (if 31 < isr_index \<and> isr_index \<noteq> 128 then hs else hs[unat isr_index := handle])"

definition kernel_interrupts_add_request_handle :: "u16 \<Rightarrow> 'h option \<Rightarrow> 'h handles \<Rightarrow> 'h handles" where
  "kernel_interrupts_add_request_handle irq_index handle hs =
     (if 15 < irq_index then hs else hs[unat irq_index + 32 := handle])"

text \<open>
  \<open>run\<close> executes a handler and \<open>emit\<close> performs port writes. After an exception (a number below 32)
  the processor halts for good.
\<close>

definition ir_handler ::
  "('h \<Rightarrow> registers \<Rightarrow> 's \<Rightarrow> 's option) \<Rightarrow> (port_write list \<Rightarrow> 's \<Rightarrow> 's) \<Rightarrow> 'h handles \<Rightarrow>
   registers \<Rightarrow> 's \<Rightarrow> 's option" where
  "ir_handler run emit hs r s =
     (case (case hs ! unat (interrupt r) of None \<Rightarrow> Some s | Some h \<Rightarrow> run h r s) of None \<Rightarrow> None
      | Some s \<Rightarrow>
        let s = (if 32 < interrupt r then emit (IR_EOI (interrupt r)) s else s)
        in if interrupt r < 32 then None else Some s)"

text \<open>\<open>ir n\<close> is the address of the entry stub \<open>irn\<close> of interrupts.s.\<close>

definition set_interrupt :: "(nat \<Rightarrow> u32) \<Rightarrow> u8 \<Rightarrow> nat \<Rightarrow> descriptors \<Rightarrow> descriptors" where
  "set_interrupt ir flags n d = kernel_interrupt_descriptor_set_gate (of_nat n) (ir n) 0x08 flags d"

definition kernel_interrupts_init ::
  "(nat \<Rightarrow> u32) \<Rightarrow> descriptors \<times> 'h handles \<Rightarrow> descriptors \<times> 'h handles" where
  "kernel_interrupts_init ir = (\<lambda>(d, hs).
     let hs = replicate KERNEL_DESCRIPTORS_IDT_ENTRYCOUT None;
         d = fold (set_interrupt ir 0x8E) [0..<32] d;
         d = set_interrupt ir 0xEE 128 d;
         d = fold (set_interrupt ir 0x8E) [32..<48] d
     in (d, hs))"

section \<open>The interval timer\<close>

record 'h pit =
  pit_is_initialized :: bool
  hz_frequency :: u16
  ticks :: u32
  s_handle :: "'h option"

definition pit_divisor :: "u16 \<Rightarrow> u16" where
  "pit_divisor hz = of_nat (1193180 div unat hz)"

definition programable_interval_timer_set_frequency ::
  "u16 \<Rightarrow> interrupts \<times> 'h pit \<Rightarrow> (port_write list \<times> interrupts \<times> 'h pit) option" where
  "programable_interval_timer_set_frequency hz = (\<lambda>(irq, p).
     if hz = 0 then None
     else
       let divisor = pit_divisor hz;
           l = ucast (divisor AND 0xFF); h = ucast (drop_bit 8 divisor AND 0xFF);
           irq = disable_interrupts irq;
           writes = [Outb 0x43 0x36, Outb 0x40 l, Outb 0x40 h];
           irq = enable_interrupts irq
       in Some (writes, irq, p\<lparr>hz_frequency := hz\<rparr>))"

definition programable_interval_timer_init ::
  "'i \<Rightarrow> u16 \<Rightarrow> interrupts \<times> 'h pit \<times> 'i handles \<Rightarrow> (port_write list \<times> interrupts \<times> 'h pit \<times> 'i handles) option" where
  "programable_interval_timer_init timer_handle hz = (\<lambda>(irq, p, hs).
     if pit_is_initialized p then Some ([], irq, p, hs)
     else
       case programable_interval_timer_set_frequency hz (irq, p) of None \<Rightarrow> None
       | Some (w, irq, p) \<Rightarrow>
         let p = p\<lparr>ticks := 0\<rparr>;
             hs = kernel_interrupts_add_request_handle 0 (Some timer_handle) hs
         in Some (w, irq, p\<lparr>pit_is_initialized := True\<rparr>, hs))"

definition programable_interval_timer_add_handle :: "'h \<Rightarrow> 'h pit \<Rightarrow> 'h pit" where
  "programable_interval_timer_add_handle h p = p\<lparr>s_handle := Some h\<rparr>"

definition programable_interval_timer_remove_handle :: "'h pit \<Rightarrow> 'h pit" where
  "programable_interval_timer_remove_handle p = p\<lparr>s_handle := None\<rparr>"

definition programable_interval_timer_get_tick :: "'h pit \<Rightarrow> u32" where
  "programable_interval_timer_get_tick p = ticks p"

definition programable_interval_timer_get_hz :: "'h pit \<Rightarrow> u32" where
  "programable_interval_timer_get_hz p = ucast (hz_frequency p)"

text \<open>
  The tick: count, acknowledge, and call the installed routine with the new count. The second part
  of the result says which routine is called with which tick.
\<close>

definition timer_handle :: "'h pit \<Rightarrow> port_write list \<times> ('h \<times> u32) option \<times> 'h pit" where
  "timer_handle p =
     (let p = p\<lparr>ticks := ticks p + 1\<rparr>
      in (IR_EOI 32, map_option (\<lambda>h. (h, ticks p)) (s_handle p), p))"

section \<open>Gates and handlers\<close>

lemma set_interrupt_nth:
  assumes "length (pIDT d) = 256" "n < 256" "m < 256"
  shows "length (pIDT (set_interrupt ir fl n d)) = 256"
    "m \<noteq> n \<Longrightarrow> pIDT (set_interrupt ir fl n d) ! m = pIDT d ! m"
    "idt_base (pIDT (set_interrupt ir fl n d) ! n) = ir n"
    "idt_flags (pIDT (set_interrupt ir fl n d) ! n) = fl"
    "idt_selector (pIDT (set_interrupt ir fl n d) ! n) = 8"
proof -
  have n: "unat (of_nat n :: u8) = n" using assms(2) by (simp add: unat_of_nat take_bit_eq_mod)
  show "length (pIDT (set_interrupt ir fl n d)) = 256"
    "m \<noteq> n \<Longrightarrow> pIDT (set_interrupt ir fl n d) ! m = pIDT d ! m"
    "idt_base (pIDT (set_interrupt ir fl n d) ! n) = ir n"
    "idt_flags (pIDT (set_interrupt ir fl n d) ! n) = fl"
    "idt_selector (pIDT (set_interrupt ir fl n d) ! n) = 8"
    using assms by (simp_all add: set_interrupt_def kernel_interrupt_descriptor_set_gate_def n idt_gate_base)
qed

definition gate_set :: "(nat \<Rightarrow> u32) \<Rightarrow> u8 \<Rightarrow> nat \<Rightarrow> idt_entry \<Rightarrow> bool" where
  "gate_set ir fl n e \<longleftrightarrow> idt_base e = ir n \<and> idt_flags e = fl \<and> idt_selector e = 8"

lemma fold_set_interrupt:
  assumes "length (pIDT d) = 256" "\<forall>n \<in> set ns. n < 256"
  shows "length (pIDT (fold (set_interrupt ir fl) ns d)) = 256 \<and>
    (\<forall>m < 256. m \<in> set ns \<longrightarrow> gate_set ir fl m (pIDT (fold (set_interrupt ir fl) ns d) ! m)) \<and>
    (\<forall>m < 256. m \<notin> set ns \<longrightarrow> pIDT (fold (set_interrupt ir fl) ns d) ! m = pIDT d ! m)"
  using assms(2)
proof (induction ns rule: rev_induct)
  case Nil
  then show ?case using assms(1) by simp
next
  case (snoc n ns)
  let ?d = "fold (set_interrupt ir fl) ns d"
  have IH: "length (pIDT ?d) = 256" "\<forall>m < 256. m \<in> set ns \<longrightarrow> gate_set ir fl m (pIDT ?d ! m)"
    "\<forall>m < 256. m \<notin> set ns \<longrightarrow> pIDT ?d ! m = pIDT d ! m" using snoc by auto
  have n: "n < 256" using snoc.prems by simp
  note s = set_interrupt_nth [OF IH(1) n, where ir = ir and fl = fl]
  have g: "gate_set ir fl n (pIDT (set_interrupt ir fl n ?d) ! n)"
    using s(3-5) [OF n] by (simp add: gate_set_def)
  have "gate_set ir fl m (pIDT (set_interrupt ir fl n ?d) ! m)" if "m < 256" "m \<in> set (ns @ [n])" for m
    using that g IH(2) s(2) [of m] by (cases "m = n") auto
  moreover have "pIDT (set_interrupt ir fl n ?d) ! m = pIDT d ! m" if "m < 256" "m \<notin> set (ns @ [n])" for m
    using that IH(3) s(2) [of m] by auto
  ultimately show ?case using s(1) [OF n] by simp
qed

section \<open>Properties\<close>

text \<open>
  After initialisation the descriptor table sends exceptions and hardware interrupts, numbers 0
  to 47, through interrupt gates of privilege level 0 to their own stubs in the kernel's code
  segment, and number 128 to its stub through a gate user programs may call; all other gates are
  absent and no handler is installed.
\<close>

theorem interrupt_gates:
  assumes "kernel_interrupts_init ir (kernel_interrupt_descriptor_table_init a d0, hs0) = (d, hs)" "m < 256"
  shows "(if m < 48 then gate_set ir 0x8E m (pIDT d ! m)
      else if m = 128 then gate_set ir 0xEE m (pIDT d ! m)
      else pIDT d ! m = null_idt_entry) \<and> hs ! m = None \<and> length hs = 256"
proof -
  let ?d0 = "kernel_interrupt_descriptor_table_init a d0"
  let ?d1 = "fold (set_interrupt ir 0x8E) [0..<32] ?d0"
  let ?d2 = "set_interrupt ir 0xEE 128 ?d1"
  have d: "d = fold (set_interrupt ir 0x8E) [32..<48] ?d2" and hs: "hs = replicate 256 None"
    using assms(1) by (simp_all add: kernel_interrupts_init_def KERNEL_DESCRIPTORS_IDT_ENTRYCOUT_def Let_def)
  have l0: "length (pIDT ?d0) = 256" "\<forall>m < 256. pIDT ?d0 ! m = null_idt_entry"
    by (simp_all add: kernel_interrupt_descriptor_table_init_def KERNEL_DESCRIPTORS_IDT_ENTRYCOUT_def)
  have f1: "length (pIDT ?d1) = 256 \<and> (\<forall>m < 256. m \<in> set [0..<32] \<longrightarrow> gate_set ir 0x8E m (pIDT ?d1 ! m)) \<and>
      (\<forall>m < 256. m \<notin> set [0..<32] \<longrightarrow> pIDT ?d1 ! m = pIDT ?d0 ! m)"
    by (rule fold_set_interrupt [OF l0(1)]) simp
  have f2: "length (pIDT ?d2) = 256 \<and> (\<forall>m < 256. m \<in> set [128] \<longrightarrow> gate_set ir 0xEE m (pIDT ?d2 ! m)) \<and>
      (\<forall>m < 256. m \<notin> set [128] \<longrightarrow> pIDT ?d2 ! m = pIDT ?d1 ! m)"
    using fold_set_interrupt [of ?d1 "[128]" ir "0xEE"] f1 by simp
  have f3: "(\<forall>m < 256. m \<in> set [32..<48] \<longrightarrow> gate_set ir 0x8E m (pIDT d ! m)) \<and>
      (\<forall>m < 256. m \<notin> set [32..<48] \<longrightarrow> pIDT d ! m = pIDT ?d2 ! m)"
    unfolding d using fold_set_interrupt [of ?d2 "[32..<48]" ir "0x8E"] f2 by simp
  note f1 = f1 [unfolded set_upt] and f3 = f3 [unfolded set_upt]
  have step: "pIDT d ! m = pIDT ?d2 ! m" if "m \<notin> {32..<48}" using f3 that assms(2) by simp
  have "if m < 48 then gate_set ir 0x8E m (pIDT d ! m)
      else if m = 128 then gate_set ir 0xEE m (pIDT d ! m) else pIDT d ! m = null_idt_entry"
  proof -
    consider "m < 32" | "m \<in> {32..<48}" | "m = 128" | "48 \<le> m" "m \<noteq> 128" by force
    then show ?thesis
    proof cases
      case 1
      then have "gate_set ir 0x8E m (pIDT ?d1 ! m)" "pIDT d ! m = pIDT ?d1 ! m"
        using f1 f2 step assms(2) by simp_all
      with 1 show ?thesis by simp
    next
      case 2
      with f3 assms(2) show ?thesis by simp
    next
      case 3
      with f2 step show ?thesis by simp
    next
      case 4
      then have "pIDT d ! m = null_idt_entry" using f1 f2 step l0(2) assms(2) by simp
      with 4 show ?thesis by simp
    qed
  qed
  then show ?thesis using hs assms(2) by simp
qed

definition witness_tables :: descriptors where
  "witness_tables = \<lparr>pGDT = [], gdt_ptr = \<lparr>dp_limit = 0, dp_base = 0\<rparr>, gdtr = None,
     pIDT = [], idt_ptr = \<lparr>dp_limit = 0, dp_base = 0\<rparr>, idtr = None, tss = null_tss, task_register = 0\<rparr>"

theorem interrupt_gates_witness:
  "\<exists>d hs. kernel_interrupts_init (\<lambda>n. 0x1000 + 16 * of_nat n)
      (kernel_interrupt_descriptor_table_init 0x4000 witness_tables, [] :: unit handles) = (d, hs) \<and>
     idt_base (pIDT d ! 33) = 0x1210 \<and> pIDT d ! 50 = null_idt_entry"
proof -
  let ?ir = "\<lambda>n. 0x1000 + 16 * of_nat n :: u32"
  obtain d and hs :: "unit handles" where i: "kernel_interrupts_init ?ir
      (kernel_interrupt_descriptor_table_init 0x4000 witness_tables, []) = (d, hs)" by fastforce
  from interrupt_gates [OF i, of 33] interrupt_gates [OF i, of 50] i
  show ?thesis by (auto simp: gate_set_def)
qed

text \<open>
  An installed hardware interrupt handler runs exactly on its interrupt and the interrupt
  controllers are acknowledged afterwards, except for the timer, whose handler does that itself; an
  index above 15 installs nothing. Exceptions never return. A system call, which the controllers did
  not raise, is acknowledged to both of them all the same.
\<close>

theorem interrupt_dispatch:
  assumes "length hs = 256" "i \<le> 15"
  shows "(interrupt r = 32 + ucast i \<longrightarrow>
      ir_handler run emit (kernel_interrupts_add_request_handle i (Some h) hs) r s =
        map_option (if i = 0 then id else emit (IR_EOI (interrupt r))) (run h r s)) \<and>
    (interrupt r < 256 \<and> interrupt r \<noteq> 32 + ucast i \<longrightarrow>
      ir_handler run emit (kernel_interrupts_add_request_handle i (Some h) hs) r s = ir_handler run emit hs r s) \<and>
    (15 < j \<longrightarrow> kernel_interrupts_add_request_handle j (Some h) hs = hs) \<and>
    (interrupt r < 32 \<longrightarrow> ir_handler run emit hs r s = None) \<and>
    (interrupt r = 128 \<longrightarrow> ir_handler run emit (kernel_interrupts_add_service_handle 128 (Some h) hs) r s =
        map_option (emit [Outb PIC2 0x20, Outb PIC1 0x20]) (run h r s))"
proof -
  have i: "unat i \<le> 15" using assms(2) by (simp add: word_le_nat_alt)
  have ui: "unat (32 + ucast i :: u32) = unat i + 32"
    using i by (subst unat_add_noov) (simp_all add: unsigned_ucast_eq take_bit_eq_mod)
  have ni: "\<not> 15 < i" using assms(2) by simp
  have 1: "ir_handler run emit (kernel_interrupts_add_request_handle i (Some h) hs) r s =
        map_option (if i = 0 then id else emit (IR_EOI (interrupt r))) (run h r s)" if r: "interrupt r = 32 + ucast i"
  proof -
    have "32 < interrupt r \<longleftrightarrow> i \<noteq> 0" "\<not> interrupt r < 32"
      using r ui by (auto simp: word_less_nat_alt unat_gt_0)
    moreover have "(hs[unat i + 32 := Some h]) ! unat (interrupt r) = Some h" using r ui i assms(1) by simp
    ultimately show ?thesis
      using ni by (auto simp: ir_handler_def kernel_interrupts_add_request_handle_def Let_def split: option.splits)
  qed
  have 2: "ir_handler run emit (kernel_interrupts_add_request_handle i (Some h) hs) r s = ir_handler run emit hs r s"
    if "interrupt r \<noteq> 32 + ucast i"
  proof -
    have "unat i + 32 \<noteq> unat (interrupt r)" using that ui by (metis word_unat_eq_iff)
    then show ?thesis using ni by (simp add: ir_handler_def kernel_interrupts_add_request_handle_def)
  qed
  have 3: "ir_handler run emit hs r s = None" if "interrupt r < 32"
    using that by (simp add: ir_handler_def Let_def split: option.splits)
  have 4: "ir_handler run emit (kernel_interrupts_add_service_handle 128 (Some h) hs) r s =
        map_option (emit [Outb PIC2 0x20, Outb PIC1 0x20]) (run h r s)" if "interrupt r = 128"
    using that assms(1) by (simp add: ir_handler_def kernel_interrupts_add_service_handle_def IR_EOI_def
        PIC_SLAVE_OFFSET_def Let_def split: option.splits)
  show ?thesis using 1 2 3 4 by (auto simp: kernel_interrupts_add_request_handle_def)
qed

definition witness_registers :: registers where
  "witness_registers = \<lparr>r_ds = 0, r_edi = 0, r_esi = 0, r_ebp = 0, r_esp = 0, r_ebx = 0, r_edx = 0, r_ecx = 0,
     r_eax = 0, interrupt = 41, r_error = 0, r_eip = 0, r_cs = 0, r_eflags = 0, r_usermode_esp = 0, r_usermode_ss = 0\<rparr>"

theorem interrupt_dispatch_witness:
  "ir_handler (\<lambda>h r s. Some (h # s)) (\<lambda>w s. length w # s)
     (kernel_interrupts_add_request_handle 9 (Some 7) (replicate 256 None)) witness_registers [] = Some [2, 7]"
  using interrupt_dispatch [of "replicate 256 None" 9 witness_registers "\<lambda>h r s. Some (h # s)" "\<lambda>w s. length w # s" 7 "[]" 16]
  by (simp add: witness_registers_def IR_EOI_def PIC_SLAVE_OFFSET_def)

text \<open>
  Setting the timer's frequency programs the two bytes of the divisor and leaves the interrupt
  state as it was; the divisor is 1193180 Hz over the frequency for 19 Hz and above, and for 1 to 18
  Hz it is that number cut off at 16 bits, so the timer runs too fast.
\<close>

theorem timer_frequency:
  assumes "hz \<noteq> 0" "interrupts_ok irq"
  shows "\<exists>l h. programable_interval_timer_set_frequency hz (irq, p) =
      Some ([Outb 0x43 0x36, Outb 0x40 l, Outb 0x40 h], irq, p\<lparr>hz_frequency := hz\<rparr>) \<and>
    (ucast l OR push_bit 8 (ucast h) :: u16) = pit_divisor hz \<and>
    unat (pit_divisor hz) = 1193180 div unat hz mod 65536 \<and>
    (unat (pit_divisor hz) = 1193180 div unat hz \<longleftrightarrow> 19 \<le> unat hz)"
proof -
  have m: "(w :: u16) AND 0xFF = take_bit 8 w" for w by (simp add: take_bit_eq_mask mask_eq_exp_minus_1)
  have b: "(ucast (ucast (d AND 0xFF) :: u8) OR push_bit 8 (ucast (ucast (drop_bit 8 d AND 0xFF) :: u8)) :: u16) = d"
    for d :: u16
  proof (rule bit_word_eqI)
    fix n assume "n < LENGTH(16)"
    then show "bit (ucast (ucast (d AND 0xFF) :: u8) OR push_bit 8 (ucast (ucast (drop_bit 8 d AND 0xFF) :: u8)) :: u16) n = bit d n"
      by (cases "n < 8") (auto simp: m bit_simps not_less)
  qed
  have u: "unat (pit_divisor hz) = 1193180 div unat hz mod 65536"
    by (simp add: pit_divisor_def unat_of_nat take_bit_eq_mod)
  have pos: "0 < unat hz" using assms(1) by (simp add: unat_gt_0)
  have "1193180 div unat hz < 65536 \<longleftrightarrow> 1193180 < 65536 * unat hz"
    using pos by (simp add: div_less_iff_less_mult)
  also have "\<dots> \<longleftrightarrow> 19 \<le> unat hz" by linarith
  finally have "1193180 div unat hz mod 65536 = 1193180 div unat hz \<longleftrightarrow> 19 \<le> unat hz"
    by (metis mod_less mod_less_divisor zero_less_numeral)
  with u b show ?thesis
    using assms by (simp add: programable_interval_timer_set_frequency_def Let_def)
qed

theorem timer_frequency_witness:
  "unat (pit_divisor 500) = 2386 \<and> unat (pit_divisor 18) = 751"
  using timer_frequency [of 500 "\<lparr>disable_counter = 1, interrupt_flag = False\<rparr>" "p :: unit pit"]
    timer_frequency [of 18 "\<lparr>disable_counter = 1, interrupt_flag = False\<rparr>" "p :: unit pit"]
  by (auto simp: interrupts_ok_def)

end
