(* ===== verification/Allocation_Table.thy ===== *)
theory Allocation_Table
  imports Prelude "HOL-Library.Multiset"
begin

text \<open>
  The table of a thread's heap allocations (allocation-table.c), and its refinement of a multiset of
  address and size pairs.
\<close>

section \<open>The operations\<close>

definition ALLOCATION_MAX_COUNT :: nat where "ALLOCATION_MAX_COUNT = 512"

record allocation_table_entry =
  ae_address :: u32
  ae_size :: u32

record allocation_table =
  at_size :: u32
  at_data :: "allocation_table_entry list"

definition free_entry :: allocation_table_entry where
  "free_entry = \<lparr>ae_address = NULL, ae_size = 0\<rparr>"

definition find_free_entry :: "allocation_table \<Rightarrow> nat option" where
  "find_free_entry t =
     find (\<lambda>i. ae_address (at_data t ! i) = NULL \<and> ae_size (at_data t ! i) = 0) [0..<ALLOCATION_MAX_COUNT]"

definition allocation_table_init :: "allocation_table \<Rightarrow> allocation_table" where
  "allocation_table_init t = t\<lparr>at_size := 0, at_data := replicate ALLOCATION_MAX_COUNT free_entry\<rparr>"

definition allocation_table_add :: "u32 \<Rightarrow> u32 \<Rightarrow> allocation_table \<Rightarrow> allocation_table" where
  "allocation_table_add address sz t =
     (case find_free_entry t of None \<Rightarrow> t
      | Some i \<Rightarrow> t\<lparr>at_data := (at_data t)[i := \<lparr>ae_address = address, ae_size = sz\<rparr>],
                    at_size := at_size t + 1\<rparr>)"

definition allocation_table_remove :: "u32 \<Rightarrow> allocation_table \<Rightarrow> allocation_table" where
  "allocation_table_remove address t =
     (case find (\<lambda>i. ae_address (at_data t ! i) = address) [0..<ALLOCATION_MAX_COUNT] of None \<Rightarrow> t
      | Some i \<Rightarrow> t\<lparr>at_data := (at_data t)[i := free_entry], at_size := at_size t - 1\<rparr>)"

section \<open>The multiset of recorded allocations\<close>

definition recorded :: "allocation_table \<Rightarrow> (u32 \<times> u32) multiset" where
  "recorded t = image_mset (\<lambda>e. (ae_address e, ae_size e)) (filter_mset (\<lambda>e. e \<noteq> free_entry) (mset (at_data t)))"

definition table_ok :: "allocation_table \<Rightarrow> bool" where
  "table_ok t \<longleftrightarrow> length (at_data t) = ALLOCATION_MAX_COUNT \<and> at_size t = of_nat (size (recorded t)) \<and>
     NULL \<notin># image_mset fst (recorded t)"

lemma free_entry_iff: "e = free_entry \<longleftrightarrow> ae_address e = NULL \<and> ae_size e = 0"
  by (cases e) (simp add: free_entry_def)

lemma recorded_update:
  assumes "i < length (at_data t)"
  shows "recorded (t\<lparr>at_data := (at_data t)[i := e]\<rparr>) +
      (if at_data t ! i = free_entry then {#} else {#(ae_address (at_data t ! i), ae_size (at_data t ! i))#}) =
    recorded t + (if e = free_entry then {#} else {#(ae_address e, ae_size e)#})"
proof -
  have 1: "at_data t = take i (at_data t) @ at_data t ! i # drop (Suc i) (at_data t)"
    using assms by (rule id_take_nth_drop)
  have 2: "(at_data t)[i := e] = take i (at_data t) @ e # drop (Suc i) (at_data t)"
    using assms by (rule upd_conv_take_nth_drop)
  show ?thesis
    unfolding recorded_def by (subst (3) 1) (simp add: 2)
qed

lemma recorded_size [simp]: "recorded (t\<lparr>at_size := n\<rparr>) = recorded t"
  by (simp add: recorded_def)

lemma recorded_fields: "recorded (t\<lparr>at_data := d, at_size := n\<rparr>) = recorded (t\<lparr>at_data := d\<rparr>)"
  by (simp add: recorded_def)

lemma size_recorded: "size (recorded t) = length (filter (\<lambda>e. e \<noteq> free_entry) (at_data t))"
  by (simp add: recorded_def flip: mset_filter)

lemma find_free_entry_Some:
  assumes "find_free_entry t = Some i" "length (at_data t) = ALLOCATION_MAX_COUNT"
  shows "i < length (at_data t) \<and> at_data t ! i = free_entry"
  using assms by (simp add: find_free_entry_def find_upt_Some_iff free_entry_iff)

lemma find_free_entry_None:
  assumes "length (at_data t) = ALLOCATION_MAX_COUNT"
  shows "find_free_entry t = None \<longleftrightarrow> size (recorded t) = ALLOCATION_MAX_COUNT"
proof -
  have "find_free_entry t = None \<longleftrightarrow> (\<forall>e \<in> set (at_data t). e \<noteq> free_entry)"
    using assms by (simp add: find_free_entry_def find_upt_None_iff free_entry_iff all_set_conv_all_nth)
  also have "\<dots> \<longleftrightarrow> length (filter (\<lambda>e. e \<noteq> free_entry) (at_data t)) = length (at_data t)"
    by (rule all_filter_length)
  finally show ?thesis using assms by (simp add: size_recorded)
qed

lemma allocation_table_init_ok: "table_ok (allocation_table_init t)" "recorded (allocation_table_init t) = {#}"
proof -
  show r: "recorded (allocation_table_init t) = {#}"
    by (auto simp: recorded_def allocation_table_init_def)
  show "table_ok (allocation_table_init t)"
    unfolding table_ok_def r by (simp add: allocation_table_init_def)
qed

text \<open>Entering and deleting, on the multiset.\<close>

lemma add_recorded:
  assumes "length (at_data t) = ALLOCATION_MAX_COUNT" "size (recorded t) < ALLOCATION_MAX_COUNT" "a \<noteq> NULL \<or> n \<noteq> 0"
  shows "recorded (allocation_table_add a n t) = add_mset (a, n) (recorded t)"
    "at_size (allocation_table_add a n t) = at_size t + 1"
    "length (at_data (allocation_table_add a n t)) = ALLOCATION_MAX_COUNT"
proof -
  obtain i where i: "find_free_entry t = Some i" using assms find_free_entry_None [of t] by auto
  note f = find_free_entry_Some [OF i assms(1)]
  show "recorded (allocation_table_add a n t) = add_mset (a, n) (recorded t)"
    using recorded_update [of i t "\<lparr>ae_address = a, ae_size = n\<rparr>"] f assms(3)
    by (simp add: allocation_table_add_def i recorded_fields free_entry_iff)
  show "at_size (allocation_table_add a n t) = at_size t + 1"
    "length (at_data (allocation_table_add a n t)) = ALLOCATION_MAX_COUNT"
    using assms(1) by (simp_all add: allocation_table_add_def i)
qed

lemma remove_recorded:
  assumes "length (at_data t) = ALLOCATION_MAX_COUNT" "a \<noteq> NULL" "(a, n) \<in># recorded t"
  shows "\<exists>n. recorded t = add_mset (a, n) (recorded (allocation_table_remove a t))"
    "at_size (allocation_table_remove a t) = at_size t - 1"
    "length (at_data (allocation_table_remove a t)) = ALLOCATION_MAX_COUNT"
proof -
  obtain e where "e \<in> set (at_data t)" "ae_address e = a" using assms(3) by (auto simp: recorded_def)
  then have "\<exists>i < ALLOCATION_MAX_COUNT. ae_address (at_data t ! i) = a"
    using assms(1) by (auto simp: in_set_conv_nth)
  then obtain i where i: "find (\<lambda>i. ae_address (at_data t ! i) = a) [0..<ALLOCATION_MAX_COUNT] = Some i"
    by (metis (mono_tags, lifting) find_upt_None_iff option.exhaust)
  then have f: "i < length (at_data t)" "ae_address (at_data t ! i) = a"
    using assms(1) by (simp_all add: find_upt_Some_iff)
  then have "at_data t ! i \<noteq> free_entry" using assms(2) by (simp add: free_entry_iff)
  then have "recorded t = add_mset (a, ae_size (at_data t ! i)) (recorded (allocation_table_remove a t))"
    using recorded_update [OF f(1), of free_entry] f(2)
    by (simp add: allocation_table_remove_def i recorded_fields)
  then show "\<exists>n. recorded t = add_mset (a, n) (recorded (allocation_table_remove a t))" ..
  show "at_size (allocation_table_remove a t) = at_size t - 1"
    "length (at_data (allocation_table_remove a t)) = ALLOCATION_MAX_COUNT"
    using assms(1) by (simp_all add: allocation_table_remove_def i)
qed

lemma remove_absent:
  assumes "length (at_data t) = ALLOCATION_MAX_COUNT" "a \<noteq> NULL" "\<forall>n. (a, n) \<notin># recorded t"
  shows "allocation_table_remove a t = t"
proof -
  have "ae_address (at_data t ! i) \<noteq> a" if "i < ALLOCATION_MAX_COUNT" for i
  proof
    assume *: "ae_address (at_data t ! i) = a"
    then have "at_data t ! i \<noteq> free_entry" using assms(2) by (simp add: free_entry_iff)
    then have "(a, ae_size (at_data t ! i)) \<in># recorded t"
      using * that assms(1) by (auto simp: recorded_def intro!: image_eqI [where x = "at_data t ! i"])
    with assms(3) show False by blast
  qed
  then have "find (\<lambda>i. ae_address (at_data t ! i) = a) [0..<ALLOCATION_MAX_COUNT] = None"
    by (simp only: find_upt_None_iff) blast
  then show ?thesis by (simp only: allocation_table_remove_def option.case)
qed

section \<open>Properties\<close>

text \<open>
  C14: As long as no allocation at the null address is recorded, the table implements a multiset of
  at most 512 address and size pairs, with its count field equal to the number of pairs: a recorded
  allocation is added, or ignored when the table is full; deleting an address deletes one pair with
  that address, or nothing when there is none. So recording and deleting an allocation restores the
  multiset when the address was not in the table.
\<close>

theorem allocation_table_refines_multiset:
  assumes "table_ok t" "a \<noteq> NULL"
  shows "table_ok (allocation_table_add a n t) \<and>
    recorded (allocation_table_add a n t) =
      (if size (recorded t) < 512 then add_mset (a, n) (recorded t) else recorded t) \<and>
    table_ok (allocation_table_remove a t) \<and>
    (if a \<in># image_mset fst (recorded t)
     then \<exists>k. recorded t = add_mset (a, k) (recorded (allocation_table_remove a t))
     else allocation_table_remove a t = t)"
proof -
  have l: "length (at_data t) = ALLOCATION_MAX_COUNT" and sz: "at_size t = of_nat (size (recorded t))"
    and nn: "NULL \<notin># image_mset fst (recorded t)" using assms(1) by (auto simp: table_ok_def)
  have add: "table_ok (allocation_table_add a n t) \<and>
    recorded (allocation_table_add a n t) = (if size (recorded t) < 512 then add_mset (a, n) (recorded t) else recorded t)"
  proof (cases "size (recorded t) < 512")
    case True
    with add_recorded [OF l _ disjI1 [OF assms(2)], of n] assms(2) sz nn show ?thesis
      by (auto simp: table_ok_def ALLOCATION_MAX_COUNT_def)
  next
    case False
    then have "find_free_entry t = None"
      using find_free_entry_None [OF l] l by (simp add: size_recorded ALLOCATION_MAX_COUNT_def)
        (metis le_antisym length_filter_le not_less)
    with False assms(1) show ?thesis by (simp add: allocation_table_add_def)
  qed
  have "table_ok (allocation_table_remove a t) \<and> (if a \<in># image_mset fst (recorded t)
     then \<exists>k. recorded t = add_mset (a, k) (recorded (allocation_table_remove a t))
     else allocation_table_remove a t = t)"
  proof (cases "a \<in># image_mset fst (recorded t)")
    case True
    then obtain k where "(a, k) \<in># recorded t" by auto
    note r = remove_recorded [OF l assms(2) this]
    from r(1) obtain k where k: "recorded t = add_mset (a, k) (recorded (allocation_table_remove a t))" by blast
    from nn sz k r(2,3) have "table_ok (allocation_table_remove a t)" by (simp add: table_ok_def)
    with True k show ?thesis by auto
  next
    case False
    then have "\<forall>n. (a, n) \<notin># recorded t" by force
    with remove_absent [OF l assms(2)] assms(1) False show ?thesis by auto
  qed
  with add show ?thesis by blast
qed

definition witness_table :: allocation_table where
  "witness_table = allocation_table_add 0x91000 100 (allocation_table_init \<lparr>at_size = 7, at_data = []\<rparr>)"

theorem allocation_table_refines_multiset_witness:
  "recorded witness_table = {#(0x91000, 100)#} \<and> at_size witness_table = 1 \<and>
   recorded (allocation_table_remove 0x91000 witness_table) = {#}"
proof -
  let ?t = "allocation_table_init \<lparr>at_size = 7, at_data = []\<rparr>"
  have 1: "table_ok witness_table" "recorded witness_table = {#(0x91000, 100)#}"
    using allocation_table_refines_multiset [of ?t "0x91000" 100]
    by (simp_all add: allocation_table_init_ok witness_table_def)
  then have "at_size witness_table = 1" by (simp add: table_ok_def)
  then show ?thesis
    using 1 allocation_table_refines_multiset [of witness_table "0x91000" 0] by auto
qed

text \<open>
  Deleting the null address from a table that is not full deletes no allocation but lowers the
  count, and on an empty table the count wraps around to the largest 32-bit number.
\<close>

theorem allocation_table_null_delete:
  assumes "table_ok t" "size (recorded t) < 512"
  shows "recorded (allocation_table_remove NULL t) = recorded t \<and>
    at_size (allocation_table_remove NULL t) = of_nat (size (recorded t)) - 1 \<and>
    (recorded t = {#} \<longrightarrow> at_size (allocation_table_remove NULL t) = 0xFFFFFFFF)"
proof -
  have l: "length (at_data t) = ALLOCATION_MAX_COUNT" and sz: "at_size t = of_nat (size (recorded t))"
    and nn: "NULL \<notin># image_mset fst (recorded t)" using assms(1) by (auto simp: table_ok_def)
  obtain j where "find_free_entry t = Some j"
    using find_free_entry_None [OF l] assms(2) by (auto simp: ALLOCATION_MAX_COUNT_def)
  then have "\<exists>i < ALLOCATION_MAX_COUNT. ae_address (at_data t ! i) = NULL"
    using l find_free_entry_Some [of t j] by (auto simp: free_entry_iff)
  then obtain i where i: "find (\<lambda>i. ae_address (at_data t ! i) = NULL) [0..<ALLOCATION_MAX_COUNT] = Some i"
    by (metis (mono_tags, lifting) find_upt_None_iff option.exhaust)
  then have f: "i < length (at_data t)" "ae_address (at_data t ! i) = NULL"
    using l by (simp_all add: find_upt_Some_iff)
  have "at_data t ! i = free_entry"
  proof (rule ccontr)
    assume "at_data t ! i \<noteq> free_entry"
    then have "(NULL, ae_size (at_data t ! i)) \<in># recorded t"
      using f by (auto simp: recorded_def intro!: image_eqI [where x = "at_data t ! i"])
    then show False using nn by force
  qed
  then have "recorded (allocation_table_remove NULL t) = recorded t"
    using recorded_update [OF f(1), of free_entry] by (simp add: allocation_table_remove_def i recorded_fields)
  then show ?thesis using sz by (simp add: allocation_table_remove_def i)
qed

theorem allocation_table_null_delete_witness:
  "at_size (allocation_table_remove NULL (allocation_table_init \<lparr>at_size = 7, at_data = []\<rparr>)) = 0xFFFFFFFF"
  using allocation_table_null_delete [of "allocation_table_init \<lparr>at_size = 7, at_data = []\<rparr>"]
  by (simp add: allocation_table_init_ok)

end
