(* ===== verification/Task_Queue.thy ===== *)
theory Task_Queue
  imports Allocation_Table Sync
begin

text \<open>
  Tasks (include/kernel/data-structures/scheduler/task.h) and the queue of tasks linked through
  their \<open>next\<close> fields (task-queue.c). All tasks are entries of the one task table, so a task pointer
  is a table index, and the null pointer is \<open>None\<close>.
\<close>

section \<open>Tasks\<close>

datatype task_state =
  TASK_STATE_STOPPED | TASK_STATE_RUNNING | TASK_STATE_CREATED | TASK_STATE_BLOCKED |
  TASK_STATE_SLEEPING | TASK_STATE_ZOMBIE | TASK_STATE_CLEANING

datatype task_mode = TASK_MODE_KTHREAD | TASK_MODE_PROCESS | TASK_MODE_THREAD

text \<open>The registers a context switch keeps; \<open>fpu_state\<close> is the image \<open>fnsave\<close> writes.\<close>

record task_context =
  eax :: u32
  ecx :: u32
  edx :: u32
  ebx :: u32
  esp :: u32
  ebp :: u32
  esi :: u32
  edi :: u32
  eip :: u32
  eflags :: u32
  fpu_state :: "u8 list"

text \<open>
  There is one paging manager and one heap manager, so a task's pointers to them are truth values
  (set or null). \<open>name\<close> is the character string without its terminator.
\<close>

record task =
  ctx :: task_context
  args :: u32
  argv :: u32
  ds :: u32
  cs :: u32
  kesp :: u32
  kebp :: u32
  thread_eip :: u32
  state :: task_state
  mode :: task_mode
  stackptr :: u32
  physical_cr3 :: u32
  t_paging_manager :: bool
  t_heap_manager :: bool
  thread_allocation_table :: allocation_table
  wake_tick :: u32
  reserved :: u32
  name :: "u8 list"
  pid :: u32
  tgid :: u32
  parent :: "nat option"
  "next" :: "nat option"
  prev :: "nat option"

type_synonym task_table = "nat \<Rightarrow> task"

definition zero_context :: task_context where
  "zero_context = \<lparr>eax = 0, ecx = 0, edx = 0, ebx = 0, esp = 0, ebp = 0, esi = 0, edi = 0, eip = 0,
     eflags = 0, fpu_state = replicate 108 0\<rparr>"

definition zero_task :: task where
  "zero_task = \<lparr>ctx = zero_context, args = 0, argv = 0, ds = 0, cs = 0, kesp = 0, kebp = 0, thread_eip = 0,
     state = TASK_STATE_STOPPED, mode = TASK_MODE_KTHREAD, stackptr = 0, physical_cr3 = 0,
     t_paging_manager = False, t_heap_manager = False,
     thread_allocation_table = \<lparr>at_size = 0, at_data = replicate ALLOCATION_MAX_COUNT free_entry\<rparr>,
     wake_tick = 0, reserved = 0, name = [], pid = 0, tgid = 0, parent = None, next = None, prev = None\<rparr>"

section \<open>The queue operations\<close>

record task_queue =
  tq_head :: "nat option"
  tq_tail :: "nat option"
  tq_size :: u32
  tq_lock :: spinlock

definition task_queue_init :: task_queue where
  "task_queue_init = \<lparr>tq_head = None, tq_tail = None, tq_size = 0, tq_lock = spinlock_init\<rparr>"

definition set_next :: "nat \<Rightarrow> nat option \<Rightarrow> task_table \<Rightarrow> task_table" where
  "set_next t n T = T(t := (T t)\<lparr>next := n\<rparr>)"

definition task_queue_push :: "nat \<Rightarrow> task_table \<times> task_queue \<Rightarrow> (task_table \<times> task_queue) option" where
  "task_queue_push t = (\<lambda>(T, q).
     case spinlock_lock (tq_lock q) of None \<Rightarrow> None
     | Some l \<Rightarrow>
       let T = set_next t None T;
           (T, q) = (case tq_tail q of Some e \<Rightarrow> (set_next e (Some t) T, q)
                     | None \<Rightarrow> (T, q\<lparr>tq_head := Some t\<rparr>));
           q = q\<lparr>tq_tail := Some t\<rparr>;
           q = q\<lparr>tq_size := tq_size q + 1\<rparr>
       in Some (T, q\<lparr>tq_lock := spinlock_unlock l\<rparr>))"

definition task_queue_peek :: "task_table \<times> task_queue \<Rightarrow> nat option" where
  "task_queue_peek = (\<lambda>(T, q). if tq_size q = 0 then None else tq_head q)"

definition task_queue_pop :: "(task_table \<times> task_queue, nat option) prog" where
  "task_queue_pop = (\<lambda>(T, q).
     case spinlock_lock (tq_lock q) of None \<Rightarrow> None
     | Some l \<Rightarrow>
       (case tq_head q of
          None \<Rightarrow> Some (None, T, q\<lparr>tq_lock := spinlock_unlock l\<rparr>)
        | Some t \<Rightarrow>
          let q = q\<lparr>tq_head := next (T t)\<rparr>;
              q = (if tq_head q = None then q\<lparr>tq_tail := None\<rparr> else q);
              T = set_next t None T;
              q = q\<lparr>tq_size := tq_size q - 1\<rparr>
          in Some (Some t, T, q\<lparr>tq_lock := spinlock_unlock l\<rparr>)))"

section \<open>Linked lists of tasks\<close>

text \<open>Following \<open>next\<close> from a pointer visits exactly the given tasks.\<close>

fun path :: "task_table \<Rightarrow> nat option \<Rightarrow> nat list \<Rightarrow> bool" where
  "path T p [] \<longleftrightarrow> p = None"
| "path T p (x # xs) \<longleftrightarrow> p = Some x \<and> path T (next (T x)) xs"

fun_cases path_cases: "path T p xs"

definition last_opt :: "'a list \<Rightarrow> 'a option" where
  "last_opt xs = (if xs = [] then None else Some (last xs))"

definition queue_rep :: "task_table \<times> task_queue \<Rightarrow> nat list \<Rightarrow> bool" where
  "queue_rep s xs \<longleftrightarrow> (case s of (T, q) \<Rightarrow> path T (tq_head q) xs \<and> distinct xs \<and> tq_tail q = last_opt xs \<and>
     tq_size q = of_nat (length xs) \<and> tq_lock q = 0)"

lemma last_opt_simps [simp]: "last_opt [] = None" "last_opt (xs @ [x]) = Some x"
  "last_opt (x # y # xs) = last_opt (y # xs)" "last_opt [x] = Some x"
  by (simp_all add: last_opt_def)

lemma last_opt_Some: "last_opt xs = Some e \<longleftrightarrow> (\<exists>ys. xs = ys @ [e])"
  by (cases xs rule: rev_cases) auto

lemma last_opt_None [simp]: "last_opt xs = None \<longleftrightarrow> xs = []"
  by (simp add: last_opt_def)

lemma path_cong: "path T p xs \<Longrightarrow> (\<And>x. x \<in> set xs \<Longrightarrow> next (T' x) = next (T x)) \<Longrightarrow> path T' p xs"
  by (induction xs arbitrary: p) auto

lemma path_set_next_other [simp]: "t \<notin> set xs \<Longrightarrow> path (set_next t n T) p xs = path T p xs"
  by (induction xs arbitrary: p) (auto simp: set_next_def)

lemma set_next_other [simp]: "i \<noteq> t \<Longrightarrow> set_next t n T i = T i"
  by (simp add: set_next_def)

lemma path_unique: "path T p xs \<Longrightarrow> path T p ys \<Longrightarrow> xs = ys"
proof (induction xs arbitrary: p ys)
  case Nil
  then show ?case by (cases ys) auto
next
  case (Cons x xs)
  then show ?case by (cases ys) auto
qed

lemma path_append_one:
  "path T p (xs @ [e]) \<Longrightarrow> distinct (xs @ [e]) \<Longrightarrow> t \<notin> set (xs @ [e]) \<Longrightarrow> next (T t) = None \<Longrightarrow>
   path (set_next e (Some t) T) p (xs @ [e, t])"
proof (induction xs arbitrary: p)
  case Nil
  then show ?case by (auto simp: set_next_def)
next
  case (Cons x xs)
  then show ?case by (auto simp: set_next_def)
qed

text \<open>What the queue operations change in the task table: the \<open>next\<close> field of tasks in a given set.\<close>

definition relinked :: "nat set \<Rightarrow> task_table \<Rightarrow> task_table \<Rightarrow> bool" where
  "relinked A T T' \<longleftrightarrow> (\<forall>i. i \<notin> A \<longrightarrow> T' i = T i) \<and> (\<forall>i. (T' i)\<lparr>next := None\<rparr> = (T i)\<lparr>next := None\<rparr>)"

lemma relinked_set_next: "t \<in> A \<Longrightarrow> relinked A T (set_next t n T)"
  by (auto simp: relinked_def set_next_def)

lemma relinked_refl: "relinked A T T"
  by (simp add: relinked_def)

lemma relinked_trans: "relinked A T T' \<Longrightarrow> relinked B T' T'' \<Longrightarrow> relinked (A \<union> B) T T''"
  by (simp add: relinked_def)

lemma task_queue_push_spec:
  assumes "queue_rep (T, q) xs" "t \<notin> set xs"
  shows "\<exists>T' q'. task_queue_push t (T, q) = Some (T', q') \<and> queue_rep (T', q') (xs @ [t]) \<and>
    relinked (insert t (set xs)) T T'"
proof (cases xs rule: rev_cases)
  case Nil
  let ?T = "set_next t None T"
  have "next (?T t) = None" by (simp add: set_next_def)
  with assms Nil show ?thesis
    by (auto simp: task_queue_push_def queue_rep_def Let_def relinked_set_next)
next
  case (snoc ys e)
  let ?T = "set_next t None T"
  have "path ?T (tq_head q) (ys @ [e])" using assms snoc by (simp add: queue_rep_def)
  moreover have "next (?T t) = None" by (simp add: set_next_def)
  ultimately have "path (set_next e (Some t) ?T) (tq_head q) (ys @ [e, t])"
    using assms snoc by (intro path_append_one) (auto simp: queue_rep_def)
  moreover have "relinked (insert t (set xs)) T (set_next e (Some t) ?T)"
    using relinked_trans [OF relinked_set_next relinked_set_next, of t "insert t (set xs)" e "insert t (set xs)"] snoc
    by simp
  moreover have "task_queue_push t (T, q) = Some (set_next e (Some t) ?T, q\<lparr>tq_tail := Some t, tq_size := tq_size q + 1, tq_lock := 0\<rparr>)"
    using assms(1) snoc by (simp add: task_queue_push_def queue_rep_def Let_def)
  ultimately show ?thesis
    using assms snoc by (auto simp: queue_rep_def last_opt_def)
qed

lemma task_queue_pop_empty:
  assumes "queue_rep (T, q) []"
  shows "task_queue_pop (T, q) = Some (None, T, q)"
  using assms by (simp add: task_queue_pop_def queue_rep_def)

lemma task_queue_pop_spec:
  assumes "queue_rep (T, q) (t # xs)"
  shows "\<exists>T' q'. task_queue_pop (T, q) = Some (Some t, T', q') \<and> queue_rep (T', q') xs \<and> relinked {t} T T'"
proof -
  let ?T = "set_next t None T"
  let ?q = "q\<lparr>tq_head := next (T t), tq_tail := (if next (T t) = None then None else tq_tail q), tq_size := tq_size q - 1, tq_lock := 0\<rparr>"
  have q: "tq_head q = Some t" "path T (next (T t)) xs" "distinct xs" "t \<notin> set xs" "tq_tail q = last_opt (t # xs)"
    "tq_size q = of_nat (Suc (length xs))" "tq_lock q = 0"
    using assms by (auto simp: queue_rep_def)
  have "task_queue_pop (T, q) = Some (Some t, ?T, ?q)"
    using q(1,7) by (simp add: task_queue_pop_def Let_def)
  moreover have "queue_rep (?T, ?q) xs"
    using q by (cases xs) (auto simp: queue_rep_def)
  ultimately show ?thesis using relinked_set_next [of t "{t}"] by blast
qed

lemma task_queue_peek_spec:
  assumes "queue_rep (T, q) xs" "length xs < 4294967296"
  shows "task_queue_peek (T, q) = (case xs of [] \<Rightarrow> None | t # _ \<Rightarrow> Some t)"
proof (cases xs)
  case (Cons t ys)
  have "unat (of_nat (length xs) :: u32) = length xs" using assms(2) by (rule unat_of_nat_u32)
  then have "(of_nat (length xs) :: u32) \<noteq> 0" using Cons by (metis length_greater_0_conv list.discI not_less0 unat_0)
  then show ?thesis using assms(1) Cons by (simp add: queue_rep_def task_queue_peek_def)
qed (use assms in \<open>simp add: queue_rep_def task_queue_peek_def\<close>)

section \<open>Queues as first-in first-out lists\<close>

locale fifo =
  fixes enq :: "'a \<Rightarrow> 's \<Rightarrow> 's option"
    and deq :: "('s, 'a option) prog"
    and rep :: "'s \<Rightarrow> 'a list \<Rightarrow> bool"
  assumes enq_rep: "rep s xs \<Longrightarrow> x \<notin> set xs \<Longrightarrow> \<exists>s'. enq x s = Some s' \<and> rep s' (xs @ [x])"
    and deq_empty: "rep s [] \<Longrightarrow> deq s = Some (None, s)"
    and deq_rep: "rep s (x # xs) \<Longrightarrow> \<exists>s'. deq s = Some (Some x, s') \<and> rep s' xs"
begin

fun enq_all :: "'a list \<Rightarrow> 's \<Rightarrow> 's option" where
  "enq_all [] s = Some s"
| "enq_all (x # xs) s = (case enq x s of None \<Rightarrow> None | Some s \<Rightarrow> enq_all xs s)"

fun deq_times :: "nat \<Rightarrow> ('s, 'a option list) prog" where
  "deq_times 0 s = Some ([], s)"
| "deq_times (Suc n) s =
     (case deq s of None \<Rightarrow> None
      | Some (x, s) \<Rightarrow> (case deq_times n s of None \<Rightarrow> None | Some (xs, s) \<Rightarrow> Some (x # xs, s)))"

lemma enq_all_rep:
  "rep s xs \<Longrightarrow> distinct (xs @ ys) \<Longrightarrow> \<exists>s'. enq_all ys s = Some s' \<and> rep s' (xs @ ys)"
proof (induction ys arbitrary: s xs)
  case (Cons y ys)
  then obtain s1 where s1: "enq y s = Some s1" "rep s1 (xs @ [y])" using enq_rep [of s xs y] by auto
  from Cons.IH [OF s1(2)] Cons.prems(2) obtain s2 where "enq_all ys s1 = Some s2" "rep s2 ((xs @ [y]) @ ys)" by auto
  with s1(1) show ?case by simp
qed simp

lemma deq_times_rep:
  "rep s (xs @ ys) \<Longrightarrow> \<exists>s'. deq_times (length xs) s = Some (map Some xs, s') \<and> rep s' ys"
proof (induction xs arbitrary: s)
  case (Cons x xs)
  then obtain s1 where s1: "deq s = Some (Some x, s1)" "rep s1 (xs @ ys)" using deq_rep [of s x "xs @ ys"] by auto
  with Cons.IH [OF s1(2)] show ?case by auto
qed simp

lemma first_in_first_out:
  assumes "rep s xs" "distinct (xs @ ys)"
  shows "\<exists>s1 s2. enq_all ys s = Some s1 \<and>
    deq_times (length (xs @ ys)) s1 = Some (map Some (xs @ ys), s2) \<and> rep s2 [] \<and> deq s2 = Some (None, s2)"
proof -
  obtain s1 where s1: "enq_all ys s = Some s1" "rep s1 (xs @ ys)" using enq_all_rep [OF assms] by blast
  then have "rep s1 ((xs @ ys) @ [])" by simp
  from deq_times_rep [OF this] s1 deq_empty show ?thesis by blast
qed

end

interpretation taskq: fifo task_queue_push task_queue_pop queue_rep
proof unfold_locales
  fix s xs and t :: nat
  show "queue_rep s xs \<Longrightarrow> t \<notin> set xs \<Longrightarrow> \<exists>s'. task_queue_push t s = Some s' \<and> queue_rep s' (xs @ [t])"
    by (cases s) (use task_queue_push_spec in blast)
  show "queue_rep s [] \<Longrightarrow> task_queue_pop s = Some (None, s)"
    by (cases s) (simp add: task_queue_pop_empty)
  show "queue_rep s (t # xs) \<Longrightarrow> \<exists>s'. task_queue_pop s = Some (Some t, s') \<and> queue_rep s' xs"
    by (cases s) (use task_queue_pop_spec in blast)
qed

lemma task_queue_init_rep: "queue_rep (T, task_queue_init) []"
  by (simp add: queue_rep_def task_queue_init_def)

text \<open>Pushing the task that is last in the queue once more closes a cycle.\<close>

lemma task_queue_push_again:
  assumes "queue_rep (T, q) (xs @ [t])"
  shows "\<exists>T' q'. task_queue_push t (T, q) = Some (T', q') \<and> next (T' t) = Some t \<and> tq_tail q' = Some t"
  using assms by (simp add: task_queue_push_def queue_rep_def Let_def set_next_def)

section \<open>Properties\<close>

text \<open>
  C8: The linked queue implements a first-in first-out list: whatever is in the queue and whatever
  tasks not yet in it are pushed, popping returns all of them in that order and then the null
  pointer.
\<close>

theorem task_queue_first_in_first_out:
  assumes "queue_rep (T, q) xs" "distinct (xs @ ys)"
  shows "\<exists>s1 s2. taskq.enq_all ys (T, q) = Some s1 \<and>
    taskq.deq_times (length (xs @ ys)) s1 = Some (map Some (xs @ ys), s2) \<and>
    queue_rep s2 [] \<and> task_queue_pop s2 = Some (None, s2)"
  using taskq.first_in_first_out [OF assms] .

theorem task_queue_first_in_first_out_witness:
  "\<exists>s1 s2. taskq.enq_all [5, 3, 9] (\<lambda>_. zero_task, task_queue_init) = Some s1 \<and>
     taskq.deq_times 3 s1 = Some ([Some 5, Some 3, Some 9], s2) \<and> task_queue_pop s2 = Some (None, s2)"
  using task_queue_first_in_first_out [OF task_queue_init_rep, of "[5, 3, 9]" "\<lambda>_. zero_task"]
  by (auto simp: numeral_3_eq_3 simp del: taskq.deq_times.simps taskq.enq_all.simps)

end
