(* ===== verification/Sleep_Queue.thy ===== *)
theory Sleep_Queue
  imports Sync "HOL-Library.Multiset"
begin

text \<open>
  The binary min-heap of sleeping tasks of src/kernel/scheduler/sleep-queue.c. The heap is generic in its elements (the scheduler stores
  task numbers) and in \<open>key\<close>, which reads an element's wake tick.
\<close>

section \<open>The heap operations\<close>

record 'a sleep_queue =
  sq_data :: "'a list"
  sq_size :: nat
  sq_capacity :: nat
  sq_lock :: spinlock

definition swap :: "'a list \<Rightarrow> nat \<Rightarrow> nat \<Rightarrow> 'a list" where
  "swap d i j = d[i := d ! j, j := d ! i]"

fun heapify_up :: "('a \<Rightarrow> u32) \<Rightarrow> 'a list \<Rightarrow> nat \<Rightarrow> 'a list" where
  "heapify_up key d idx =
     (if 0 < idx then
        let parent = (idx - 1) div 2 in
        if key (d ! parent) \<le> key (d ! idx) then d
        else heapify_up key (swap d parent idx) parent
      else d)"

definition smallest_child :: "('a \<Rightarrow> u32) \<Rightarrow> nat \<Rightarrow> 'a list \<Rightarrow> nat \<Rightarrow> nat" where
  "smallest_child key n d idx =
     (let left = idx * 2 + 1; right = idx * 2 + 2; smallest = idx;
          smallest = (if left < n \<and> key (d ! left) < key (d ! smallest) then left else smallest);
          smallest = (if right < n \<and> key (d ! right) < key (d ! smallest) then right else smallest)
      in smallest)"

function heapify_down :: "('a \<Rightarrow> u32) \<Rightarrow> nat \<Rightarrow> 'a list \<Rightarrow> nat \<Rightarrow> 'a list" where
  "heapify_down key n d idx =
     (let smallest = smallest_child key n d idx in
      if smallest = idx then d else heapify_down key n (swap d idx smallest) smallest)"
  by pat_completeness auto
termination
  by (relation "measure (\<lambda>(key, n, d, idx). n - idx)")
     (auto simp: smallest_child_def Let_def split: if_splits)

declare heapify_up.simps [simp del] heapify_down.simps [simp del]

definition sleep_queue_init :: "'a list \<Rightarrow> nat \<Rightarrow> 'a sleep_queue" where
  "sleep_queue_init data capacity =
     \<lparr>sq_data = data, sq_size = 0, sq_capacity = capacity, sq_lock = spinlock_init\<rparr>"

definition sleep_queue_push ::
  "('a \<Rightarrow> u32) \<Rightarrow> 'a sleep_queue \<Rightarrow> 'a \<Rightarrow> 'a sleep_queue option" where
  "sleep_queue_push key h task =
     (case spinlock_lock (sq_lock h) of None \<Rightarrow> None
      | Some l \<Rightarrow>
        let h = h\<lparr>sq_lock := l\<rparr> in
        if sq_size h = sq_capacity h then Some (h\<lparr>sq_lock := spinlock_unlock l\<rparr>)
        else
          let d = (sq_data h)[sq_size h := task];
              d = heapify_up key d (sq_size h)
          in Some (h\<lparr>sq_data := d, sq_size := sq_size h + 1, sq_lock := spinlock_unlock l\<rparr>))"

definition sleep_queue_peek :: "'a sleep_queue \<Rightarrow> 'a option" where
  "sleep_queue_peek h = (if sq_size h = 0 then None else Some (sq_data h ! 0))"

definition sleep_queue_pop ::
  "('a \<Rightarrow> u32) \<Rightarrow> 'a sleep_queue \<Rightarrow> ('a option \<times> 'a sleep_queue) option" where
  "sleep_queue_pop key h =
     (case spinlock_lock (sq_lock h) of None \<Rightarrow> None
      | Some l \<Rightarrow>
        let h = h\<lparr>sq_lock := l\<rparr> in
        if sq_size h = 0 then Some (None, h\<lparr>sq_lock := spinlock_unlock l\<rparr>)
        else
          let root = sq_data h ! 0;
              n = sq_size h - 1;
              d = (if 0 < n then heapify_down key n ((sq_data h)[0 := sq_data h ! n]) 0 else sq_data h)
          in Some (Some root, h\<lparr>sq_data := d, sq_size := n, sq_lock := spinlock_unlock l\<rparr>))"

section \<open>Swaps and sifting keep the elements\<close>

lemma length_swap [simp]: "length (swap d i j) = length d"
  by (simp add: swap_def)

lemma nth_swap:
  "i < length d \<Longrightarrow> j < length d \<Longrightarrow>
   swap d i j ! k = (if k = i then d ! j else if k = j then d ! i else d ! k)"
  by (auto simp: swap_def nth_list_update)

lemma take_swap: "i < n \<Longrightarrow> j < n \<Longrightarrow> n \<le> length d \<Longrightarrow> take n (swap d i j) = swap (take n d) i j"
  by (simp add: swap_def take_update_swap)

lemma mset_swap_take:
  "i < n \<Longrightarrow> j < n \<Longrightarrow> n \<le> length d \<Longrightarrow> mset (take n (swap d i j)) = mset (take n d)"
  using mset_swap [of j "take n d" i] by (subst take_swap) (simp_all add: swap_def)

lemma length_heapify_up [simp]: "length (heapify_up key d idx) = length d"
proof (induction key d idx rule: heapify_up.induct)
  case (1 key d idx)
  then show ?case by (subst heapify_up.simps) (simp add: Let_def)
qed

lemma mset_heapify_up:
  "idx < n \<Longrightarrow> n \<le> length d \<Longrightarrow> mset (take n (heapify_up key d idx)) = mset (take n d)"
proof (induction key d idx rule: heapify_up.induct)
  case (1 key d idx)
  then show ?case
    by (subst heapify_up.simps) (auto simp: Let_def mset_swap_take)
qed

lemma smallest_child_cases:
  "smallest_child key n d idx = idx \<or>
   (smallest_child key n d idx < n \<and> idx < smallest_child key n d idx \<and>
    (smallest_child key n d idx - 1) div 2 = idx)"
  by (auto simp: smallest_child_def Let_def)

lemma length_heapify_down [simp]: "length (heapify_down key n d idx) = length d"
proof (induction key n d idx rule: heapify_down.induct)
  case (1 key n d idx)
  then show ?case by (subst heapify_down.simps) (simp add: Let_def)
qed

lemma mset_heapify_down:
  "idx < n \<Longrightarrow> n \<le> length d \<Longrightarrow> mset (take n (heapify_down key n d idx)) = mset (take n d)"
proof (induction key n d idx rule: heapify_down.induct)
  case (1 key n d idx)
  then show ?case using smallest_child_cases [of key n d idx]
    by (subst heapify_down.simps) (auto simp: Let_def mset_swap_take)
qed

section \<open>The heap order\<close>

definition heap_ordered :: "('a \<Rightarrow> u32) \<Rightarrow> nat \<Rightarrow> 'a list \<Rightarrow> bool" where
  "heap_ordered key n d \<longleftrightarrow> (\<forall>i. 0 < i \<and> i < n \<longrightarrow> key (d ! ((i - 1) div 2)) \<le> key (d ! i))"

text \<open>Sifting up: everything is in order but possibly \<open>idx\<close> against its parent.\<close>

definition heap_but_up :: "('a \<Rightarrow> u32) \<Rightarrow> nat \<Rightarrow> 'a list \<Rightarrow> nat \<Rightarrow> bool" where
  "heap_but_up key n d idx \<longleftrightarrow>
     (\<forall>i. 0 < i \<and> i < n \<and> i \<noteq> idx \<longrightarrow> key (d ! ((i - 1) div 2)) \<le> key (d ! i)) \<and>
     (\<forall>i. 0 < idx \<and> 0 < i \<and> i < n \<and> (i - 1) div 2 = idx \<longrightarrow>
        key (d ! ((idx - 1) div 2)) \<le> key (d ! i))"

lemma heapify_up_ordered:
  "heap_but_up key n d idx \<Longrightarrow> idx < n \<Longrightarrow> n \<le> length d \<Longrightarrow> heap_ordered key n (heapify_up key d idx)"
proof (induction key d idx rule: heapify_up.induct)
  case (1 key d idx)
  let ?p = "(idx - 1) div 2"
  show ?case
  proof (cases "0 < idx \<and> \<not> key (d ! ?p) \<le> key (d ! idx)")
    case False
    then have "heapify_up key d idx = d" by (subst heapify_up.simps) (auto simp: Let_def)
    moreover have "heap_ordered key n d"
      using False "1.prems"(1) unfolding heap_but_up_def heap_ordered_def by (metis gr_zeroI)
    ultimately show ?thesis by simp
  next
    case True
    then have p: "?p < idx" by auto
    have "heap_but_up key n (swap d ?p idx) ?p"
      unfolding heap_but_up_def
    proof (intro conjI allI impI)
      fix i assume i: "0 < i \<and> i < n \<and> i \<noteq> ?p"
      show "key (swap d ?p idx ! ((i - 1) div 2)) \<le> key (swap d ?p idx ! i)"
        using "1.prems" True p i
        by (auto simp: nth_swap heap_but_up_def not_le intro: order_trans less_imp_le)
    next
      fix i assume i: "0 < ?p \<and> 0 < i \<and> i < n \<and> (i - 1) div 2 = ?p"
      then have "key (d ! ((?p - 1) div 2)) \<le> key (d ! ?p)"
        using "1.prems" p by (auto simp: heap_but_up_def)
      moreover have "key (d ! ?p) \<le> key (d ! i)" if "i \<noteq> idx"
        using "1.prems" i that by (auto simp: heap_but_up_def)
      moreover have "(?p - 1) div 2 < ?p" "(?p - 1) div 2 \<noteq> idx" using i p by linarith+
      moreover have "i \<noteq> ?p" using i calculation(3) by auto
      ultimately show "key (swap d ?p idx ! ((?p - 1) div 2)) \<le> key (swap d ?p idx ! i)"
        using "1.prems" p by (auto simp: nth_swap intro: order_trans)
    qed
    with "1.IH" [OF _ refl] "1.prems" True p
    have "heap_ordered key n (heapify_up key (swap d ?p idx) ?p)" by simp
    then show ?thesis using True by (subst heapify_up.simps) (simp add: Let_def)
  qed
qed

text \<open>Sifting down: everything is in order but possibly \<open>idx\<close> against its children.\<close>

definition heap_but_down :: "('a \<Rightarrow> u32) \<Rightarrow> nat \<Rightarrow> 'a list \<Rightarrow> nat \<Rightarrow> bool" where
  "heap_but_down key n d idx \<longleftrightarrow>
     (\<forall>i. 0 < i \<and> i < n \<and> (i - 1) div 2 \<noteq> idx \<longrightarrow> key (d ! ((i - 1) div 2)) \<le> key (d ! i)) \<and>
     (\<forall>i. 0 < idx \<and> 0 < i \<and> i < n \<and> (i - 1) div 2 = idx \<longrightarrow>
        key (d ! ((idx - 1) div 2)) \<le> key (d ! i))"

lemma child_cases: "0 < i \<Longrightarrow> (i - 1) div 2 = (idx::nat) \<Longrightarrow> i = idx * 2 + 1 \<or> i = idx * 2 + 2"
  by presburger

lemma smallest_child_le:
  assumes "0 < i" "i < n" "(i - 1) div 2 = idx"
  shows "key (d ! smallest_child key n d idx) \<le> key (d ! i)"
  using child_cases [OF assms(1,3)] assms(2)
  by (auto simp: smallest_child_def Let_def not_less)

lemma smallest_child_le_self: "key (d ! smallest_child key n d idx) \<le> key (d ! idx)"
  by (auto simp: smallest_child_def Let_def)

lemma heapify_down_ordered:
  "heap_but_down key n d idx \<Longrightarrow> idx < n \<Longrightarrow> n \<le> length d \<Longrightarrow>
   heap_ordered key n (heapify_down key n d idx)"
proof (induction key n d idx rule: heapify_down.induct)
  case (1 key n d idx)
  let ?s = "smallest_child key n d idx"
  show ?case
  proof (cases "?s = idx")
    case True
    then have "heapify_down key n d idx = d" by (subst heapify_down.simps) (simp add: Let_def)
    moreover have "key (d ! ((i - 1) div 2)) \<le> key (d ! i)" if "0 < i" "i < n" for i
      using "1.prems"(1) that smallest_child_le [of i n idx key d] True
      by (cases "(i - 1) div 2 = idx") (auto simp: heap_but_down_def)
    ultimately show ?thesis by (simp add: heap_ordered_def)
  next
    case False
    with smallest_child_cases [of key n d idx]
    have s: "?s < n" "idx < ?s" "(?s - 1) div 2 = idx" by auto
    have le: "key (d ! ?s) \<le> key (d ! idx)" by (rule smallest_child_le_self)
    have up: "key (d ! ((idx - 1) div 2)) \<le> key (d ! ?s)" if "0 < idx"
      using "1.prems"(1) that s by (auto simp: heap_but_down_def)
    have "heap_but_down key n (swap d idx ?s) ?s"
      unfolding heap_but_down_def
    proof (intro conjI allI impI)
      fix i assume i: "0 < i \<and> i < n \<and> (i - 1) div 2 \<noteq> ?s"
      show "key (swap d idx ?s ! ((i - 1) div 2)) \<le> key (swap d idx ?s ! i)"
      proof (cases "(i - 1) div 2 = idx")
        case True
        then show ?thesis
          using "1.prems" s i le smallest_child_le [of i n idx key d] by (auto simp: nth_swap)
      next
        case parent: False
        have "(i - 1) div 2 \<noteq> ?s" "i \<noteq> ?s" using i s parent by auto
        moreover have "key (d ! ((i - 1) div 2)) \<le> key (d ! i)"
          using "1.prems"(1) i parent by (auto simp: heap_but_down_def)
        ultimately show ?thesis
          using "1.prems" s i parent up by (auto simp: nth_swap)
      qed
    next
      fix i assume i: "0 < ?s \<and> 0 < i \<and> i < n \<and> (i - 1) div 2 = ?s"
      then have "key (d ! ?s) \<le> key (d ! i)"
        using "1.prems"(1) s by (auto simp: heap_but_down_def)
      moreover have "i \<noteq> ?s" "i \<noteq> idx" using i s by auto
      ultimately show "key (swap d idx ?s ! ((?s - 1) div 2)) \<le> key (swap d idx ?s ! i)"
        using "1.prems" s by (auto simp: nth_swap)
    qed
    with "1.IH" [OF refl False] "1.prems" s
    have "heap_ordered key n (heapify_down key n (swap d idx ?s) ?s)" by simp
    then show ?thesis using False by (subst heapify_down.simps) (simp add: Let_def)
  qed
qed

lemma heap_ordered_root: "heap_ordered key n d \<Longrightarrow> i < n \<Longrightarrow> key (d ! 0) \<le> key (d ! i)"
proof (induction i rule: less_induct)
  case (less i)
  show ?case
  proof (cases "i = 0")
    case False
    then have "(i - 1) div 2 < i" by auto
    with less have "key (d ! 0) \<le> key (d ! ((i - 1) div 2))" by auto
    moreover have "key (d ! ((i - 1) div 2)) \<le> key (d ! i)"
      using less.prems False by (auto simp: heap_ordered_def)
    ultimately show ?thesis by (rule order_trans)
  qed simp
qed

section \<open>Invariant and contract of the queue\<close>

definition sq_elems :: "'a sleep_queue \<Rightarrow> 'a multiset" where
  "sq_elems h = mset (take (sq_size h) (sq_data h))"

definition sq_inv :: "('a \<Rightarrow> u32) \<Rightarrow> 'a sleep_queue \<Rightarrow> bool" where
  "sq_inv key h \<longleftrightarrow> sq_size h \<le> sq_capacity h \<and> sq_capacity h = length (sq_data h) \<and>
     sq_lock h = 0 \<and> heap_ordered key (sq_size h) (sq_data h)"

definition sq_room :: "'a sleep_queue \<Rightarrow> bool" where
  "sq_room h \<longleftrightarrow> sq_size h < sq_capacity h"

locale wake_queue =
  fixes push :: "'q \<Rightarrow> 'a \<Rightarrow> 'q option"
    and pop :: "'q \<Rightarrow> ('a option \<times> 'q) option"
    and peek :: "'q \<Rightarrow> 'a option"
    and elems :: "'q \<Rightarrow> 'a multiset"
    and room :: "'q \<Rightarrow> bool"
    and inv :: "'q \<Rightarrow> bool"
    and key :: "'a \<Rightarrow> u32"
  assumes push_room: "inv q \<Longrightarrow> room q \<Longrightarrow>
      \<exists>q'. push q x = Some q' \<and> inv q' \<and> elems q' = add_mset x (elems q)"
    and push_full: "inv q \<Longrightarrow> \<not> room q \<Longrightarrow> push q x = Some q"
    and peek_None: "inv q \<Longrightarrow> peek q = None \<longleftrightarrow> elems q = {#}"
    and peek_Some: "inv q \<Longrightarrow> peek q = Some x \<Longrightarrow> x \<in># elems q \<and> (\<forall>y \<in># elems q. key x \<le> key y)"
    and pop_None: "inv q \<Longrightarrow> peek q = None \<Longrightarrow> pop q = Some (None, q)"
    and pop_Some: "inv q \<Longrightarrow> peek q = Some x \<Longrightarrow>
      \<exists>q'. pop q = Some (Some x, q') \<and> inv q' \<and> elems q' = elems q - {#x#}"
begin

text \<open>Popping as long as the earliest key is due, at most \<open>n\<close> times.\<close>

fun drain :: "u32 \<Rightarrow> nat \<Rightarrow> 'q \<Rightarrow> ('a list \<times> 'q) option" where
  "drain tick 0 q = None"
| "drain tick (Suc n) q =
     (case peek q of None \<Rightarrow> Some ([], q)
      | Some t \<Rightarrow>
        if tick < key t then Some ([], q)
        else (case pop q of None \<Rightarrow> None
          | Some (_, q') \<Rightarrow> (case drain tick n q' of None \<Rightarrow> None
            | Some (ts, q'') \<Rightarrow> Some (t # ts, q''))))"

lemma not_due:
  assumes "inv q" "case peek q of None \<Rightarrow> True | Some t \<Rightarrow> tick < key t"
  shows "filter_mset (\<lambda>x. key x \<le> tick) (elems q) = {#}"
    "filter_mset (\<lambda>x. \<not> key x \<le> tick) (elems q) = elems q"
proof -
  have "\<not> key x \<le> tick" if "x \<in># elems q" for x
    using assms peek_None [of q] peek_Some [of q] that by (force split: option.splits)
  then show "filter_mset (\<lambda>x. key x \<le> tick) (elems q) = {#}"
    "filter_mset (\<lambda>x. \<not> key x \<le> tick) (elems q) = elems q"
    by (auto simp: filter_mset_eq_conv intro: filter_mset_cong)
qed

lemma drain_spec:
  "inv q \<Longrightarrow> size (elems q) < n \<Longrightarrow>
   \<exists>ts q'. drain tick n q = Some (ts, q') \<and> inv q' \<and> sorted (map key ts) \<and>
     mset ts = filter_mset (\<lambda>x. key x \<le> tick) (elems q) \<and>
     elems q' = filter_mset (\<lambda>x. \<not> key x \<le> tick) (elems q)"
proof (induction n arbitrary: q)
  case (Suc n)
  show ?case
  proof (cases "case peek q of None \<Rightarrow> True | Some t \<Rightarrow> tick < key t")
    case True
    then have "drain tick (Suc n) q = Some ([], q)" by (auto split: option.splits)
    then show ?thesis using Suc.prems not_due [OF Suc.prems(1) True] by simp
  next
    case False
    then obtain t where t: "peek q = Some t" "\<not> tick < key t" by (auto split: option.splits)
    obtain q' where q': "pop q = Some (Some t, q')" "inv q'" "elems q' = elems q - {#t#}"
      using pop_Some [OF Suc.prems(1) t(1)] by blast
    have mem: "t \<in># elems q" "\<forall>y \<in># elems q. key t \<le> key y"
      using peek_Some [OF Suc.prems(1) t(1)] by auto
    have e: "elems q = add_mset t (elems q')" using q' mem by simp
    then have "size (elems q') < n" using Suc.prems(2) by simp
    from Suc.IH [OF q'(2) this] obtain ts q'' where r: "drain tick n q' = Some (ts, q'')" "inv q''"
      "sorted (map key ts)" "mset ts = filter_mset (\<lambda>x. key x \<le> tick) (elems q')"
      "elems q'' = filter_mset (\<lambda>x. \<not> key x \<le> tick) (elems q')" by blast
    have d: "drain tick (Suc n) q = Some (t # ts, q'')" using t q' r by simp
    have "set ts \<subseteq> set_mset (elems q')" using arg_cong [OF r(4), of set_mset] by auto
    then have "key t \<le> key x" if "x \<in> set ts" for x
      using that mem(2) e by auto
    then have "sorted (map key (t # ts))" using r(3) by auto
    with d e r t show ?thesis by auto
  qed
qed simp

end

lemma pop_heap_but_down:
  assumes "heap_ordered key (Suc n) d" "0 < n"
  shows "heap_but_down key n (d[0 := d ! n]) 0"
  using assms by (auto simp: heap_ordered_def heap_but_down_def nth_list_update)

lemma mset_pop:
  assumes "Suc n \<le> length d" "0 < n"
  shows "mset (take n (d[0 := d ! n])) = mset (take (Suc n) d) - {#d ! 0#}"
proof -
  have "take (Suc n) d = d ! 0 # take n (drop 1 d)"
    using assms by (cases d) auto
  moreover have "take n (drop 1 d) = take (n - 1) (drop 1 d) @ [d ! n]"
    using assms by (cases n) (auto simp: take_Suc_conv_app_nth)
  moreover have "take n (d[0 := d ! n]) = d ! n # take (n - 1) (drop 1 d)"
    using assms by (cases d; cases n) auto
  ultimately show ?thesis by simp
qed

interpretation sleepq: wake_queue "sleep_queue_push key" "sleep_queue_pop key" sleep_queue_peek
  sq_elems sq_room "sq_inv key" key for key :: "'a \<Rightarrow> u32"
proof unfold_locales
  fix q :: "'a sleep_queue" and x
  assume inv: "sq_inv key q"
  then have q: "sq_size q \<le> length (sq_data q)" "sq_capacity q = length (sq_data q)" "sq_lock q = 0"
    "heap_ordered key (sq_size q) (sq_data q)" by (auto simp: sq_inv_def)
  show "sleep_queue_peek q = None \<longleftrightarrow> sq_elems q = {#}"
    using q by (auto simp: sleep_queue_peek_def sq_elems_def)
  show "\<not> sq_room q \<Longrightarrow> sleep_queue_push key q x = Some q"
    using q by (auto simp: sq_room_def sleep_queue_push_def spinlock_lock_def spinlock_unlock_def)
  show "sleep_queue_peek q = None \<Longrightarrow> sleep_queue_pop key q = Some (None, q)"
    using q by (auto simp: sleep_queue_peek_def sleep_queue_pop_def spinlock_lock_def
        spinlock_unlock_def split: if_splits)
  {
    assume room: "sq_room q"
    let ?n = "sq_size q" and ?d = "(sq_data q)[sq_size q := x]"
    have n: "?n < length ?d" using room q by (simp add: sq_room_def)
    have but: "heap_but_up key (Suc ?n) ?d ?n"
      using q(4) n by (auto simp: heap_but_up_def heap_ordered_def nth_list_update)
    have "take (Suc ?n) ?d = take ?n (sq_data q) @ [x]"
      using n by (simp add: take_Suc_conv_app_nth)
    then have "mset (take (Suc ?n) (heapify_up key ?d ?n)) = add_mset x (sq_elems q)"
      using n by (simp add: mset_heapify_up sq_elems_def)
    then show "\<exists>q'. sleep_queue_push key q x = Some q' \<and> sq_inv key q' \<and> sq_elems q' = add_mset x (sq_elems q)"
      using q room heapify_up_ordered [OF but] n
      by (simp add: sleep_queue_push_def spinlock_lock_def spinlock_unlock_def Let_def sq_room_def
          sq_inv_def sq_elems_def)
  }
  assume peek: "sleep_queue_peek q = Some x"
  then have x: "0 < sq_size q" "x = sq_data q ! 0" by (auto simp: sleep_queue_peek_def split: if_splits)
  show "x \<in># sq_elems q \<and> (\<forall>y \<in># sq_elems q. key x \<le> key y)"
    using x q heap_ordered_root [OF q(4)]
    by (auto simp: sq_elems_def in_set_conv_nth intro!: exI [of _ 0])
  let ?n = "sq_size q - 1" let ?d = "(sq_data q)[0 := sq_data q ! ?n]"
  have n: "sq_size q = Suc ?n" using x by simp
  show "\<exists>q'. sleep_queue_pop key q = Some (Some x, q') \<and> sq_inv key q' \<and> sq_elems q' = sq_elems q - {#x#}"
  proof (cases "0 < ?n")
    case True
    have ord: "heap_ordered key ?n (heapify_down key ?n ?d 0)"
      using True n q pop_heap_but_down [of key ?n "sq_data q"] by (intro heapify_down_ordered) auto
    have "mset (take ?n (heapify_down key ?n ?d 0)) = sq_elems q - {#x#}"
      using True n q x mset_pop [of ?n "sq_data q"] by (simp add: mset_heapify_down sq_elems_def)
    with True x q ord show ?thesis
      by (simp add: sleep_queue_pop_def spinlock_lock_def spinlock_unlock_def Let_def sq_inv_def sq_elems_def)
  next
    case False
    then have "sq_size q = 1" using x by simp
    with x q show ?thesis
      by (cases "sq_data q") (simp_all add: sleep_queue_pop_def spinlock_lock_def spinlock_unlock_def
          Let_def sq_inv_def sq_elems_def heap_ordered_def)
  qed
qed

lemma sleep_queue_init_inv:
  "length data = capacity \<Longrightarrow> sq_inv key (sleep_queue_init data capacity)"
  "sq_elems (sleep_queue_init data capacity) = {#}"
  by (simp_all add: sq_inv_def sleep_queue_init_def spinlock_init_def heap_ordered_def sq_elems_def)

lemma sleep_queue_init_fields [simp]:
  "sq_size (sleep_queue_init data capacity) = 0" "sq_capacity (sleep_queue_init data capacity) = capacity"
  by (simp_all add: sleep_queue_init_def)

section \<open>Properties\<close>

text \<open>
  C7: Repeatedly popping the sleep queue while its earliest task is due, as the scheduler does on
  every tick, returns exactly the tasks whose wake tick has come, in the order of their wake ticks,
  and leaves exactly the others, with the heap order intact.
\<close>

theorem sleep_queue_wakes_due_tasks:
  assumes "sq_inv key q" "size (sq_elems q) < n"
  shows "\<exists>ts q'. sleepq.drain key tick n q = Some (ts, q') \<and> sq_inv key q' \<and>
    sorted (map key ts) \<and> mset ts = filter_mset (\<lambda>x. key x \<le> tick) (sq_elems q) \<and>
    sq_elems q' = filter_mset (\<lambda>x. \<not> key x \<le> tick) (sq_elems q)"
  using sleepq.drain_spec [OF assms] .

definition witness_sleepers :: "u32 sleep_queue" where
  "witness_sleepers = \<lparr>sq_data = [3, 9, 7, 0], sq_size = 3, sq_capacity = 4, sq_lock = 0\<rparr>"

theorem sleep_queue_wakes_due_tasks_witness:
  "\<exists>ts q'. sleepq.drain id 7 4 witness_sleepers = Some (ts, q') \<and> sorted ts \<and>
     mset ts = {#3, 7#} \<and> sq_elems q' = {#9#}"
proof -
  have three: "i = 1 \<or> i = 2" if "0 < i" "i < 3" for i :: nat using that by arith
  have i: "sq_inv id witness_sleepers"
    by (auto simp: sq_inv_def witness_sleepers_def heap_ordered_def dest!: three)
  have e: "sq_elems witness_sleepers = {#3, 9, 7#}"
    by (simp add: sq_elems_def witness_sleepers_def)
  show ?thesis
    using sleep_queue_wakes_due_tasks [OF i, of 4 7] by (auto simp: e)
qed

text \<open>
  A push onto a queue with room adds exactly the task and keeps the heap order; a push onto a
  full queue returns with the queue unchanged, so the task is dropped without notice.
\<close>

theorem sleep_queue_push_or_drop:
  assumes "sq_inv key q"
  shows "if sq_size q < sq_capacity q
    then \<exists>q'. sleep_queue_push key q t = Some q' \<and> sq_inv key q' \<and> sq_elems q' = add_mset t (sq_elems q)
    else sleep_queue_push key q t = Some q"
  using sleepq.push_room [OF assms, of t] sleepq.push_full [OF assms, of t] by (simp add: sq_room_def)

theorem sleep_queue_push_or_drop_witness:
  "(\<exists>q'. sleep_queue_push id (sleep_queue_init [0] 1) 7 = Some q' \<and> sq_elems q' = {#7#}) \<and>
   sleep_queue_push id (sleep_queue_init [] 0) 7 = Some (sleep_queue_init [] 0)"
  using sleep_queue_push_or_drop [of id "sleep_queue_init [0] 1" 7]
    sleep_queue_push_or_drop [of id "sleep_queue_init [] 0" 7]
  by (auto simp: sleep_queue_init_inv)

end
