(* ===== verification/User_Stacks.thy ===== *)
theory User_Stacks
  imports Memory Sync
begin

text \<open>
  The stacks of user-mode threads (user-stack-manager.c): 511 slots of 32 KiB below
  \<open>USERSPACE_TASK_STACK_TOP\<close>, handed out by a first-fit search under a lock with interrupts off.
\<close>

section \<open>The operations\<close>

definition TASK_STACK_SIZE :: u32 where "TASK_STACK_SIZE = 0x2000 * 4"
definition USERSPACE_TASK_STACK_BOTTOM :: u32 where "USERSPACE_TASK_STACK_BOTTOM = 0x0B000000"
definition USERSPACE_TASK_STACK_TOP :: u32 where "USERSPACE_TASK_STACK_TOP = 0x0BFFF000"

definition USER_STACKS_MAX :: nat where
  "USER_STACKS_MAX = unat ((USERSPACE_TASK_STACK_TOP - USERSPACE_TASK_STACK_BOTTOM) div TASK_STACK_SIZE)"

record user_stack =
  us_base :: u32
  us_top :: u32
  us_in_use :: bool

record user_stack_manager =
  um_lock :: spinlock
  um_stacks :: "user_stack list"

definition initial_slot :: "nat \<Rightarrow> user_stack" where
  "initial_slot i =
     (let top = USERSPACE_TASK_STACK_TOP - of_nat i * TASK_STACK_SIZE
      in \<lparr>us_base = top - TASK_STACK_SIZE, us_top = top, us_in_use = False\<rparr>)"

definition user_stack_manager_init ::
  "interrupts \<times> user_stack_manager \<Rightarrow> (interrupts \<times> user_stack_manager) option" where
  "user_stack_manager_init = (\<lambda>(irq, m).
     let irq = disable_interrupts irq in
     case spinlock_lock spinlock_init of None \<Rightarrow> None
     | Some l \<Rightarrow>
       let m = m\<lparr>um_stacks := fold (\<lambda>i st. st[i := initial_slot i]) [0..<USER_STACKS_MAX] (um_stacks m)\<rparr>
       in Some (enable_interrupts irq, m\<lparr>um_lock := spinlock_unlock l\<rparr>))"

text \<open>
  The result is the slot, or -1, and what is stored through \<open>stack_base\<close> and \<open>stack_top\<close>; nothing is
  stored when no slot is free.
\<close>

definition user_stack_alloc ::
  "(interrupts \<times> user_stack_manager, int \<times> (u32 \<times> u32) option) prog" where
  "user_stack_alloc = (\<lambda>(irq, m).
     let irq = disable_interrupts irq in
     case spinlock_lock (um_lock m) of None \<Rightarrow> None
     | Some l \<Rightarrow>
       (case find (\<lambda>i. \<not> us_in_use (um_stacks m ! i)) [0..<USER_STACKS_MAX] of
          Some i \<Rightarrow>
            let s = (um_stacks m ! i)\<lparr>us_in_use := True\<rparr>
            in Some ((int i, Some (us_base s, us_top s)),
                 enable_interrupts irq,
                 m\<lparr>um_stacks := (um_stacks m)[i := s], um_lock := spinlock_unlock l\<rparr>)
        | None \<Rightarrow>
            Some ((-1, None), enable_interrupts irq, m\<lparr>um_lock := spinlock_unlock l\<rparr>)))"

definition user_stack_free ::
  "int \<Rightarrow> interrupts \<times> user_stack_manager \<Rightarrow> (interrupts \<times> user_stack_manager) option" where
  "user_stack_free index = (\<lambda>(irq, m).
     if index < 0 \<or> int USER_STACKS_MAX \<le> index then Some (irq, m)
     else
       let irq = disable_interrupts irq; i = nat index in
       case spinlock_lock (um_lock m) of None \<Rightarrow> None
       | Some l \<Rightarrow>
         let s = (um_stacks m ! i)\<lparr>us_in_use := False\<rparr>
         in Some (enable_interrupts irq, m\<lparr>um_stacks := (um_stacks m)[i := s], um_lock := spinlock_unlock l\<rparr>))"

section \<open>Slots\<close>

lemma user_stacks_max [simp]: "USER_STACKS_MAX = 511"
  by (simp add: USER_STACKS_MAX_def USERSPACE_TASK_STACK_TOP_def USERSPACE_TASK_STACK_BOTTOM_def
      TASK_STACK_SIZE_def unat_div)

definition stacks_ok :: "user_stack_manager \<Rightarrow> bool" where
  "stacks_ok m \<longleftrightarrow> um_lock m = 0 \<and> length (um_stacks m) = 511 \<and>
     (\<forall>i < 511. us_top (um_stacks m ! i) = us_top (initial_slot i) \<and>
        us_base (um_stacks m ! i) = us_base (initial_slot i))"

definition stacks_used :: "user_stack_manager \<Rightarrow> nat set" where
  "stacks_used m = {i. i < 511 \<and> us_in_use (um_stacks m ! i)}"

lemma unat_initial_slot:
  assumes "i < 511"
  shows "unat (us_top (initial_slot i)) = 0x0BFFF000 - i * 0x8000"
    "unat (us_base (initial_slot i)) = 0x0BFFF000 - Suc i * 0x8000"
proof -
  have "unat (of_nat i * 0x8000 :: u32) = i * 0x8000"
    using assms unat_of_nat_u32 [of "i * 0x8000"] by simp
  moreover from this assms have "unat (0x0BFFF000 - of_nat i * 0x8000 :: u32) = 0x0BFFF000 - i * 0x8000"
    by (subst unat_sub) (simp_all add: word_le_nat_alt)
  moreover from this assms have "unat (0x0BFFF000 - of_nat i * 0x8000 - 0x8000 :: u32) = 0x0BFFF000 - Suc i * 0x8000"
    by (subst unat_sub) (simp_all add: word_le_nat_alt)
  ultimately show "unat (us_top (initial_slot i)) = 0x0BFFF000 - i * 0x8000"
    "unat (us_base (initial_slot i)) = 0x0BFFF000 - Suc i * 0x8000"
    by (simp_all add: initial_slot_def USERSPACE_TASK_STACK_TOP_def TASK_STACK_SIZE_def)
qed

lemma slot_region:
  assumes "i < 511"
  shows "x \<in> region (us_base (initial_slot i)) TASK_STACK_SIZE \<longleftrightarrow>
    0x0BFFF000 - Suc i * 0x8000 \<le> unat x \<and> unat x < 0x0BFFF000 - i * 0x8000"
  using assms unat_initial_slot [OF assms]
  by (subst region_interval) (auto simp: TASK_STACK_SIZE_def)

lemma slots_disjoint:
  assumes "i < 511" "j < 511" "i \<noteq> j"
  shows "region (us_base (initial_slot i)) TASK_STACK_SIZE \<inter> region (us_base (initial_slot j)) TASK_STACK_SIZE = {}"
  using assms by (auto simp: slot_region)

lemma fold_initial_slots:
  "n \<le> length st \<Longrightarrow> fold (\<lambda>i st. st[i := initial_slot i]) [0..<n] st = map initial_slot [0..<n] @ drop n st"
proof (induction n)
  case (Suc n)
  then have "drop n st = st ! n # drop (Suc n) st" by (simp add: Cons_nth_drop_Suc)
  with Suc show ?case by (simp add: list_update_append)
qed simp

lemma user_stack_manager_init_ok:
  assumes "length (um_stacks m) = 511" "interrupts_ok irq"
  shows "\<exists>m'. user_stack_manager_init (irq, m) = Some (irq, m') \<and> stacks_ok m' \<and> stacks_used m' = {}"
proof -
  have nu: "\<not> us_in_use (initial_slot i)" for i by (simp add: initial_slot_def Let_def)
  have "user_stack_manager_init (irq, m) = Some (irq, m\<lparr>um_stacks := map initial_slot [0..<511], um_lock := 0\<rparr>)"
    using assms by (simp add: user_stack_manager_init_def Let_def fold_initial_slots)
  moreover have "stacks_ok (m\<lparr>um_stacks := map initial_slot [0..<511], um_lock := 0\<rparr>)"
    "stacks_used (m\<lparr>um_stacks := map initial_slot [0..<511], um_lock := 0\<rparr>) = {}"
    by (simp_all add: stacks_ok_def stacks_used_def nu cong: conj_cong)
  ultimately show ?thesis by blast
qed

lemma stacks_ok_update:
  assumes "stacks_ok m" "i < 511"
  shows "stacks_ok (m\<lparr>um_stacks := (um_stacks m)[i := (um_stacks m ! i)\<lparr>us_in_use := b\<rparr>], um_lock := 0\<rparr>)"
    "stacks_used (m\<lparr>um_stacks := (um_stacks m)[i := (um_stacks m ! i)\<lparr>us_in_use := b\<rparr>], um_lock := 0\<rparr>) =
      (if b then insert i (stacks_used m) else stacks_used m - {i})"
  using assms by (auto simp: stacks_ok_def stacks_used_def nth_update_iff)

section \<open>Properties\<close>

text \<open>
  C15: Allocating a user stack hands out the first free slot, whose 32 KiB lie inside the user stack
  area and overlap no slot in use; when all 511 slots are in use the result is -1 and nothing
  changes. The slots stay in place, interrupts and the lock are as before, and freeing the slot
  makes exactly that slot free again.
\<close>

theorem user_stack_alloc_disjoint:
  assumes "stacks_ok m" "interrupts_ok irq"
  shows "if stacks_used m = {0..<511} then user_stack_alloc (irq, m) = Some ((-1, None), irq, m)
    else \<exists>i base m'. user_stack_alloc (irq, m) = Some ((int i, Some (base, base + TASK_STACK_SIZE)), irq, m') \<and>
      stacks_ok m' \<and> i < 511 \<and> {0..<i} \<subseteq> stacks_used m \<and> i \<notin> stacks_used m \<and>
      stacks_used m' = insert i (stacks_used m) \<and>
      (\<forall>x \<in> region base TASK_STACK_SIZE. USERSPACE_TASK_STACK_BOTTOM \<le> x \<and> x < USERSPACE_TASK_STACK_TOP) \<and>
      (\<forall>j \<in> stacks_used m. region base TASK_STACK_SIZE \<inter> region (us_base (um_stacks m ! j)) TASK_STACK_SIZE = {}) \<and>
      (\<exists>m''. user_stack_free (int i) (irq, m') = Some (irq, m'') \<and> stacks_ok m'' \<and> stacks_used m'' = stacks_used m)"
proof (cases "find (\<lambda>i. \<not> us_in_use (um_stacks m ! i)) [0..<USER_STACKS_MAX]")
  case None
  then have "stacks_used m = {0..<511}"
    unfolding find_upt_None_iff by (auto simp: stacks_used_def)
  moreover have "m\<lparr>um_lock := 0\<rparr> = m" using assms(1) by (simp add: stacks_ok_def)
  ultimately show ?thesis
    using None assms by (simp add: user_stack_alloc_def stacks_ok_def)
next
  case (Some i)
  then have i: "i < 511" "\<not> us_in_use (um_stacks m ! i)" "\<forall>j < i. us_in_use (um_stacks m ! j)"
    unfolding find_upt_Some_iff by simp_all
  then have iu: "i \<notin> stacks_used m" "{0..<i} \<subseteq> stacks_used m" by (auto simp: stacks_used_def)
  then have ne: "stacks_used m \<noteq> {0..<511}" using i(1) by auto
  let ?m = "m\<lparr>um_stacks := (um_stacks m)[i := (um_stacks m ! i)\<lparr>us_in_use := True\<rparr>], um_lock := 0\<rparr>"
  let ?b = "us_base (um_stacks m ! i)"
  have bt: "?b = us_base (initial_slot i)" "us_top (um_stacks m ! i) = ?b + TASK_STACK_SIZE"
    using assms(1) i(1) by (simp_all add: stacks_ok_def initial_slot_def Let_def)
  note up = stacks_ok_update [OF assms(1) i(1), of True]
  have al: "user_stack_alloc (irq, m) = Some ((int i, Some (?b, ?b + TASK_STACK_SIZE)), irq, ?m)"
    using Some assms bt(2) by (simp add: user_stack_alloc_def stacks_ok_def Let_def)
  have area: "\<forall>x \<in> region ?b TASK_STACK_SIZE. USERSPACE_TASK_STACK_BOTTOM \<le> x \<and> x < USERSPACE_TASK_STACK_TOP"
    unfolding bt(1) using i(1)
    by (auto simp: slot_region word_le_nat_alt word_less_nat_alt USERSPACE_TASK_STACK_BOTTOM_def
        USERSPACE_TASK_STACK_TOP_def)
  have dis: "region ?b TASK_STACK_SIZE \<inter> region (us_base (um_stacks m ! j)) TASK_STACK_SIZE = {}"
    if "j \<in> stacks_used m" for j
  proof -
    have "j < 511" "i \<noteq> j" using that i(2) by (auto simp: stacks_used_def)
    with slots_disjoint [OF i(1)] assms(1) show ?thesis by (simp add: bt(1) stacks_ok_def)
  qed
  have fr: "\<exists>m''. user_stack_free (int i) (irq, ?m) = Some (irq, m'') \<and> stacks_ok m'' \<and> stacks_used m'' = stacks_used m"
    using stacks_ok_update [OF up(1) i(1), of False] up(2) iu(1) assms(2) i(1)
    by (simp add: user_stack_free_def Let_def)
  show ?thesis using ne al up i(1) iu area dis fr by auto
qed

definition witness_stacks :: user_stack_manager where
  "witness_stacks = \<lparr>um_lock = 0, um_stacks = map initial_slot [0..<511]\<rparr>"

theorem user_stack_alloc_disjoint_witness:
  "\<exists>i base m'. user_stack_alloc (\<lparr>disable_counter = 1, interrupt_flag = False\<rparr>, witness_stacks) =
     Some ((int i, Some (base, base + TASK_STACK_SIZE)), \<lparr>disable_counter = 1, interrupt_flag = False\<rparr>, m') \<and>
     stacks_used m' = {i}"
proof -
  have u: "stacks_used witness_stacks = {}" and ok: "stacks_ok witness_stacks"
    by (auto simp: stacks_used_def stacks_ok_def witness_stacks_def initial_slot_def Let_def)
  have "interrupts_ok \<lparr>disable_counter = 1, interrupt_flag = False\<rparr>" by (simp add: interrupts_ok_def)
  from user_stack_alloc_disjoint [OF ok this] u show ?thesis by auto
qed

end
