(* ===== verification/Scheduler.thy ===== *)
theory Scheduler
  imports Kernel_Memory Interrupts Task_Queue Sleep_Queue User_Stacks
begin

text \<open>
  The scheduler (src/kernel/scheduler/scheduler.c, the context switch of scheduler.s and the start of
  a task of task.c and task.s): the state of the whole kernel, the ready, sleep and zombie queues,
  round-robin selection, sleeping, yielding and exiting.
\<close>

section \<open>The state of the kernel\<close>

text \<open>The only routine the timer is given to call.\<close>

datatype timer_client = SCHEDULER_SCHEDULE

text \<open>
  \<open>km\<close> holds memory and the memory managers, \<open>dt\<close> the descriptor tables, \<open>cpu\<close> the registers of the
  processor, \<open>current\<close> the entry of \<open>current_tasks\<close> for the one processor, and \<open>sleepers\<close> the sleep
  queue.
\<close>

record kernel =
  km :: kmem
  irq :: interrupts
  dt :: descriptors
  pit :: "timer_client pit"
  cpu :: task_context
  tasks :: task_table
  task_table_lock :: spinlock
  task_count :: int
  user_stacks :: user_stack_manager
  current :: "nat option"
  ready_queue :: task_queue
  zombie_queue :: task_queue
  sleepers :: "nat sleep_queue"
  scheduler_is_initialized :: bool

definition MAX_SLEEP_TASKS :: nat where "MAX_SLEEP_TASKS = 128"

definition set_state :: "nat \<Rightarrow> task_state \<Rightarrow> kernel \<Rightarrow> kernel" where
  "set_state t s k = k\<lparr>tasks := (tasks k)(t := (tasks k t)\<lparr>state := s\<rparr>)\<rparr>"

definition wake_key :: "kernel \<Rightarrow> nat \<Rightarrow> u32" where
  "wake_key k t = wake_tick (tasks k t)"

section \<open>Queues\<close>

definition push_ready :: "nat \<Rightarrow> kernel \<Rightarrow> kernel option" where
  "push_ready t k = map_option (\<lambda>(T, q). k\<lparr>tasks := T, ready_queue := q\<rparr>)
     (task_queue_push t (tasks k, ready_queue k))"

definition pop_ready :: "(kernel, nat option) prog" where
  "pop_ready k = map_option (\<lambda>(t, T, q). (t, k\<lparr>tasks := T, ready_queue := q\<rparr>))
     (task_queue_pop (tasks k, ready_queue k))"

definition enqueue_ready :: "nat \<Rightarrow> kernel \<Rightarrow> kernel option" where
  "enqueue_ready t k =
     push_ready t (if state (tasks k t) \<noteq> TASK_STATE_CREATED then set_state t TASK_STATE_RUNNING k else k)"

definition enqueue_zombie :: "nat \<Rightarrow> kernel \<Rightarrow> kernel option" where
  "enqueue_zombie t k =
     (let k = set_state t TASK_STATE_ZOMBIE k
      in map_option (\<lambda>(T, q). k\<lparr>tasks := T, zombie_queue := q\<rparr>) (task_queue_push t (tasks k, zombie_queue k)))"

definition enqueue_sleeper :: "nat \<Rightarrow> kernel \<Rightarrow> kernel option" where
  "enqueue_sleeper t k =
     (let k = set_state t TASK_STATE_SLEEPING k
      in map_option (\<lambda>h. k\<lparr>sleepers := h\<rparr>) (sleep_queue_push (wake_key k) (sleepers k) t))"

section \<open>Switching to a task\<close>

text \<open>
  \<open>_task_save_context\<close> and \<open>_task_restore_context\<close> of scheduler.s: all registers but \<open>eax\<close> and the
  instruction pointer. The stack and frame pointers are those inside the routine's own frame.
\<close>

definition task_save_context :: "task_context \<Rightarrow> task_context \<Rightarrow> task_context" where
  "task_save_context r c = c\<lparr>ebx := ebx r, ecx := ecx r, edx := edx r, esi := esi r, edi := edi r,
     esp := esp r, ebp := ebp r, eflags := eflags r, fpu_state := fpu_state r\<rparr>"

definition task_restore_context :: "task_context \<Rightarrow> task_context \<Rightarrow> task_context" where
  "task_restore_context c r = r\<lparr>ebp := ebp c, esp := esp c, fpu_state := fpu_state c, ebx := ebx c,
     ecx := ecx c, edx := edx c, esi := esi c, edi := edi c, eflags := eflags c\<rparr>"

text \<open>
  \<open>_task_start\<close> of task.s: the registers a new task starts with. When its code segment asks for
  another privilege level, \<open>iret\<close> takes the stack pointer from the frame as well.
\<close>

definition task_start :: "task \<Rightarrow> task_context \<Rightarrow> task_context" where
  "task_start t r =
     (let framed = ebp (ctx t) \<noteq> 0
      in r\<lparr>ebx := args t, ecx := argv t, edx := thread_eip t, eip := eip (ctx t), eflags := 0x200,
           esp := (if cs t AND 3 \<noteq> 0 \<and> framed then esp (ctx t) else kesp t - (if framed then 8 else 0))\<rparr>)"

definition task_start_impl :: "nat \<Rightarrow> kernel \<Rightarrow> kernel" where
  "task_start_impl t k =
     (let k = set_state t TASK_STATE_RUNNING k;
          k = k\<lparr>irq := (irq k)\<lparr>disable_counter := disable_counter (irq k) - 1\<rparr>\<rparr>
      in k\<lparr>cpu := task_start (tasks k t) (cpu k), irq := (irq k)\<lparr>interrupt_flag := True\<rparr>\<rparr>)"

text \<open>
  The steps before every switch: the kernel stack for user-mode tasks, the page directory unless it
  is the one of the current task, and the new current task.
\<close>

definition switch_to :: "nat \<Rightarrow> kernel \<Rightarrow> kernel" where
  "switch_to n k =
     (let k = (if mode (tasks k n) \<noteq> TASK_MODE_KTHREAD
               then k\<lparr>dt := kernel_task_state_segment_set_stack 0x10 (kebp (tasks k n)) (dt k)\<rparr> else k);
          k = (if (case current k of None \<Rightarrow> True
                   | Some c \<Rightarrow> physical_cr3 (tasks k c) \<noteq> physical_cr3 (tasks k n))
               then k\<lparr>km := paging_manager_set_cr3 (physical_cr3 (tasks k n)) True (km k)\<rparr> else k)
      in k\<lparr>current := Some n\<rparr>)"

section \<open>Selecting the next task\<close>

text \<open>
  What a call of the scheduler ends with: it returns (in the task that is current then), it jumps
  into a task that runs for the first time, or it panics because no task is ready.
\<close>

datatype outcome = Returned | Started nat | Panicked

lemma sleep_queue_pop_size:
  assumes "sleep_queue_pop key h = Some (x, h')" "sq_size h \<noteq> 0"
  shows "sq_size h' < sq_size h"
  using assms by (auto simp: sleep_queue_pop_def Let_def split: option.splits if_splits)

lemma push_ready_frame:
  assumes "push_ready t k = Some k'"
  shows "\<exists>T q. k' = k\<lparr>tasks := T, ready_queue := q\<rparr>"
  using assms by (auto simp: push_ready_def)

lemma enqueue_ready_frame:
  assumes "enqueue_ready t k = Some k'"
  shows "\<exists>T q. k' = k\<lparr>tasks := T, ready_queue := q\<rparr>"
  using push_ready_frame [OF assms [unfolded enqueue_ready_def]] by (auto simp: set_state_def split: if_splits)

text \<open>Moving the sleepers that are due to the ready queue.\<close>

function wake_due :: "u32 \<Rightarrow> kernel \<Rightarrow> kernel option" where
  "wake_due tick k =
     (case sleep_queue_peek (sleepers k) of None \<Rightarrow> Some k
      | Some t \<Rightarrow>
        if tick < wake_tick (tasks k t) then Some k
        else case sleep_queue_pop (wake_key k) (sleepers k) of None \<Rightarrow> None
        | Some (_, h) \<Rightarrow>
          (case enqueue_ready t (k\<lparr>sleepers := h\<rparr>) of None \<Rightarrow> None | Some k \<Rightarrow> wake_due tick k))"
  by pat_completeness auto
termination
proof (relation "measure (\<lambda>(tick, k). sq_size (sleepers k))")
  fix tick :: u32 and k k' :: kernel and t x h
  assume "sleep_queue_peek (sleepers k) = Some t"
  then have n: "sq_size (sleepers k) \<noteq> 0" by (auto simp: sleep_queue_peek_def split: if_splits)
  fix p :: "nat option \<times> nat sleep_queue" and a
  assume "sleep_queue_pop (wake_key k) (sleepers k) = Some p" "(x, h) = p"
    "enqueue_ready t (k\<lparr>sleepers := h\<rparr>) = Some k'"
  then show "((tick, k'), tick, k) \<in> measure (\<lambda>(tick, k). sq_size (sleepers k))"
    using sleep_queue_pop_size [OF _ n] by (auto dest!: enqueue_ready_frame)
qed simp

declare wake_due.simps [simp del]

text \<open>
  The inner loop: tasks that are not runnable leave the ready queue; a stopped, blocked or cleaning
  task is made runnable and queued again. The value \<open>Inl n\<close> is the task to switch to, \<open>Inr\<close> is an
  outcome that does not return to the caller.
\<close>

definition requeue :: "nat \<Rightarrow> kernel \<Rightarrow> kernel option" where
  "requeue n k =
     (if state (tasks k n) = TASK_STATE_ZOMBIE then enqueue_zombie n k
      else if state (tasks k n) = TASK_STATE_SLEEPING then enqueue_sleeper n k
      else enqueue_ready n k)"

partial_function (option) select_loop :: "nat \<Rightarrow> kernel \<Rightarrow> ((nat + outcome) \<times> kernel) option" where
  "select_loop n k =
     (if state (tasks k n) = TASK_STATE_RUNNING then Some (Inl n, k)
      else if state (tasks k n) = TASK_STATE_CREATED
      then Some (Inr (Started n), task_start_impl n (switch_to n k))
      else
        Option.bind
          (requeue n k)
          (\<lambda>k. Option.bind (pop_ready k)
            (\<lambda>(m, k). case m of None \<Rightarrow> Some (Inr Panicked, k) | Some n \<Rightarrow> select_loop n k)))"

definition round_robin :: "u32 \<Rightarrow> (kernel, outcome) prog" where
  "round_robin tick k =
     (case wake_due tick k of None \<Rightarrow> None
      | Some k \<Rightarrow>
        case (case current k of
                Some c \<Rightarrow> if state (tasks k c) = TASK_STATE_RUNNING
                          then map_option (\<lambda>k. k\<lparr>current := None\<rparr>) (enqueue_ready c k) else Some k
              | None \<Rightarrow> Some k) of None \<Rightarrow> None
        | Some k \<Rightarrow>
          case pop_ready k of None \<Rightarrow> None
          | Some (None, k) \<Rightarrow> Some (Panicked, k)
          | Some (Some n, k) \<Rightarrow>
            if state (tasks k n) = TASK_STATE_CREATED
            then Some (Started n, task_start_impl n (switch_to n k))
            else case select_loop n k of None \<Rightarrow> None
            | Some (Inr r, k) \<Rightarrow> Some (r, k)
            | Some (Inl n, k) \<Rightarrow> Some (Returned, if current k \<noteq> Some n then switch_to n k else k))"

section \<open>The calls of the scheduler\<close>

definition save_current :: "nat \<Rightarrow> kernel \<Rightarrow> kernel" where
  "save_current c k =
     k\<lparr>tasks := (tasks k)(c := (tasks k c)\<lparr>ctx := task_save_context (cpu k) (ctx (tasks k c))\<rparr>)\<rparr>"

definition restore_current :: "nat \<Rightarrow> kernel \<Rightarrow> kernel" where
  "restore_current c k = k\<lparr>cpu := task_restore_context (ctx (tasks k c)) (cpu k)\<rparr>"

text \<open>
  Saving, selecting and restoring with interrupts off. Without a current task the context routines
  would go through a null pointer; that is \<open>None\<close>.
\<close>

definition switch_task :: "u32 \<Rightarrow> (kernel, outcome) prog" where
  "switch_task tick k =
     (let k = k\<lparr>irq := disable_interrupts (irq k)\<rparr> in
      case current k of None \<Rightarrow> None
      | Some c \<Rightarrow>
        (case round_robin tick (save_current c k) of
           Some (Returned, k) \<Rightarrow>
             (case current k of None \<Rightarrow> None
              | Some c \<Rightarrow>
                let k = restore_current c k
                in Some (Returned, k\<lparr>irq := enable_interrupts (irq k)\<rparr>))
         | r \<Rightarrow> r))"

definition scheduler_schedule :: "u32 \<Rightarrow> (kernel, outcome) prog" where
  "scheduler_schedule tick k =
     (case (if current k = None then map_option (\<lambda>(t, k). k\<lparr>current := t\<rparr>) (pop_ready k) else Some k) of
        None \<Rightarrow> None
      | Some k \<Rightarrow> switch_task tick k)"

definition scheduler_add :: "nat option \<Rightarrow> (kernel, int) prog" where
  "scheduler_add task k =
     (case task of None \<Rightarrow> Some (-1, k)
      | Some t \<Rightarrow> map_option (\<lambda>k. (0, k)) (enqueue_ready t k))"

definition scheduler_yield :: "(kernel, outcome) prog" where
  "scheduler_yield k = scheduler_schedule (programable_interval_timer_get_tick (pit k)) k"

definition sleep_ticks :: "u32 \<Rightarrow> u32 \<Rightarrow> u32" where
  "sleep_ticks ms hz = (let n = (ms * hz) div 1000 in if n = 0 then 1 else n)"

definition scheduler_sleep :: "u32 \<Rightarrow> (kernel, outcome) prog" where
  "scheduler_sleep ms k =
     (let k = k\<lparr>irq := disable_interrupts (irq k)\<rparr>;
          tick_now = programable_interval_timer_get_tick (pit k);
          hz = programable_interval_timer_get_hz (pit k)
      in case current k of None \<Rightarrow> None
      | Some c \<Rightarrow>
        (case enqueue_sleeper c
            (k\<lparr>tasks := (tasks k)(c := (tasks k c)\<lparr>wake_tick := tick_now + sleep_ticks ms hz\<rparr>)\<rparr>) of
           None \<Rightarrow> None
         | Some k \<Rightarrow> scheduler_schedule tick_now (k\<lparr>irq := enable_interrupts (irq k)\<rparr>)))"

definition scheduler_consume :: "kernel \<Rightarrow> nat option \<times> kernel" where
  "scheduler_consume k = (current k, k\<lparr>current := None\<rparr>)"

text \<open>The result of \<open>scheduler_exit\<close> without a current task is -1, that is \<open>Inl\<close>.\<close>

definition scheduler_exit :: "(kernel, int + outcome) prog" where
  "scheduler_exit k =
     (case current k of None \<Rightarrow> Some (Inl (-1), k)
      | Some c \<Rightarrow>
        map_option (\<lambda>(r, k). (Inr r, k))
          (switch_task (programable_interval_timer_get_tick (pit k)) (set_state c TASK_STATE_ZOMBIE k)))"

definition syscall_get_proccess_id :: "kernel \<Rightarrow> u32" where
  "syscall_get_proccess_id k = (case current k of None \<Rightarrow> - 1 | Some c \<Rightarrow> pid (tasks k c))"

section \<open>The queues of the scheduler\<close>

text \<open>
  \<open>rs\<close> and \<open>zs\<close> are the tasks in the ready and zombie queues in order; no task is queued twice, in one
  queue or in two.
\<close>

definition sched_ok :: "kernel \<Rightarrow> nat list \<Rightarrow> nat list \<Rightarrow> bool" where
  "sched_ok k rs zs \<longleftrightarrow> queue_rep (tasks k, ready_queue k) rs \<and> queue_rep (tasks k, zombie_queue k) zs \<and>
     sq_inv (wake_key k) (sleepers k) \<and> set rs \<inter> set zs = {} \<and>
     (\<forall>t \<in># sq_elems (sleepers k). t \<notin> set rs \<and> t \<notin> set zs) \<and>
     (\<forall>t. count (sq_elems (sleepers k)) t \<le> 1)"

definition queued :: "kernel \<Rightarrow> nat list \<Rightarrow> nat list \<Rightarrow> nat \<Rightarrow> bool" where
  "queued k rs zs t \<longleftrightarrow> t \<in> set rs \<or> t \<in> set zs \<or> t \<in># sq_elems (sleepers k)"

text \<open>A task without its state and its link, and kernel states that agree on all else.\<close>

definition core :: "task \<Rightarrow> task" where
  "core t = t\<lparr>state := TASK_STATE_STOPPED, next := None\<rparr>"

definition queues_only :: "kernel \<Rightarrow> kernel \<Rightarrow> bool" where
  "queues_only k k' \<longleftrightarrow> (\<forall>t. core (tasks k' t) = core (tasks k t)) \<and>
     (\<exists>T r z h. k' = k\<lparr>tasks := T, ready_queue := r, zombie_queue := z, sleepers := h\<rparr>)"

lemma queues_only_refl [simp]: "queues_only k k"
proof -
  have "k = k\<lparr>tasks := tasks k, ready_queue := ready_queue k, zombie_queue := zombie_queue k, sleepers := sleepers k\<rparr>"
    by simp
  then show ?thesis unfolding queues_only_def by metis
qed

lemma queues_only_trans: "queues_only k k' \<Longrightarrow> queues_only k' k'' \<Longrightarrow> queues_only k k''"
  by (fastforce simp: queues_only_def)

lemma queues_only_fields:
  assumes "queues_only k k'"
  shows "current k' = current k" "irq k' = irq k" "cpu k' = cpu k" "km k' = km k" "dt k' = dt k" "pit k' = pit k"
    "core (tasks k' t) = core (tasks k t)"
  using assms by (auto simp: queues_only_def)

lemma core_fields:
  assumes "core a = core b"
  shows "ctx a = ctx b" "mode a = mode b" "physical_cr3 a = physical_cr3 b" "wake_tick a = wake_tick b"
    "kebp a = kebp b" "kesp a = kesp b" "pid a = pid b"
  using assms by (cases a; cases b; simp add: core_def)+

lemma wake_key_core:
  assumes "\<And>t. core (tasks k' t) = core (tasks k t)"
  shows "wake_key k' = wake_key k"
proof
  fix t
  show "wake_key k' t = wake_key k t" unfolding wake_key_def using assms by (rule core_fields(4))
qed

lemma queues_onlyI:
  assumes "\<And>t. core (T t) = core (tasks k t)"
  shows "queues_only k (k\<lparr>tasks := T, ready_queue := r\<rparr>)" "queues_only k (k\<lparr>tasks := T, zombie_queue := z\<rparr>)"
    "queues_only k (k\<lparr>tasks := T, sleepers := h\<rparr>)"
proof -
  have *: "queues_only k (k\<lparr>tasks := T, ready_queue := r, zombie_queue := z, sleepers := h\<rparr>)"
    for r z :: task_queue and h
    unfolding queues_only_def using assms by auto
  show "queues_only k (k\<lparr>tasks := T, ready_queue := r\<rparr>)" "queues_only k (k\<lparr>tasks := T, zombie_queue := z\<rparr>)"
    "queues_only k (k\<lparr>tasks := T, sleepers := h\<rparr>)"
    using * [where r = r and z = "zombie_queue k" and h = "sleepers k"]
      * [where r = "ready_queue k" and z = z and h = "sleepers k"]
      * [where r = "ready_queue k" and z = "zombie_queue k" and h = h] by simp_all
qed

lemma queue_rep_cong:
  "queue_rep (T, q) xs \<Longrightarrow> (\<And>x. x \<in> set xs \<Longrightarrow> next (T' x) = next (T x)) \<Longrightarrow> queue_rep (T', q) xs"
  by (auto simp: queue_rep_def intro: path_cong)

lemma relinked_core: "relinked A T T' \<Longrightarrow> core (T' t) = core (T t)"
  unfolding relinked_def core_def by (drule conjunct2) (drule spec [of _ t], cases "T t", cases "T' t", simp)

lemma relinked_state: "relinked A T T' \<Longrightarrow> state (T' t) = state (T t)"
  unfolding relinked_def by (drule conjunct2) (drule spec [of _ t], cases "T t", cases "T' t", simp)

text \<open>Changing states leaves the queues alone.\<close>

lemma set_state_simps [simp]:
  "ready_queue (set_state t s k) = ready_queue k" "zombie_queue (set_state t s k) = zombie_queue k"
  "sleepers (set_state t s k) = sleepers k" "current (set_state t s k) = current k"
  "irq (set_state t s k) = irq k" "cpu (set_state t s k) = cpu k" "pit (set_state t s k) = pit k"
  "next (tasks (set_state t s k) x) = next (tasks k x)"
  "core (tasks (set_state t s k) x) = core (tasks k x)"
  "state (tasks (set_state t s k) x) = (if x = t then s else state (tasks k x))"
  by (simp_all add: set_state_def core_def)

lemma queues_only_set_state [simp]: "queues_only k (set_state t s k)"
proof -
  have "set_state t s k = k\<lparr>tasks := tasks (set_state t s k), ready_queue := ready_queue k,
      zombie_queue := zombie_queue k, sleepers := sleepers k\<rparr>" by (simp add: set_state_def)
  moreover have "\<forall>x. core (tasks (set_state t s k) x) = core (tasks k x)" by simp
  ultimately show ?thesis unfolding queues_only_def by metis
qed

lemma sched_ok_cong:
  assumes "sched_ok k rs zs" "\<And>t. core (tasks k' t) = core (tasks k t)"
    "\<And>t. next (tasks k' t) = next (tasks k t)" "ready_queue k' = ready_queue k"
    "zombie_queue k' = zombie_queue k" "sleepers k' = sleepers k"
  shows "sched_ok k' rs zs"
  using assms by (auto simp: sched_ok_def wake_key_core [of k' k] intro: queue_rep_cong)

lemma sched_ok_set_state [simp]: "sched_ok (set_state t s k) rs zs = sched_ok k rs zs"
  using sched_ok_cong [of k rs zs "set_state t s k"] sched_ok_cong [of "set_state t s k" rs zs k] by auto

lemma queued_set_state [simp]: "queued (set_state t s k) rs zs x = queued k rs zs x"
  by (simp add: queued_def)

section \<open>What the queue operations do\<close>

lemma push_ready_spec:
  assumes "sched_ok k rs zs" "\<not> queued k rs zs t"
  shows "\<exists>k'. push_ready t k = Some k' \<and> sched_ok k' (rs @ [t]) zs \<and> queues_only k k' \<and>
    sleepers k' = sleepers k \<and> (\<forall>x. state (tasks k' x) = state (tasks k x))"
proof -
  have ok: "queue_rep (tasks k, ready_queue k) rs" "queue_rep (tasks k, zombie_queue k) zs" "set rs \<inter> set zs = {}"
    and t: "t \<notin> set rs" "t \<notin> set zs" "t \<notin># sq_elems (sleepers k)"
    using assms by (auto simp: sched_ok_def queued_def)
  from task_queue_push_spec [OF ok(1) t(1)] obtain T q where
    p: "task_queue_push t (tasks k, ready_queue k) = Some (T, q)" "queue_rep (T, q) (rs @ [t])"
    and r: "relinked (insert t (set rs)) (tasks k) T" by blast
  let ?k = "k\<lparr>tasks := T, ready_queue := q\<rparr>"
  have z: "queue_rep (T, zombie_queue k) zs"
    using ok(2) r ok(3) t(2) by (intro queue_rep_cong [OF ok(2)]) (auto simp: relinked_def)
  have c: "core (T x) = core (tasks k x)" for x using r by (rule relinked_core)
  then have w: "wake_key ?k = wake_key k" by (intro wake_key_core) simp
  have "queues_only k ?k" using c by (rule queues_onlyI)
  moreover have "sched_ok ?k (rs @ [t]) zs"
    using assms(1) p(2) z t w by (auto simp: sched_ok_def count_eq_zero_iff)
  moreover have "\<forall>x. state (tasks ?k x) = state (tasks k x)" using relinked_state [OF r] by simp
  ultimately show ?thesis using p(1) by (intro exI [of _ ?k]) (simp add: push_ready_def)
qed

lemma enqueue_ready_spec:
  assumes "sched_ok k rs zs" "\<not> queued k rs zs t"
  shows "\<exists>k'. enqueue_ready t k = Some k' \<and> sched_ok k' (rs @ [t]) zs \<and> queues_only k k' \<and>
    sleepers k' = sleepers k \<and>
    (\<forall>x. state (tasks k' x) = (if x = t \<and> state (tasks k t) \<noteq> TASK_STATE_CREATED then TASK_STATE_RUNNING
       else state (tasks k x)))"
proof -
  let ?k = "if state (tasks k t) \<noteq> TASK_STATE_CREATED then set_state t TASK_STATE_RUNNING k else k"
  have "sched_ok ?k rs zs" "\<not> queued ?k rs zs t" using assms by simp_all
  from push_ready_spec [OF this] obtain k' where
    k': "push_ready t ?k = Some k'" "sched_ok k' (rs @ [t]) zs" "queues_only ?k k'" "sleepers k' = sleepers ?k"
      "\<forall>x. state (tasks k' x) = state (tasks ?k x)" by blast
  have "queues_only k ?k" by simp
  from queues_only_trans [OF this k'(3)] k' show ?thesis
    by (intro exI [of _ k']) (auto simp: enqueue_ready_def)
qed

lemma pop_ready_empty:
  assumes "sched_ok k [] zs"
  shows "pop_ready k = Some (None, k)"
proof -
  have "queue_rep (tasks k, ready_queue k) []" using assms by (simp add: sched_ok_def)
  then show ?thesis by (simp add: pop_ready_def task_queue_pop_empty)
qed

lemma pop_ready_spec:
  assumes "sched_ok k (t # rs) zs"
  shows "\<exists>k'. pop_ready k = Some (Some t, k') \<and> sched_ok k' rs zs \<and> queues_only k k' \<and>
    sleepers k' = sleepers k \<and> \<not> queued k' rs zs t \<and> (\<forall>x. state (tasks k' x) = state (tasks k x))"
proof -
  have ok: "queue_rep (tasks k, ready_queue k) (t # rs)" "queue_rep (tasks k, zombie_queue k) zs"
    "t \<notin> set zs" "t \<notin> set rs" "t \<notin># sq_elems (sleepers k)"
    using assms by (auto simp: sched_ok_def queue_rep_def count_eq_zero_iff dest: spec [of _ t])
  from task_queue_pop_spec [OF ok(1)] obtain T q where
    p: "task_queue_pop (tasks k, ready_queue k) = Some (Some t, T, q)" "queue_rep (T, q) rs"
    and r: "relinked {t} (tasks k) T" by blast
  let ?k = "k\<lparr>tasks := T, ready_queue := q\<rparr>"
  have z: "queue_rep (T, zombie_queue k) zs"
    using r ok(3) by (intro queue_rep_cong [OF ok(2)]) (auto simp: relinked_def)
  have c: "core (T x) = core (tasks k x)" for x using r by (rule relinked_core)
  then have w: "wake_key ?k = wake_key k" by (intro wake_key_core) simp
  have "queues_only k ?k" using c by (rule queues_onlyI)
  moreover have "sched_ok ?k rs zs" using assms p(2) z w by (auto simp: sched_ok_def)
  moreover have "\<forall>x. state (tasks ?k x) = state (tasks k x)" using relinked_state [OF r] by simp
  ultimately show ?thesis using p(1) ok(3-5) by (intro exI [of _ ?k]) (simp add: pop_ready_def queued_def)
qed

lemma enqueue_zombie_spec:
  assumes "sched_ok k rs zs" "\<not> queued k rs zs t"
  shows "\<exists>k'. enqueue_zombie t k = Some k' \<and> sched_ok k' rs (zs @ [t]) \<and> queues_only k k' \<and>
    sleepers k' = sleepers k \<and>
    (\<forall>x. state (tasks k' x) = (if x = t then TASK_STATE_ZOMBIE else state (tasks k x)))"
proof -
  let ?kz = "set_state t TASK_STATE_ZOMBIE k"
  have s: "sched_ok ?kz rs zs" "\<not> queued ?kz rs zs t" using assms by simp_all
  then have ok: "queue_rep (tasks ?kz, ready_queue ?kz) rs" "queue_rep (tasks ?kz, zombie_queue ?kz) zs"
      "set rs \<inter> set zs = {}"
    and t: "t \<notin> set rs" "t \<notin> set zs" "t \<notin># sq_elems (sleepers k)"
    by (auto simp: sched_ok_def queued_def)
  from task_queue_push_spec [OF ok(2) t(2)] obtain T q where
    p: "task_queue_push t (tasks ?kz, zombie_queue ?kz) = Some (T, q)" "queue_rep (T, q) (zs @ [t])"
    and r: "relinked (insert t (set zs)) (tasks ?kz) T" by blast
  let ?k = "?kz\<lparr>tasks := T, zombie_queue := q\<rparr>"
  have z: "queue_rep (T, ready_queue k) rs"
    using r ok(3) t(1) by (intro queue_rep_cong [OF ok(1) [unfolded set_state_simps]]) (auto simp: relinked_def)
  have c: "core (T x) = core (tasks ?kz x)" for x using r by (rule relinked_core)
  then have w: "wake_key ?k = wake_key ?kz" by (intro wake_key_core) simp
  have "queues_only ?kz ?k" using c by (rule queues_onlyI)
  then have "queues_only k ?k" by (rule queues_only_trans [OF queues_only_set_state])
  moreover have "sched_ok ?k rs (zs @ [t])"
    using s(1) p(2) z t w by (auto simp: sched_ok_def count_eq_zero_iff)
  moreover have "\<forall>x. state (tasks ?k x) = (if x = t then TASK_STATE_ZOMBIE else state (tasks k x))"
    using relinked_state [OF r] by simp
  ultimately show ?thesis using p(1) by (intro exI [of _ ?k]) (simp add: enqueue_zombie_def Let_def)
qed

lemma enqueue_sleeper_spec:
  assumes "sched_ok k rs zs" "\<not> queued k rs zs t"
  shows "\<exists>k'. enqueue_sleeper t k = Some k' \<and> sched_ok k' rs zs \<and> queues_only k k' \<and>
    sq_elems (sleepers k') = (if sq_room (sleepers k) then add_mset t (sq_elems (sleepers k)) else sq_elems (sleepers k)) \<and>
    sq_capacity (sleepers k') = sq_capacity (sleepers k) \<and>
    (\<forall>x. state (tasks k' x) = (if x = t then TASK_STATE_SLEEPING else state (tasks k x)))"
proof -
  let ?kz = "set_state t TASK_STATE_SLEEPING k"
  have s: "sched_ok ?kz rs zs" using assms by simp
  have w0: "wake_key ?kz = wake_key k" by (rule wake_key_core) simp
  have inv: "sq_inv (wake_key ?kz) (sleepers k)" using s by (simp add: sched_ok_def)
  obtain h where h: "sleep_queue_push (wake_key ?kz) (sleepers k) t = Some h" "sq_inv (wake_key ?kz) h"
      "sq_elems h = (if sq_room (sleepers k) then add_mset t (sq_elems (sleepers k)) else sq_elems (sleepers k))"
    using sleepq.push_room [OF inv, of t] sleepq.push_full [OF inv, of t] inv by (cases "sq_room (sleepers k)") auto
  have cap: "sq_capacity h = sq_capacity (sleepers k)"
    using h(1) by (auto simp: sleep_queue_push_def Let_def split: option.splits if_splits)
  let ?k = "?kz\<lparr>sleepers := h\<rparr>"
  have "queues_only ?kz (?kz\<lparr>tasks := tasks ?kz, sleepers := h\<rparr>)" by (rule queues_onlyI) simp
  then have "queues_only ?kz ?k" by simp
  then have "queues_only k ?k" by (rule queues_only_trans [OF queues_only_set_state])
  moreover have "wake_key ?k = wake_key ?kz" by (rule wake_key_core) simp
  then have "sched_ok ?k rs zs"
    using s h(2,3) assms(2) by (auto simp: sched_ok_def queued_def count_eq_zero_iff)
  ultimately show ?thesis using h cap by (intro exI [of _ ?k]) (simp add: enqueue_sleeper_def Let_def)
qed

text \<open>Due sleepers move to the end of the ready queue in the order of their wake ticks.\<close>

lemma queues_only_wake_key: "queues_only k k' \<Longrightarrow> wake_key k' = wake_key k"
  by (rule wake_key_core) (simp add: queues_only_def)

lemma wake_due_spec:
  "sched_ok k rs zs \<Longrightarrow>
   \<exists>k' ts. wake_due tick k = Some k' \<and> sched_ok k' (rs @ ts) zs \<and> queues_only k k' \<and>
     sorted (map (wake_key k) ts) \<and> mset ts = filter_mset (\<lambda>t. wake_key k t \<le> tick) (sq_elems (sleepers k)) \<and>
     sq_elems (sleepers k') = filter_mset (\<lambda>t. \<not> wake_key k t \<le> tick) (sq_elems (sleepers k)) \<and>
     (\<forall>x. state (tasks k' x) = (if x \<in> set ts \<and> state (tasks k x) \<noteq> TASK_STATE_CREATED then TASK_STATE_RUNNING
        else state (tasks k x)))"
proof (induction tick k arbitrary: rs rule: wake_due.induct)
  case (1 tick k)
  let ?E = "sq_elems (sleepers k)"
  have inv: "sq_inv (wake_key k) (sleepers k)" using 1(2) by (simp add: sched_ok_def)
  show ?case
  proof (cases "\<exists>t. sleep_queue_peek (sleepers k) = Some t \<and> \<not> tick < wake_key k t")
    case False
    have nd: "filter_mset (\<lambda>x. wake_key k x \<le> tick) ?E = {#}" "filter_mset (\<lambda>x. \<not> wake_key k x \<le> tick) ?E = ?E"
      using False by (intro sleepq.not_due [OF inv], force split: option.splits)+
    have "wake_due tick k = Some k"
      using False by (subst wake_due.simps) (auto simp: wake_key_def split: option.splits)
    with 1(2) nd show ?thesis by (intro exI [of _ k] exI [of _ "[]"]) simp
  next
    case True
    then obtain t where t: "sleep_queue_peek (sleepers k) = Some t" "\<not> tick < wake_tick (tasks k t)"
      by (auto simp: wake_key_def)
    from sleepq.pop_Some [OF inv t(1)] obtain h where
      h: "sleep_queue_pop (wake_key k) (sleepers k) = Some (Some t, h)" "sq_inv (wake_key k) h" "sq_elems h = ?E - {#t#}"
      by blast
    have tE: "t \<in># ?E" "\<forall>y \<in># ?E. wake_key k t \<le> wake_key k y"
      using sleepq.peek_Some [OF inv t(1)] by auto
    let ?k = "k\<lparr>sleepers := h\<rparr>"
    have wk: "wake_key ?k = wake_key k" by (rule wake_key_core) simp
    have s: "sched_ok ?k rs zs"
      using 1(2) h(2,3) by (auto simp: sched_ok_def wk dest: in_diffD intro: le_trans [OF diff_le_self])
    have "count ?E t \<le> 1" using 1(2) by (simp add: sched_ok_def)
    then have "t \<notin># sq_elems h" unfolding h(3) by (simp add: not_in_iff)
    then have nq: "\<not> queued ?k rs zs t"
      using 1(2) tE(1) by (auto simp: sched_ok_def queued_def)
    from enqueue_ready_spec [OF s nq] obtain k1 where
      k1: "enqueue_ready t ?k = Some k1" "sched_ok k1 (rs @ [t]) zs" "queues_only ?k k1" "sleepers k1 = sleepers ?k"
        "\<forall>x. state (tasks k1 x) = (if x = t \<and> state (tasks ?k t) \<noteq> TASK_STATE_CREATED then TASK_STATE_RUNNING
           else state (tasks ?k x))" by blast
    have k1h: "sleepers k1 = h" using k1(4) by simp
    have k1s: "state (tasks k1 x) = (if x = t \<and> state (tasks k t) \<noteq> TASK_STATE_CREATED then TASK_STATE_RUNNING
      else state (tasks k x))" for x using k1(5) by simp
    have q1: "queues_only k k1"
      using queues_onlyI(3) [of "tasks k" k h] k1(3) queues_only_trans [of k ?k k1] by simp
    have wk1: "wake_key k1 = wake_key k" using q1 by (rule queues_only_wake_key)
    from 1(1) [OF t(1) t(2) h(1) refl k1(1) k1(2)] obtain k' ts where
      k': "wake_due tick k1 = Some k'" "sched_ok k' ((rs @ [t]) @ ts) zs" "queues_only k1 k'"
        "sorted (map (wake_key k) ts)" "mset ts = filter_mset (\<lambda>t. wake_key k t \<le> tick) (?E - {#t#})"
        "sq_elems (sleepers k') = filter_mset (\<lambda>t. \<not> wake_key k t \<le> tick) (?E - {#t#})"
        "\<forall>x. state (tasks k' x) = (if x \<in> set ts \<and> state (tasks k1 x) \<noteq> TASK_STATE_CREATED then TASK_STATE_RUNNING
           else state (tasks k1 x))"
      unfolding wk1 k1h h(3) by blast
    have due: "wake_key k t \<le> tick" using t(2) by (simp add: wake_key_def not_less)
    have "wake_due tick k = Some k'"
      using t h(1) k1(1) k'(1) by (subst wake_due.simps) simp
    moreover have "queues_only k k'" using q1 k'(3) by (rule queues_only_trans)
    moreover have "set ts \<subseteq> set_mset ?E"
      using k'(5) by (metis (no_types, lifting) filter_mset_eq_conv in_diffD set_mset_mset subsetI mem_Collect_eq set_mset_filter)
    then have "sorted (map (wake_key k) (t # ts))" using k'(4) tE(2) by auto
    moreover have "mset (t # ts) = filter_mset (\<lambda>t. wake_key k t \<le> tick) ?E"
    proof -
      have "?E = add_mset t (?E - {#t#})" using tE(1) by simp
      then have "filter_mset (\<lambda>t. wake_key k t \<le> tick) ?E = filter_mset (\<lambda>t. wake_key k t \<le> tick) (add_mset t (?E - {#t#}))"
        by (rule arg_cong)
      then show ?thesis unfolding filter_mset_add_mset using due k'(5) by simp
    qed
    moreover have "sq_elems (sleepers k') = filter_mset (\<lambda>t. \<not> wake_key k t \<le> tick) ?E"
      using k'(6) due by simp
    moreover have "\<forall>x. state (tasks k' x) = (if x \<in> set (t # ts) \<and> state (tasks k x) \<noteq> TASK_STATE_CREATED
        then TASK_STATE_RUNNING else state (tasks k x))"
    proof
      fix x
      show "state (tasks k' x) = (if x \<in> set (t # ts) \<and> state (tasks k x) \<noteq> TASK_STATE_CREATED
        then TASK_STATE_RUNNING else state (tasks k x))"
        using k'(7) k1s [of x] by (cases "x \<in> set ts"; cases "x = t") auto
    qed
    moreover have "sched_ok k' (rs @ t # ts) zs" using k'(2) by simp
    ultimately show ?thesis by blast
  qed
qed

section \<open>Selection\<close>

text \<open>
  A task the selection meets twice: it is neither runnable, nor new, nor does it leave the ready
  queue for good.
\<close>

definition revisit :: "kernel \<Rightarrow> nat \<Rightarrow> nat" where
  "revisit k t = (if state (tasks k t) \<in> {TASK_STATE_STOPPED, TASK_STATE_BLOCKED, TASK_STATE_CLEANING} then 1 else 0)"

lemma requeue_spec:
  assumes "sched_ok k rs zs" "\<not> queued k rs zs n"
    "state (tasks k n) \<noteq> TASK_STATE_RUNNING" "state (tasks k n) \<noteq> TASK_STATE_CREATED"
  shows "\<exists>k' rs' zs'. requeue n k = Some k' \<and> sched_ok k' rs' zs' \<and> queues_only k k' \<and>
    (rs' = rs \<or> rs' = rs @ [n] \<and> revisit k n = 1 \<and> revisit k' n = 0) \<and>
    (\<forall>x. x \<noteq> n \<longrightarrow> state (tasks k' x) = state (tasks k x))"
proof -
  consider "state (tasks k n) = TASK_STATE_ZOMBIE" | "state (tasks k n) = TASK_STATE_SLEEPING" |
    "state (tasks k n) \<in> {TASK_STATE_STOPPED, TASK_STATE_BLOCKED, TASK_STATE_CLEANING}"
    using assms(3,4) by (cases "state (tasks k n)") auto
  then show ?thesis
  proof cases
    case 1
    with enqueue_zombie_spec [OF assms(1,2)] show ?thesis by (fastforce simp: requeue_def)
  next
    case 2
    with enqueue_sleeper_spec [OF assms(1,2)] show ?thesis by (fastforce simp: requeue_def)
  next
    case 3
    from enqueue_ready_spec [OF assms(1,2)] obtain k' where
      k': "enqueue_ready n k = Some k'" "sched_ok k' (rs @ [n]) zs" "queues_only k k'"
        "\<forall>x. state (tasks k' x) = (if x = n \<and> state (tasks k n) \<noteq> TASK_STATE_CREATED then TASK_STATE_RUNNING
           else state (tasks k x))" by blast
    have "requeue n k = Some k'" using 3 k'(1) by (auto simp: requeue_def)
    moreover have "revisit k n = 1" "revisit k' n = 0" using 3 k'(4) assms(4) by (auto simp: revisit_def)
    ultimately show ?thesis using k' by auto
  qed
qed

text \<open>The loop ends, with a runnable task, in a new task, or with an empty ready queue.\<close>

definition selected :: "kernel \<Rightarrow> nat list \<Rightarrow> nat list \<Rightarrow> nat \<Rightarrow> bool" where
  "selected k rs zs m \<longleftrightarrow> state (tasks k m) = TASK_STATE_RUNNING \<and> \<not> queued k rs zs m"

lemma switch_to_fields [simp]:
  "tasks (switch_to n k) = tasks k" "ready_queue (switch_to n k) = ready_queue k"
  "zombie_queue (switch_to n k) = zombie_queue k" "sleepers (switch_to n k) = sleepers k"
  "current (switch_to n k) = Some n" "irq (switch_to n k) = irq k" "cpu (switch_to n k) = cpu k"
  "pit (switch_to n k) = pit k"
  by (simp_all add: switch_to_def Let_def)

lemma sched_ok_switch_to [simp]: "sched_ok (switch_to n k) rs zs = sched_ok k rs zs"
  using sched_ok_cong [of k rs zs "switch_to n k"] sched_ok_cong [of "switch_to n k" rs zs k] by auto

lemma queued_switch_to [simp]: "queued (switch_to n k) rs zs t = queued k rs zs t"
  by (simp add: queued_def)

lemma task_start_impl_fields [simp]:
  "ready_queue (task_start_impl n k) = ready_queue k" "zombie_queue (task_start_impl n k) = zombie_queue k"
  "sleepers (task_start_impl n k) = sleepers k" "current (task_start_impl n k) = current k"
  "next (tasks (task_start_impl n k) x) = next (tasks k x)"
  "core (tasks (task_start_impl n k) x) = core (tasks k x)"
  "state (tasks (task_start_impl n k) x) = (if x = n then TASK_STATE_RUNNING else state (tasks k x))"
  "irq (task_start_impl n k) = \<lparr>disable_counter = disable_counter (irq k) - 1, interrupt_flag = True\<rparr>"
  by (simp_all add: task_start_impl_def Let_def set_state_def core_def)

lemma started_ok:
  assumes "sched_ok k rs zs" "\<not> queued k rs zs n"
  shows "sched_ok (task_start_impl n (switch_to n k)) rs zs" "selected (task_start_impl n (switch_to n k)) rs zs n"
proof -
  show "sched_ok (task_start_impl n (switch_to n k)) rs zs"
    using assms(1) by (intro sched_ok_cong [OF assms(1)]) simp_all
  show "selected (task_start_impl n (switch_to n k)) rs zs n"
    using assms(2) by (simp add: selected_def queued_def)
qed

lemma select_loop_spec:
  "sched_ok k rs zs \<Longrightarrow> \<not> queued k rs zs n \<Longrightarrow>
   \<exists>r k' rs' zs'. select_loop n k = Some (r, k') \<and> sched_ok k' rs' zs' \<and>
     (case r of Inl m \<Rightarrow> selected k' rs' zs' m \<and> queues_only k k'
      | Inr (Started m) \<Rightarrow> selected k' rs' zs' m \<and> current k' = Some m \<and>
          irq k' = \<lparr>disable_counter = disable_counter (irq k) - 1, interrupt_flag = True\<rparr>
      | Inr Panicked \<Rightarrow> rs' = [] \<and> queues_only k k' | Inr Returned \<Rightarrow> False)"
proof (induction "length rs + sum_list (map (revisit k) (n # rs))" arbitrary: k n rs zs rule: less_induct)
  case less
  note ok = less(2) and nq = less(3)
  consider "state (tasks k n) = TASK_STATE_RUNNING" | "state (tasks k n) = TASK_STATE_CREATED" |
    "state (tasks k n) \<noteq> TASK_STATE_RUNNING" "state (tasks k n) \<noteq> TASK_STATE_CREATED" by blast
  then show ?case
  proof cases
    case 1
    then have "select_loop n k = Some (Inl n, k)" by (simp add: select_loop.simps)
    with 1 ok nq show ?thesis by (fastforce simp: selected_def)
  next
    case 2
    then have "select_loop n k = Some (Inr (Started n), task_start_impl n (switch_to n k))"
      by (simp add: select_loop.simps)
    with started_ok [OF ok nq] show ?thesis by fastforce
  next
    case 3
    from requeue_spec [OF ok nq 3] obtain k1 rs1 zs1 where
      k1: "requeue n k = Some k1" "sched_ok k1 rs1 zs1" "queues_only k k1"
        "rs1 = rs \<or> rs1 = rs @ [n] \<and> revisit k n = 1 \<and> revisit k1 n = 0"
        "\<forall>x. x \<noteq> n \<longrightarrow> state (tasks k1 x) = state (tasks k x)" by blast
    have rv: "revisit k1 x = revisit k x" if "x \<noteq> n" for x using k1(5) that by (simp add: revisit_def)
    have nrs: "n \<notin> set rs" using nq by (simp add: queued_def)
    then have rs1: "map (revisit k1) rs = map (revisit k) rs" using rv by (metis (no_types, lifting) map_cong)
    show ?thesis
    proof (cases rs1)
      case Nil
      with k1 have "select_loop n k = Some (Inr Panicked, k1)"
        using 3 pop_ready_empty [of k1 zs1] by (simp add: select_loop.simps [of n k])
      with k1 Nil show ?thesis by fastforce
    next
      case (Cons m rs2)
      with k1(2) pop_ready_spec [of k1 m rs2 zs1] obtain k2 where
        k2: "pop_ready k1 = Some (Some m, k2)" "sched_ok k2 rs2 zs1" "queues_only k1 k2" "\<not> queued k2 rs2 zs1 m"
          "\<forall>x. state (tasks k2 x) = state (tasks k1 x)" by blast
      have q: "queues_only k k2" using k1(3) k2(3) by (rule queues_only_trans)
      have eq: "select_loop n k = select_loop m k2"
        using 3 k1(1) k2(1) by (simp add: select_loop.simps [of n k])
      have rv2: "revisit k2 = revisit k1" using k2(5) by (simp add: revisit_def fun_eq_iff)
      have "length rs2 + sum_list (map (revisit k2) (m # rs2)) < length rs + sum_list (map (revisit k) (n # rs))"
      proof -
        have "length rs2 + sum_list (map (revisit k1) rs1) < length rs + sum_list (map (revisit k) (n # rs))"
        proof (cases "rs1 = rs")
          case True
          with rs1 Cons show ?thesis by (metis add_less_le_mono le_add2 length_Cons lessI list.map(2) sum_list.Cons)
        next
          case False
          with k1(4) have f: "rs1 = rs @ [n]" "revisit k n = 1" "revisit k1 n = 0" by auto
          then have "length rs2 = length rs" using Cons by (metis length_append_singleton length_Cons nat.inject)
          moreover have "sum_list (map (revisit k1) rs1) = sum_list (map (revisit k) rs)"
            unfolding f(1) map_append rs1 by (simp add: f(3))
          ultimately show ?thesis using f(2) by simp
        qed
        then show ?thesis unfolding rv2 Cons .
      qed
      from less(1) [OF this k2(2,4)] obtain r k' rs' zs' where
        e: "select_loop m k2 = Some (r, k')" "sched_ok k' rs' zs'"
          "case r of Inl m \<Rightarrow> selected k' rs' zs' m \<and> queues_only k2 k'
           | Inr (Started m) \<Rightarrow> selected k' rs' zs' m \<and> current k' = Some m \<and>
               irq k' = \<lparr>disable_counter = disable_counter (irq k2) - 1, interrupt_flag = True\<rparr>
           | Inr Panicked \<Rightarrow> rs' = [] \<and> queues_only k2 k' | Inr Returned \<Rightarrow> False" by blast
      have "case r of Inl m \<Rightarrow> selected k' rs' zs' m \<and> queues_only k k'
           | Inr (Started m) \<Rightarrow> selected k' rs' zs' m \<and> current k' = Some m \<and>
               irq k' = \<lparr>disable_counter = disable_counter (irq k) - 1, interrupt_flag = True\<rparr>
           | Inr Panicked \<Rightarrow> rs' = [] \<and> queues_only k k' | Inr Returned \<Rightarrow> False"
      proof (cases r)
        case (Inr x)
        with e(3) queues_only_trans [OF q, of k'] queues_only_fields(2) [OF q] show ?thesis
          by (cases x) simp_all
      qed (use e(3) queues_only_trans [OF q, of k'] in simp)
      with e(1,2) show ?thesis unfolding eq by blast
    qed
  qed
qed

text \<open>
  The current task before a selection: in no queue, or asleep with a wake tick in the future.
\<close>

definition current_ok :: "u32 \<Rightarrow> kernel \<Rightarrow> nat list \<Rightarrow> nat list \<Rightarrow> bool" where
  "current_ok tick k rs zs \<longleftrightarrow> (\<forall>c. current k = Some c \<longrightarrow> \<not> queued k rs zs c \<or>
     c \<in># sq_elems (sleepers k) \<and> tick < wake_key k c \<and> state (tasks k c) = TASK_STATE_SLEEPING)"

lemma sched_ok_current [simp]: "sched_ok (k\<lparr>current := c\<rparr>) rs zs = sched_ok k rs zs"
  using sched_ok_cong [of k rs zs "k\<lparr>current := c\<rparr>"] sched_ok_cong [of "k\<lparr>current := c\<rparr>" rs zs k] by auto

lemma queued_current [simp]: "queued (k\<lparr>current := c\<rparr>) rs zs t = queued k rs zs t"
  by (simp add: queued_def)

lemma round_robin_spec:
  assumes "sched_ok k rs zs" "current_ok tick k rs zs"
  shows "\<exists>r k' rs' zs'. round_robin tick k = Some (r, k') \<and> sched_ok k' rs' zs' \<and>
    (case r of
       Returned \<Rightarrow> \<exists>m. current k' = Some m \<and> selected k' rs' zs' m \<and> irq k' = irq k
     | Started m \<Rightarrow> current k' = Some m \<and> selected k' rs' zs' m \<and>
         irq k' = \<lparr>disable_counter = disable_counter (irq k) - 1, interrupt_flag = True\<rparr>
     | Panicked \<Rightarrow> rs' = [])"
proof -
  from wake_due_spec [OF assms(1), of tick] obtain k1 ts where
    k1: "wake_due tick k = Some k1" "sched_ok k1 (rs @ ts) zs" "queues_only k k1"
      "mset ts = filter_mset (\<lambda>t. wake_key k t \<le> tick) (sq_elems (sleepers k))"
      "sq_elems (sleepers k1) = filter_mset (\<lambda>t. \<not> wake_key k t \<le> tick) (sq_elems (sleepers k))"
      "\<forall>x. state (tasks k1 x) = (if x \<in> set ts \<and> state (tasks k x) \<noteq> TASK_STATE_CREATED then TASK_STATE_RUNNING
         else state (tasks k x))" by blast
  have ts: "x \<in> set ts \<longleftrightarrow> x \<in># sq_elems (sleepers k) \<and> wake_key k x \<le> tick" for x
    using arg_cong [OF k1(4), of set_mset] by auto
  have cur: "\<not> queued k1 (rs @ ts) zs c" if "current k1 = Some c" "state (tasks k1 c) = TASK_STATE_RUNNING" for c
  proof -
    have "current k = Some c" using that(1) queues_only_fields(1) [OF k1(3)] by simp
    then consider "\<not> queued k rs zs c" | "tick < wake_key k c" "state (tasks k c) = TASK_STATE_SLEEPING"
      using assms(2) by (auto simp: current_ok_def)
    then show ?thesis
    proof cases
      case 1
      then show ?thesis using ts k1(5) by (auto simp: queued_def)
    next
      case 2
      then have "c \<notin> set ts" using ts by auto
      with 2 that(2) k1(6) show ?thesis by simp
    qed
  qed
  define upd where "upd = (case current k1 of
      Some c \<Rightarrow> if state (tasks k1 c) = TASK_STATE_RUNNING
        then map_option (\<lambda>k. k\<lparr>current := None\<rparr>) (enqueue_ready c k1) else Some k1
    | None \<Rightarrow> Some k1)"
  have "\<exists>k2 rs2. upd = Some k2 \<and> sched_ok k2 rs2 zs \<and> irq k2 = irq k"
  proof (cases "\<exists>c. current k1 = Some c \<and> state (tasks k1 c) = TASK_STATE_RUNNING")
    case True
    then obtain c where c: "current k1 = Some c" "state (tasks k1 c) = TASK_STATE_RUNNING" by blast
    from enqueue_ready_spec [OF k1(2) cur [OF c]] obtain k2 where
      k2: "enqueue_ready c k1 = Some k2" "sched_ok k2 ((rs @ ts) @ [c]) zs" "queues_only k1 k2" by blast
    then have "upd = Some (k2\<lparr>current := None\<rparr>)" using c by (simp add: upd_def)
    moreover have "irq (k2\<lparr>current := None\<rparr>) = irq k"
      using queues_only_fields(2) [OF k2(3)] queues_only_fields(2) [OF k1(3)] by simp
    ultimately show ?thesis using k2(2) sched_ok_current by blast
  next
    case False
    then have "upd = Some k1" by (auto simp: upd_def split: option.splits)
    with k1(2) queues_only_fields(2) [OF k1(3)] show ?thesis by auto
  qed
  then obtain k2 rs2 where k2: "upd = Some k2" "sched_ok k2 rs2 zs" "irq k2 = irq k" by blast
  have rr: "round_robin tick k = (case pop_ready k2 of None \<Rightarrow> None
      | Some (None, k) \<Rightarrow> Some (Panicked, k)
      | Some (Some n, k) \<Rightarrow>
        if state (tasks k n) = TASK_STATE_CREATED then Some (Started n, task_start_impl n (switch_to n k))
        else case select_loop n k of None \<Rightarrow> None
        | Some (Inr r, k) \<Rightarrow> Some (r, k)
        | Some (Inl n, k) \<Rightarrow> Some (Returned, if current k \<noteq> Some n then switch_to n k else k))"
    unfolding round_robin_def k1(1) option.case upd_def [symmetric] k2(1) ..
  show ?thesis
  proof (cases rs2)
    case Nil
    with k2 have "round_robin tick k = Some (Panicked, k2)" using pop_ready_empty [of k2 zs] by (simp add: rr)
    with k2 Nil show ?thesis by fastforce
  next
    case (Cons n rs3)
    with k2(2) pop_ready_spec [of k2 n rs3 zs] obtain k3 where
      k3: "pop_ready k2 = Some (Some n, k3)" "sched_ok k3 rs3 zs" "queues_only k2 k3" "\<not> queued k3 rs3 zs n" by blast
    have i3: "irq k3 = irq k" using queues_only_fields(2) [OF k3(3)] k2(3) by simp
    show ?thesis
    proof (cases "state (tasks k3 n) = TASK_STATE_CREATED")
      case True
      then have "round_robin tick k = Some (Started n, task_start_impl n (switch_to n k3))" using k3(1) by (simp add: rr)
      with started_ok [OF k3(2,4)] i3 show ?thesis by fastforce
    next
      case False
      from select_loop_spec [OF k3(2,4)] obtain r k4 rs4 zs4 where
        k4: "select_loop n k3 = Some (r, k4)" "sched_ok k4 rs4 zs4"
          "case r of Inl m \<Rightarrow> selected k4 rs4 zs4 m \<and> queues_only k3 k4
           | Inr (Started m) \<Rightarrow> selected k4 rs4 zs4 m \<and> current k4 = Some m \<and>
               irq k4 = \<lparr>disable_counter = disable_counter (irq k3) - 1, interrupt_flag = True\<rparr>
           | Inr Panicked \<Rightarrow> rs4 = [] \<and> queues_only k3 k4 | Inr Returned \<Rightarrow> False" by blast
      show ?thesis
      proof (cases r)
        case (Inl m)
        let ?k = "if current k4 \<noteq> Some m then switch_to m k4 else k4"
        have "round_robin tick k = Some (Returned, ?k)" using k3(1) k4(1) False Inl by (simp add: rr)
        moreover have "sched_ok ?k rs4 zs4" "current ?k = Some m" using k4(2) by auto
        moreover have "selected ?k rs4 zs4 m" using k4(3) Inl by (simp add: selected_def)
        moreover have "irq ?k = irq k" using k4(3) Inl i3 queues_only_fields(2) [of k3 k4] by simp
        ultimately show ?thesis by fastforce
      next
        case (Inr x)
        have "round_robin tick k = Some (x, k4)" using k3(1) k4(1) False Inr by (simp add: rr)
        with k4 Inr i3 show ?thesis by (cases x) fastforce+
      qed
    qed
  qed
qed

section \<open>The calls of the scheduler keep the queues in order\<close>

lemma sq_inv_cong:
  assumes "sq_inv key h" "\<And>x. x \<in># sq_elems h \<Longrightarrow> key' x = key x"
  shows "sq_inv key' h"
proof -
  have "sq_data h ! i \<in># sq_elems h" if "i < sq_size h" for i
  proof -
    have "i < length (take (sq_size h) (sq_data h))" using that assms(1) by (simp add: sq_inv_def)
    from nth_mem [OF this] that show ?thesis by (simp add: sq_elems_def)
  qed
  then have "key' (sq_data h ! i) = key (sq_data h ! i)" if "i < sq_size h" for i using that assms(2) by blast
  moreover have "(i - 1) div 2 < sq_size h" if "i < sq_size h" for i
    using that div_le_dividend [of "i - 1" 2] by linarith
  ultimately have "heap_ordered key' (sq_size h) (sq_data h) \<longleftrightarrow> heap_ordered key (sq_size h) (sq_data h)"
    by (simp add: heap_ordered_def)
  then show ?thesis using assms(1) by (simp add: sq_inv_def)
qed

lemma sched_ok_tasks:
  assumes "sched_ok k rs zs" "\<And>t. next (tasks k' t) = next (tasks k t)"
    "\<And>t. t \<in># sq_elems (sleepers k) \<Longrightarrow> wake_tick (tasks k' t) = wake_tick (tasks k t)"
    "ready_queue k' = ready_queue k" "zombie_queue k' = zombie_queue k" "sleepers k' = sleepers k"
  shows "sched_ok k' rs zs"
proof -
  have "sq_inv (wake_key k') (sleepers k)"
  proof (rule sq_inv_cong)
    show "sq_inv (wake_key k) (sleepers k)" using assms(1) by (simp add: sched_ok_def)
  qed (simp add: wake_key_def assms(3))
  moreover have "queue_rep (tasks k', ready_queue k) rs" "queue_rep (tasks k', zombie_queue k) zs"
    using assms(1) by (auto simp: sched_ok_def assms(2) intro: queue_rep_cong)
  ultimately show ?thesis using assms(1) by (simp add: sched_ok_def assms(4-6))
qed

lemma save_current_fields [simp]:
  "ready_queue (save_current c k) = ready_queue k" "zombie_queue (save_current c k) = zombie_queue k"
  "sleepers (save_current c k) = sleepers k" "current (save_current c k) = current k"
  "irq (save_current c k) = irq k" "pit (save_current c k) = pit k"
  "next (tasks (save_current c k) t) = next (tasks k t)" "state (tasks (save_current c k) t) = state (tasks k t)"
  "wake_tick (tasks (save_current c k) t) = wake_tick (tasks k t)"
  by (simp_all add: save_current_def)

lemma restore_current_fields [simp]:
  "ready_queue (restore_current c k) = ready_queue k" "zombie_queue (restore_current c k) = zombie_queue k"
  "sleepers (restore_current c k) = sleepers k" "current (restore_current c k) = current k"
  "irq (restore_current c k) = irq k" "tasks (restore_current c k) = tasks k"
  by (simp_all add: restore_current_def)

lemma enable_counter: "disable_counter (enable_interrupts i) = disable_counter i - 1"
  by (simp add: enable_interrupts_def Let_def)

definition running_ok :: "kernel \<Rightarrow> nat list \<Rightarrow> nat list \<Rightarrow> bool" where
  "running_ok k rs zs \<longleftrightarrow> sched_ok k rs zs \<and> (\<exists>c. current k = Some c \<and> selected k rs zs c)"

text \<open>What holds after a call that was made at nesting depth \<open>d\<close>.\<close>

definition call_ok :: "int \<Rightarrow> outcome \<Rightarrow> kernel \<Rightarrow> nat list \<Rightarrow> nat list \<Rightarrow> bool" where
  "call_ok d r k rs zs \<longleftrightarrow>
     (if r = Panicked then rs = [] else running_ok k rs zs \<and> disable_counter (irq k) = d) \<and>
     (\<forall>m. r = Started m \<longrightarrow> current k = Some m)"

lemma switch_task_spec:
  assumes "sched_ok k rs zs" "current k = Some c" "current_ok tick k rs zs"
  shows "\<exists>r k' rs' zs'. switch_task tick k = Some (r, k') \<and> call_ok (disable_counter (irq k)) r k' rs' zs'"
proof -
  let ?k = "save_current c (k\<lparr>irq := disable_interrupts (irq k)\<rparr>)"
  have s: "sched_ok ?k rs zs" by (rule sched_ok_tasks [OF assms(1)]) simp_all
  have "current_ok tick ?k rs zs" using assms(3) by (simp add: current_ok_def queued_def wake_key_def)
  from round_robin_spec [OF s this] obtain r k1 rs' zs' where
    k1: "round_robin tick ?k = Some (r, k1)" "sched_ok k1 rs' zs'"
      "case r of Returned \<Rightarrow> \<exists>m. current k1 = Some m \<and> selected k1 rs' zs' m \<and> irq k1 = irq ?k
       | Started m \<Rightarrow> current k1 = Some m \<and> selected k1 rs' zs' m \<and>
           irq k1 = \<lparr>disable_counter = disable_counter (irq ?k) - 1, interrupt_flag = True\<rparr>
       | Panicked \<Rightarrow> rs' = []" by blast
  show ?thesis
  proof (cases r)
    case Returned
    then obtain m where m: "current k1 = Some m" "selected k1 rs' zs' m" "irq k1 = irq ?k" using k1(3) by auto
    let ?r = "restore_current m k1\<lparr>irq := enable_interrupts (irq k1)\<rparr>"
    have "switch_task tick k = Some (Returned, ?r)"
      using assms(2) k1(1) Returned m(1) by (simp add: switch_task_def Let_def)
    moreover have "sched_ok ?r rs' zs'" by (rule sched_ok_tasks [OF k1(2)]) simp_all
    then have "running_ok ?r rs' zs'" using m by (auto simp: running_ok_def selected_def queued_def)
    moreover have "disable_counter (irq ?r) = disable_counter (irq k)" using m(3) by (simp add: enable_counter)
    ultimately show ?thesis by (fastforce simp: call_ok_def)
  next
    case (Started m)
    then have "switch_task tick k = Some (Started m, k1)"
      using assms(2) k1(1) by (simp add: switch_task_def Let_def)
    moreover have "running_ok k1 rs' zs'" "disable_counter (irq k1) = disable_counter (irq k)" "current k1 = Some m"
      using k1 Started by (auto simp: running_ok_def)
    ultimately show ?thesis by (fastforce simp: call_ok_def)
  next
    case Panicked
    then have "switch_task tick k = Some (Panicked, k1)"
      using assms(2) k1(1) by (simp add: switch_task_def Let_def)
    moreover have "rs' = []" using k1(3) Panicked by simp
    ultimately show ?thesis by (fastforce simp: call_ok_def)
  qed
qed

lemma scheduler_schedule_spec:
  assumes "sched_ok k rs zs" "current_ok tick k rs zs" "current k \<noteq> None \<or> rs \<noteq> []"
  shows "\<exists>r k' rs' zs'. scheduler_schedule tick k = Some (r, k') \<and> call_ok (disable_counter (irq k)) r k' rs' zs'"
proof (cases "current k")
  case None
  with assms(3) obtain t rs2 where "rs = t # rs2" by (cases rs) auto
  with assms(1) pop_ready_spec [of k t rs2 zs] obtain k1 where
    k1: "pop_ready k = Some (Some t, k1)" "sched_ok k1 rs2 zs" "queues_only k k1" "\<not> queued k1 rs2 zs t" by blast
  have "scheduler_schedule tick k = switch_task tick (k1\<lparr>current := Some t\<rparr>)"
    using None k1(1) by (simp add: scheduler_schedule_def)
  moreover have "current_ok tick (k1\<lparr>current := Some t\<rparr>) rs2 zs" using k1(4) by (simp add: current_ok_def)
  moreover have "irq (k1\<lparr>current := Some t\<rparr>) = irq k" using queues_only_fields(2) [OF k1(3)] by simp
  ultimately show ?thesis
    using switch_task_spec [of "k1\<lparr>current := Some t\<rparr>" rs2 zs t tick] k1(2) by simp
next
  case (Some c)
  with switch_task_spec [OF assms(1) Some assms(2)] show ?thesis by (simp add: scheduler_schedule_def)
qed

lemma running_current_ok: "running_ok k rs zs \<Longrightarrow> current_ok tick k rs zs"
  by (auto simp: running_ok_def current_ok_def selected_def)

text \<open>The state in which \<open>scheduler_sleep\<close> calls the scheduler.\<close>

lemma sleep_enqueues:
  assumes "running_ok k rs zs" "current k = Some c"
  shows "\<exists>k'. scheduler_sleep ms k = scheduler_schedule (ticks (pit k)) k' \<and> sched_ok k' rs zs \<and>
    current k' = Some c \<and> disable_counter (irq k') = disable_counter (irq k) \<and>
    sq_elems (sleepers k') = (if sq_room (sleepers k) then add_mset c (sq_elems (sleepers k)) else sq_elems (sleepers k)) \<and>
    (\<forall>x. state (tasks k' x) = (if x = c then TASK_STATE_SLEEPING else state (tasks k x))) \<and>
    (\<forall>x. wake_key k' x = (if x = c then ticks (pit k) + sleep_ticks ms (ucast (hz_frequency (pit k))) else wake_key k x))"
proof -
  have c: "current k = Some c" "selected k rs zs c" and s: "sched_ok k rs zs"
    using assms by (auto simp: running_ok_def)
  define w where "w = ticks (pit k) + sleep_ticks ms (ucast (hz_frequency (pit k)))"
  define k1 where "k1 = k\<lparr>irq := disable_interrupts (irq k), tasks := (tasks k)(c := (tasks k c)\<lparr>wake_tick := w\<rparr>)\<rparr>"
  have nq: "\<not> queued k rs zs c" using c(2) by (simp add: selected_def)
  have s1: "sched_ok k1 rs zs"
    by (rule sched_ok_tasks [OF s]) (use nq in \<open>auto simp: k1_def queued_def\<close>)
  have nq1: "\<not> queued k1 rs zs c" using nq by (simp add: k1_def queued_def)
  from enqueue_sleeper_spec [OF s1 nq1] obtain k2 where
    k2: "enqueue_sleeper c k1 = Some k2" "sched_ok k2 rs zs" "queues_only k1 k2"
      "sq_elems (sleepers k2) = (if sq_room (sleepers k1) then add_mset c (sq_elems (sleepers k1)) else sq_elems (sleepers k1))"
      "\<forall>x. state (tasks k2 x) = (if x = c then TASK_STATE_SLEEPING else state (tasks k1 x))" by blast
  let ?k = "k2\<lparr>irq := enable_interrupts (irq k2)\<rparr>"
  have "scheduler_sleep ms k = scheduler_schedule (ticks (pit k)) ?k"
    using c(1) k2(1) by (simp add: scheduler_sleep_def Let_def k1_def w_def
        programable_interval_timer_get_tick_def programable_interval_timer_get_hz_def)
  moreover have "sched_ok ?k rs zs" by (rule sched_ok_tasks [OF k2(2)]) simp_all
  moreover have "current ?k = Some c" using queues_only_fields(1) [OF k2(3)] c(1) by (simp add: k1_def)
  moreover have "wake_key ?k x = (if x = c then w else wake_key k x)" for x
    using queues_only_wake_key [OF k2(3)] by (simp add: wake_key_def k1_def fun_eq_iff split: if_splits)
  moreover have "irq k2 = irq k1" using queues_only_fields(2) [OF k2(3)] .
  then have "disable_counter (irq ?k) = disable_counter (irq k)" by (simp add: enable_counter k1_def)
  moreover have "sleepers k1 = sleepers k" "\<forall>x. state (tasks k1 x) = state (tasks k x)" by (simp_all add: k1_def)
  ultimately show ?thesis using k2(4,5) by (intro exI [of _ ?k]) (simp add: w_def)
qed

lemma scheduler_sleep_spec:
  assumes "running_ok k rs zs"
    "ticks (pit k) < ticks (pit k) + sleep_ticks ms (ucast (hz_frequency (pit k)))"
  shows "\<exists>r k' rs' zs'. scheduler_sleep ms k = Some (r, k') \<and> call_ok (disable_counter (irq k)) r k' rs' zs'"
proof -
  obtain c where c: "current k = Some c" "\<not> queued k rs zs c"
    using assms(1) by (auto simp: running_ok_def selected_def)
  from sleep_enqueues [OF assms(1) c(1)] obtain k1 where
    k1: "scheduler_sleep ms k = scheduler_schedule (ticks (pit k)) k1" "sched_ok k1 rs zs" "current k1 = Some c"
      "disable_counter (irq k1) = disable_counter (irq k)"
      "sq_elems (sleepers k1) = (if sq_room (sleepers k) then add_mset c (sq_elems (sleepers k)) else sq_elems (sleepers k))"
      "\<forall>x. state (tasks k1 x) = (if x = c then TASK_STATE_SLEEPING else state (tasks k x))"
      "\<forall>x. wake_key k1 x = (if x = c then ticks (pit k) + sleep_ticks ms (ucast (hz_frequency (pit k))) else wake_key k x)"
    by blast
  have "current_ok (ticks (pit k)) k1 rs zs"
  proof (cases "sq_room (sleepers k)")
    case True
    then show ?thesis using k1(3,5,6,7) assms(2) by (simp add: current_ok_def)
  next
    case False
    then have "\<not> queued k1 rs zs c" using k1(5) c(2) by (simp add: queued_def)
    then show ?thesis using k1(3) by (simp add: current_ok_def)
  qed
  then show ?thesis using scheduler_schedule_spec [OF k1(2)] k1(1,3,4) by (metis option.distinct(1))
qed

lemma scheduler_exit_spec:
  assumes "running_ok k rs zs"
  shows "\<exists>r k' rs' zs'. scheduler_exit k = Some (Inr r, k') \<and> call_ok (disable_counter (irq k)) r k' rs' zs'"
proof -
  obtain c where c: "current k = Some c" "\<not> queued k rs zs c" and s: "sched_ok k rs zs"
    using assms by (auto simp: running_ok_def selected_def)
  let ?k = "set_state c TASK_STATE_ZOMBIE k"
  have "sched_ok ?k rs zs" "current ?k = Some c" "current_ok (ticks (pit k)) ?k rs zs"
    using s c by (simp_all add: current_ok_def)
  from switch_task_spec [OF this] obtain r k' rs' zs' where
    "switch_task (ticks (pit k)) ?k = Some (r, k')" "call_ok (disable_counter (irq ?k)) r k' rs' zs'" by blast
  then show ?thesis using c(1)
    by (auto simp: scheduler_exit_def programable_interval_timer_get_tick_def)
qed

lemma scheduler_add_spec:
  assumes "sched_ok k rs zs" "\<not> queued k rs zs t"
  shows "\<exists>k'. scheduler_add (Some t) k = Some (0, k') \<and> sched_ok k' (rs @ [t]) zs \<and> queues_only k k' \<and>
    sleepers k' = sleepers k \<and> (\<forall>x. x \<noteq> t \<longrightarrow> state (tasks k' x) = state (tasks k x))"
  using enqueue_ready_spec [OF assms] by (fastforce simp: scheduler_add_def)

section \<open>The scheduler as a transition system\<close>

text \<open>A task that is neither running nor queued, so that it may be added.\<close>

definition fresh :: "kernel \<Rightarrow> nat \<Rightarrow> bool" where
  "fresh k t \<longleftrightarrow> current k \<noteq> Some t \<and> (\<forall>rs zs. sched_ok k rs zs \<longrightarrow> \<not> queued k rs zs t)"

text \<open>
  The steps: a timer interrupt or a yield at any tick, a call to sleep (whose wake tick does not wrap
  around), the end of the running task, a new task, the running task computing, the clock.
\<close>

inductive sched_step :: "kernel \<Rightarrow> kernel \<Rightarrow> bool" where
  step_schedule: "scheduler_schedule tick k = Some (r, k') \<Longrightarrow> r \<noteq> Panicked \<Longrightarrow> sched_step k k'"
| step_sleep: "scheduler_sleep ms k = Some (r, k') \<Longrightarrow> r \<noteq> Panicked \<Longrightarrow>
    ticks (pit k) < ticks (pit k) + sleep_ticks ms (ucast (hz_frequency (pit k))) \<Longrightarrow> sched_step k k'"
| step_exit: "scheduler_exit k = Some (Inr r, k') \<Longrightarrow> r \<noteq> Panicked \<Longrightarrow> sched_step k k'"
| step_add: "fresh k t \<Longrightarrow> scheduler_add (Some t) k = Some (i, k') \<Longrightarrow> sched_step k k'"
| step_run: "sched_step k (k\<lparr>cpu := r\<rparr>)"
| step_clock: "sched_step k (k\<lparr>pit := snd (snd (timer_handle (pit k)))\<rparr>)"

inductive_cases sched_stepE: "sched_step k k'"

text \<open>After \<open>scheduler_init\<close> has set up the queues, and what can be reached from there.\<close>

definition scheduler_fresh :: "kernel \<Rightarrow> bool" where
  "scheduler_fresh k \<longleftrightarrow> ready_queue k = task_queue_init \<and> zombie_queue k = task_queue_init \<and>
     sleepers k = sleep_queue_init (replicate MAX_SLEEP_TASKS 0) MAX_SLEEP_TASKS \<and> current k = None \<and>
     disable_counter (irq k) = 0"

inductive sched_reachable :: "kernel \<Rightarrow> bool" where
  reach_start: "scheduler_fresh k \<Longrightarrow> sched_reachable k"
| reach_step: "sched_reachable k \<Longrightarrow> sched_step k k' \<Longrightarrow> sched_reachable k'"

definition sched_wf :: "kernel \<Rightarrow> nat list \<Rightarrow> nat list \<Rightarrow> bool" where
  "sched_wf k rs zs \<longleftrightarrow> disable_counter (irq k) = 0 \<and> sched_ok k rs zs \<and>
     (\<forall>c. current k = Some c \<longrightarrow> selected k rs zs c)"

lemma sched_wf_fresh:
  assumes "scheduler_fresh k"
  shows "sched_wf k [] []"
  using assms sleep_queue_init_inv [of "replicate MAX_SLEEP_TASKS (0 :: nat)" MAX_SLEEP_TASKS]
  by (simp add: scheduler_fresh_def sched_wf_def sched_ok_def task_queue_init_rep)

lemma sched_wf_call: "call_ok 0 r k rs zs \<Longrightarrow> r \<noteq> Panicked \<Longrightarrow> sched_wf k rs zs"
  by (auto simp: call_ok_def running_ok_def sched_wf_def)

lemma sched_wf_current_ok: "sched_wf k rs zs \<Longrightarrow> current_ok tick k rs zs"
  by (auto simp: sched_wf_def current_ok_def selected_def)

lemma task_queue_unique: "queue_rep s xs \<Longrightarrow> queue_rep s ys \<Longrightarrow> xs = ys"
  by (auto simp: queue_rep_def intro: path_unique)

lemma sched_step_wf:
  assumes "sched_step k k'" "sched_wf k rs zs"
  shows "\<exists>rs' zs'. sched_wf k' rs' zs'"
proof -
  have s: "sched_ok k rs zs" and d: "disable_counter (irq k) = 0" using assms(2) by (auto simp: sched_wf_def)
  have run: "running_ok k rs zs" if "current k \<noteq> None"
    using that assms(2) by (auto simp: running_ok_def sched_wf_def)
  from assms(1) show ?thesis
  proof (cases rule: sched_step.cases)
    case (step_schedule tick r)
    note 1 = step_schedule
    have "current k \<noteq> None \<or> rs \<noteq> []"
    proof (rule ccontr)
      assume *: "\<not> (current k \<noteq> None \<or> rs \<noteq> [])"
      then have "pop_ready k = Some (None, k)" using s pop_ready_empty by blast
      with * have "scheduler_schedule tick k = None" by (simp add: scheduler_schedule_def switch_task_def Let_def)
      with 1(1) show False by simp
    qed
    from scheduler_schedule_spec [OF s sched_wf_current_ok [OF assms(2)] this, of tick] 1 d
    show ?thesis by (auto dest: sched_wf_call)
  next
    case (step_sleep ms r)
    note 2 = step_sleep
    then have "current k \<noteq> None" by (auto simp: scheduler_sleep_def Let_def split: option.splits)
    from scheduler_sleep_spec [OF run [OF this] 2(3)] 2 d show ?thesis by (auto dest: sched_wf_call)
  next
    case (step_exit r)
    note 3 = step_exit
    then have "current k \<noteq> None" by (auto simp: scheduler_exit_def split: option.splits)
    from scheduler_exit_spec [OF run [OF this]] 3 d show ?thesis by (auto dest: sched_wf_call)
  next
    case (step_add t i)
    note 4 = step_add
    then have nq: "\<not> queued k rs zs t" "current k \<noteq> Some t" using s by (auto simp: fresh_def)
    from scheduler_add_spec [OF s nq(1)] 4(2) have
      k': "sched_ok k' (rs @ [t]) zs" "queues_only k k'" "sleepers k' = sleepers k"
        "\<forall>x. x \<noteq> t \<longrightarrow> state (tasks k' x) = state (tasks k x)" by auto
    have "selected k' (rs @ [t]) zs c" if "current k' = Some c" for c
    proof -
      have "current k = Some c" using that queues_only_fields(1) [OF k'(2)] by simp
      then have "selected k rs zs c" "c \<noteq> t" using assms(2) nq(2) by (auto simp: sched_wf_def)
      then show ?thesis using k'(3,4) by (simp add: selected_def queued_def)
    qed
    then have "sched_wf k' (rs @ [t]) zs"
      using k'(1) d queues_only_fields(2) [OF k'(2)] by (simp add: sched_wf_def)
    then show ?thesis by blast
  next
    case (step_run r)
    note 5 = step_run
    have "sched_ok k' rs zs" by (rule sched_ok_tasks [OF s]) (simp_all add: 5)
    with assms(2) show ?thesis by (auto simp: sched_wf_def selected_def queued_def 5)
  next
    case step_clock
    note 6 = step_clock
    have "sched_ok k' rs zs" by (rule sched_ok_tasks [OF s]) (simp_all add: 6)
    with assms(2) show ?thesis by (auto simp: sched_wf_def selected_def queued_def 6)
  qed
qed

lemma sched_reachable_wf: "sched_reachable k \<Longrightarrow> \<exists>rs zs. sched_wf k rs zs"
proof (induction rule: sched_reachable.induct)
  case (reach_start k)
  then show ?case using sched_wf_fresh by blast
next
  case (reach_step k k')
  then show ?case using sched_step_wf by blast
qed

end
