(* ===== verification/Round_Robin.thy ===== *)
theory Round_Robin
  imports Scheduler
begin

text \<open>
  What round-robin scheduling guarantees to the tasks: the order in which they run, that a task gets
  its registers back, and where the scheduler loses tasks.
\<close>

section \<open>One switch among runnable tasks\<close>

lemma wake_due_none:
  assumes "sched_ok k rs zs" "\<forall>t \<in># sq_elems (sleepers k). tick < wake_key k t"
  shows "wake_due tick k = Some k"
proof -
  have inv: "sq_inv (wake_key k) (sleepers k)" using assms(1) by (simp add: sched_ok_def)
  have "tick < wake_tick (tasks k t)" if "sleep_queue_peek (sleepers k) = Some t" for t
    using sleepq.peek_Some [OF inv that] assms(2) by (simp add: wake_key_def)
  then show ?thesis by (subst wake_due.simps) (simp split: option.split)
qed

lemma round_robin_rotate:
  assumes ok: "sched_ok k rs zs" and c: "current k = Some c" "selected k rs zs c"
    and run: "\<forall>t \<in> set rs. state (tasks k t) = TASK_STATE_RUNNING"
    and due: "\<forall>t \<in># sq_elems (sleepers k). tick < wake_key k t" and n: "rs @ [c] = n # rest"
  shows "\<exists>k1. round_robin tick k = Some (Returned, switch_to n (k1\<lparr>current := None\<rparr>)) \<and> sched_ok k1 rest zs \<and>
    queues_only k k1 \<and> sleepers k1 = sleepers k \<and> (\<forall>x. state (tasks k1 x) = state (tasks k x)) \<and>
    \<not> queued k1 rest zs n"
proof -
  have cr: "state (tasks k c) = TASK_STATE_RUNNING" and nq: "\<not> queued k rs zs c"
    using c(2) by (auto simp: selected_def)
  from enqueue_ready_spec [OF ok nq] obtain k1 where
    k1: "enqueue_ready c k = Some k1" "sched_ok k1 (rs @ [c]) zs" "queues_only k k1" "sleepers k1 = sleepers k"
      "\<forall>x. state (tasks k1 x) = state (tasks k x)" using cr by fastforce
  have "sched_ok (k1\<lparr>current := None\<rparr>) (n # rest) zs" using k1(2) n by simp
  from pop_ready_spec [OF this] obtain k2 where
    k2: "pop_ready (k1\<lparr>current := None\<rparr>) = Some (Some n, k2)" "sched_ok k2 rest zs" "queues_only (k1\<lparr>current := None\<rparr>) k2"
      "sleepers k2 = sleepers k1" "\<not> queued k2 rest zs n" "\<forall>x. state (tasks k2 x) = state (tasks k1 x)" by auto
  have "n \<in> set (rs @ [c])" using n by simp
  then have nr: "state (tasks k2 n) = TASK_STATE_RUNNING" using run cr k1(5) k2(6) by auto
  then have "select_loop n k2 = Some (Inl n, k2)" by (simp add: select_loop.simps)
  moreover have cn: "current k2 = None" using queues_only_fields(1) [OF k2(3)] by simp
  ultimately have rr: "round_robin tick k = Some (Returned, switch_to n k2)"
    using wake_due_none [OF ok due] c cr k1(1) k2(1) nr by (simp add: round_robin_def)
  let ?k = "k2\<lparr>current := current k1\<rparr>"
  have q: "queues_only k1 ?k"
  proof -
    obtain T r z h where
      "k2 = (k1\<lparr>current := None\<rparr>)\<lparr>tasks := T, ready_queue := r, zombie_queue := z, sleepers := h\<rparr>"
      using k2(3) by (auto simp: queues_only_def)
    then have "?k = k1\<lparr>tasks := T, ready_queue := r, zombie_queue := z, sleepers := h\<rparr>" by simp
    moreover have "\<forall>t. core (tasks ?k t) = core (tasks k1 t)" using k2(3) by (simp add: queues_only_def)
    ultimately show ?thesis unfolding queues_only_def by blast
  qed
  have "?k\<lparr>current := None\<rparr> = k2" using cn by simp
  with rr have "round_robin tick k = Some (Returned, switch_to n (?k\<lparr>current := None\<rparr>))" by simp
  moreover have "queues_only k ?k" using k1(3) q by (rule queues_only_trans)
  ultimately show ?thesis
    using k2 k1 by (intro exI [of _ ?k]) simp
qed

text \<open>The registers a switch saves and restores.\<close>

definition saved_registers ::
  "task_context \<Rightarrow> u32 \<times> u32 \<times> u32 \<times> u32 \<times> u32 \<times> u32 \<times> u32 \<times> u32 \<times> u8 list" where
  "saved_registers r = (ebx r, ecx r, edx r, esi r, edi r, esp r, ebp r, eflags r, fpu_state r)"

lemma saved_registers_simps [simp]:
  "saved_registers (task_save_context r c) = saved_registers r"
  "saved_registers (task_restore_context c r) = saved_registers c"
  by (simp_all add: saved_registers_def task_save_context_def task_restore_context_def)

lemma switch_to_cr3: "cr3 (km (switch_to n (k\<lparr>current := None\<rparr>))) = physical_cr3 (tasks k n)"
  by (simp add: switch_to_def paging_manager_set_cr3_def Let_def)

definition runnable :: "kernel \<Rightarrow> nat list \<Rightarrow> bool" where
  "runnable k rs \<longleftrightarrow> (\<forall>t \<in> set rs. state (tasks k t) = TASK_STATE_RUNNING)"

definition nobody_due :: "u32 \<Rightarrow> kernel \<Rightarrow> bool" where
  "nobody_due tick k \<longleftrightarrow> (\<forall>t \<in># sq_elems (sleepers k). tick < wake_key k t)"

lemma schedule_rotate:
  assumes "running_ok k rs zs" "runnable k rs" "nobody_due tick k" "current k = Some c" "rs @ [c] = n # rest"
  shows "\<exists>k'. scheduler_schedule tick k = Some (Returned, k') \<and> running_ok k' rest zs \<and> current k' = Some n \<and>
    runnable k' (n # rest) \<and> sleepers k' = sleepers k \<and> wake_key k' = wake_key k \<and>
    (\<forall>t. t \<noteq> c \<longrightarrow> ctx (tasks k' t) = ctx (tasks k t)) \<and>
    saved_registers (ctx (tasks k' c)) = saved_registers (cpu k) \<and>
    saved_registers (cpu k') = saved_registers (ctx (tasks k' n)) \<and>
    cr3 (km k') = physical_cr3 (tasks k n)"
proof -
  let ?k = "save_current c (k\<lparr>irq := disable_interrupts (irq k)\<rparr>)"
  have s: "sched_ok k rs zs" "selected k rs zs c" using assms(1,4) by (auto simp: running_ok_def)
  have ok: "sched_ok ?k rs zs" by (rule sched_ok_tasks [OF s(1)]) simp_all
  have sel: "selected ?k rs zs c" using s(2) by (simp add: selected_def queued_def)
  have wk: "wake_key ?k = wake_key k" by (simp add: wake_key_def fun_eq_iff)
  have cur: "current ?k = Some c" using assms(4) by simp
  have r: "\<forall>t \<in> set rs. state (tasks ?k t) = TASK_STATE_RUNNING" using assms(2) by (simp add: runnable_def)
  have d: "\<forall>t \<in># sq_elems (sleepers ?k). tick < wake_key ?k t" using assms(3) wk by (simp add: nobody_due_def)
  from round_robin_rotate [OF ok cur sel r d assms(5)] obtain k1 where
    k1: "round_robin tick ?k = Some (Returned, switch_to n (k1\<lparr>current := None\<rparr>))" "sched_ok k1 rest zs"
      "queues_only ?k k1" "sleepers k1 = sleepers ?k" "\<forall>x. state (tasks k1 x) = state (tasks ?k x)"
      "\<not> queued k1 rest zs n" by blast
  let ?s = "switch_to n (k1\<lparr>current := None\<rparr>)"
  let ?k' = "restore_current n ?s\<lparr>irq := enable_interrupts (irq ?s)\<rparr>"
  have "scheduler_schedule tick k = Some (Returned, ?k')"
    using assms(4) k1(1) by (simp add: scheduler_schedule_def switch_task_def Let_def)
  moreover have st: "state (tasks ?k' x) = state (tasks k x)" for x using k1(5) by simp
  have rk: "runnable k (n # rest)"
  proof -
    have "runnable k (rs @ [c])" using assms(2) s(2) by (auto simp: runnable_def selected_def)
    then show ?thesis by (simp only: assms(5))
  qed
  then have "runnable ?k' (n # rest)" using st by (simp add: runnable_def)
  moreover have "sched_ok ?k' rest zs" by (rule sched_ok_tasks [OF k1(2)]) simp_all
  moreover have "selected ?k' rest zs n"
    using k1(6) rk st [of n] by (simp add: selected_def queued_def runnable_def)
  moreover have ctx: "ctx (tasks ?k' t) = ctx (tasks ?k t)" for t
    using core_fields(1) [OF queues_only_fields(7) [OF k1(3)]] by simp
  have "ctx (tasks ?k' t) = ctx (tasks k t)" if "t \<noteq> c" for t
    using that by (simp only: ctx) (simp add: save_current_def)
  moreover have "saved_registers (ctx (tasks ?k' c)) = saved_registers (cpu k)"
    by (simp only: ctx) (simp add: save_current_def)
  moreover have "saved_registers (cpu ?k') = saved_registers (ctx (tasks ?k' n))"
    by (simp add: restore_current_def)
  moreover have "cr3 (km ?k') = physical_cr3 (tasks k n)"
  proof -
    have "cr3 (km ?k') = physical_cr3 (tasks k1 n)" by (simp add: restore_current_def switch_to_cr3)
    moreover have "physical_cr3 (tasks k1 n) = physical_cr3 (tasks ?k n)"
      using core_fields(3) [OF queues_only_fields(7) [OF k1(3)]] .
    moreover have "physical_cr3 (tasks ?k n) = physical_cr3 (tasks k n)" by (simp add: save_current_def)
    ultimately show ?thesis by simp
  qed
  moreover have "sleepers ?k' = sleepers k" using k1(4) by simp
  moreover have "wake_key ?k' = wake_key k"
  proof -
    have "wake_key ?k' = wake_key k1" by (simp add: wake_key_def fun_eq_iff)
    with queues_only_wake_key [OF k1(3)] wk show ?thesis by simp
  qed
  ultimately show ?thesis by (intro exI [of _ ?k']) (simp add: running_ok_def)
qed

section \<open>Many switches\<close>

text \<open>
  Timer interrupts one after the other: each entry is the tick and the registers the running task has
  when it is interrupted. The run stops (\<open>None\<close>) if a switch starts a new task or fails.
\<close>

fun run_ticks :: "(u32 \<times> task_context) list \<Rightarrow> kernel \<Rightarrow> kernel option" where
  "run_ticks [] k = Some k"
| "run_ticks ((tick, r) # es) k =
     (case scheduler_schedule tick (k\<lparr>cpu := r\<rparr>) of Some (Returned, k) \<Rightarrow> run_ticks es k | _ \<Rightarrow> None)"

lemma running_ok_cpu [simp]: "running_ok (k\<lparr>cpu := r\<rparr>) rs zs = running_ok k rs zs"
proof -
  have "sched_ok (k\<lparr>cpu := r\<rparr>) rs zs" if "sched_ok k rs zs"
    by (rule sched_ok_tasks [OF that]) simp_all
  moreover have "sched_ok k rs zs" if "sched_ok (k\<lparr>cpu := r\<rparr>) rs zs"
    by (rule sched_ok_tasks [OF that]) simp_all
  ultimately have "sched_ok (k\<lparr>cpu := r\<rparr>) rs zs = sched_ok k rs zs" by blast
  then show ?thesis by (simp add: running_ok_def selected_def queued_def)
qed

lemma tick_rotate:
  assumes "running_ok k rs zs" "runnable k rs" "nobody_due (fst e) k" "current k = Some c" "rs @ [c] = n # rest"
  shows "\<exists>k1. run_ticks (e # es) k = run_ticks es k1 \<and> running_ok k1 rest zs \<and> current k1 = Some n \<and>
    runnable k1 rest \<and> (\<forall>tick. nobody_due tick k1 = nobody_due tick k) \<and>
    (\<forall>t. t \<noteq> c \<longrightarrow> ctx (tasks k1 t) = ctx (tasks k t)) \<and>
    saved_registers (ctx (tasks k1 c)) = saved_registers (snd e) \<and>
    saved_registers (cpu k1) = saved_registers (ctx (tasks k1 n))"
proof -
  obtain tick r where e: "e = (tick, r)" by fastforce
  have "running_ok (k\<lparr>cpu := r\<rparr>) rs zs" "runnable (k\<lparr>cpu := r\<rparr>) rs" "nobody_due tick (k\<lparr>cpu := r\<rparr>)"
    "current (k\<lparr>cpu := r\<rparr>) = Some c"
    using assms e by (simp_all add: runnable_def nobody_due_def wake_key_def)
  from schedule_rotate [OF this assms(5)] obtain k1 where
    k1: "scheduler_schedule tick (k\<lparr>cpu := r\<rparr>) = Some (Returned, k1)" "running_ok k1 rest zs" "current k1 = Some n"
      "runnable k1 (n # rest)" "sleepers k1 = sleepers (k\<lparr>cpu := r\<rparr>)" "wake_key k1 = wake_key (k\<lparr>cpu := r\<rparr>)"
      "\<forall>t. t \<noteq> c \<longrightarrow> ctx (tasks k1 t) = ctx (tasks (k\<lparr>cpu := r\<rparr>) t)"
      "saved_registers (ctx (tasks k1 c)) = saved_registers (cpu (k\<lparr>cpu := r\<rparr>))"
      "saved_registers (cpu k1) = saved_registers (ctx (tasks k1 n))" by blast
  have "wake_key k1 = wake_key k" using k1(6) by (simp add: wake_key_def fun_eq_iff)
  then have "\<forall>tick. nobody_due tick k1 = nobody_due tick k" using k1(5) by (simp add: nobody_due_def)
  moreover have "runnable k1 rest" using k1(4) by (simp add: runnable_def)
  ultimately show ?thesis using k1 e by (intro exI [of _ k1]) simp
qed

lemma run_ticks_until:
  "running_ok k (xs @ t # ys) zs \<Longrightarrow> runnable k (xs @ t # ys) \<Longrightarrow> current k = Some c \<Longrightarrow>
   length es = Suc (length xs) \<Longrightarrow> \<forall>e \<in> set es. nobody_due (fst e) k \<Longrightarrow>
   \<exists>k'. run_ticks es k = Some k' \<and> current k' = Some t \<and> running_ok k' (ys @ c # xs) zs \<and>
     saved_registers (cpu k') = saved_registers (ctx (tasks k t))"
proof (induction xs arbitrary: k c es ys)
  case Nil
  then obtain e where e: "es = [e]" by (cases es) auto
  have tc: "t \<noteq> c" using Nil(1,3) by (auto simp: running_ok_def selected_def queued_def)
  from tick_rotate [of k "t # ys" zs e c t "ys @ [c]" "[]"] Nil e tc show ?case by auto
next
  case (Cons x xs)
  then obtain e es2 where e: "es = e # es2" "length es2 = Suc (length xs)" by (cases es) auto
  have tc: "t \<noteq> c" using Cons(2,4) by (auto simp: running_ok_def selected_def queued_def)
  have "nobody_due (fst e) k" using Cons(6) e(1) by simp
  moreover have "((x # xs) @ t # ys) @ [c] = x # (xs @ t # ys @ [c])" by simp
  ultimately obtain k1 where k1: "run_ticks (e # es2) k = run_ticks es2 k1" "running_ok k1 (xs @ t # ys @ [c]) zs"
      "current k1 = Some x" "runnable k1 (xs @ t # ys @ [c])" "\<forall>tick. nobody_due tick k1 = nobody_due tick k"
      "\<forall>t. t \<noteq> c \<longrightarrow> ctx (tasks k1 t) = ctx (tasks k t)"
    using tick_rotate [OF Cons(2,3) _ Cons(4), of e x "xs @ t # ys @ [c]" es2] by metis
  have "\<forall>e \<in> set es2. nobody_due (fst e) k1" using Cons(6) e(1) k1(5) by simp
  from Cons.IH [OF k1(2,4,3) e(2) this] obtain k' where
    "run_ticks es2 k1 = Some k'" "current k' = Some t" "running_ok k' ((ys @ [c]) @ x # xs) zs"
    "saved_registers (cpu k') = saved_registers (ctx (tasks k1 t))" by blast
  with k1(1,6) tc e(1) show ?case by auto
qed

section \<open>Leaving a task that cannot run\<close>

lemma round_robin_away:
  assumes "sched_ok k (n # rest) zs" "current k = Some c" "state (tasks k c) \<noteq> TASK_STATE_RUNNING"
    "\<forall>t \<in># sq_elems (sleepers k). tick < wake_key k t"
  shows "\<exists>k1. sched_ok k1 rest zs \<and> queues_only k k1 \<and> sleepers k1 = sleepers k \<and> \<not> queued k1 rest zs n \<and>
    (\<forall>x. state (tasks k1 x) = state (tasks k x)) \<and>
    (state (tasks k n) = TASK_STATE_CREATED \<longrightarrow>
       round_robin tick k = Some (Started n, task_start_impl n (switch_to n k1))) \<and>
    (state (tasks k n) = TASK_STATE_RUNNING \<longrightarrow> n \<noteq> c \<longrightarrow>
       round_robin tick k = Some (Returned, switch_to n k1))"
proof -
  from pop_ready_spec [OF assms(1)] obtain k1 where
    k1: "pop_ready k = Some (Some n, k1)" "sched_ok k1 rest zs" "queues_only k k1" "sleepers k1 = sleepers k"
      "\<not> queued k1 rest zs n" "\<forall>x. state (tasks k1 x) = state (tasks k x)" by blast
  have rr: "round_robin tick k = (if state (tasks k1 n) = TASK_STATE_CREATED then Some (Started n, task_start_impl n (switch_to n k1))
      else case select_loop n k1 of None \<Rightarrow> None
        | Some (Inr r, k) \<Rightarrow> Some (r, k)
        | Some (Inl n, k) \<Rightarrow> Some (Returned, if current k \<noteq> Some n then switch_to n k else k))"
    using wake_due_none [OF assms(1,4)] assms(2,3) k1(1) by (simp add: round_robin_def)
  have "current k1 = Some c" using queues_only_fields(1) [OF k1(3)] assms(2) by simp
  then have "state (tasks k n) = TASK_STATE_RUNNING \<longrightarrow> n \<noteq> c \<longrightarrow>
       round_robin tick k = Some (Returned, switch_to n k1)"
    using k1(6) by (auto simp: rr select_loop.simps)
  moreover have "state (tasks k n) = TASK_STATE_CREATED \<longrightarrow>
       round_robin tick k = Some (Started n, task_start_impl n (switch_to n k1))"
    using k1(6) by (simp add: rr)
  ultimately show ?thesis using k1 by blast
qed

section \<open>Properties\<close>

text \<open>
  C1: In every state the scheduler can reach by timer interrupts, yields, sleeps (whose wake tick does
  not wrap around 32 bits), exits and new tasks, the queues are well formed, no task is in two queues or twice in one, the current task is
  runnable and in no queue, and interrupts are balanced.
\<close>

theorem scheduler_queues_invariant:
  assumes "sched_reachable k"
  shows "\<exists>rs zs. disable_counter (irq k) = 0 \<and> queue_rep (tasks k, ready_queue k) rs \<and>
    queue_rep (tasks k, zombie_queue k) zs \<and> sq_inv (wake_key k) (sleepers k) \<and>
    distinct (rs @ zs) \<and> (\<forall>t. count (sq_elems (sleepers k)) t \<le> (if t \<in> set (rs @ zs) then 0 else 1)) \<and>
    (\<forall>c. current k = Some c \<longrightarrow> state (tasks k c) = TASK_STATE_RUNNING \<and> c \<notin> set (rs @ zs) \<and>
       c \<notin># sq_elems (sleepers k))"
proof -
  obtain rs zs where w: "sched_wf k rs zs" using sched_reachable_wf [OF assms] by blast
  then have s: "sched_ok k rs zs" and d: "disable_counter (irq k) = 0" by (simp_all add: sched_wf_def)
  have q: "queue_rep (tasks k, ready_queue k) rs" "queue_rep (tasks k, zombie_queue k) zs"
    "sq_inv (wake_key k) (sleepers k)" using s by (simp_all add: sched_ok_def)
  have dis: "distinct (rs @ zs)" using s by (auto simp: sched_ok_def queue_rep_def)
  have cnt: "\<forall>t. count (sq_elems (sleepers k)) t \<le> (if t \<in> set (rs @ zs) then 0 else 1)"
    using s by (auto simp: sched_ok_def not_in_iff)
  have cur: "\<forall>c. current k = Some c \<longrightarrow> state (tasks k c) = TASK_STATE_RUNNING \<and> c \<notin> set (rs @ zs) \<and>
       c \<notin># sq_elems (sleepers k)"
    using w by (auto simp: sched_wf_def selected_def queued_def)
  show ?thesis using d q dis cnt cur by blast
qed

text \<open>A kernel with the given current task, ready list and registers; nobody sleeps.\<close>

definition witness_task :: "task_state \<Rightarrow> nat option \<Rightarrow> task" where
  "witness_task s n = zero_task\<lparr>state := s, next := n\<rparr>"

definition witness_kernel :: "nat option \<Rightarrow> task_table \<Rightarrow> task_queue \<Rightarrow> kernel" where
  "witness_kernel c T q = \<lparr>km = power_on, irq = \<lparr>disable_counter = 0, interrupt_flag = True\<rparr>, dt = witness_tables,
     pit = \<lparr>pit_is_initialized = True, hz_frequency = 500, ticks = 1000, s_handle = Some SCHEDULER_SCHEDULE\<rparr>,
     cpu = zero_context, tasks = T, task_table_lock = 0, task_count = 0, user_stacks = witness_stacks,
     current = c, ready_queue = q, zombie_queue = task_queue_init,
     sleepers = sleep_queue_init (replicate MAX_SLEEP_TASKS 0) MAX_SLEEP_TASKS,
     scheduler_is_initialized = True\<rparr>"

lemma witness_kernel_ok:
  assumes "queue_rep (T, q) rs"
  shows "sched_ok (witness_kernel c T q) rs []" "nobody_due tick (witness_kernel c T q)"
    "queued (witness_kernel c T q) rs [] t \<longleftrightarrow> t \<in> set rs"
  using assms sleep_queue_init_inv [of "replicate MAX_SLEEP_TASKS (0 :: nat)" MAX_SLEEP_TASKS]
  by (simp_all add: sched_ok_def witness_kernel_def nobody_due_def task_queue_init_rep queued_def)

theorem scheduler_queues_invariant_witness:
  "\<exists>(k' :: kernel) rs. queue_rep (tasks k', ready_queue k') rs \<and> rs = [7]"
proof -
  let ?k = "witness_kernel None (\<lambda>_. zero_task) task_queue_init"
  have "scheduler_fresh ?k" by (simp add: scheduler_fresh_def witness_kernel_def)
  then have r: "sched_reachable ?k" by (rule reach_start)
  note ok = witness_kernel_ok [OF task_queue_init_rep, where c = None and T = "\<lambda>_. zero_task"]
  from scheduler_add_spec [OF ok(1), of 7] obtain k' where
    k': "scheduler_add (Some 7) ?k = Some (0, k')" "sched_ok k' ([] @ [7]) []" using ok(3) by auto
  have "rs = [] \<and> zs = []" if "sched_ok ?k rs zs" for rs zs
    using that task_queue_unique [OF task_queue_init_rep, of "\<lambda>_. zero_task"]
    by (auto simp: sched_ok_def witness_kernel_def)
  then have "fresh ?k 7" using ok(3) by (auto simp: fresh_def) (auto simp: witness_kernel_def)
  with k'(1) have "sched_step ?k k'" by (rule step_add [rotated])
  with r have "sched_reachable k'" by (rule reach_step)
  from scheduler_queues_invariant [OF this] obtain rs where rs: "queue_rep (tasks k', ready_queue k') rs" by blast
  moreover have "rs = [7]" using task_queue_unique [OF rs] k'(2) by (simp add: sched_ok_def)
  ultimately show ?thesis by blast
qed


definition witness_two_tasks :: kernel where
  "witness_two_tasks = witness_kernel (Some 3)
     ((\<lambda>_. zero_task)(3 := witness_task TASK_STATE_RUNNING None, 5 := witness_task TASK_STATE_RUNNING (Some 6),
        6 := witness_task TASK_STATE_RUNNING None))
     \<lparr>tq_head = Some 5, tq_tail = Some 6, tq_size = 2, tq_lock = 0\<rparr>"

lemma witness_two_tasks:
  "running_ok witness_two_tasks [5, 6] []" "runnable witness_two_tasks [5, 6]"
  "current witness_two_tasks = Some 3" "nobody_due tick witness_two_tasks"
proof -
  let ?T = "(\<lambda>_. zero_task)(3 := witness_task TASK_STATE_RUNNING None, 5 := witness_task TASK_STATE_RUNNING (Some 6),
        6 := witness_task TASK_STATE_RUNNING None)"
  let ?q = "\<lparr>tq_head = Some 5, tq_tail = Some 6, tq_size = 2, tq_lock = 0\<rparr>"
  have q: "queue_rep (?T, ?q) [5, 6]" by (simp add: queue_rep_def witness_task_def)
  note ok = witness_kernel_ok [OF q, where c = "Some 3"]
  show "current witness_two_tasks = Some 3" by (simp add: witness_two_tasks_def witness_kernel_def)
  show "nobody_due tick witness_two_tasks" using ok(2) by (simp add: witness_two_tasks_def)
  show "runnable witness_two_tasks [5, 6]"
    by (simp add: witness_two_tasks_def witness_kernel_def runnable_def witness_task_def)
  have "selected witness_two_tasks [5, 6] [] 3"
    using ok(3) [of 3] unfolding selected_def witness_two_tasks_def
    by (simp add: witness_kernel_def witness_task_def)
  then show "running_ok witness_two_tasks [5, 6] []"
    using ok(1) by (simp add: running_ok_def witness_two_tasks_def) (simp add: witness_kernel_def)
qed


text \<open>
  C13: While no sleeper is due and every ready task has been started, the task that is interrupted comes back
  after every ready task had one turn, with exactly the registers it was interrupted with, whatever the other
  tasks did to the processor meanwhile.
\<close>

theorem interrupted_task_resumes:
  assumes "running_ok k rs zs" "runnable k rs" "current k = Some c"
    "length es = length rs" "list_all (\<lambda>e. nobody_due (fst e) k) ((tick, r) # es)"
  shows "\<exists>k'. run_ticks ((tick, r) # es) k = Some k' \<and> current k' = Some c \<and>
    saved_registers (cpu k') = saved_registers r"
proof (cases rs)
  case Nil
  then have "rs @ [c] = c # []" by simp
  from tick_rotate [OF assms(1,2) _ assms(3) this, of "(tick, r)" es] assms(4,5) Nil show ?thesis by auto
next
  case (Cons x xs)
  then have "rs @ [c] = x # (xs @ [c])" by simp
  from tick_rotate [OF assms(1,2) _ assms(3) this, of "(tick, r)" es] assms(5) obtain k1 where
    k1: "run_ticks ((tick, r) # es) k = run_ticks es k1" "running_ok k1 (xs @ [c]) zs" "current k1 = Some x"
      "runnable k1 (xs @ [c])" "\<forall>tick. nobody_due tick k1 = nobody_due tick k"
      "saved_registers (ctx (tasks k1 c)) = saved_registers r" by auto
  have "length es = Suc (length xs)" "\<forall>e \<in> set es. nobody_due (fst e) k1"
    using assms(4,5) Cons k1(5) by (simp_all add: list_all_iff)
  from run_ticks_until [OF k1(2,4,3) this] k1(1,6) show ?thesis by auto
qed

theorem interrupted_task_resumes_witness:
  "\<exists>k'. run_ticks [(1, zero_context\<lparr>ebx := 42\<rparr>), (2, zero_context), (3, zero_context)] witness_two_tasks = Some k' \<and>
     current k' = Some 3 \<and> ebx (cpu k') = 42"
  using interrupted_task_resumes [OF witness_two_tasks(1-3), of "[(2, zero_context), (3, zero_context)]" 1 "zero_context\<lparr>ebx := 42\<rparr>"]
    witness_two_tasks(4) by (auto simp: saved_registers_def)

text \<open>
  When the scheduler is called while no task is current, as on the first timer interrupt, it takes
  the first ready task as the current one and then switches to the second: a first task that has not
  run yet is then neither current nor in any queue, and never runs.
\<close>

theorem first_schedule_loses_a_task:
  assumes "sched_ok k (a # b # rs) zs" "current k = None" "nobody_due tick k"
    "state (tasks k a) = TASK_STATE_CREATED" "state (tasks k b) = TASK_STATE_CREATED"
  shows "\<exists>k'. scheduler_schedule tick k = Some (Started b, k') \<and> current k' = Some b \<and> a \<noteq> b \<and>
    sched_ok k' rs zs \<and> \<not> queued k' rs zs a \<and> state (tasks k' a) = TASK_STATE_CREATED"
proof -
  have ab: "a \<noteq> b" using assms(1) by (auto simp: sched_ok_def queue_rep_def)
  from pop_ready_spec [OF assms(1)] obtain k1 where
    k1: "pop_ready k = Some (Some a, k1)" "sched_ok k1 (b # rs) zs" "queues_only k k1" "sleepers k1 = sleepers k"
      "\<not> queued k1 (b # rs) zs a" "\<forall>x. state (tasks k1 x) = state (tasks k x)" by blast
  let ?k = "save_current a (k1\<lparr>current := Some a, irq := disable_interrupts (irq k1)\<rparr>)"
  have ok: "sched_ok ?k (b # rs) zs" by (rule sched_ok_tasks [OF k1(2)]) simp_all
  have cur: "current ?k = Some a" "state (tasks ?k a) \<noteq> TASK_STATE_RUNNING"
    "state (tasks ?k b) = TASK_STATE_CREATED" using assms(4,5) k1(6) by simp_all
  have "wake_key ?k = wake_key k1" by (simp add: wake_key_def fun_eq_iff)
  then have "\<forall>t \<in># sq_elems (sleepers ?k). tick < wake_key ?k t"
    using assms(3) k1(4) queues_only_wake_key [OF k1(3)] by (simp add: nobody_due_def)
  from round_robin_away [OF ok cur(1,2) this] cur(3) obtain k2 where
    k2: "round_robin tick ?k = Some (Started b, task_start_impl b (switch_to b k2))" "sched_ok k2 rs zs"
      "sleepers k2 = sleepers ?k" "\<not> queued k2 rs zs b" "\<forall>x. state (tasks k2 x) = state (tasks ?k x)" by blast
  have "scheduler_schedule tick k = Some (Started b, task_start_impl b (switch_to b k2))"
    using assms(2) k1(1) k2(1) by (simp add: scheduler_schedule_def switch_task_def Let_def)
  moreover have "\<not> queued (task_start_impl b (switch_to b k2)) rs zs a"
    using k1(5) k2(3) by (simp add: queued_def)
  moreover have "state (tasks (task_start_impl b (switch_to b k2)) a) = TASK_STATE_CREATED"
    using ab k2(5) k1(6) assms(4) by simp
  ultimately show ?thesis using ab started_ok(1) [OF k2(2,4)] by simp
qed

definition witness_new_tasks :: kernel where
  "witness_new_tasks = witness_kernel None
     ((\<lambda>_. zero_task)(0 := witness_task TASK_STATE_CREATED (Some 1), 1 := witness_task TASK_STATE_CREATED None))
     \<lparr>tq_head = Some 0, tq_tail = Some 1, tq_size = 2, tq_lock = 0\<rparr>"

theorem first_schedule_loses_a_task_witness:
  "\<exists>k'. scheduler_schedule 1 witness_new_tasks = Some (Started 1, k') \<and> current k' = Some 1 \<and>
     sched_ok k' [] [] \<and> \<not> queued k' [] [] 0"
proof -
  let ?T = "(\<lambda>_. zero_task)(0 := witness_task TASK_STATE_CREATED (Some 1), 1 := witness_task TASK_STATE_CREATED None)"
  have q: "queue_rep (?T, \<lparr>tq_head = Some 0, tq_tail = Some 1, tq_size = 2, tq_lock = 0\<rparr>) [0, 1]"
    by (simp add: queue_rep_def witness_task_def)
  have st: "state (?T 0) = TASK_STATE_CREATED" "state (?T 1) = TASK_STATE_CREATED" by (simp_all add: witness_task_def)
  note ok = witness_kernel_ok [OF q, where c = None, folded witness_new_tasks_def]
  have "current witness_new_tasks = None" "tasks witness_new_tasks = ?T"
    by (simp_all add: witness_new_tasks_def witness_kernel_def)
  with first_schedule_loses_a_task [of witness_new_tasks 0 1 "[]" "[]" 1] ok(1) ok(2) [of 1] st show ?thesis
    by (auto simp: witness_task_def)
qed

lemma exit_switches:
  assumes "running_ok k rs zs" "runnable k rs" "nobody_due (ticks (pit k)) k" "current k = Some c"
  shows "case rs of
      [] \<Rightarrow> \<exists>k'. scheduler_exit k = Some (Inr Panicked, k')
    | n # rest \<Rightarrow> \<exists>k'. scheduler_exit k = Some (Inr Returned, k') \<and> current k' = Some n \<and>
        running_ok k' rest zs \<and> state (tasks k' c) = TASK_STATE_ZOMBIE \<and> c \<noteq> n \<and> \<not> queued k' rest zs c"
proof -
  have s: "sched_ok k rs zs" "\<not> queued k rs zs c" using assms(1,4) by (auto simp: running_ok_def selected_def)
  let ?z = "set_state c TASK_STATE_ZOMBIE k"
  let ?k = "save_current c (?z\<lparr>irq := disable_interrupts (irq k)\<rparr>)"
  have "sched_ok ?z rs zs" using s(1) by simp
  then have ok: "sched_ok ?k rs zs" by (rule sched_ok_tasks) simp_all
  have wk: "wake_key ?k = wake_key k" by (simp add: wake_key_def fun_eq_iff set_state_def)
  have due: "\<forall>t \<in># sq_elems (sleepers ?k). ticks (pit k) < wake_key ?k t"
    using assms(3) unfolding wk by (simp add: nobody_due_def)
  have cur: "current ?k = Some c" "state (tasks ?k c) \<noteq> TASK_STATE_RUNNING" using assms(4) by simp_all
  have ex: "scheduler_exit k = map_option (\<lambda>(r, k). (Inr r, k)) (switch_task (ticks (pit k)) ?z)"
    using assms(4) by (simp add: scheduler_exit_def programable_interval_timer_get_tick_def)
  show ?thesis
  proof (cases rs)
    case Nil
    have "round_robin (ticks (pit k)) ?k = Some (Panicked, ?k)"
      using wake_due_none [OF ok due] pop_ready_empty [of ?k zs] ok cur Nil by (simp add: round_robin_def)
    then show ?thesis using ex assms(4) Nil by (simp add: switch_task_def Let_def)
  next
    case (Cons n rest)
    have nc: "n \<noteq> c" using s(2) Cons by (auto simp: queued_def)
    have "state (tasks ?k n) = TASK_STATE_RUNNING" using assms(2) Cons nc by (simp add: runnable_def)
    with round_robin_away [OF ok [unfolded Cons] cur due] nc obtain k1 where
      k1: "round_robin (ticks (pit k)) ?k = Some (Returned, switch_to n k1)" "sched_ok k1 rest zs"
        "queues_only ?k k1" "sleepers k1 = sleepers ?k" "\<not> queued k1 rest zs n"
        "\<forall>x. state (tasks k1 x) = state (tasks ?k x)" by blast
    let ?r = "restore_current n (switch_to n k1)\<lparr>irq := enable_interrupts (irq k1)\<rparr>"
    have "scheduler_exit k = Some (Inr Returned, ?r)"
      using ex assms(4) k1(1) by (simp add: switch_task_def Let_def)
    moreover have "sched_ok ?r rest zs" by (rule sched_ok_tasks [OF k1(2)]) simp_all
    moreover have "selected ?r rest zs n"
      using k1(5,6) assms(2) Cons nc by (simp add: selected_def queued_def runnable_def)
    moreover have "\<not> queued ?r rest zs c" using s(2) Cons k1(4) by (simp add: queued_def)
    moreover have "state (tasks ?r c) = TASK_STATE_ZOMBIE" using k1(6) by simp
    ultimately show ?thesis using Cons nc by (simp add: running_ok_def)
  qed
qed

text \<open>
  C19: While no sleeper is due and every ready task has been started, the end of the current task
  switches to the next ready task; the ended task becomes a zombie but is in none of the queues
  afterwards, so not in the zombie queue, which the cleaner serves. If in this situation no task is
  ready, the scheduler panics.
\<close>

theorem exit_leaves_no_zombie:
  assumes "running_ok k rs zs" "runnable k rs" "nobody_due (ticks (pit k)) k" "current k = Some c"
  shows "case rs of
      [] \<Rightarrow> \<exists>k'. scheduler_exit k = Some (Inr Panicked, k')
    | n # rest \<Rightarrow> \<exists>k'. scheduler_exit k = Some (Inr Returned, k') \<and> current k' = Some n \<and>
        running_ok k' rest zs \<and> state (tasks k' c) = TASK_STATE_ZOMBIE \<and> c \<noteq> n \<and> \<not> queued k' rest zs c"
  by (rule exit_switches [OF assms])

theorem exit_leaves_no_zombie_witness:
  "\<exists>k'. scheduler_exit witness_two_tasks = Some (Inr Returned, k') \<and> current k' = Some 5 \<and>
     running_ok k' [6] [] \<and> \<not> queued k' [6] [] 3"
  using exit_leaves_no_zombie [OF witness_two_tasks(1,2,4,3)] by auto

lemma sleep_switches:
  assumes "running_ok k (n # rest) zs" "runnable k (n # rest)" "nobody_due (ticks (pit k)) k" "current k = Some c"
    "sq_room (sleepers k)" "unat ms * unat (hz_frequency (pit k)) < 4294967296"
    "unat (ticks (pit k)) + max 1 (unat ms * unat (hz_frequency (pit k)) div 1000) < 4294967296"
  shows "\<exists>k'. scheduler_sleep ms k = Some (Returned, k') \<and> current k' = Some n \<and> running_ok k' rest zs \<and>
    state (tasks k' c) = TASK_STATE_SLEEPING \<and> sq_elems (sleepers k') = add_mset c (sq_elems (sleepers k)) \<and>
    unat (wake_tick (tasks k' c)) = unat (ticks (pit k)) + max 1 (unat ms * unat (hz_frequency (pit k)) div 1000)"
proof -
  let ?hz = "ucast (hz_frequency (pit k)) :: u32" and ?t = "ticks (pit k)"
  let ?n = "max 1 (unat ms * unat (hz_frequency (pit k)) div 1000)"
  have "unat (ms * ?hz) = unat ms * unat (hz_frequency (pit k))"
  proof -
    have "unat (hz_frequency (pit k)) < 65536" using unsigned_less [of "hz_frequency (pit k)", where ?'a = nat] by simp
    then have "unat ?hz = unat (hz_frequency (pit k))" by (simp add: unsigned_ucast_eq take_bit_eq_mod)
    then show ?thesis using assms(6) unat_mult_lem [of ms ?hz] by simp
  qed
  then have d: "unat ((ms * ?hz) div 1000) = unat ms * unat (hz_frequency (pit k)) div 1000" by (simp add: unat_div)
  have st: "unat (sleep_ticks ms ?hz) = ?n"
  proof (cases "(ms * ?hz) div 1000 = 0")
    case True
    then show ?thesis using d by (simp add: sleep_ticks_def Let_def)
  next
    case False
    then have "unat ((ms * ?hz) div 1000) \<noteq> 0" by (simp add: unat_eq_0)
    with False d show ?thesis by (simp add: sleep_ticks_def Let_def)
  qed
  have w: "unat (?t + sleep_ticks ms ?hz) = unat ?t + ?n"
    using assms(7) st by (simp add: unat_add_noov)
  have lt: "?t < ?t + sleep_ticks ms ?hz" using w by (simp add: word_less_nat_alt)
  have nq: "\<not> queued k (n # rest) zs c" using assms(1,4) by (auto simp: running_ok_def selected_def)
  then have nc: "n \<noteq> c" by (auto simp: queued_def)
  from sleep_enqueues [OF assms(1,4), of ms] assms(5) obtain k1 where
    k1: "scheduler_sleep ms k = scheduler_schedule ?t k1" "sched_ok k1 (n # rest) zs" "current k1 = Some c"
      "sq_elems (sleepers k1) = add_mset c (sq_elems (sleepers k))"
      "\<forall>x. state (tasks k1 x) = (if x = c then TASK_STATE_SLEEPING else state (tasks k x))"
      "\<forall>x. wake_key k1 x = (if x = c then ?t + sleep_ticks ms ?hz else wake_key k x)" by auto
  let ?k = "save_current c (k1\<lparr>irq := disable_interrupts (irq k1)\<rparr>)"
  have ok: "sched_ok ?k (n # rest) zs" by (rule sched_ok_tasks [OF k1(2)]) simp_all
  have wk: "wake_key ?k = wake_key k1" by (simp add: wake_key_def fun_eq_iff)
  have due: "\<forall>t \<in># sq_elems (sleepers ?k). ?t < wake_key ?k t"
    using assms(3) k1(4,6) lt unfolding wk by (simp add: nobody_due_def)
  have cur: "current ?k = Some c" "state (tasks ?k c) \<noteq> TASK_STATE_RUNNING" using k1(3,5) by simp_all
  have "state (tasks ?k n) = TASK_STATE_RUNNING" using assms(2) k1(5) nc by (simp add: runnable_def)
  with round_robin_away [OF ok cur due] nc obtain k2 where
    k2: "round_robin ?t ?k = Some (Returned, switch_to n k2)" "sched_ok k2 rest zs"
      "queues_only ?k k2" "sleepers k2 = sleepers ?k" "\<not> queued k2 rest zs n"
      "\<forall>x. state (tasks k2 x) = state (tasks ?k x)" by blast
  let ?r = "restore_current n (switch_to n k2)\<lparr>irq := enable_interrupts (irq k2)\<rparr>"
  have "scheduler_sleep ms k = Some (Returned, ?r)"
    using k1(1,3) k2(1) by (simp add: scheduler_schedule_def switch_task_def Let_def)
  moreover have "sched_ok ?r rest zs" by (rule sched_ok_tasks [OF k2(2)]) simp_all
  moreover have "selected ?r rest zs n"
    using k2(5,6) assms(2) k1(5) nc by (simp add: selected_def queued_def runnable_def)
  moreover have "wake_key ?r c = ?t + sleep_ticks ms ?hz"
    using queues_only_wake_key [OF k2(3)] wk k1(6) by (simp add: wake_key_def fun_eq_iff)
  then have "unat (wake_tick (tasks ?r c)) = unat ?t + ?n" using w by (simp add: wake_key_def)
  moreover have "state (tasks ?r c) = TASK_STATE_SLEEPING" "sq_elems (sleepers ?r) = add_mset c (sq_elems (sleepers k))"
    using k2(4,6) k1(4,5) by simp_all
  ultimately show ?thesis by (intro exI [of _ ?r]) (simp add: running_ok_def)
qed

text \<open>
  C18: While no sleeper is due and every ready task has been started, a current task that sleeps for
  \<open>ms\<close> milliseconds with another task ready leaves the processor to the first ready task and enters
  the sleep queue, when that has room, with a wake tick that is the current one plus the number of
  timer ticks in \<open>ms\<close> milliseconds rounded down, but at least one, as long as the product of
  milliseconds and frequency and the sum of ticks fit in 32 bits.
\<close>

theorem scheduler_sleep_until:
  assumes "running_ok k (n # rest) zs" "runnable k (n # rest)" "nobody_due (ticks (pit k)) k" "current k = Some c"
    "sq_room (sleepers k)" "unat ms * unat (hz_frequency (pit k)) < 4294967296"
    "unat (ticks (pit k)) + max 1 (unat ms * unat (hz_frequency (pit k)) div 1000) < 4294967296"
  shows "\<exists>k'. scheduler_sleep ms k = Some (Returned, k') \<and> current k' = Some n \<and> running_ok k' rest zs \<and>
    state (tasks k' c) = TASK_STATE_SLEEPING \<and> sq_elems (sleepers k') = add_mset c (sq_elems (sleepers k)) \<and>
    unat (wake_tick (tasks k' c)) = unat (ticks (pit k)) + max 1 (unat ms * unat (hz_frequency (pit k)) div 1000)"
  by (rule sleep_switches [OF assms])

theorem scheduler_sleep_until_witness:
  "\<exists>k'. scheduler_sleep 100 witness_two_tasks = Some (Returned, k') \<and> current k' = Some 5 \<and>
     unat (wake_tick (tasks k' 3)) = 1050"
proof -
  have "sq_room (sleepers witness_two_tasks)" "hz_frequency (pit witness_two_tasks) = 500"
    "ticks (pit witness_two_tasks) = 1000"
    by (simp_all add: witness_two_tasks_def witness_kernel_def sq_room_def MAX_SLEEP_TASKS_def)
  with scheduler_sleep_until [of witness_two_tasks 5 "[6]" "[]" 3 100] witness_two_tasks show ?thesis by auto
qed

text \<open>Beyond that the product wraps around: at 500 Hz a sleep of almost 2.4 hours ends after one tick.\<close>

lemma scheduler_sleep_wraps: "sleep_ticks 8589935 500 = 1"
  by (simp add: sleep_ticks_def)

end
