(* ===== verification/CString.thy ===== *)
theory CString
  imports Memory "HOL-Library.Signed_Division"
begin

text \<open>
  The string routines of include/string.h on zero-terminated strings in memory. A routine that would
  run on because a string has no terminator is \<open>None\<close>. Characters are bytes; all comparisons in the
  sources are with ASCII characters, for which signed and unsigned bytes agree.
\<close>

section \<open>Characters\<close>

definition isletter :: "u8 \<Rightarrow> bool" where
  "isletter c \<longleftrightarrow> 0x41 \<le> c \<and> c \<le> 0x5A \<or> 0x61 \<le> c \<and> c \<le> 0x7A"

definition islower :: "u8 \<Rightarrow> bool" where
  "islower c \<longleftrightarrow> 0x61 \<le> c \<and> c \<le> 0x7A"

definition isdigit :: "u8 \<Rightarrow> bool" where
  "isdigit c \<longleftrightarrow> 0x30 \<le> c \<and> c \<le> 0x39"

definition ispunct :: "u8 \<Rightarrow> bool" where
  "ispunct c \<longleftrightarrow> 0x21 \<le> c \<and> c \<le> 0x2F \<or> 0x3A \<le> c \<and> c \<le> 0x40 \<or> 0x5B \<le> c \<and> c \<le> 0x60 \<or>
     0x7B \<le> c \<and> c \<le> 0x7E"

definition toupper :: "u8 \<Rightarrow> u8" where
  "toupper c = (if 0x61 \<le> c \<and> c \<le> 0x7A then c - (0x61 - 0x41) else c)"

section \<open>Measuring and comparing\<close>

partial_function (option) strlen_loop :: "mem \<Rightarrow> u32 \<Rightarrow> nat \<Rightarrow> nat option" where
  "strlen_loop m str len = (if m (str + of_nat len) \<noteq> 0 then strlen_loop m str (Suc len) else Some len)"

definition strlen :: "mem \<Rightarrow> u32 \<Rightarrow> nat option" where
  "strlen m str = strlen_loop m str 0"

partial_function (option) strcmp :: "mem \<Rightarrow> u32 \<Rightarrow> u32 \<Rightarrow> int option" where
  "strcmp m s1 s2 =
     (if m s1 \<noteq> 0 \<and> m s1 = m s2 then strcmp m (s1 + 1) (s2 + 1) else Some (uint (m s1) - uint (m s2)))"

definition equal_str :: "mem \<Rightarrow> u32 \<Rightarrow> u32 \<Rightarrow> bool option" where
  "equal_str m a b = map_option (\<lambda>r. r = 0) (strcmp m a b)"

definition memcmp :: "mem \<Rightarrow> u32 \<Rightarrow> u32 \<Rightarrow> u32 \<Rightarrow> int" where
  "memcmp m p1 p2 n =
     (case find (\<lambda>i. m (p1 + of_nat i) \<noteq> m (p2 + of_nat i)) [0..<unat n] of
        None \<Rightarrow> 0
      | Some i \<Rightarrow> uint (m (p1 + of_nat i)) - uint (m (p2 + of_nat i)))"

section \<open>Searching\<close>

partial_function (option) strchr :: "mem \<Rightarrow> u32 \<Rightarrow> u8 \<Rightarrow> u32 option" where
  "strchr m s c =
     (if m s \<noteq> 0 then if m s = c then Some s else strchr m (s + 1) c
      else Some (if c = 0 then s else NULL))"

partial_function (option) strrchr_loop :: "mem \<Rightarrow> u32 \<Rightarrow> u32 \<Rightarrow> u32 \<Rightarrow> u32 option" where
  "strrchr_loop m s c found =
     (if m s \<noteq> 0 then strrchr_loop m (s + 1) c (if m s = ucast c then s else found)
      else Some (if c = 0 then s else found))"

definition strrchr :: "mem \<Rightarrow> u32 \<Rightarrow> u32 \<Rightarrow> u32 option" where
  "strrchr m s c = strrchr_loop m s c NULL"

text \<open>The position of the first occurrence, or -1.\<close>

definition match_at :: "mem \<Rightarrow> u32 \<Rightarrow> u32 \<Rightarrow> nat \<Rightarrow> nat \<Rightarrow> bool" where
  "match_at m str f flen i \<longleftrightarrow> list_all (\<lambda>j. m (str + of_nat (i + j)) = m (f + of_nat j)) [0..<flen]"

definition find_str :: "mem \<Rightarrow> u32 \<Rightarrow> u32 \<Rightarrow> int option" where
  "find_str m str f =
     (case (strlen m str, strlen m f) of
        (Some slen, Some flen) \<Rightarrow>
          Some (if slen < flen then -1
                else case find (match_at m str f flen) [0..<Suc (slen - flen)] of
                  None \<Rightarrow> -1 | Some i \<Rightarrow> int i)
      | _ \<Rightarrow> None)"

section \<open>Copying\<close>

partial_function (option) strcpy_loop :: "mem \<Rightarrow> u32 \<Rightarrow> u32 \<Rightarrow> mem option" where
  "strcpy_loop m d s =
     (let c = m s; m = m(d := c) in if c \<noteq> 0 then strcpy_loop m (d + 1) (s + 1) else Some m)"

definition strcpy :: "mem \<Rightarrow> u32 \<Rightarrow> u32 \<Rightarrow> (u32 \<times> mem) option" where
  "strcpy m dest src = map_option (\<lambda>m. (dest, m)) (strcpy_loop m dest src)"

text \<open>The two loops of \<open>strncpy\<close>: \<open>k\<close> counts the places left from index \<open>i\<close> on.\<close>

fun strncpy_fill :: "mem \<Rightarrow> u32 \<Rightarrow> nat \<Rightarrow> nat \<Rightarrow> mem" where
  "strncpy_fill m dest i 0 = m"
| "strncpy_fill m dest i (Suc k) = strncpy_fill (m(dest + of_nat i := 0)) dest (Suc i) k"

fun strncpy_copy :: "mem \<Rightarrow> u32 \<Rightarrow> u32 \<Rightarrow> nat \<Rightarrow> nat \<Rightarrow> mem" where
  "strncpy_copy m dest src i 0 = m"
| "strncpy_copy m dest src i (Suc k) =
     (if m (src + of_nat i) \<noteq> 0
      then strncpy_copy (m(dest + of_nat i := m (src + of_nat i))) dest src (Suc i) k
      else strncpy_fill m dest i (Suc k))"

definition strncpy :: "mem \<Rightarrow> u32 \<Rightarrow> u32 \<Rightarrow> u32 \<Rightarrow> u32 \<times> mem" where
  "strncpy m dest src n = (dest, strncpy_copy m dest src 0 (unat n))"

definition strcat :: "mem \<Rightarrow> u32 \<Rightarrow> u32 \<Rightarrow> (u32 \<times> mem) option" where
  "strcat m dest src =
     (case strlen m dest of None \<Rightarrow> None
      | Some l \<Rightarrow> map_option (\<lambda>(_, m). (dest, m)) (strcpy m (dest + of_nat l) src))"

definition strncat :: "mem \<Rightarrow> u32 \<Rightarrow> u32 \<Rightarrow> u32 \<Rightarrow> (u32 \<times> mem) option" where
  "strncat m dest src n =
     (case strlen m dest of None \<Rightarrow> None
      | Some l \<Rightarrow> Some (dest, snd (strncpy m (dest + of_nat l) src n)))"

text \<open>\<open>start\<close> and \<open>end\<close> of \<open>trim\<close> are signed; the string is moved to its own beginning.\<close>

definition blank :: "u8 \<Rightarrow> bool" where
  "blank c \<longleftrightarrow> c = 0x20 \<or> c = 0x09"

partial_function (option) trim_start :: "mem \<Rightarrow> u32 \<Rightarrow> nat \<Rightarrow> nat option" where
  "trim_start m str start = (if blank (m (str + of_nat start)) then trim_start m str (Suc start) else Some start)"

text \<open>\<open>trim_end m str start e\<close>: one more than the value of \<open>end\<close> when the loop stops, from \<open>end = e - 1\<close>.\<close>

fun trim_end :: "mem \<Rightarrow> u32 \<Rightarrow> nat \<Rightarrow> nat \<Rightarrow> nat" where
  "trim_end m str start 0 = 0"
| "trim_end m str start (Suc e) =
     (if start \<le> e \<and> blank (m (str + of_nat e)) then trim_end m str start e else Suc e)"

definition trim :: "mem \<Rightarrow> u32 \<Rightarrow> mem option" where
  "trim m str =
     (if str = NULL then Some m
      else
        case trim_start m str 0 of None \<Rightarrow> None
        | Some start \<Rightarrow>
          case strlen m str of None \<Rightarrow> None
          | Some l \<Rightarrow>
            let e = trim_end m str start l;
                m = fold (\<lambda>i m. m(str + of_nat i := m (str + of_nat (start + i)))) [0..<e - start] m
            in Some (m(str + of_nat (e - start) := 0)))"

text \<open>
  \<open>strtok\<close> keeps its position in a static variable, the first component of the state; the result is
  \<open>out\<close> or null.
\<close>

partial_function (option) tok_skip :: "bool \<Rightarrow> mem \<Rightarrow> u32 \<Rightarrow> u32 \<Rightarrow> u32 option" where
  "tok_skip in_delim m delim p =
     (if m p = 0 then Some p
      else Option.bind (strchr m delim (m p))
        (\<lambda>r. if (r \<noteq> NULL) = in_delim then tok_skip in_delim m delim (p + 1) else Some p))"

definition strtok :: "u32 \<Rightarrow> u32 \<Rightarrow> u32 \<Rightarrow> (u32 \<times> mem, u32) prog" where
  "strtok str delim out = (\<lambda>(saveptr, m).
     let saveptr = (if str \<noteq> NULL then str else saveptr) in
     if saveptr = NULL then Some (0, saveptr, m)
     else
       case tok_skip True m delim saveptr of None \<Rightarrow> None
       | Some start \<Rightarrow>
         if m start = 0 then Some (0, saveptr, m)
         else case tok_skip False m delim start of None \<Rightarrow> None
         | Some e \<Rightarrow>
           let len = unat (e - start);
               m = fold (\<lambda>i m. m(out + of_nat i := m (start + of_nat i))) [0..<len] m;
               m = m(out + of_nat len := 0)
           in Some (out, if m e \<noteq> 0 then e + 1 else 0, m))"

section \<open>Numbers\<close>

text \<open>\<open>rem\<close> is a signed integer.\<close>

definition digit_char :: "u32 \<Rightarrow> u8" where
  "digit_char rem = (if sint rem < 10 then 0x30 + ucast rem else 0x41 + ucast rem - 10)"

text \<open>
  The digits in the order they are produced, lowest first, as the buffer \<open>buf\<close> holds them.
  \<open>udigits\<close> is the loop of \<open>uitoa\<close>, with unsigned division, \<open>idigits\<close> the loop of \<open>itoa\<close>, with signed
  division, which truncates: a negative number in a base other than ten yields one digit as a rule.
  Base 0 divides by zero, base 1 makes the loops run on.
\<close>

partial_function (option) udigits :: "u32 \<Rightarrow> u32 \<Rightarrow> u8 list option" where
  "udigits base num =
     (if base = 0 then None
      else let rem = digit_char (num mod base); num = num div base
           in if 0 < num then Option.bind (udigits base num) (\<lambda>buf. Some (rem # buf)) else Some [rem])"

partial_function (option) idigits :: "int \<Rightarrow> int \<Rightarrow> u8 list option" where
  "idigits base num =
     (if base = 0 then None
      else let rem = digit_char (of_int (num smod base)); num = num sdiv base
           in if 0 < num then Option.bind (idigits base num) (\<lambda>buf. Some (rem # buf)) else Some [rem])"

definition put_string :: "mem \<Rightarrow> u32 \<Rightarrow> u8 list \<Rightarrow> mem" where
  "put_string m str cs =
     (fold (\<lambda>i m. m(str + of_nat i := cs ! i)) [0..<length cs] m)(str + of_nat (length cs) := 0)"

definition uitoa :: "mem \<Rightarrow> u32 \<Rightarrow> u32 \<Rightarrow> u32 \<Rightarrow> mem option" where
  "uitoa m num str base =
     (if str = NULL then Some m
      else map_option (\<lambda>buf. put_string m str (rev buf)) (udigits base num))"

text \<open>
  The arguments of \<open>itoa\<close> are signed 32-bit integers; negating the smallest one, and dividing it
  by -1, is undefined.
\<close>

definition itoa :: "mem \<Rightarrow> int \<Rightarrow> u32 \<Rightarrow> int \<Rightarrow> mem option" where
  "itoa m num str base =
     (if str = NULL then Some m
      else if num = - 2147483648 \<and> (base = 10 \<or> base = - 1) then None
      else
        let neg = num < 0 \<and> base = 10; num = (if neg then - num else num)
        in map_option (\<lambda>buf. put_string m str ((if neg then [0x2D] else []) @ rev buf)) (idigits base num))"

partial_function (option) uatoi_loop :: "mem \<Rightarrow> u32 \<Rightarrow> u32 \<Rightarrow> u32 option" where
  "uatoi_loop m p res =
     (if m p \<noteq> 0 \<and> isdigit (m p) then uatoi_loop m (p + 1) (res * 10 + (ucast (m p) - 0x30)) else Some res)"

definition uatoi :: "mem \<Rightarrow> u32 \<Rightarrow> u32 option" where
  "uatoi m str = (if str = NULL then Some 0 else uatoi_loop m str 0)"

text \<open>Signed accumulation; \<open>None\<close> also when the value leaves the signed 32-bit range.\<close>

partial_function (option) atoi_loop :: "mem \<Rightarrow> u32 \<Rightarrow> int \<Rightarrow> int option" where
  "atoi_loop m p res =
     (if m p \<noteq> 0 \<and> isdigit (m p)
      then (let res = res * 10 + (uint (m p) - 0x30)
            in if 2147483648 \<le> res then None else atoi_loop m (p + 1) res)
      else Some res)"

definition atoi :: "mem \<Rightarrow> u32 \<Rightarrow> int option" where
  "atoi m str =
     (if str = NULL then Some 0
      else if m str = 0x2D then map_option uminus (atoi_loop m (str + 1) 0)
      else atoi_loop m str 0)"

section \<open>Strings in memory\<close>

text \<open>\<open>cstr m p xs\<close>: the zero-terminated string at \<open>p\<close> has the characters \<open>xs\<close>.\<close>

primrec cstr :: "mem \<Rightarrow> u32 \<Rightarrow> u8 list \<Rightarrow> bool" where
  "cstr m p [] \<longleftrightarrow> m p = 0"
| "cstr m p (x # xs) \<longleftrightarrow> m p = x \<and> x \<noteq> 0 \<and> cstr m (p + 1) xs"

lemma cstr_nth:
  "cstr m p xs \<longleftrightarrow> (\<forall>i < length xs. m (p + of_nat i) = xs ! i \<and> xs ! i \<noteq> 0) \<and> m (p + of_nat (length xs)) = 0"
proof (induction xs arbitrary: p)
  case (Cons x xs)
  show ?case
    by (simp add: Cons.IH All_less_Suc2 add.assoc)
qed simp

lemma cstr_cong:
  assumes "cstr m p xs" "\<And>i. i \<le> length xs \<Longrightarrow> m' (p + of_nat i) = m (p + of_nat i)"
  shows "cstr m' p xs"
  using assms by (simp add: cstr_nth)

lemma cstr_append:
  "cstr m p (xs @ ys) \<longleftrightarrow> (\<forall>i < length xs. m (p + of_nat i) = xs ! i \<and> xs ! i \<noteq> 0) \<and> cstr m (p + of_nat (length xs)) ys"
proof (induction xs arbitrary: p)
  case (Cons x xs)
  show ?case
    by (simp add: Cons.IH All_less_Suc2 add.assoc)
qed simp

lemma cstr_unique: "cstr m p xs \<Longrightarrow> cstr m p ys \<Longrightarrow> xs = ys"
proof (induction xs arbitrary: p ys)
  case Nil
  then show ?case by (cases ys) simp_all
next
  case (Cons x xs)
  then show ?case by (cases ys) auto
qed

lemma strlen_loop_cstr: "cstr m (p + of_nat n) xs \<Longrightarrow> strlen_loop m p n = Some (n + length xs)"
proof (induction xs arbitrary: n)
  case (Cons x xs)
  then show ?case using Cons.IH [of "Suc n"] by (subst strlen_loop.simps) (simp add: add.assoc add.commute [of 1])
qed (subst strlen_loop.simps, simp)

lemma strlen_cstr: "cstr m p xs \<Longrightarrow> strlen m p = Some (length xs)"
  using strlen_loop_cstr [of m p 0 xs] by (simp add: strlen_def)

lemma strcmp_cstr:
  assumes "cstr m a xs" "cstr m b ys"
  shows "\<exists>r. strcmp m a b = Some r \<and> (r = 0 \<longleftrightarrow> xs = ys) \<and> (r < 0 \<longleftrightarrow> ord_class.lexordp xs ys)"
  using assms
proof (induction xs arbitrary: a b ys)
  case Nil
  have z: "uint (m b) > 0" if "m b \<noteq> 0"
    using that by (simp add: word_neq_0_conv word_less_def)
  from Nil z show ?case by (cases ys; subst strcmp.simps) auto
next
  case (Cons x xs)
  have z: "uint x > 0"
    using Cons.prems(1) by (simp add: word_neq_0_conv word_less_def)
  show ?case
  proof (cases ys)
    case Nil
    then show ?thesis using Cons.prems z by (subst strcmp.simps) auto
  next
    case (Cons y zs)
    show ?thesis
    proof (cases "x = y")
      case True
      with Cons Cons.prems Cons.IH [of "a + 1" "b + 1" zs] show ?thesis by (subst strcmp.simps) auto
    next
      case False
      then have "uint x \<noteq> uint y" by (simp only: unsigned_word_eqI [where ?'a = int] not_False_eq_True word_uint_eq_iff)
      with False Cons Cons.prems show ?thesis
        by (subst strcmp.simps) (auto simp: word_less_def)
    qed
  qed
qed

lemma equal_str_cstr: "cstr m a xs \<Longrightarrow> cstr m b ys \<Longrightarrow> equal_str m a b = Some (xs = ys)"
  using strcmp_cstr [of m a xs b ys] by (auto simp: equal_str_def)

lemma memcmp_zero: "memcmp m a b n = 0 \<longleftrightarrow> (\<forall>i < unat n. m (a + of_nat i) = m (b + of_nat i))"
proof (cases "find (\<lambda>i. m (a + of_nat i) \<noteq> m (b + of_nat i)) [0..<unat n]")
  case None
  moreover from this have "\<forall>i < unat n. m (a + of_nat i) = m (b + of_nat i)" by (simp add: find_upt_None_iff)
  ultimately show ?thesis unfolding memcmp_def by simp
next
  case (Some i)
  then have "i < unat n" "m (a + of_nat i) \<noteq> m (b + of_nat i)"
    by (simp_all add: find_upt_Some_iff)
  then have "i < unat n" "uint (m (a + of_nat i)) \<noteq> uint (m (b + of_nat i))"
    by (simp_all only: word_uint_eq_iff not_False_eq_True)
  with Some show ?thesis by (auto simp: memcmp_def)
qed

lemma strchr_cstr:
  "cstr m p xs \<Longrightarrow> c \<noteq> 0 \<Longrightarrow>
     strchr m p c = Some (if c \<in> set xs then p + of_nat (length (takeWhile (\<lambda>x. x \<noteq> c) xs)) else NULL)"
proof (induction xs arbitrary: p)
  case (Cons x xs)
  then show ?case by (subst strchr.simps) (auto simp: add.assoc)
qed (subst strchr.simps, simp)

section \<open>Writing a string\<close>

lemma put_fwd_apply:
  assumes "n \<le> 4294967296"
  shows "fold (\<lambda>i m. m(p + of_nat i := cs ! i)) [0..<n] (m :: mem) x = (if unat (x - p) < n then cs ! unat (x - p) else m x)"
  using assms
proof (induction n)
  case (Suc n)
  have "x = p + of_nat n \<longleftrightarrow> unat (x - p) = n"
  proof
    assume "x = p + of_nat n"
    moreover have "n < 4294967296" using Suc.prems by simp
    ultimately show "unat (x - p) = n" by (simp only: add_diff_cancel_left' unat_of_nat_u32)
  next
    assume "unat (x - p) = n"
    then have "of_nat n = x - p" using of_nat_unat_u32 [of "x - p"] by simp
    then show "x = p + of_nat n" by simp
  qed
  then show ?case using Suc by auto
qed simp

lemma put_string_apply:
  assumes "length cs < 4294967296"
  shows "put_string m p cs x = (if unat (x - p) < length cs then cs ! unat (x - p)
     else if unat (x - p) = length cs then 0 else m x)"
proof -
  have "x = p + of_nat (length cs) \<longleftrightarrow> unat (x - p) = length cs"
  proof
    assume "x = p + of_nat (length cs)"
    then show "unat (x - p) = length cs" using assms by (simp add: unat_of_nat_u32)
  next
    assume "unat (x - p) = length cs"
    then have "of_nat (length cs) = x - p" using of_nat_unat_u32 [of "x - p"] by simp
    then show "x = p + of_nat (length cs)" by simp
  qed
  then show ?thesis using assms by (simp add: put_string_def put_fwd_apply)
qed

lemma put_string_cstr:
  assumes "length cs < 4294967296" "0 \<notin> set cs"
  shows "cstr (put_string m p cs) p cs"
proof -
  have "put_string m p cs (p + of_nat i) = cs ! i \<and> cs ! i \<noteq> 0" if "i < length cs" for i
  proof -
    have "i < 4294967296" using that assms(1) by simp
    moreover have "cs ! i \<noteq> 0" using assms(2) nth_mem [OF that] by metis
    ultimately show ?thesis using assms(1) that by (simp add: put_string_apply unat_of_nat_u32)
  qed
  moreover have "put_string m p cs (p + of_nat (length cs)) = 0"
    using assms(1) by (simp add: put_string_apply unat_of_nat_u32)
  ultimately show ?thesis by (simp add: cstr_nth)
qed

lemma put_string_outside:
  assumes "length cs < n" "n < 4294967296" "x \<notin> region p (of_nat n)"
  shows "put_string m p cs x = m x"
proof -
  have "\<not> unat (x - p) < n" using assms(2,3) by (simp add: region_def word_less_nat_alt unat_of_nat_u32)
  then show ?thesis using assms(1,2) by (simp add: put_string_apply)
qed

section \<open>Digits and numbers\<close>

definition digits_value :: "u8 list \<Rightarrow> int \<Rightarrow> int" where
  "digits_value xs r = fold (\<lambda>d r. r * 10 + (uint d - 0x30)) xs r"

lemma digits_value_simps [simp]:
  "digits_value [] r = r" "digits_value (d # xs) r = digits_value xs (r * 10 + (uint d - 0x30))"
  "digits_value (xs @ [d]) r = digits_value xs r * 10 + (uint d - 0x30)"
  by (simp_all add: digits_value_def)

lemma isdigit_uint: "isdigit c \<longleftrightarrow> 48 \<le> uint c \<and> uint c \<le> 57"
  by (simp add: isdigit_def word_le_def)

lemma isdigit_nonzero: "isdigit c \<Longrightarrow> c \<noteq> 0"
  by (auto simp: isdigit_uint)

lemma digits_value_mono: "list_all isdigit xs \<Longrightarrow> 0 \<le> r \<Longrightarrow> r \<le> digits_value xs r"
proof (induction xs arbitrary: r)
  case (Cons d xs)
  then have "r \<le> r * 10 + (uint d - 48)" "0 \<le> r * 10 + (uint d - 48)" by (simp_all add: isdigit_uint)
  with Cons show ?case by fastforce
qed simp

lemma digit_char_decimal:
  assumes "rem < 10"
  shows "uint (digit_char rem) = uint rem + 48"
proof -
  have "rem = of_nat (unat rem)" "unat rem < 10" using assms by (simp_all add: word_less_nat_alt)
  then obtain n where n: "rem = of_nat n" "n < 10" by blast
  from n(2) have "n \<in> set [0..<10]" by simp
  then show ?thesis by (auto simp: n(1) digit_char_def upt_rec [of _ 10])
qed

lemma udigits_decimal:
  "\<exists>ds. udigits 10 n = Some ds \<and> ds \<noteq> [] \<and> list_all isdigit ds \<and> digits_value (rev ds) 0 = uint n \<and>
     (\<forall>k > 0. unat n < 10 ^ k \<longrightarrow> length ds \<le> k)"
proof (induction "unat n" arbitrary: n rule: less_induct)
  case less
  have "n mod 10 < 10" by (simp add: word_less_nat_alt unat_mod)
  then have d: "uint (digit_char (n mod 10)) = uint (n mod 10) + 48" "uint (n mod 10) < 10"
    by (simp_all add: digit_char_decimal word_less_def)
  then have dig: "isdigit (digit_char (n mod 10))"
    by (simp add: isdigit_uint)
  have q: "uint (n div 10) * 10 + uint (n mod 10) = uint n"
    by (simp add: uint_div uint_mod)
  show ?case
  proof (cases "0 < n div 10")
    case False
    then have "n div 10 = 0" by (simp only: word_neq_0_conv [symmetric] not_not)
    then have "uint (n div 10) = 0" by (simp only: unsigned_0)
    with q have "uint (n mod 10) = uint n" by simp
    with False d dig show ?thesis by (subst udigits.simps) (simp add: Let_def)
  next
    case True
    then have n: "0 < unat n" "unat (n div 10) < unat n"
      by (auto simp: word_less_nat_alt unat_div)
    from less [OF n(2)] obtain ds where ds: "udigits 10 (n div 10) = Some ds" "ds \<noteq> []" "list_all isdigit ds"
      "digits_value (rev ds) 0 = uint (n div 10)" "\<forall>k > 0. unat (n div 10) < 10 ^ k \<longrightarrow> length ds \<le> k" by blast
    have u: "udigits 10 n = Some (digit_char (n mod 10) # ds)"
      using True ds(1) by (subst udigits.simps) (simp add: Let_def)
    have "length (digit_char (n mod 10) # ds) \<le> k" if "0 < k" "unat n < 10 ^ k" for k
    proof -
      have "0 < k - 1"
      proof (rule ccontr)
        assume "\<not> 0 < k - 1"
        with that have "unat n < 10" by (cases k) auto
        with True show False by (simp add: word_less_nat_alt unat_div)
      qed
      moreover have "unat (n div 10) < 10 ^ (k - 1)"
        using that by (cases k) (simp_all add: unat_div less_mult_imp_div_less mult.commute)
      ultimately have "length ds \<le> k - 1" using ds(5) by blast
      then show ?thesis using that(1) by simp
    qed
    moreover have "digits_value (rev (digit_char (n mod 10) # ds)) 0 = uint n"
      using ds(4) d(1) q by simp
    moreover have "list_all isdigit (digit_char (n mod 10) # ds)" using ds(3) dig by simp
    ultimately show ?thesis using u by blast
  qed
qed

lemma udigits_length: "udigits 10 n = Some ds \<Longrightarrow> length ds \<le> 10"
  using udigits_decimal [of n] unat_less_2p32 [of n] by fastforce

lemma idigits_udigits: "idigits 10 (uint (n :: u32)) = udigits 10 n"
proof (induction "unat n" arbitrary: n rule: less_induct)
  case less
  have z: "uint n = 0 \<or> 0 < uint n" using uint_ge_0 [of n] by linarith
  have e: "uint n smod 10 = uint (n mod 10)" "uint n sdiv 10 = uint (n div 10)"
    using z by (auto simp: signed_divide_int_def signed_modulo_int_def sgn_if uint_div uint_mod)
  have "0 < uint (n div 10) \<longleftrightarrow> 0 < n div 10" by (simp only: word_less_def unsigned_0)
  moreover have "unat (n div 10) < unat n" if "0 < n div 10"
    using that by (auto simp: word_less_nat_alt unat_div)
  ultimately show ?case using less
    by (subst idigits.simps, subst udigits.simps) (simp add: e Let_def)
qed

lemma uatoi_loop_cstr:
  "cstr m p xs \<Longrightarrow> list_all isdigit xs \<Longrightarrow> uatoi_loop m p (of_int r) = Some (of_int (digits_value xs r))"
proof (induction xs arbitrary: p r)
  case (Cons d xs)
  have "of_int r * 10 + (ucast d - 0x30) = (of_int (r * 10 + (uint d - 48)) :: u32)"
    by simp
  then have "uatoi_loop m p (of_int r) = uatoi_loop m (p + 1) (of_int (r * 10 + (uint d - 48)))"
    using Cons.prems by (subst uatoi_loop.simps) (simp only: cstr.simps list.pred_inject simp_thms if_True)
  also have "\<dots> = Some (of_int (digits_value xs (r * 10 + (uint d - 48))))"
    using Cons.prems by (intro Cons.IH) simp_all
  finally show ?case by simp
qed (subst uatoi_loop.simps, simp)

lemma atoi_loop_cstr:
  "cstr m p xs \<Longrightarrow> list_all isdigit xs \<Longrightarrow> 0 \<le> r \<Longrightarrow> digits_value xs r < 2147483648 \<Longrightarrow>
     atoi_loop m p r = Some (digits_value xs r)"
proof (induction xs arbitrary: p r)
  case (Cons d xs)
  then have "0 \<le> r * 10 + (uint d - 48)" by (simp add: isdigit_uint)
  with Cons digits_value_mono [of xs "r * 10 + (uint d - 48)"] show ?case
    by (subst atoi_loop.simps) simp
qed (subst atoi_loop.simps, simp)

lemma decimal_print_read:
  assumes "str \<noteq> NULL"
  shows uitoa_uatoi: "\<exists>m'. uitoa m n str 10 = Some m' \<and> uatoi m' str = Some n \<and> (\<forall>x. x \<notin> region str 12 \<longrightarrow> m' x = m x)"
    and itoa_atoi: "\<bar>i\<bar> < 2147483648 \<Longrightarrow>
      \<exists>m'. itoa m i str 10 = Some m' \<and> atoi m' str = Some i \<and> (\<forall>x. x \<notin> region str 12 \<longrightarrow> m' x = m x)"
proof -
  have put: "cstr (put_string m str cs) str cs" "\<forall>x. x \<notin> region str 12 \<longrightarrow> put_string m str cs x = m x"
    if "length cs < 12" "0 \<notin> set cs" for cs
    using that put_string_cstr [of cs m str] put_string_outside [of cs 12 _ str m] by auto
  have dec: "\<exists>ds. udigits 10 n = Some ds \<and> ds \<noteq> [] \<and> list_all isdigit (rev ds) \<and> 0 \<notin> set ds \<and> length ds \<le> 10 \<and>
     digits_value (rev ds) 0 = uint n" for n
    using udigits_decimal [of n] udigits_length [of n] isdigit_nonzero by (fastforce simp: list_all_iff)
  from dec [of n] obtain ds where ds: "udigits 10 n = Some ds" "list_all isdigit (rev ds)" "0 \<notin> set ds"
    "length ds \<le> 10" "digits_value (rev ds) 0 = uint n" by blast
  show "\<exists>m'. uitoa m n str 10 = Some m' \<and> uatoi m' str = Some n \<and> (\<forall>x. x \<notin> region str 12 \<longrightarrow> m' x = m x)"
    using put [of "rev ds"] ds uatoi_loop_cstr [of "put_string m str (rev ds)" str "rev ds" 0] assms
    by (auto simp: uitoa_def uatoi_def)
  assume i: "\<bar>i\<bar> < 2147483648"
  then have u: "uint (of_int \<bar>i\<bar> :: u32) = \<bar>i\<bar>" by (simp add: unsigned_of_int take_bit_int_eq_self_iff)
  from dec [of "of_int \<bar>i\<bar>"] u idigits_udigits [of "of_int \<bar>i\<bar>"] obtain ds where
    ds: "idigits 10 \<bar>i\<bar> = Some ds" "ds \<noteq> []" "list_all isdigit (rev ds)" "0 \<notin> set ds" "length ds \<le> 10"
      "digits_value (rev ds) 0 = \<bar>i\<bar>" by metis
  let ?cs = "(if i < 0 then [0x2D] else []) @ rev ds"
  have c: "cstr (put_string m str ?cs) str ?cs" "\<forall>x. x \<notin> region str 12 \<longrightarrow> put_string m str ?cs x = m x"
    using put [of ?cs] ds(4,5) by auto
  have it: "itoa m i str 10 = Some (put_string m str ?cs)"
    using assms i ds(1) by (auto simp: itoa_def Let_def)
  have "atoi (put_string m str ?cs) str = Some i"
  proof (cases "i < 0")
    case True
    then have "put_string m str ?cs str = 0x2D" "cstr (put_string m str ?cs) (str + 1) (rev ds)"
      using c(1) by simp_all
    with True i assms atoi_loop_cstr [OF _ ds(3), of "put_string m str ?cs" "str + 1" 0] ds(6) show ?thesis
      by (simp add: atoi_def)
  next
    case False
    then have s: "cstr (put_string m str ?cs) str (rev ds)" using c(1) by simp
    moreover have "put_string m str ?cs str \<noteq> 0x2D"
    proof -
      from ds(2) obtain x xs where x: "rev ds = x # xs" by (cases "rev ds") auto
      with ds(3) have "x \<noteq> 0x2D" by (auto simp: isdigit_uint)
      with s x show ?thesis by simp
    qed
    ultimately show ?thesis
      using False i assms atoi_loop_cstr [OF s ds(3), of 0] ds(6) by (simp add: atoi_def)
  qed
  with it c(2) show "\<exists>m'. itoa m i str 10 = Some m' \<and> atoi m' str = Some i \<and> (\<forall>x. x \<notin> region str 12 \<longrightarrow> m' x = m x)"
    by blast
qed

section \<open>Copies\<close>

lemma put_string_Cons:
  assumes "length xs < 4294967295"
  shows "put_string m d (x # xs) = put_string (m(d := x)) (d + 1) xs"
proof
  fix y
  have "unat (y - d) = (if y = d then 0 else Suc (unat (y - (d + 1))))"
  proof (cases "y = d")
    case False
    then have "y - (d + 1) \<noteq> - 1" by (simp add: algebra_simps)
    then have "y - (d + 1) < - 1" by (simp only: word_order.not_eq_extremum)
    from unat_Suc_u32 [OF this] have "unat (y - d) = Suc (unat (y - (d + 1)))" by (simp add: algebra_simps)
    with False show ?thesis by simp
  qed simp
  moreover have "unat (d - (d + 1)) = 4294967295" by (simp add: unat_max_u32)
  ultimately show "put_string m d (x # xs) y = put_string (m(d := x)) (d + 1) xs y"
    using assms by (auto simp: put_string_apply)
qed

lemma strcpy_loop_cstr:
  assumes "cstr m s xs" "length xs < 4294967295"
    "\<And>i j. i \<le> length xs \<Longrightarrow> j \<le> length xs \<Longrightarrow> s + of_nat i \<noteq> d + of_nat j"
  shows "strcpy_loop m d s = Some (put_string m d xs)"
  using assms
proof (induction xs arbitrary: m s d)
  case Nil
  then show ?case by (subst strcpy_loop.simps) (simp add: put_string_def Let_def)
next
  case (Cons x xs)
  have ne: "s + 1 + of_nat i \<noteq> d + 1 + of_nat j" "s + 1 + of_nat i \<noteq> d"
    if "i \<le> length xs" "j \<le> length xs" for i j
    using Cons.prems(3) [of "Suc i" "Suc j"] Cons.prems(3) [of "Suc i" 0] that by (simp_all add: add.assoc)
  have "cstr (m(d := x)) (s + 1) xs"
    by (rule cstr_cong [of m]) (use Cons.prems(1) ne(2) [of _ 0] in simp_all)
  moreover have "length xs < 4294967295" using Cons.prems(2) by simp
  ultimately have "strcpy_loop (m(d := x)) (d + 1) (s + 1) = Some (put_string (m(d := x)) (d + 1) xs)"
    using ne(1) by (rule Cons.IH)
  moreover have "strcpy_loop m d s = strcpy_loop (m(d := x)) (d + 1) (s + 1)"
    using Cons.prems(1) by (subst strcpy_loop.simps) (simp add: Let_def)
  ultimately show ?case using put_string_Cons [of xs m d x] Cons.prems(2) by simp
qed

lemma strcpy_cstr:
  assumes "cstr m s xs" "length xs < 4294967295"
    "apart s (of_nat (Suc (length xs))) d (of_nat (Suc (length xs)))"
  shows "strcpy m d s = Some (d, put_string m d xs)"
proof -
  have "s + of_nat i \<noteq> d + of_nat j" if "i \<le> length xs" "j \<le> length xs" for i j
  proof (rule apart_neq [OF assms(3)])
    show "of_nat i < (of_nat (Suc (length xs)) :: u32)" "of_nat j < (of_nat (Suc (length xs)) :: u32)"
      using that assms(2) by (simp_all only: word_less_nat_alt unat_of_nat_u32)
  qed
  then show ?thesis using strcpy_loop_cstr [OF assms(1,2)] by (simp add: strcpy_def)
qed

section \<open>Properties\<close>

text \<open>
  Printing a number in decimal and reading it back gives the number again, for \<open>uitoa\<close> and
  \<open>uatoi\<close> on every unsigned 32-bit value and for \<open>itoa\<close> and \<open>atoi\<close> on every signed one but the
  smallest; both print at most 12 bytes.
\<close>

theorem decimal_round_trip:
  assumes "str \<noteq> NULL" "\<bar>i\<bar> < 2147483648"
  shows "(\<exists>m'. uitoa m n str 10 = Some m' \<and> uatoi m' str = Some n \<and> (\<forall>x. x \<notin> region str 12 \<longrightarrow> m' x = m x)) \<and>
    (\<exists>m'. itoa m i str 10 = Some m' \<and> atoi m' str = Some i \<and> (\<forall>x. x \<notin> region str 12 \<longrightarrow> m' x = m x))"
  using uitoa_uatoi [OF assms(1)] itoa_atoi [OF assms] by blast

theorem decimal_round_trip_witness:
  "\<exists>m'. itoa (\<lambda>_. 7) (- 1204) 0x1000 10 = Some m' \<and> atoi m' 0x1000 = Some (- 1204) \<and> m' 0x100C = 7"
proof -
  have "(0x100C :: u32) \<notin> region 0x1000 12" by (simp add: region_def)
  with decimal_round_trip [where str = "0x1000" and i = "- 1204" and m = "\<lambda>_. 7" and n = 0] show ?thesis by auto
qed

text \<open>
  A copy made by \<open>strcpy\<close> to memory apart from the source has the length of the source, compares
  equal to it, and differs from the old memory only in its own bytes; and the comparison of any two
  strings in memory has the sign of their lexicographic order as unsigned bytes.
\<close>

theorem string_copy_compares_equal:
  assumes "cstr m s xs" "length xs < 4294967295"
    "apart s (of_nat (Suc (length xs))) d (of_nat (Suc (length xs)))" "cstr m t ys"
  shows "(\<exists>m'. strcpy m d s = Some (d, m') \<and> strlen m' d = strlen m s \<and> strcmp m' d s = Some 0 \<and>
      (\<forall>x. x \<notin> region d (of_nat (Suc (length xs))) \<longrightarrow> m' x = m x)) \<and>
    (\<exists>r. strcmp m s t = Some r \<and> (r = 0 \<longleftrightarrow> xs = ys) \<and> (r < 0 \<longleftrightarrow> ord_class.lexordp xs ys))"
proof -
  let ?m = "put_string m d xs" and ?n = "of_nat (Suc (length xs)) :: u32"
  have out: "?m x = m x" if "x \<notin> region d ?n" for x
    using put_string_outside [of xs "Suc (length xs)" x d m] that assms(2) by simp
  have z: "0 \<notin> set xs" using assms(1) by (auto simp: cstr_nth in_set_conv_nth)
  with put_string_cstr [of xs m d] assms(2) have c: "cstr ?m d xs" by simp
  have "?m (s + of_nat i) = m (s + of_nat i)" if "i \<le> length xs" for i
  proof (rule out, rule notI)
    assume "s + of_nat i \<in> region d ?n"
    then have l: "s + of_nat i - d < ?n" by (simp add: region_def)
    have "of_nat i < ?n" using that assms(2) by (simp only: word_less_nat_alt unat_of_nat_u32)
    from apart_neq [OF assms(3) this l] show False by simp
  qed
  then have s: "cstr ?m s xs" by (rule cstr_cong [OF assms(1)])
  have "strcpy m d s = Some (d, ?m)" by (rule strcpy_cstr [OF assms(1-3)])
  moreover have "strlen ?m d = strlen m s" using strlen_cstr [OF c] strlen_cstr [OF assms(1)] by simp
  moreover have "strcmp ?m d s = Some 0" using strcmp_cstr [OF c s] by auto
  ultimately show ?thesis using out strcmp_cstr [OF assms(1,4)] by blast
qed

theorem string_copy_compares_equal_witness:
  "\<exists>m'. strcpy ((\<lambda>_. 0)(0x1000 := 0x61, 0x1001 := 0x62)) 0x2000 0x1000 = Some (0x2000, m') \<and>
     strlen m' 0x2000 = Some 2 \<and> strcmp m' 0x2000 0x1000 = Some 0"
proof -
  let ?m = "(\<lambda>_. 0)(0x1000 := 0x61, 0x1001 := 0x62) :: mem"
  have c: "cstr ?m 0x1000 [0x61, 0x62]" by simp
  have "apart 0x1000 (of_nat (Suc (length [0x61 :: u8, 0x62]))) 0x2000 (of_nat (Suc (length [0x61 :: u8, 0x62])))"
    by (simp add: apart_def)
  from string_copy_compares_equal [OF c _ this c] strlen_cstr [OF c] show ?thesis by auto
qed

end
