(* ===== verification/Task_Table.thy ===== *)
theory Task_Table
  imports Round_Robin CString "HOL-Library.Sublist"
begin

text \<open>
  The life of a task (src/kernel/scheduler/task.c): finding a free entry of the task table, stacks,
  creating kernel threads and user threads, cleaning up; the start of kernel threads by name
  (kthread.c), the start of the scheduler, its cleaner thread and the memory system calls
  (scheduler.c), and the table of system calls (syscalls.c).
\<close>

section \<open>The task table\<close>

definition TASKS_MAX :: nat where "TASKS_MAX = 256"

definition USER_PROGRAM_BASE :: u32 where "USER_PROGRAM_BASE = 0x01000000"

definition TASK_NAME_LENGTH :: nat where "TASK_NAME_LENGTH = 32"

definition put_task :: "nat \<Rightarrow> task \<Rightarrow> kernel \<Rightarrow> kernel" where
  "put_task i t k = k\<lparr>tasks := (tasks k)(i := t)\<rparr>"

definition get_free_task :: "(kernel, nat option) prog" where
  "get_free_task k =
     (case spinlock_lock (task_table_lock k) of None \<Rightarrow> None
      | Some l \<Rightarrow>
        (case find (\<lambda>i. state (tasks k i) = TASK_STATE_STOPPED) [0..<TASKS_MAX] of
           Some i \<Rightarrow>
             let t = (tasks k i)\<lparr>pid := of_nat i, state := TASK_STATE_CREATED, mode := TASK_MODE_KTHREAD,
                       t_paging_manager := False, t_heap_manager := False\<rparr>
             in Some (Some i, put_task i t (k\<lparr>task_table_lock := spinlock_unlock l\<rparr>))
         | None \<Rightarrow> Some (None, k\<lparr>task_table_lock := spinlock_unlock l\<rparr>)))"

text \<open>
  The parameter \<open>n\<close> of the definitions below is the nesting depth of the allocator (see \<open>malloc\<close>).
  The task pointers passed are never null.
\<close>

definition init_kernel_stack :: "nat \<Rightarrow> nat \<Rightarrow> (kernel, int) prog" where
  "init_kernel_stack n task k =
     (case kernel_amalloc n TASK_STACK_SIZE (km k) of None \<Rightarrow> None
      | Some (stack, m) \<Rightarrow>
        let k = k\<lparr>km := m\<rparr> in
        if stack = NULL then Some (-1, k)
        else
          let k = k\<lparr>km := (km k)\<lparr>mem := memset (mem (km k)) stack 0 TASK_STACK_SIZE\<rparr>\<rparr>;
              top = (stack + TASK_STACK_SIZE) AND NOT 0xF;
              t = tasks k task;
              t = t\<lparr>ctx := (ctx t)\<lparr>ebp := top, esp := top\<rparr>\<rparr>;
              t = t\<lparr>kebp := esp (ctx t), kesp := esp (ctx t)\<rparr>;
              t = t\<lparr>stackptr := stack\<rparr>
          in Some (0, put_task task t k))"

text \<open>
  The stack and frame pointers are set to the pointer \<open>stack_top\<close>, the address of the caller's
  variable, not to the value stored there. The result has the base and top that were stored.
\<close>

definition init_user_stack :: "nat \<Rightarrow> u32 \<Rightarrow> nat \<Rightarrow> (kernel, int \<times> (u32 \<times> u32) option) prog" where
  "init_user_stack n stack_top task k =
     (case init_kernel_stack n task k of None \<Rightarrow> None
      | Some (r, k) \<Rightarrow>
        if r \<noteq> 0 then Some ((-1, None), k)
        else
          case user_stack_alloc (irq k, user_stacks k) of None \<Rightarrow> None
          | Some ((slot_index, stack), i, um) \<Rightarrow>
            let k = k\<lparr>irq := i, user_stacks := um\<rparr> in
            if slot_index < 0 then Some ((-1, stack), k)
            else
              let t = tasks k task
              in Some ((0, stack), put_task task (t\<lparr>ctx := (ctx t)\<lparr>ebp := stack_top, esp := stack_top\<rparr>\<rparr>) k))"

definition task_init :: "kernel \<Rightarrow> kernel option" where
  "task_init k =
     (let k = k\<lparr>irq := disable_interrupts (irq k)\<rparr> in
      case spinlock_lock spinlock_init of None \<Rightarrow> None
      | Some l \<Rightarrow>
        let k = fold (\<lambda>i k. put_task i ((tasks k i)\<lparr>state := TASK_STATE_STOPPED, pid := 0xFFFF,
                               next := None, prev := None, parent := None\<rparr>) k) [0..<TASKS_MAX] k;
            k = k\<lparr>task_table_lock := spinlock_unlock l\<rparr>
        in case user_stack_manager_init (irq k, user_stacks k) of None \<Rightarrow> None
           | Some (i, um) \<Rightarrow> Some (k\<lparr>irq := enable_interrupts i, user_stacks := um\<rparr>))"

section \<open>Creating tasks\<close>

definition enable :: "kernel \<Rightarrow> kernel" where
  "enable k = k\<lparr>irq := enable_interrupts (irq k)\<rparr>"

text \<open>
  \<open>memcpy(task->name, name, strlen(name) + 1)\<close>: a name that does not fit runs over the fields behind
  it, which is \<open>None\<close>.
\<close>

definition copy_name :: "nat \<Rightarrow> u8 list \<Rightarrow> kernel \<Rightarrow> kernel option" where
  "copy_name task nm k =
     (if length nm < TASK_NAME_LENGTH then Some (put_task task ((tasks k task)\<lparr>name := nm\<rparr>) k) else None)"

definition string_at :: "mem \<Rightarrow> u32 \<Rightarrow> u8 list option" where
  "string_at m p = map_option (\<lambda>l. map (\<lambda>i. m (p + of_nat i)) [0..<l]) (strlen m p)"

text \<open>
  The copies of the arguments: an array of pointers, then 100 bytes per argument; false when memory
  runs out. Longer arguments run over the end of their block, as in the code.
\<close>

fun copy_args :: "nat \<Rightarrow> u32 \<Rightarrow> u32 \<Rightarrow> nat \<Rightarrow> nat \<Rightarrow> (kmem, bool) prog" where
  "copy_args n dest argv0 i 0 k = Some (True, k)"
| "copy_args n dest argv0 i (Suc rest) k =
     (case kernel_calloc n 1 100 k of None \<Rightarrow> None
      | Some (p, k) \<Rightarrow>
        let k = k\<lparr>mem := write32 (mem k) (elem32 dest (of_nat i)) p\<rparr> in
        if p = NULL then Some (False, k)
        else
          let a = read32 (mem k) (elem32 argv0 (of_nat i)) in
          (case strlen (mem k) a of None \<Rightarrow> None
           | Some l \<Rightarrow> copy_args n dest argv0 (Suc i) rest (k\<lparr>mem := memcpy (mem k) p a (of_nat l + 1)\<rparr>)))"

text \<open>The common end of both calls: the task becomes ready and is counted, and its number returned.\<close>

definition launch :: "nat \<Rightarrow> (kernel, u32) prog" where
  "launch task k =
     (case scheduler_add (Some task) k of None \<Rightarrow> None
      | Some (_, k) \<Rightarrow>
        let k = enable (k\<lparr>task_count := task_count k + 1\<rparr>) in Some (pid (tasks k task), k))"

definition task_create_kthread :: "nat \<Rightarrow> u32 \<Rightarrow> u32 \<Rightarrow> u32 \<Rightarrow> u32 \<Rightarrow> u32 \<Rightarrow> (kernel, u32) prog" where
  "task_create_kthread n kthread_entry entry nm argc argv0 k =
     (case get_free_task (k\<lparr>irq := disable_interrupts (irq k)\<rparr>) of None \<Rightarrow> None
      | Some (None, k) \<Rightarrow> Some (-1, enable k)
      | Some (Some i, k) \<Rightarrow>
        case init_kernel_stack n i k of None \<Rightarrow> None
        | Some (r, k) \<Rightarrow>
          if r \<noteq> 0 then Some (-1, enable k)
          else
            let t = (tasks k i)\<lparr>parent := None, thread_eip := entry, t_paging_manager := True, t_heap_manager := True,
                      physical_cr3 := paging_manager_get_physical_address (km k) (page_directory (paging (km k)))\<rparr>;
                t = t\<lparr>ctx := (ctx t)\<lparr>eip := kthread_entry\<rparr>, mode := TASK_MODE_KTHREAD, cs := 0x8, ds := 0x10\<rparr>;
                k = put_task i t k
            in case Option.bind (string_at (mem (km k)) nm) (\<lambda>s. copy_name i s k) of None \<Rightarrow> None
            | Some k \<Rightarrow>
              let k = put_task i ((tasks k i)\<lparr>tgid := pid (tasks k i)\<rparr>) k in
              if argc = 0 then launch i k
              else
                case kernel_calloc n 1 (4 * argc) (km k) of None \<Rightarrow> None
                | Some (dest, m) \<Rightarrow>
                  let k = put_task i ((tasks k i)\<lparr>argv := dest\<rparr>) (k\<lparr>km := m\<rparr>) in
                  if dest = NULL then Some (-1, enable k)
                  else
                    case copy_args n dest argv0 0 (if sint argc \<le> 0 then 0 else unat argc) (km k) of None \<Rightarrow> None
                    | Some (ok, m) \<Rightarrow>
                      let k = k\<lparr>km := m\<rparr> in
                      if \<not> ok then Some (-1, enable k)
                      else launch i (put_task i ((tasks k i)\<lparr>args := argc\<rparr>) k))"

text \<open>
  \<open>stack_top_var\<close> is the address of the local variable \<open>stack_top\<close>. The pages of the stack are mapped
  from its base to its top inclusive.
\<close>

definition task_create_thread_process :: "nat \<Rightarrow> u32 \<Rightarrow> nat \<Rightarrow> u32 \<Rightarrow> u32 \<Rightarrow> (kernel, u32) prog" where
  "task_create_thread_process n stack_top_var par entry arg k =
     (case get_free_task (k\<lparr>irq := disable_interrupts (irq k)\<rparr>) of None \<Rightarrow> None
      | Some (None, k) \<Rightarrow> Some (-1, enable k)
      | Some (Some i, k) \<Rightarrow>
        case init_user_stack n stack_top_var i k of None \<Rightarrow> None
        | Some ((r, stack), k) \<Rightarrow>
          if r \<noteq> 0 then Some (-1, enable k)
          else
            let p = tasks k par;
                k = put_task i ((tasks k i)\<lparr>mode := TASK_MODE_THREAD, parent := Some par, tgid := tgid p\<rparr>) k
            in case copy_name i (name p) k of None \<Rightarrow> None
            | Some k \<Rightarrow>
              let t = tasks k i;
                  t = t\<lparr>ctx := (ctx t)\<lparr>eip := USER_PROGRAM_BASE\<rparr>, thread_eip := entry, args := arg,
                        t_paging_manager := t_paging_manager p, t_heap_manager := t_heap_manager p,
                        physical_cr3 := physical_cr3 p\<rparr>;
                  k = put_task i t k
              in case stack of None \<Rightarrow> None
              | Some (stack_base, stack_top) \<Rightarrow>
                if \<not> t_paging_manager (tasks k i) then None
                else case paging_manager_allocate_range (malloc n) stack_base stack_top False True (km k) of None \<Rightarrow> None
                | Some m \<Rightarrow> launch i (k\<lparr>km := m\<rparr>))"

section \<open>Cleaning up a task\<close>

text \<open>
  The arguments \<open>junk\<close> stand for the uninitialised variable of \<open>unallocate\<close>, one value per call.
\<close>

fun free_allocations :: "(nat \<Rightarrow> u32) \<Rightarrow> nat \<Rightarrow> nat list \<Rightarrow> kernel \<Rightarrow> kernel option" where
  "free_allocations junk task [] k = Some k"
| "free_allocations junk task (i # rest) k =
     (let t = tasks k task; e = at_data (thread_allocation_table t) ! i in
      if 0 < ae_size e \<and> ae_address e \<noteq> 0
      then
        if \<not> t_heap_manager t then None
        else case heap_manager_free (junk i) (ae_address e) (km k) of None \<Rightarrow> None
        | Some m \<Rightarrow>
          let a = thread_allocation_table t;
              t = t\<lparr>thread_allocation_table := a\<lparr>at_data := (at_data a)[i := free_entry]\<rparr>\<rparr>
          in free_allocations junk task rest (put_task task t (k\<lparr>km := m\<rparr>))
      else free_allocations junk task rest k)"

definition zombify_threads :: "nat \<Rightarrow> kernel \<Rightarrow> kernel" where
  "zombify_threads task k =
     fold (\<lambda>i k. if parent (tasks k i) = Some task \<and> mode (tasks k i) = TASK_MODE_THREAD
                 then set_state i TASK_STATE_ZOMBIE k else k) [0..<TASKS_MAX] k"

definition task_cleanup :: "(nat \<Rightarrow> u32) \<Rightarrow> u16 \<Rightarrow> (kernel, int) prog" where
  "task_cleanup junk p k =
     (if p = 0xFFFF \<or> TASKS_MAX \<le> unat p then Some (-1, k)
      else
        let task = unat p; k = k\<lparr>irq := disable_interrupts (irq k)\<rparr> in
        case spinlock_lock (task_table_lock k) of None \<Rightarrow> None
        | Some l \<Rightarrow>
          let k = zombify_threads task k;
              k = enable (k\<lparr>task_table_lock := spinlock_unlock l\<rparr>)
          in case (if mode (tasks k task) = TASK_MODE_PROCESS
                   then if t_heap_manager (tasks k task)
                        then map_option (\<lambda>m. k\<lparr>km := m\<rparr>) (heap_manager_free_all (km k)) else None
                   else free_allocations junk task [0..<ALLOCATION_MAX_COUNT] k) of None \<Rightarrow> None
          | Some k \<Rightarrow>
            let k = k\<lparr>irq := disable_interrupts (irq k)\<rparr>; stack = stackptr (tasks k task) in
            case (if stack \<noteq> 0 then kernel_free (junk ALLOCATION_MAX_COUNT) stack (km k) else Some (km k)) of
              None \<Rightarrow> None
            | Some m \<Rightarrow>
              Some (0, enable (put_task task (zero_task\<lparr>state := TASK_STATE_STOPPED, pid := 0xFFFF\<rparr>)
                         (k\<lparr>km := m, task_count := task_count k - 1\<rparr>))))"

section \<open>Kernel threads by name\<close>

text \<open>The entries the linker collects; \<open>nm\<close> is compared with the beginning of each name only.\<close>

record kthread =
  kt_name :: u32
  kt_entry :: u32

fun kthread_start :: "nat \<Rightarrow> u32 \<Rightarrow> kthread list \<Rightarrow> u32 \<Rightarrow> u32 \<Rightarrow> u32 \<Rightarrow> (kernel, u32) prog" where
  "kthread_start n kthread_entry [] nm argc argv0 k = Some (-1, k)"
| "kthread_start n kthread_entry (e # es) nm argc argv0 k =
     (case strlen (mem (km k)) (kt_name e) of None \<Rightarrow> None
      | Some l \<Rightarrow>
        if memcmp (mem (km k)) nm (kt_name e) (of_nat l) = 0
        then task_create_kthread n kthread_entry (kt_entry e) (kt_name e) argc argv0 k
        else kthread_start n kthread_entry es nm argc argv0 k)"

text \<open>
  The start of the scheduler; \<open>cleaner\<close> and \<open>idle\<close> are the addresses of the two names, which are
  literals in the code.
\<close>

definition scheduler_init :: "nat \<Rightarrow> u32 \<Rightarrow> kthread list \<Rightarrow> u32 \<Rightarrow> u32 \<Rightarrow> kernel \<Rightarrow> kernel option" where
  "scheduler_init n kthread_entry kthreads cleaner idle k =
     (if scheduler_is_initialized k then Some k
      else case task_init k of None \<Rightarrow> None
      | Some k \<Rightarrow>
        let k = k\<lparr>ready_queue := task_queue_init, zombie_queue := task_queue_init,
                  sleepers := sleep_queue_init (sq_data (sleepers k)) MAX_SLEEP_TASKS\<rparr>
        in case kthread_start n kthread_entry kthreads cleaner 0 NULL k of None \<Rightarrow> None
        | Some (_, k) \<Rightarrow>
          map_option (\<lambda>(_, k). k\<lparr>scheduler_is_initialized := True\<rparr>)
            (kthread_start n kthread_entry kthreads idle 0 NULL k))"

section \<open>The cleaner\<close>

definition pop_zombie :: "(kernel, nat option) prog" where
  "pop_zombie k = map_option (\<lambda>(t, T, q). (t, k\<lparr>tasks := T, zombie_queue := q\<rparr>))
     (task_queue_pop (tasks k, zombie_queue k))"

text \<open>
  One round of the loop of \<open>kthread_task_cleaner\<close>. The result is \<open>None\<close> when there is nothing to do and
  the processor halts until the next interrupt, else what the yield ends with.
\<close>

definition cleaner_step :: "(nat \<Rightarrow> u32) \<Rightarrow> (kernel, outcome option) prog" where
  "cleaner_step junk k =
     (case task_queue_peek (tasks k, zombie_queue k) of None \<Rightarrow> Some (None, k)
      | Some _ \<Rightarrow>
        case pop_zombie k of None \<Rightarrow> None
        | Some (None, k) \<Rightarrow> Some (None, k)
        | Some (Some t, k) \<Rightarrow>
          (case task_cleanup junk (ucast (pid (tasks k t))) k of None \<Rightarrow> None
           | Some (_, k) \<Rightarrow> map_option (\<lambda>(r, k). (Some r, k)) (scheduler_yield k)))"

section \<open>Memory for the current task\<close>

definition syscall_malloc :: "nat \<Rightarrow> u32 \<Rightarrow> (kernel, u32) prog" where
  "syscall_malloc n sz k =
     (if sint sz \<le> 0 then Some (NULL, k)
      else
        let k = k\<lparr>irq := disable_interrupts (irq k)\<rparr> in
        case current k of None \<Rightarrow> Some (NULL, enable k)
        | Some c \<Rightarrow>
          if \<not> t_heap_manager (tasks k c) then None
          else case malloc n sz False (km k) of None \<Rightarrow> None
          | Some (ret, m) \<Rightarrow>
            let t = tasks k c;
                t = t\<lparr>thread_allocation_table := allocation_table_add ret sz (thread_allocation_table t)\<rparr>
            in Some (ret, enable (put_task c t (k\<lparr>km := m\<rparr>))))"

definition syscall_free :: "u32 \<Rightarrow> u32 \<Rightarrow> kernel \<Rightarrow> kernel option" where
  "syscall_free junk address k =
     (let k = k\<lparr>irq := disable_interrupts (irq k)\<rparr> in
      case current k of None \<Rightarrow> Some (enable k)
      | Some c \<Rightarrow>
        if \<not> t_heap_manager (tasks k c) then None
        else case heap_manager_free junk address (km k) of None \<Rightarrow> None
        | Some m \<Rightarrow>
          let t = tasks k c;
              t = t\<lparr>thread_allocation_table := allocation_table_remove address (thread_allocation_table t)\<rparr>
          in Some (enable (put_task c t (k\<lparr>km := m\<rparr>))))"

section \<open>Frames\<close>

lemma put_task_simps [simp]:
  "tasks (put_task i t k) = (tasks k)(i := t)" "km (put_task i t k) = km k" "irq (put_task i t k) = irq k"
  "ready_queue (put_task i t k) = ready_queue k" "zombie_queue (put_task i t k) = zombie_queue k"
  "sleepers (put_task i t k) = sleepers k" "current (put_task i t k) = current k"
  "task_count (put_task i t k) = task_count k" "task_table_lock (put_task i t k) = task_table_lock k"
  "user_stacks (put_task i t k) = user_stacks k" "pit (put_task i t k) = pit k"
  "scheduler_is_initialized (put_task i t k) = scheduler_is_initialized k"
  by (simp_all add: put_task_def)

lemma put_task_normal [simp]:
  "put_task i a (put_task i b k) = put_task i a k"
  "(put_task i t k)\<lparr>km := m\<rparr> = put_task i t (k\<lparr>km := m\<rparr>)"
  "(put_task i t k)\<lparr>irq := r\<rparr> = put_task i t (k\<lparr>irq := r\<rparr>)"
  "(put_task i t k)\<lparr>user_stacks := u\<rparr> = put_task i t (k\<lparr>user_stacks := u\<rparr>)"
  by (simp_all add: put_task_def)

lemma enable_simps [simp]:
  "tasks (enable k) = tasks k" "km (enable k) = km k" "irq (enable k) = enable_interrupts (irq k)"
  "ready_queue (enable k) = ready_queue k" "zombie_queue (enable k) = zombie_queue k"
  "sleepers (enable k) = sleepers k" "current (enable k) = current k" "pit (enable k) = pit k"
  "task_count (enable k) = task_count k" "task_table_lock (enable k) = task_table_lock k"
  "user_stacks (enable k) = user_stacks k"
  "scheduler_is_initialized (enable k) = scheduler_is_initialized k"
  by (simp_all add: enable_def)

lemma queues_only_more:
  assumes "queues_only k k'"
  shows "task_count k' = task_count k" "task_table_lock k' = task_table_lock k" "user_stacks k' = user_stacks k"
    "scheduler_is_initialized k' = scheduler_is_initialized k"
  using assms by (auto simp: queues_only_def)

lemma core_more:
  assumes "core a = core b"
  shows "args a = args b" "argv a = argv b" "ds a = ds b" "cs a = cs b" "thread_eip a = thread_eip b"
    "stackptr a = stackptr b" "t_paging_manager a = t_paging_manager b" "t_heap_manager a = t_heap_manager b"
    "thread_allocation_table a = thread_allocation_table b" "name a = name b" "tgid a = tgid b" "parent a = parent b"
  using assms by (cases a; cases b; simp add: core_def)+

section \<open>Free entries\<close>

text \<open>No task in a queue has a free entry; \<open>i\<close> is the first free entry.\<close>

definition queued_in_use :: "kernel \<Rightarrow> nat list \<Rightarrow> nat list \<Rightarrow> bool" where
  "queued_in_use k rs zs \<longleftrightarrow> (\<forall>t. queued k rs zs t \<longrightarrow> state (tasks k t) \<noteq> TASK_STATE_STOPPED)"

definition first_free :: "kernel \<Rightarrow> nat \<Rightarrow> bool" where
  "first_free k i \<longleftrightarrow> i < TASKS_MAX \<and> state (tasks k i) = TASK_STATE_STOPPED \<and>
     (\<forall>j < i. state (tasks k j) \<noteq> TASK_STATE_STOPPED)"

definition table_full :: "kernel \<Rightarrow> bool" where
  "table_full k \<longleftrightarrow> (\<forall>j < TASKS_MAX. state (tasks k j) \<noteq> TASK_STATE_STOPPED)"

definition taken :: "nat \<Rightarrow> task \<Rightarrow> task" where
  "taken i t = t\<lparr>pid := of_nat i, state := TASK_STATE_CREATED, mode := TASK_MODE_KTHREAD,
     t_paging_manager := False, t_heap_manager := False\<rparr>"

lemma get_free_task_first:
  assumes "task_table_lock k = 0" "first_free k i"
  shows "get_free_task k = Some (Some i, put_task i (taken i (tasks k i)) k)"
proof -
  have "find (\<lambda>i. state (tasks k i) = TASK_STATE_STOPPED) [0..<TASKS_MAX] = Some i"
    using assms(2) by (simp add: find_upt_Some_iff first_free_def)
  moreover have lk: "k\<lparr>task_table_lock := 0\<rparr> = k" using assms(1) by simp
  ultimately show ?thesis using assms(1) by (simp add: get_free_task_def taken_def lk)
qed

lemma get_free_task_full:
  assumes "task_table_lock k = 0" "table_full k"
  shows "get_free_task k = Some (None, k)"
proof -
  have "find (\<lambda>i. state (tasks k i) = TASK_STATE_STOPPED) [0..<TASKS_MAX] = None"
    using assms(2) by (simp add: find_upt_None_iff table_full_def)
  moreover have lk: "k\<lparr>task_table_lock := 0\<rparr> = k" using assms(1) by simp
  ultimately show ?thesis using assms(1) by (simp add: get_free_task_def lk)
qed

section \<open>Creating a kernel thread\<close>

definition cleared :: "u32 \<Rightarrow> kmem \<Rightarrow> kmem" where
  "cleared stack m = m\<lparr>mem := memset (mem m) stack 0 TASK_STACK_SIZE\<rparr>"

definition stack_end :: "u32 \<Rightarrow> u32" where
  "stack_end stack = (stack + TASK_STACK_SIZE) AND NOT 0xF"

definition with_stack :: "u32 \<Rightarrow> task \<Rightarrow> task" where
  "with_stack stack t = t\<lparr>ctx := (ctx t)\<lparr>ebp := stack_end stack, esp := stack_end stack\<rparr>,
     kebp := stack_end stack, kesp := stack_end stack, stackptr := stack\<rparr>"

lemma init_kernel_stack_ok:
  assumes "kernel_amalloc n TASK_STACK_SIZE (km k) = Some (stack, m)" "stack \<noteq> NULL"
  shows "init_kernel_stack n i k = Some (0, put_task i (with_stack stack (tasks k i)) (k\<lparr>km := cleared stack m\<rparr>))"
proof -
  have "put_task i (with_stack stack (tasks k i)) (k\<lparr>km := cleared stack m\<rparr>) = put_task i
      (let t = tasks (k\<lparr>km := cleared stack m\<rparr>) i; t = t\<lparr>ctx := (ctx t)\<lparr>ebp := stack_end stack, esp := stack_end stack\<rparr>\<rparr>;
           t = t\<lparr>kebp := esp (ctx t), kesp := esp (ctx t)\<rparr> in t\<lparr>stackptr := stack\<rparr>) (k\<lparr>km := cleared stack m\<rparr>)"
    by (simp add: with_stack_def Let_def)
  then show ?thesis using assms by (simp add: init_kernel_stack_def Let_def cleared_def stack_end_def)
qed

lemma init_kernel_stack_null:
  assumes "kernel_amalloc n TASK_STACK_SIZE (km k) = Some (NULL, m)"
  shows "init_kernel_stack n i k = Some (-1, k\<lparr>km := m\<rparr>)"
  using assms by (simp add: init_kernel_stack_def)

lemma string_at_cstr:
  assumes "cstr m p s"
  shows "string_at m p = Some s"
proof -
  have "map (\<lambda>i. m (p + of_nat i)) [0..<length s] = s"
    by (rule nth_equalityI) (use assms in \<open>simp_all add: cstr_nth\<close>)
  then show ?thesis using strlen_cstr [OF assms] by (simp add: string_at_def)
qed

text \<open>The entry of a new kernel thread.\<close>

definition kthread_task :: "nat \<Rightarrow> u32 \<Rightarrow> u32 \<Rightarrow> u8 list \<Rightarrow> u32 \<Rightarrow> kmem \<Rightarrow> task \<Rightarrow> task" where
  "kthread_task i kthread_entry entry s stack m t =
     (with_stack stack (taken i t))\<lparr>parent := None, thread_eip := entry, t_paging_manager := True,
       t_heap_manager := True, physical_cr3 := paging_manager_get_physical_address m (page_directory (paging m)),
       ctx := (ctx (with_stack stack (taken i t)))\<lparr>eip := kthread_entry\<rparr>, mode := TASK_MODE_KTHREAD,
       cs := 0x8, ds := 0x10, name := s, tgid := of_nat i\<rparr>"

lemma kthread_task_simps [simp]:
  "pid (with_stack stack (taken i t)) = of_nat i"
  "next (kthread_task i ke entry s stack m t) = next t" "wake_tick (kthread_task i ke entry s stack m t) = wake_tick t"
  "state (kthread_task i ke entry s stack m t) = TASK_STATE_CREATED" "pid (kthread_task i ke entry s stack m t) = of_nat i"
  by (simp_all add: kthread_task_def taken_def with_stack_def)

lemma task_create_kthread_ok:
  assumes "sched_ok k rs zs" "queued_in_use k rs zs" "task_table_lock k = 0" "first_free k i" "interrupts_ok (irq k)"
    "kernel_amalloc n TASK_STACK_SIZE (km k) = Some (stack, m)" "stack \<noteq> NULL"
    "cstr (mem (cleared stack m)) nm s" "length s < TASK_NAME_LENGTH"
  shows "\<exists>k'. task_create_kthread n kthread_entry entry nm 0 argv0 k = Some (of_nat i, k') \<and>
    sched_ok k' (rs @ [i]) zs \<and> core (tasks k' i) = core (kthread_task i kthread_entry entry s stack (cleared stack m) (tasks k i)) \<and>
    state (tasks k' i) = TASK_STATE_CREATED \<and>
    (\<forall>j. j \<noteq> i \<longrightarrow> core (tasks k' j) = core (tasks k j) \<and> state (tasks k' j) = state (tasks k j)) \<and>
    irq k' = irq k \<and> km k' = cleared stack m \<and> task_count k' = task_count k + 1 \<and> task_table_lock k' = 0 \<and>
    current k' = current k \<and> sleepers k' = sleepers k \<and>
    scheduler_is_initialized k' = scheduler_is_initialized k \<and> pit k' = pit k"
proof -
  let ?d = "k\<lparr>irq := disable_interrupts (irq k)\<rparr>"
  let ?m = "cleared stack m"
  let ?t = "kthread_task i kthread_entry entry s stack ?m (tasks k i)"
  let ?k = "put_task i ?t (?d\<lparr>km := ?m\<rparr>)"
  have g: "get_free_task ?d = Some (Some i, put_task i (taken i (tasks k i)) ?d)"
    using get_free_task_first [of ?d i] assms(3,4) by (simp add: first_free_def)
  let ?g = "put_task i (taken i (tasks k i)) ?d"
  have st: "init_kernel_stack n i ?g = Some (0, put_task i (with_stack stack (taken i (tasks k i))) (?g\<lparr>km := ?m\<rparr>))"
    using init_kernel_stack_ok [of n ?g stack m i] assms(6,7) by simp
  have nm: "string_at (mem ?m) nm = Some s" using assms(8) by (rule string_at_cstr)
  have "task_create_kthread n kthread_entry entry nm 0 argv0 k = launch i ?k"
    using assms(9)
    by (simp add: task_create_kthread_def g st nm copy_name_def kthread_task_def Let_def)
  note create = this
  have ok: "sched_ok ?k rs zs"
    by (rule sched_ok_tasks [OF assms(1)]) simp_all
  have nq: "\<not> queued ?k rs zs i"
    using assms(2,4) by (auto simp: queued_in_use_def first_free_def queued_def)
  from enqueue_ready_spec [OF ok nq] obtain k1 where
    k1: "enqueue_ready i ?k = Some k1" "sched_ok k1 (rs @ [i]) zs" "queues_only ?k k1" "sleepers k1 = sleepers ?k"
      "\<forall>x. state (tasks k1 x) = state (tasks ?k x)" by auto
  let ?r = "enable (k1\<lparr>task_count := task_count k1 + 1\<rparr>)"
  have c: "core (tasks k1 x) = core (tasks ?k x)" for x by (rule queues_only_fields(7) [OF k1(3)])
  have "pid (tasks k1 i) = of_nat i"
    using core_fields(7) [OF c [of i]] by simp
  with create k1(1) have "task_create_kthread n kthread_entry entry nm 0 argv0 k = Some (of_nat i, ?r)"
    by (simp add: launch_def scheduler_add_def Let_def)
  moreover have "sched_ok ?r (rs @ [i]) zs" by (rule sched_ok_tasks [OF k1(2)]) simp_all
  moreover have "irq ?r = irq k" using queues_only_fields(2) [OF k1(3)] assms(5) by simp
  moreover have "core (tasks ?r i) = core ?t" using c [of i] by simp
  moreover have "\<forall>j. j \<noteq> i \<longrightarrow> core (tasks ?r j) = core (tasks k j) \<and> state (tasks ?r j) = state (tasks k j)"
    using c k1(5) by simp
  ultimately show ?thesis
    using k1(4,5) queues_only_fields [OF k1(3)] queues_only_more [OF k1(3)] assms(3)
    by (intro exI [of _ ?r]) simp
qed

section \<open>Starting threads by name\<close>

lemma memcmp_prefix:
  assumes "cstr m a s" "cstr m b t" "length t < 4294967296"
  shows "memcmp m a b (of_nat (length t)) = 0 \<longleftrightarrow> prefix t s"
proof -
  have t: "m (b + of_nat i) = t ! i" "t ! i \<noteq> 0" if "i < length t" for i
    using assms(2) that by (auto simp: cstr_nth)
  have s: "m (a + of_nat i) = s ! i" if "i < length s" for i using assms(1) that by (auto simp: cstr_nth)
  have z: "m (a + of_nat (length s)) = 0" using assms(1) by (simp add: cstr_nth)
  have "memcmp m a b (of_nat (length t)) = 0 \<longleftrightarrow> (\<forall>i < length t. m (a + of_nat i) = t ! i)"
    using t(1) assms(3) by (simp add: memcmp_zero unat_of_nat_u32)
  also have "\<dots> \<longleftrightarrow> prefix t s"
  proof
    assume eq: "\<forall>i < length t. m (a + of_nat i) = t ! i"
    have le: "length t \<le> length s"
      using eq z t(2) [of "length s"] by (metis not_le)
    have "take (length t) s = t" by (rule nth_equalityI) (use eq s le in auto)
    then show "prefix t s" using take_is_prefix [of "length t" s] by simp
  next
    assume "prefix t s"
    then obtain u where u: "s = t @ u" by (auto simp: prefix_def)
    show "\<forall>i < length t. m (a + of_nat i) = t ! i"
    proof (intro allI impI)
      fix i
      assume "i < length t"
      with s [of i] u show "m (a + of_nat i) = t ! i" by (simp add: nth_append)
    qed
  qed
  finally show ?thesis .
qed

definition named :: "(kthread \<Rightarrow> u8 list) \<Rightarrow> kthread list \<Rightarrow> mem \<Rightarrow> bool" where
  "named f es m \<longleftrightarrow> (\<forall>e \<in> set es. cstr m (kt_name e) (f e) \<and> length (f e) < TASK_NAME_LENGTH)"

lemma kthread_start_find:
  assumes "cstr (mem (km k)) nm s" "named f es (mem (km k))"
  shows "kthread_start n ke es nm argc argv0 k =
    (case find (\<lambda>e. prefix (f e) s) es of None \<Rightarrow> Some (- 1, k)
     | Some e \<Rightarrow> task_create_kthread n ke (kt_entry e) (kt_name e) argc argv0 k)"
  using assms(2)
proof (induction es)
  case (Cons e es)
  then have e: "cstr (mem (km k)) (kt_name e) (f e)" "length (f e) < 4294967296"
    by (auto simp: named_def TASK_NAME_LENGTH_def)
  from memcmp_prefix [OF assms(1) e] Cons strlen_cstr [OF e(1)] show ?case
    by (simp add: named_def)
qed simp

section \<open>Starting the scheduler\<close>

lemma fold_put_task:
  "fold (\<lambda>i k. put_task i (g (tasks k i)) k) [0..<n] k = k\<lparr>tasks := \<lambda>i. if i < n then g (tasks k i) else tasks k i\<rparr>"
proof (induction n)
  case (Suc n)
  then show ?case by (auto simp: put_task_def fun_eq_iff)
qed simp

lemma user_stack_manager_init_irq:
  assumes "interrupts_ok i"
  shows "\<exists>um. user_stack_manager_init (i, u) = Some (i, um)"
  using assms by (simp add: user_stack_manager_init_def Let_def)

lemma task_init_ok:
  assumes "interrupts_ok (irq k)"
  shows "\<exists>k' um. task_init k = Some k' \<and> tasks k' = (\<lambda>i. if i < TASKS_MAX
        then (tasks k i)\<lparr>state := TASK_STATE_STOPPED, pid := 0xFFFF, next := None, prev := None, parent := None\<rparr>
        else tasks k i) \<and>
    k' = k\<lparr>tasks := tasks k', task_table_lock := 0, user_stacks := um\<rparr>"
proof -
  let ?T = "\<lambda>i. if i < TASKS_MAX
        then (tasks k i)\<lparr>state := TASK_STATE_STOPPED, pid := 0xFFFF, next := None, prev := None, parent := None\<rparr>
        else tasks k i"
  from user_stack_manager_init_irq [of "disable_interrupts (irq k)" "user_stacks k"] assms obtain um where
    um: "user_stack_manager_init (disable_interrupts (irq k), user_stacks k) = Some (disable_interrupts (irq k), um)"
    by auto
  have "task_init k = Some (k\<lparr>tasks := ?T, task_table_lock := 0, user_stacks := um\<rparr>)"
    using um assms
    by (simp add: task_init_def Let_def fold_put_task [where g = "\<lambda>t. t\<lparr>state := TASK_STATE_STOPPED, pid := 0xFFFF,
      next := None, prev := None, parent := None\<rparr>"] cong: if_cong)
  then show ?thesis by (intro exI [of _ "k\<lparr>tasks := ?T, task_table_lock := 0, user_stacks := um\<rparr>"] exI [of _ um]) simp
qed

lemma queued_in_use_add:
  assumes "queued_in_use k rs zs" "\<forall>j. j \<noteq> i \<longrightarrow> state (tasks k' j) = state (tasks k j)"
    "state (tasks k' i) = TASK_STATE_CREATED" "sleepers k' = sleepers k"
  shows "queued_in_use k' (rs @ [i]) zs"
  unfolding queued_in_use_def
proof (intro allI impI)
  fix t
  assume "queued k' (rs @ [i]) zs t"
  then have "t = i \<or> queued k rs zs t" using assms(4) by (auto simp: queued_def)
  then show "state (tasks k' t) \<noteq> TASK_STATE_STOPPED"
    using assms(1,2,3) unfolding queued_in_use_def by (cases "t = i") auto
qed

lemma scheduler_init_ok:
  assumes "\<not> scheduler_is_initialized k" "interrupts_ok (irq k)" "length (sq_data (sleepers k)) = MAX_SLEEP_TASKS"
    "kernel_amalloc n TASK_STACK_SIZE (km k) = Some (s1, m1)" "s1 \<noteq> NULL"
    "kernel_amalloc n TASK_STACK_SIZE (cleared s1 m1) = Some (s2, m2)" "s2 \<noteq> NULL"
    "cstr (mem (km k)) cleaner cn" "cstr (mem (cleared s1 m1)) idle idn"
    "named f es (mem (km k))" "named f es (mem (cleared s1 m1))" "named f es (mem (cleared s2 m2))"
    "find (\<lambda>e. prefix (f e) cn) es = Some c" "find (\<lambda>e. prefix (f e) idn) es = Some d"
  shows "\<exists>k'. scheduler_init n ke es cleaner idle k = Some k' \<and> sched_ok k' [0, 1] [] \<and>
    state (tasks k' 0) = TASK_STATE_CREATED \<and> name (tasks k' 0) = f c \<and> thread_eip (tasks k' 0) = kt_entry c \<and>
    state (tasks k' 1) = TASK_STATE_CREATED \<and> name (tasks k' 1) = f d \<and> thread_eip (tasks k' 1) = kt_entry d \<and>
    current k' = current k \<and> irq k' = irq k \<and> sq_elems (sleepers k') = {#} \<and>
    scheduler_is_initialized k' \<and> task_count k' = task_count k + 2 \<and> pit k' = pit k \<and> km k' = cleared s2 m2 \<and>
    task_table_lock k' = 0 \<and> queued_in_use k' [0, 1] [] \<and> first_free k' 2"
proof -
  let ?h = "sleep_queue_init (sq_data (sleepers k)) MAX_SLEEP_TASKS"
  from task_init_ok [OF assms(2)] obtain k0 um where
    k0: "task_init k = Some k0" "\<And>i. i < TASKS_MAX \<Longrightarrow> state (tasks k0 i) = TASK_STATE_STOPPED"
      "k0 = k\<lparr>tasks := tasks k0, task_table_lock := 0, user_stacks := um\<rparr>" by auto
  let ?k = "k0\<lparr>ready_queue := task_queue_init, zombie_queue := task_queue_init, sleepers := ?h\<rparr>"
  have f: "irq ?k = irq k" "km ?k = km k" "current ?k = current k" "task_table_lock ?k = 0" "task_count ?k = task_count k" "pit ?k = pit k"
    by (subst k0(3), simp)+
  have z: "TASKS_MAX = 256" "sq_elems ?h = {#}" by (simp_all add: TASKS_MAX_def sleep_queue_init_def sq_elems_def)
  have ok: "sched_ok ?k [] []"
    using sleep_queue_init_inv [of "sq_data (sleepers k)" MAX_SLEEP_TASKS] assms(3)
    by (simp add: sched_ok_def task_queue_init_rep z(2))
  have u: "queued_in_use ?k [] []" using z(2) by (simp add: queued_in_use_def queued_def)
  have ff: "first_free ?k 0" using k0(2) [of 0] z(1) by (simp add: first_free_def)
  have fc: "c \<in> set es" "d \<in> set es" using assms(13,14) by (auto simp: find_Some_iff)
  have nm: "cstr (mem (cleared s1 m1)) (kt_name c) (f c)" "length (f c) < TASK_NAME_LENGTH"
    "cstr (mem (cleared s2 m2)) (kt_name d) (f d)" "length (f d) < TASK_NAME_LENGTH"
    using assms(11,12) fc by (auto simp: named_def)
  have "interrupts_ok (irq ?k)" "kernel_amalloc n TASK_STACK_SIZE (km ?k) = Some (s1, m1)"
    using assms(2,4) f by simp_all
  from task_create_kthread_ok [OF ok u f(4) ff this assms(5) nm(1,2), where kthread_entry = ke and entry = "kt_entry c" and ?argv0.0 = NULL] obtain k1 where
    k1: "task_create_kthread n ke (kt_entry c) (kt_name c) 0 NULL ?k = Some (0, k1)" "sched_ok k1 [0] []"
      "core (tasks k1 0) = core (kthread_task 0 ke (kt_entry c) (f c) s1 (cleared s1 m1) (tasks ?k 0))"
      "state (tasks k1 0) = TASK_STATE_CREATED" "\<forall>j. j \<noteq> 0 \<longrightarrow> state (tasks k1 j) = state (tasks ?k j)"
      "irq k1 = irq ?k" "km k1 = cleared s1 m1" "task_count k1 = task_count ?k + 1" "task_table_lock k1 = 0"
      "current k1 = current ?k" "sleepers k1 = ?h" "pit k1 = pit ?k"
    by auto
  have u1: "queued_in_use k1 [0] []" using queued_in_use_add [OF u, of 0 k1] k1(4,5,11) by simp
  have ff1: "first_free k1 1" using k0(2) [of 1] k1(4,5) z(1) by (simp add: first_free_def)
  have "interrupts_ok (irq k1)" "kernel_amalloc n TASK_STACK_SIZE (km k1) = Some (s2, m2)"
    using assms(2,6) f k1(6,7) by simp_all
  from task_create_kthread_ok [OF k1(2) u1 k1(9) ff1 this assms(7) nm(3,4), where kthread_entry = ke and entry = "kt_entry d" and ?argv0.0 = NULL] obtain k2 where
    k2: "task_create_kthread n ke (kt_entry d) (kt_name d) 0 NULL k1 = Some (1, k2)" "sched_ok k2 [0, 1] []"
      "core (tasks k2 1) = core (kthread_task 1 ke (kt_entry d) (f d) s2 (cleared s2 m2) (tasks k1 1))"
      "state (tasks k2 1) = TASK_STATE_CREATED" "core (tasks k2 0) = core (tasks k1 0)" "state (tasks k2 0) = state (tasks k1 0)"
      "irq k2 = irq k1" "task_count k2 = task_count k1 + 1" "current k2 = current k1" "sleepers k2 = ?h"
      "pit k2 = pit k1" "km k2 = cleared s2 m2" "task_table_lock k2 = 0" "\<forall>j. j \<noteq> 1 \<longrightarrow> state (tasks k2 j) = state (tasks k1 j)"
    using k1(11) by auto
  have u2: "queued_in_use k2 [0, 1] []" using queued_in_use_add [OF u1, of 1 k2] k2(4,10,14) k1(11) by simp
  have "state (tasks k2 2) = TASK_STATE_STOPPED" using k0(2) [of 2] k1(5) k2(14) z(1) by simp
  then have ff2: "first_free k2 2" using k1(4) k2(4,6) z(1) by (auto simp: first_free_def less_2_cases_iff)
  let ?r = "k2\<lparr>scheduler_is_initialized := True\<rparr>"
  have "kthread_start n ke es cleaner 0 NULL ?k = Some (0, k1)"
    using kthread_start_find [of ?k cleaner cn f es] assms(8,10,13) f(2) k1(1) by simp
  moreover have "kthread_start n ke es idle 0 NULL k1 = Some (1, k2)"
    using kthread_start_find [of k1 idle idn f es] assms(9,11,14) k1(7) k2(1) by simp
  moreover have "sq_data (sleepers k0) = sq_data (sleepers k)" by (subst k0(3)) simp
  ultimately have "scheduler_init n ke es cleaner idle k = Some ?r"
    using assms(1) k0(1) by (simp add: scheduler_init_def Let_def)
  moreover have "sched_ok ?r [0, 1] []" by (rule sched_ok_tasks [OF k2(2)]) simp_all
  moreover have "name (tasks k2 0) = f c" "thread_eip (tasks k2 0) = kt_entry c"
    "name (tasks k2 1) = f d" "thread_eip (tasks k2 1) = kt_entry d"
    using core_more [OF k2(5)] core_more [OF k1(3)] core_more [OF k2(3)] by (simp_all add: kthread_task_def)
  ultimately show ?thesis
    using k1(4,6,8,10,12) k2(4,6,7,8,9,10,11,12,13) f z(2) u2 ff2
    by (intro exI [of _ ?r]) (simp add: queued_in_use_def queued_def first_free_def)
qed

section \<open>Cleaning up\<close>

definition thread_of :: "nat \<Rightarrow> task \<Rightarrow> bool" where
  "thread_of p t \<longleftrightarrow> parent t = Some p \<and> mode t = TASK_MODE_THREAD"

lemma zombify_threads_eq:
  "zombify_threads p k = k\<lparr>tasks := \<lambda>j. if j < TASKS_MAX \<and> thread_of p (tasks k j)
     then (tasks k j)\<lparr>state := TASK_STATE_ZOMBIE\<rparr> else tasks k j\<rparr>"
proof -
  have "fold (\<lambda>i k. if parent (tasks k i) = Some p \<and> mode (tasks k i) = TASK_MODE_THREAD
                 then set_state i TASK_STATE_ZOMBIE k else k) [0..<n] k =
    k\<lparr>tasks := \<lambda>j. if j < n \<and> thread_of p (tasks k j) then (tasks k j)\<lparr>state := TASK_STATE_ZOMBIE\<rparr> else tasks k j\<rparr>" for n
  proof (induction n)
    case (Suc n)
    then show ?case by (auto simp: set_state_def thread_of_def fun_eq_iff less_Suc_eq)
  qed simp
  then show ?thesis by (simp add: zombify_threads_def)
qed

lemma free_allocations_none:
  assumes "\<forall>i \<in> set is. ae_size (at_data (thread_allocation_table (tasks k t)) ! i) = 0"
  shows "free_allocations junk t is k = Some k"
  using assms by (induction "is") (simp_all add: Let_def)

lemma task_cleanup_ok:
  assumes "unat p < TASKS_MAX" "task_table_lock k = 0" "interrupts_ok (irq k)"
    "mode (tasks k (unat p)) \<noteq> TASK_MODE_PROCESS"
    "\<forall>i < ALLOCATION_MAX_COUNT. ae_size (at_data (thread_allocation_table (tasks k (unat p))) ! i) = 0"
    "stackptr (tasks k (unat p)) \<noteq> 0"
    "kernel_free (junk ALLOCATION_MAX_COUNT) (stackptr (tasks k (unat p))) (km k) = Some m"
  shows "task_cleanup junk p k = Some (0, (zombify_threads (unat p) k)
    \<lparr>tasks := (tasks (zombify_threads (unat p) k))(unat p := zero_task\<lparr>pid := 0xFFFF\<rparr>), km := m,
     task_count := task_count k - 1\<rparr>)"
proof -
  let ?t = "unat p" and ?d = "k\<lparr>irq := disable_interrupts (irq k)\<rparr>"
  have "p \<noteq> 0xFFFF" using assms(1) by (auto simp: TASKS_MAX_def)
  let ?T = "\<lambda>j. if j < TASKS_MAX \<and> thread_of ?t (tasks k j) then (tasks k j)\<lparr>state := TASK_STATE_ZOMBIE\<rparr> else tasks k j"
  have z: "zombify_threads ?t ?d = ?d\<lparr>tasks := ?T\<rparr>" "zombify_threads ?t k = k\<lparr>tasks := ?T\<rparr>"
    by (simp_all add: zombify_threads_eq cong: if_cong)
  let ?z = "enable ((?d\<lparr>tasks := ?T\<rparr>)\<lparr>task_table_lock := 0\<rparr>)"
  have e: "?z = k\<lparr>tasks := ?T\<rparr>" using assms(2,3) by (simp add: enable_def)
  have T: "mode (?T ?t) \<noteq> TASK_MODE_PROCESS" "stackptr (?T ?t) = stackptr (tasks k ?t)"
    "thread_allocation_table (?T ?t) = thread_allocation_table (tasks k ?t)" using assms(4) by simp_all
  have fr: "free_allocations junk ?t [0..<ALLOCATION_MAX_COUNT] (k\<lparr>tasks := ?T\<rparr>) = Some (k\<lparr>tasks := ?T\<rparr>)"
    using assms(5) T(3) by (intro free_allocations_none) simp
  have "zero_task\<lparr>state := TASK_STATE_STOPPED, pid := 0xFFFF\<rparr> = zero_task\<lparr>pid := 0xFFFF\<rparr>"
    by (simp add: zero_task_def)
  moreover have "\<not> TASKS_MAX \<le> ?t" using assms(1) by simp
  ultimately show ?thesis
    using \<open>p \<noteq> 0xFFFF\<close> assms(2,3,6,7) T fr
    by (simp add: task_cleanup_def Let_def z e del: enable_simps)
       (simp add: enable_def put_task_def)
qed

section \<open>Properties\<close>

text \<open>
  C20: A kernel thread is created in the first free entry of the task table: it gets the entry's number
  as its identifier and thread group, its name, a kernel stack of its own whose aligned end is in both
  stack pointers, the kernel's code and data segments and the kernel's address space, and it is queued
  behind all ready tasks in the state created. No other task changes, apart from queue links, and the
  nesting of disabled interrupts is as before.
\<close>

theorem kthread_creation:
  assumes "sched_ok k rs zs" "queued_in_use k rs zs" "task_table_lock k = 0" "first_free k i" "interrupts_ok (irq k)"
    "kernel_amalloc n TASK_STACK_SIZE (km k) = Some (stack, m)" "stack \<noteq> NULL"
    "cstr (mem (cleared stack m)) nm s" "length s < TASK_NAME_LENGTH"
  shows "\<exists>k'. task_create_kthread n kthread_entry entry nm 0 NULL k = Some (of_nat i, k') \<and>
    sched_ok k' (rs @ [i]) zs \<and> queued_in_use k' (rs @ [i]) zs \<and>
    (let t = tasks k' i in state t = TASK_STATE_CREATED \<and> mode t = TASK_MODE_KTHREAD \<and> pid t = of_nat i \<and>
       tgid t = of_nat i \<and> name t = s \<and> parent t = None \<and> thread_eip t = entry \<and> eip (ctx t) = kthread_entry \<and>
       stackptr t = stack \<and> esp (ctx t) = stack_end stack \<and> kesp t = stack_end stack \<and> cs t = 0x8 \<and> ds t = 0x10 \<and>
       physical_cr3 t = paging_manager_get_physical_address (cleared stack m) (page_directory (paging (cleared stack m)))) \<and>
    (\<forall>j. j \<noteq> i \<longrightarrow> core (tasks k' j) = core (tasks k j) \<and> state (tasks k' j) = state (tasks k j)) \<and>
    irq k' = irq k \<and> task_count k' = task_count k + 1 \<and> km k' = cleared stack m"
proof -
  from task_create_kthread_ok [OF assms, of kthread_entry entry NULL] obtain k' where
    k': "task_create_kthread n kthread_entry entry nm 0 NULL k = Some (of_nat i, k')" "sched_ok k' (rs @ [i]) zs"
      "core (tasks k' i) = core (kthread_task i kthread_entry entry s stack (cleared stack m) (tasks k i))"
      "state (tasks k' i) = TASK_STATE_CREATED"
      "\<forall>j. j \<noteq> i \<longrightarrow> core (tasks k' j) = core (tasks k j) \<and> state (tasks k' j) = state (tasks k j)"
      "irq k' = irq k" "km k' = cleared stack m" "task_count k' = task_count k + 1" "sleepers k' = sleepers k" by blast
  have "queued_in_use k' (rs @ [i]) zs" using queued_in_use_add [OF assms(2)] k'(4,5,9) by blast
  then show ?thesis
    using k' core_fields [OF k'(3)] core_more [OF k'(3)]
    by (intro exI [of _ k']) (simp add: kthread_task_def with_stack_def taken_def Let_def)
qed

definition witness_threads_boot :: kernel where
  "witness_threads_boot = (witness_kernel None (\<lambda>_. zero_task) task_queue_init)
     \<lparr>km := power_on\<lparr>mem := (\<lambda>_. 0)(0x1000 := 0x63, 0x1001 := 0x6C, 0x1100 := 0x69, 0x1101 := 0x64),
        heap := (heap power_on)\<lparr>status := HEAP_BOOTSTRAPED, placement_address := 0x200000\<rparr>\<rparr>,
      scheduler_is_initialized := False\<rparr>"

definition bumped :: "u32 \<Rightarrow> kmem \<Rightarrow> kmem" where
  "bumped p m = m\<lparr>heap := (heap m)\<lparr>placement_address := p\<rparr>\<rparr>"

lemma bump_amalloc:
  assumes "status (heap m) = HEAP_BOOTSTRAPED" "placement_address (heap m) AND 0xFFF = 0"
  shows "kernel_amalloc 1 sz m = Some (placement_address (heap m), bumped (placement_address (heap m) + sz) m)"
  using assms by (simp add: kernel_amalloc_def heap_manager_malloc_def heap_manager_malloc_physical_def bumped_def Let_def)

lemma witness_threads_boot:
  "sched_ok witness_threads_boot [] []" "queued_in_use witness_threads_boot [] []" "task_table_lock witness_threads_boot = 0"
  "first_free witness_threads_boot 0" "interrupts_ok (irq witness_threads_boot)" "km witness_threads_boot = km witness_threads_boot"
proof -
  show "sched_ok witness_threads_boot [] []"
    by (rule sched_ok_tasks [OF witness_kernel_ok(1) [OF task_queue_init_rep, of None "\<lambda>_. zero_task"]])
       (simp_all add: witness_threads_boot_def)
qed (simp_all add: witness_threads_boot_def witness_kernel_def queued_in_use_def queued_def sleep_queue_init_def sq_elems_def
   first_free_def TASKS_MAX_def zero_task_def interrupts_ok_def)

lemma witness_boot_memory:
  "kernel_amalloc 1 TASK_STACK_SIZE (km witness_threads_boot) = Some (0x200000, bumped 0x208000 (km witness_threads_boot))"
  "kernel_amalloc 1 TASK_STACK_SIZE (cleared 0x200000 (bumped 0x208000 (km witness_threads_boot))) =
     Some (0x208000, bumped 0x210000 (cleared 0x200000 (bumped 0x208000 (km witness_threads_boot))))"
  using bump_amalloc [of "km witness_threads_boot" TASK_STACK_SIZE]
    bump_amalloc [of "cleared 0x200000 (bumped 0x208000 (km witness_threads_boot))" TASK_STACK_SIZE]
  by (simp_all add: witness_threads_boot_def cleared_def bumped_def TASK_STACK_SIZE_def)

lemma witness_boot_names:
  assumes "m = km witness_threads_boot \<or> m = cleared 0x200000 (bumped 0x208000 (km witness_threads_boot)) \<or>
    m = cleared 0x208000 (bumped 0x210000 (cleared 0x200000 (bumped 0x208000 (km witness_threads_boot))))"
  shows "cstr (mem m) 0x1000 [0x63, 0x6C]" "cstr (mem m) 0x1100 [0x69, 0x64]"
  using assms by (auto simp: witness_threads_boot_def cleared_def bumped_def memset_apply TASK_STACK_SIZE_def)

theorem kthread_creation_witness:
  "\<exists>k'. task_create_kthread 1 0xC0001000 0xC0002000 0x1000 0 NULL witness_threads_boot = Some (0, k') \<and>
     name (tasks k' 0) = [0x63, 0x6C] \<and> kesp (tasks k' 0) = 0x208000 \<and> sched_ok k' [0] []"
proof -
  have "stack_end 0x200000 = 0x208000" by (simp add: stack_end_def TASK_STACK_SIZE_def)
  with kthread_creation [OF witness_threads_boot(1-5) witness_boot_memory(1) _ witness_boot_names(1), where kthread_entry = "0xC0001000" and entry = "0xC0002000"]
  show ?thesis by (auto simp: Let_def TASK_NAME_LENGTH_def)
qed

text \<open>
  When every entry is taken, creating a kernel thread fails with -1 and changes nothing. When no
  memory is left for its stack it fails with -1 too, but the entry it had taken stays in the state
  created and is in no queue, so that the entry is lost for ever.
\<close>

theorem kthread_creation_fails:
  assumes "task_table_lock k = 0" "interrupts_ok (irq k)"
  shows "(table_full k \<longrightarrow> task_create_kthread n kthread_entry entry nm argc argv0 k = Some (- 1, k)) \<and>
    (first_free k i \<and> queued_in_use k rs zs \<and> kernel_amalloc n TASK_STACK_SIZE (km k) = Some (NULL, m) \<longrightarrow>
      (\<exists>k'. task_create_kthread n kthread_entry entry nm argc argv0 k = Some (- 1, k') \<and>
         state (tasks k' i) = TASK_STATE_CREATED \<and> \<not> queued k' rs zs i \<and> irq k' = irq k \<and>
         ready_queue k' = ready_queue k \<and> (\<forall>j. j \<noteq> i \<longrightarrow> tasks k' j = tasks k j)))"
proof (intro conjI impI)
  let ?d = "k\<lparr>irq := disable_interrupts (irq k)\<rparr>"
  assume "table_full k"
  then have "get_free_task ?d = Some (None, ?d)"
    using get_free_task_full [of ?d] assms(1) by (simp add: table_full_def)
  then show "task_create_kthread n kthread_entry entry nm argc argv0 k = Some (- 1, k)"
    using assms(2) by (simp add: task_create_kthread_def enable_def)
next
  let ?d = "k\<lparr>irq := disable_interrupts (irq k)\<rparr>"
  assume a: "first_free k i \<and> queued_in_use k rs zs \<and> kernel_amalloc n TASK_STACK_SIZE (km k) = Some (NULL, m)"
  let ?g = "put_task i (taken i (tasks k i)) ?d"
  have g: "get_free_task ?d = Some (Some i, ?g)"
    using get_free_task_first [of ?d i] assms(1) a by (simp add: first_free_def)
  have st: "init_kernel_stack n i ?g = Some (- 1, ?g\<lparr>km := m\<rparr>)"
    using init_kernel_stack_null [of n ?g m i] a by simp
  have "task_create_kthread n kthread_entry entry nm argc argv0 k = Some (- 1, enable (?g\<lparr>km := m\<rparr>))"
    using g st by (simp add: task_create_kthread_def del: put_task_normal)
  moreover have "\<not> queued k rs zs i" using a by (auto simp: queued_in_use_def first_free_def)
  ultimately show "\<exists>k'. task_create_kthread n kthread_entry entry nm argc argv0 k = Some (- 1, k') \<and>
         state (tasks k' i) = TASK_STATE_CREATED \<and> \<not> queued k' rs zs i \<and> irq k' = irq k \<and>
         ready_queue k' = ready_queue k \<and> (\<forall>j. j \<noteq> i \<longrightarrow> tasks k' j = tasks k j)"
    using assms(2) by (intro exI [of _ "enable (?g\<lparr>km := m\<rparr>)"]) (simp add: queued_def taken_def)
qed

theorem kthread_creation_fails_witness:
  "\<exists>k'. task_create_kthread 1 0xC0001000 0xC0002000 0x1000 0 NULL (witness_threads_boot\<lparr>km := power_on\<rparr>) = Some (- 1, k') \<and>
     state (tasks k' 0) = TASK_STATE_CREATED \<and> \<not> queued k' [] [] 0"
proof -
  let ?k = "witness_threads_boot\<lparr>km := power_on\<rparr>"
  have "kernel_amalloc 1 TASK_STACK_SIZE power_on = Some (NULL, power_on)"
    by (simp add: kernel_amalloc_def heap_manager_malloc_def heap_manager_malloc_physical_def power_on_def)
  moreover have "first_free ?k 0" "queued_in_use ?k [] []" "task_table_lock ?k = 0" "interrupts_ok (irq ?k)"
    using witness_threads_boot(2-5) by (simp_all add: first_free_def queued_in_use_def queued_def)
  ultimately show ?thesis
    using kthread_creation_fails [of ?k, where n = 1 and kthread_entry = "0xC0001000" and entry = "0xC0002000" and nm = "0x1000"
      and argc = 0 and ?argv0.0 = 0 and i = 0 and rs = "[]" and zs = "[]" and m = power_on] by auto
qed

text \<open>
  Starting a kernel thread by name starts the first registered thread whose name is a prefix of the
  name asked for, whether or not the names are equal, and returns -1 when there is none.
\<close>

theorem kthread_start_by_prefix:
  assumes "cstr (mem (km k)) nm s" "named f es (mem (km k))"
  shows "kthread_start n ke es nm argc argv0 k =
    (case find (\<lambda>e. prefix (f e) s) es of None \<Rightarrow> Some (- 1, k)
     | Some e \<Rightarrow> task_create_kthread n ke (kt_entry e) (kt_name e) argc argv0 k)"
  using assms by (rule kthread_start_find)

theorem kthread_start_by_prefix_witness:
  "kthread_start 1 0xC0001000 [\<lparr>kt_name = 0x1001, kt_entry = 22\<rparr>] 0x1000 0 NULL witness_threads_boot = Some (- 1, witness_threads_boot)"
proof -
  have n: "cstr (mem (km witness_threads_boot)) 0x1000 [0x63, 0x6C]" by (rule witness_boot_names) simp
  then have "cstr (mem (km witness_threads_boot)) 0x1001 [0x6C]" by simp
  with kthread_start_by_prefix [OF n, of "\<lambda>_. [0x6C]" "[\<lparr>kt_name = 0x1001, kt_entry = 22\<rparr>]"] show ?thesis
    by (simp add: named_def TASK_NAME_LENGTH_def)
qed

text \<open>
  Starting the scheduler with memory for two stacks creates the cleaner thread and the idle thread
  as the two ready tasks, in entries 0 and 1. The first call of the scheduler then, as on the first
  timer interrupt, starts entry 1 and leaves the cleaner in no queue: it never runs.
\<close>

theorem boot_loses_the_cleaner:
  assumes "\<not> scheduler_is_initialized k" "interrupts_ok (irq k)" "length (sq_data (sleepers k)) = MAX_SLEEP_TASKS"
    "kernel_amalloc n TASK_STACK_SIZE (km k) = Some (s1, m1)" "s1 \<noteq> NULL"
    "kernel_amalloc n TASK_STACK_SIZE (cleared s1 m1) = Some (s2, m2)" "s2 \<noteq> NULL"
    "cstr (mem (km k)) cleaner cn" "cstr (mem (cleared s1 m1)) idle idn"
    "named f es (mem (km k))" "named f es (mem (cleared s1 m1))" "named f es (mem (cleared s2 m2))"
    "find (\<lambda>e. prefix (f e) cn) es = Some c" "find (\<lambda>e. prefix (f e) idn) es = Some d" "current k = None"
  shows "\<exists>k1 k2. scheduler_init n ke es cleaner idle k = Some k1 \<and> sched_ok k1 [0, 1] [] \<and>
    thread_eip (tasks k1 0) = kt_entry c \<and> thread_eip (tasks k1 1) = kt_entry d \<and> irq k1 = irq k \<and>
    scheduler_schedule tick k1 = Some (Started 1, k2) \<and> current k2 = Some 1 \<and> sched_ok k2 [] [] \<and>
    \<not> queued k2 [] [] 0 \<and> state (tasks k2 0) = TASK_STATE_CREATED"
proof -
  from scheduler_init_ok [OF assms(1-14), of ke] obtain k1 where
    k1: "scheduler_init n ke es cleaner idle k = Some k1" "sched_ok k1 [0, 1] []"
      "state (tasks k1 0) = TASK_STATE_CREATED" "thread_eip (tasks k1 0) = kt_entry c"
      "state (tasks k1 1) = TASK_STATE_CREATED" "thread_eip (tasks k1 1) = kt_entry d"
      "current k1 = current k" "irq k1 = irq k" "sq_elems (sleepers k1) = {#}" by blast
  have "nobody_due tick k1" using k1(9) by (simp add: nobody_due_def)
  from first_schedule_loses_a_task [OF k1(2) _ this k1(3,5)] k1(7) assms(15) obtain k2 where
    "scheduler_schedule tick k1 = Some (Started 1, k2)" "current k2 = Some 1" "sched_ok k2 [] []"
    "\<not> queued k2 [] [] 0" "state (tasks k2 0) = TASK_STATE_CREATED" by auto
  with k1 show ?thesis by (intro exI [of _ k1] exI [of _ k2]) simp
qed

theorem boot_loses_the_cleaner_witness:
  "\<exists>k1 k2. scheduler_init 1 0xC0001000 [\<lparr>kt_name = 0x1000, kt_entry = 11\<rparr>, \<lparr>kt_name = 0x1100, kt_entry = 22\<rparr>] 0x1000 0x1100
      witness_threads_boot = Some k1 \<and> thread_eip (tasks k1 0) = 11 \<and>
     scheduler_schedule 1 k1 = Some (Started 1, k2) \<and> \<not> queued k2 [] [] 0"
proof -
  let ?es = "[\<lparr>kt_name = 0x1000, kt_entry = 11\<rparr>, \<lparr>kt_name = 0x1100, kt_entry = 22\<rparr>]"
  let ?f = "\<lambda>e. if kt_name e = 0x1000 then [0x63, 0x6C] else [0x69, 0x64 :: u8]"
  have "named ?f ?es (mem m)" if "m = km witness_threads_boot \<or> m = cleared 0x200000 (bumped 0x208000 (km witness_threads_boot)) \<or>
    m = cleared 0x208000 (bumped 0x210000 (cleared 0x200000 (bumped 0x208000 (km witness_threads_boot))))" for m
    using witness_boot_names [OF that] by (simp add: named_def TASK_NAME_LENGTH_def)
  then have nm: "named ?f ?es (mem (km witness_threads_boot))"
    "named ?f ?es (mem (cleared 0x200000 (bumped 0x208000 (km witness_threads_boot))))"
    "named ?f ?es (mem (cleared 0x208000 (bumped 0x210000 (cleared 0x200000 (bumped 0x208000 (km witness_threads_boot))))))"
    by blast+
  have st: "\<not> scheduler_is_initialized witness_threads_boot" "length (sq_data (sleepers witness_threads_boot)) = MAX_SLEEP_TASKS"
    "current witness_threads_boot = None"
    by (simp_all add: witness_threads_boot_def witness_kernel_def sleep_queue_init_def)
  have c: "cstr (mem (km witness_threads_boot)) 0x1000 [0x63, 0x6C]"
    "cstr (mem (cleared 0x200000 (bumped 0x208000 (km witness_threads_boot)))) 0x1100 [0x69, 0x64]"
    by (rule witness_boot_names, simp)+
  have "find (\<lambda>e. prefix (?f e) [0x63, 0x6C]) ?es = Some \<lparr>kt_name = 0x1000, kt_entry = 11\<rparr>"
    "find (\<lambda>e. prefix (?f e) [0x69, 0x64]) ?es = Some \<lparr>kt_name = 0x1100, kt_entry = 22\<rparr>" by simp_all
  from boot_loses_the_cleaner [OF st(1) witness_threads_boot(5) st(2) witness_boot_memory(1) _ witness_boot_memory(2) _ c nm this st(3),
      where ke = "0xC0001000" and tick = 1] show ?thesis by auto
qed

end
