(* ===== verification/Task_Memory.thy ===== *)
theory Task_Memory
  imports Task_Table
begin

text \<open>
  What tasks own: the end of a task gives back its entry and its kernel stack; the memory system calls
  keep the task's table of allocations; the stack of a user thread.
\<close>

section \<open>The memory system calls\<close>

abbreviation allocations :: "kernel \<Rightarrow> nat \<Rightarrow> allocation_table" where
  "allocations k c \<equiv> thread_allocation_table (tasks k c)"

lemma syscall_malloc_ok:
  assumes "current k = Some c" "t_heap_manager (tasks k c)" "interrupts_ok (irq k)" "0 < sint sz"
    "malloc n sz False (km k) = Some (ret, m)"
  shows "syscall_malloc n sz k = Some (ret, put_task c ((tasks k c)\<lparr>thread_allocation_table :=
    allocation_table_add ret sz (allocations k c)\<rparr>) (k\<lparr>km := m\<rparr>))"
  using assms by (simp add: syscall_malloc_def Let_def enable_def)

lemma syscall_free_ok:
  assumes "current k = Some c" "t_heap_manager (tasks k c)" "interrupts_ok (irq k)"
    "heap_manager_free junk a (km k) = Some m"
  shows "syscall_free junk a k = Some (put_task c ((tasks k c)\<lparr>thread_allocation_table :=
    allocation_table_remove a (allocations k c)\<rparr>) (k\<lparr>km := m\<rparr>))"
  using assms by (simp add: syscall_free_def Let_def enable_def)

section \<open>Properties\<close>

lemma memory_recorded:
  assumes "current k = Some c" "t_heap_manager (tasks k c)" "interrupts_ok (irq k)" "0 < sint sz"
    "malloc n sz False (km k) = Some (ret, m)" "table_ok (allocations k c)"
    "size (recorded (allocations k c)) < ALLOCATION_MAX_COUNT" "ret \<notin># image_mset fst (recorded (allocations k c))"
    "heap_manager_free junk ret m = Some m'"
  shows "\<exists>k'. syscall_malloc n sz k = Some (ret, k') \<and> km k' = m \<and> irq k' = irq k \<and>
    recorded (allocations k' c) = add_mset (ret, sz) (recorded (allocations k c)) \<and>
    (if ret = NULL then NULL \<in># image_mset fst (recorded (allocations k' c)) \<and> \<not> table_ok (allocations k' c)
     else table_ok (allocations k' c) \<and>
       (\<exists>k''. syscall_free junk ret k' = Some k'' \<and> km k'' = m' \<and> irq k'' = irq k \<and>
          recorded (allocations k'' c) = recorded (allocations k c)))"
proof -
  let ?t = "allocations k c" and ?a = "allocation_table_add ret sz (allocations k c)"
  let ?k = "put_task c ((tasks k c)\<lparr>thread_allocation_table := ?a\<rparr>) (k\<lparr>km := m\<rparr>)"
  have l: "length (at_data ?t) = ALLOCATION_MAX_COUNT" and sz: "at_size ?t = of_nat (size (recorded ?t))"
    using assms(6) by (simp_all add: table_ok_def)
  have "sz \<noteq> 0" using assms(4) by auto
  then have "ret \<noteq> NULL \<or> sz \<noteq> 0" by simp
  note add = add_recorded [OF l assms(7) this]
  have ok: "syscall_malloc n sz k = Some (ret, ?k)" by (rule syscall_malloc_ok [OF assms(1-5)])
  show ?thesis
  proof (cases "ret = NULL")
    case True
    then show ?thesis using ok add by (intro exI [of _ ?k]) (simp add: table_ok_def)
  next
    case False
    have tok: "table_ok ?a" using add assms(6) False by (simp add: table_ok_def)
    have mem: "(ret, sz) \<in># recorded ?a" using add(1) by simp
    from remove_recorded [OF add(3) False mem] obtain x where
      x: "recorded ?a = add_mset (ret, x) (recorded (allocation_table_remove ret ?a))" by blast
    have "x = sz"
    proof (rule ccontr)
      assume "x \<noteq> sz"
      then have "(ret, x) \<in># recorded ?t" using x add(1) by (metis add_mset_eq_single insert_noteq_member
        prod.inject union_single_eq_member)
      then have "ret \<in># image_mset fst (recorded ?t)" by (auto intro: rev_image_eqI)
      with assms(8) show False by simp
    qed
    with x add(1) have r: "recorded (allocation_table_remove ret ?a) = recorded ?t" by simp
    have "syscall_free junk ret ?k = Some (put_task c ((tasks ?k c)\<lparr>thread_allocation_table :=
      allocation_table_remove ret (allocations ?k c)\<rparr>) (?k\<lparr>km := m'\<rparr>))"
      using assms(1,2,3,9) by (intro syscall_free_ok) simp_all
    then show ?thesis using ok add(1) tok r False by (intro exI [of _ ?k]) simp
  qed
qed

definition witness_running :: kernel where
  "witness_running = witness_threads_boot\<lparr>tasks := (\<lambda>_. zero_task)(3 := zero_task\<lparr>state := TASK_STATE_ZOMBIE, pid := 3,
     t_heap_manager := True, stackptr := 0x100000\<rparr>, 4 := zero_task\<lparr>state := TASK_STATE_RUNNING, parent := Some 3,
     mode := TASK_MODE_THREAD\<rparr>), current := Some 3\<rparr>"

lemma witness_running:
  "current witness_running = Some 3" "t_heap_manager (tasks witness_running 3)" "interrupts_ok (irq witness_running)"
  "malloc 1 64 False (km witness_running) = Some (0x200000, bumped 0x200040 (km witness_running))"
  "heap_manager_free junk a (bumped p (km witness_running)) = Some (bumped p (km witness_running))"
  "allocations witness_running 3 = allocation_table_init (allocations witness_running 3)"
  by (simp_all add: witness_running_def witness_threads_boot_def witness_kernel_def interrupts_ok_def bumped_def
    heap_manager_malloc_def heap_manager_malloc_physical_def heap_manager_free_def zero_task_def
    allocation_table_init_def)

text \<open>
  C22: A request of the current task for a positive number of bytes records the address it gets with
  the size in the task's table, when that has room; when the memory is given back the record is gone
  again. A request that fails is recorded too, with the null pointer as its address, and so takes an
  entry of the table.
\<close>

theorem syscall_memory_recorded:
  assumes "current k = Some c" "t_heap_manager (tasks k c)" "interrupts_ok (irq k)" "0 < sint sz"
    "malloc n sz False (km k) = Some (ret, m)" "table_ok (allocations k c)"
    "size (recorded (allocations k c)) < ALLOCATION_MAX_COUNT" "ret \<notin># image_mset fst (recorded (allocations k c))"
    "heap_manager_free junk ret m = Some m'"
  shows "\<exists>k'. syscall_malloc n sz k = Some (ret, k') \<and> km k' = m \<and> irq k' = irq k \<and>
    recorded (allocations k' c) = add_mset (ret, sz) (recorded (allocations k c)) \<and>
    (if ret = NULL then NULL \<in># image_mset fst (recorded (allocations k' c)) \<and> \<not> table_ok (allocations k' c)
     else table_ok (allocations k' c) \<and>
       (\<exists>k''. syscall_free junk ret k' = Some k'' \<and> km k'' = m' \<and> irq k'' = irq k \<and>
          recorded (allocations k'' c) = recorded (allocations k c)))"
  by (rule memory_recorded [OF assms])

theorem syscall_memory_recorded_witness:
  "\<exists>k'. syscall_malloc 1 64 witness_running = Some (0x200000, k') \<and>
     recorded (allocations k' 3) = {#(0x200000, 64)#}"
proof -
  have t: "table_ok (allocations witness_running 3)" "recorded (allocations witness_running 3) = {#}"
    using allocation_table_init_ok [of "allocations witness_running 3"] witness_running(6) by simp_all
  then show ?thesis
    using syscall_memory_recorded [OF witness_running(1-3) _ witness_running(4) t(1) _ _ witness_running(5)]
    by (auto simp: ALLOCATION_MAX_COUNT_def)
qed

text \<open>
  C21: Cleaning up a kernel or user thread that holds no other memory gives back its kernel stack,
  empties its entry of the task table, which is then free again, marks exactly its own threads as
  zombies, and changes nothing else but the count of tasks; a number that is not in the table is refused.
\<close>

theorem task_cleanup_frees_entry:
  assumes "unat p < TASKS_MAX" "task_table_lock k = 0" "interrupts_ok (irq k)"
    "mode (tasks k (unat p)) \<noteq> TASK_MODE_PROCESS"
    "\<forall>i < ALLOCATION_MAX_COUNT. ae_size (at_data (allocations k (unat p)) ! i) = 0"
    "stackptr (tasks k (unat p)) \<noteq> 0"
    "kernel_free (junk ALLOCATION_MAX_COUNT) (stackptr (tasks k (unat p))) (km k) = Some m" "TASKS_MAX \<le> unat q"
  shows "\<exists>k'. task_cleanup junk p k = Some (0, k') \<and> tasks k' (unat p) = zero_task\<lparr>pid := 0xFFFF\<rparr> \<and>
    state (tasks k' (unat p)) = TASK_STATE_STOPPED \<and> km k' = m \<and> irq k' = irq k \<and> task_count k' = task_count k - 1 \<and>
    (\<forall>j. j \<noteq> unat p \<longrightarrow> tasks k' j =
      (if j < TASKS_MAX \<and> parent (tasks k j) = Some (unat p) \<and> mode (tasks k j) = TASK_MODE_THREAD
       then (tasks k j)\<lparr>state := TASK_STATE_ZOMBIE\<rparr> else tasks k j)) \<and>
    ready_queue k' = ready_queue k \<and> zombie_queue k' = zombie_queue k \<and> current k' = current k \<and>
    task_cleanup junk q k = Some (- 1, k)"
  using task_cleanup_ok [of p k junk m] assms
  by (auto simp: zombify_threads_eq thread_of_def zero_task_def task_cleanup_def)

theorem task_cleanup_frees_entry_witness:
  "\<exists>k'. task_cleanup (\<lambda>_. 0) 3 witness_running = Some (0, k') \<and> tasks k' 3 = zero_task\<lparr>pid := 0xFFFF\<rparr> \<and>
     state (tasks k' 4) = TASK_STATE_ZOMBIE \<and> task_cleanup (\<lambda>_. 0) 0x100 witness_running = Some (- 1, witness_running)"
proof -
  have "kernel_free junk a (km witness_running) = Some (km witness_running)" for junk a
    by (simp add: kernel_free_def heap_manager_free_def witness_running_def witness_threads_boot_def)
  moreover have "\<forall>i < ALLOCATION_MAX_COUNT. ae_size (at_data (allocations witness_running 3) ! i) = 0"
    by (simp add: witness_running_def zero_task_def free_entry_def)
  moreover have "mode (tasks witness_running 3) \<noteq> TASK_MODE_PROCESS" "stackptr (tasks witness_running 3) \<noteq> 0"
    "task_table_lock witness_running = 0" and f: "parent (tasks witness_running 4) = Some 3"
    "mode (tasks witness_running 4) = TASK_MODE_THREAD"
    by (simp_all add: witness_running_def zero_task_def witness_threads_boot_def witness_kernel_def)
  ultimately obtain k' where k': "task_cleanup (\<lambda>_. 0) 3 witness_running = Some (0, k')"
    "tasks k' 3 = zero_task\<lparr>pid := 0xFFFF\<rparr>" "task_cleanup (\<lambda>_. 0) 0x100 witness_running = Some (- 1, witness_running)"
    "\<forall>j. j \<noteq> 3 \<longrightarrow> tasks k' j = (if j < TASKS_MAX \<and> parent (tasks witness_running j) = Some 3 \<and>
       mode (tasks witness_running j) = TASK_MODE_THREAD
       then (tasks witness_running j)\<lparr>state := TASK_STATE_ZOMBIE\<rparr> else tasks witness_running j)"
    using task_cleanup_frees_entry [where p = 3 and k = witness_running and junk = "\<lambda>_. 0"
        and m = "km witness_running" and q = "0x100"] witness_running(3)
    by (auto simp: TASKS_MAX_def)
  from k'(4) f have "state (tasks k' 4) = TASK_STATE_ZOMBIE" by (simp add: TASKS_MAX_def)
  with k' show ?thesis by blast
qed

section \<open>The stack of a user thread\<close>

text \<open>
  A new user thread gets a kernel stack and a slot of the user stacks, but its stack and frame
  pointers are the address of the variable in which the caller has the top of the slot, not that top:
  unless the two happen to agree, the thread starts on the wrong stack.
\<close>

theorem user_thread_stack_pointer:
  assumes "kernel_amalloc n TASK_STACK_SIZE (km k) = Some (stack, m)" "stack \<noteq> NULL"
    "user_stack_alloc (irq k, user_stacks k) = Some ((int slot, Some (base, tp)), i, um)"
  shows "\<exists>k'. init_user_stack n stack_top task k = Some ((0, Some (base, tp)), k') \<and>
    esp (ctx (tasks k' task)) = stack_top \<and> ebp (ctx (tasks k' task)) = stack_top \<and>
    kesp (tasks k' task) = stack_end stack \<and> km k' = cleared stack m \<and> user_stacks k' = um \<and> irq k' = i \<and>
    (\<forall>j. j \<noteq> task \<longrightarrow> tasks k' j = tasks k j)"
  using init_kernel_stack_ok [OF assms(1,2), of task] assms(3)
  by (simp add: init_user_stack_def Let_def with_stack_def del: put_task_normal)

theorem user_thread_stack_pointer_witness:
  "\<exists>k'. init_user_stack 1 0xC0300F00 5 witness_threads_boot = Some ((0, Some (0x0BFF7000, 0x0BFFF000)), k') \<and>
     esp (ctx (tasks k' 5)) = 0xC0300F00"
proof -
  have "find (\<lambda>i. \<not> us_in_use (um_stacks witness_stacks ! i)) [0..<USER_STACKS_MAX] = Some 0"
    by (simp add: find_upt_Some_iff USER_STACKS_MAX_def witness_stacks_def initial_slot_def Let_def)
  then have "\<exists>i um. user_stack_alloc (irq witness_threads_boot, user_stacks witness_threads_boot) =
    Some ((int 0, Some (0x0BFF7000, 0x0BFFF000)), i, um)"
    by (simp add: user_stack_alloc_def witness_threads_boot_def witness_kernel_def Let_def)
       (simp add: witness_stacks_def initial_slot_def USERSPACE_TASK_STACK_TOP_def TASK_STACK_SIZE_def)
  then obtain i um where "user_stack_alloc (irq witness_threads_boot, user_stacks witness_threads_boot) =
    Some ((int 0, Some (0x0BFF7000, 0x0BFFF000)), i, um)" by blast
  from user_thread_stack_pointer [OF witness_boot_memory(1) _ this, of "0xC0300F00" 5] show ?thesis by auto
qed

end
