(* ===== verification/Syscalls.thy ===== *)
theory Syscalls
  imports Interrupts
begin

text \<open>
  The table of system calls and the handler of interrupt 0x80 (src/kernel/syscalls/syscalls.c and
  syscalls.s). The functions in the table are of any type \<open>'f\<close>, and \<open>call\<close> executes one on its five
  arguments.
\<close>

section \<open>The table\<close>

definition SYSCALLS_MAX_COUNT :: nat where "SYSCALLS_MAX_COUNT = 1024"

datatype syscalls = SYSCALLS_TICK | SYSCALLS_EXIT | SYSCALLS_SLEEP | SYSCALLS_PID | SYSCALLS_MALLOC | SYSCALLS_FREE

primrec syscall_number :: "syscalls \<Rightarrow> nat" where
  "syscall_number SYSCALLS_TICK = 0"
| "syscall_number SYSCALLS_EXIT = 1"
| "syscall_number SYSCALLS_SLEEP = 2"
| "syscall_number SYSCALLS_PID = 3"
| "syscall_number SYSCALLS_MALLOC = 4"
| "syscall_number SYSCALLS_FREE = 5"

record 'f syscall_entry =
  sc_num :: syscalls
  sc_func :: 'f

text \<open>The entries the linker collects are entered in their order; the handler is installed last.\<close>

definition syscalls_init :: "'f syscall_entry list \<Rightarrow> 'h \<Rightarrow> 'h handles \<Rightarrow> 'f option list \<times> 'h handles" where
  "syscalls_init entries handler hs =
     (let table = replicate SYSCALLS_MAX_COUNT None;
          table = fold (\<lambda>e t. t[syscall_number (sc_num e) := Some (sc_func e)]) entries table
      in (table, kernel_interrupts_add_service_handle 0x80 (Some handler) hs))"

text \<open>
  The number is in \<open>eax\<close> and is not checked: behind the table and on an empty entry the call goes
  astray, which is \<open>None\<close>. The result is stored in the saved \<open>eax\<close>.
\<close>

definition handle_syscalls_interrupt ::
  "('f \<Rightarrow> u32 list \<Rightarrow> 's \<Rightarrow> (u32 \<times> 's) option) \<Rightarrow> 'f option list \<Rightarrow> registers \<Rightarrow> 's \<Rightarrow> (registers \<times> 's) option" where
  "handle_syscalls_interrupt call table r s =
     (let n = unat (r_eax r) in
      if length table \<le> n then None
      else case table ! n of None \<Rightarrow> None
      | Some f \<Rightarrow>
        map_option (\<lambda>(v, s). (r\<lparr>r_eax := v\<rparr>, s)) (call f [r_ebx r, r_ecx r, r_edx r, r_esi r, r_edi r] s))"

section \<open>Properties\<close>

lemma syscall_number_less [simp]:
  "syscall_number n < SYSCALLS_MAX_COUNT" "\<not> SYSCALLS_MAX_COUNT \<le> syscall_number n"
  by (cases n; simp add: SYSCALLS_MAX_COUNT_def)+

lemma syscall_number_inj [simp]: "syscall_number a = syscall_number b \<longleftrightarrow> a = b"
  by (cases a; cases b) simp_all

lemma table_entries:
  assumes "distinct (map sc_num es)"
  shows "length (fold (\<lambda>e t. t[syscall_number (sc_num e) := Some (sc_func e)]) es t) = length t"
    "e \<in> set es \<Longrightarrow> syscall_number (sc_num e) < length t \<Longrightarrow>
       fold (\<lambda>e t. t[syscall_number (sc_num e) := Some (sc_func e)]) es t ! syscall_number (sc_num e) = Some (sc_func e)"
    "n < length t \<Longrightarrow> \<forall>e \<in> set es. n \<noteq> syscall_number (sc_num e) \<Longrightarrow>
       fold (\<lambda>e t. t[syscall_number (sc_num e) := Some (sc_func e)]) es t ! n = t ! n"
  using assms
proof (induction es arbitrary: t n)
  case (Cons x xs)
  {
    case 1
    then show ?case using Cons.IH(1) by simp
  next
    case 2
    show ?case
    proof (cases "e \<in> set xs")
      case True
      then show ?thesis using Cons.IH(2) 2 by simp
    next
      case False
      then have "e = x" using 2 by simp
      moreover have "\<forall>y \<in> set xs. syscall_number (sc_num x) \<noteq> syscall_number (sc_num y)"
        using 2(3) by auto
      ultimately show ?thesis using Cons.IH(3) [where n = "syscall_number (sc_num x)"] 2 by simp
    qed
  next
    case 3
    then show ?case using Cons.IH(3) by simp
  }
qed simp_all

text \<open>
  After the system calls are set up, interrupt 0x80 with the number of a registered call in \<open>eax\<close>
  runs exactly that call with \<open>ebx\<close>, \<open>ecx\<close>, \<open>edx\<close>, \<open>esi\<close> and \<open>edi\<close> as its arguments, returns its
  result in \<open>eax\<close> with all other registers unchanged, and acknowledges both interrupt controllers; a
  number that is not registered is not refused but goes astray.
\<close>

theorem system_call:
  assumes "distinct (map sc_num es)" "e \<in> set es" "length hs = 256" "interrupt r = 128" "interrupt q = 128"
    "unat (r_eax r) = syscall_number (sc_num e)" "\<forall>e \<in> set es. unat (r_eax q) \<noteq> syscall_number (sc_num e)"
    "syscalls_init es h hs = (table, hs')"
  shows "ir_handler (\<lambda>_ r (_, s). handle_syscalls_interrupt call table r s) emit hs' r (f, s) =
      map_option (\<lambda>(v, s). emit [Outb PIC2 0x20, Outb PIC1 0x20] (r\<lparr>r_eax := v\<rparr>, s))
        (call (sc_func e) [r_ebx r, r_ecx r, r_edx r, r_esi r, r_edi r] s) \<and>
    ir_handler (\<lambda>_ r (_, s). handle_syscalls_interrupt call table r s) emit hs' q (f, s) = None"
proof -
  let ?n = "SYSCALLS_MAX_COUNT"
  have t: "table = fold (\<lambda>e t. t[syscall_number (sc_num e) := Some (sc_func e)]) es (replicate ?n None)"
    and h: "hs' = hs[128 := Some h]"
    using assms(8) by (auto simp: syscalls_init_def kernel_interrupts_add_service_handle_def)
  have l: "length table = ?n" unfolding t using table_entries(1) [OF assms(1)] by simp
  have 1: "table ! unat (r_eax r) = Some (sc_func e)"
    unfolding t assms(6) using table_entries(2) [OF assms(1,2)] by simp
  have 2: "table ! unat (r_eax q) = None" if "unat (r_eax q) < ?n"
    unfolding t using table_entries(3) [OF assms(1) _ assms(7), of "replicate ?n None"] that by simp
  have "handle_syscalls_interrupt call table q s = None"
    using 2 l by (simp add: handle_syscalls_interrupt_def Let_def not_le)
  moreover have "handle_syscalls_interrupt call table r s = map_option (\<lambda>(v, s). (r\<lparr>r_eax := v\<rparr>, s))
      (call (sc_func e) [r_ebx r, r_ecx r, r_edx r, r_esi r, r_edi r] s)"
    using 1 l by (simp add: handle_syscalls_interrupt_def Let_def assms(6) not_le)
  moreover have "IR_EOI 128 = [Outb PIC2 0x20, Outb PIC1 0x20]" by (simp add: IR_EOI_def PIC_SLAVE_OFFSET_def)
  ultimately show ?thesis
    using assms(3-5) by (auto simp: ir_handler_def h Let_def split: option.splits)
qed

theorem system_call_witness:
  "\<exists>table hs'. syscalls_init [\<lparr>sc_num = SYSCALLS_PID, sc_func = ()\<rparr>] () (replicate 256 None) = (table, hs') \<and>
     ir_handler (\<lambda>_ r (_, s). handle_syscalls_interrupt (\<lambda>f a s. Some (sum_list a, s)) table r s) (\<lambda>w s. s) hs'
       (witness_registers\<lparr>interrupt := 128, r_eax := 3, r_ebx := 7, r_edi := 5\<rparr>) (witness_registers, 0 :: nat) =
     Some (witness_registers\<lparr>interrupt := 128, r_eax := 12, r_ebx := 7, r_edi := 5\<rparr>, 0)"
proof -
  let ?es = "[\<lparr>sc_num = SYSCALLS_PID, sc_func = ()\<rparr>]"
  obtain table hs' where i: "syscalls_init ?es () (replicate 256 None) = (table, hs')" by (metis surj_pair)
  from system_call [OF _ _ _ _ _ _ _ i, of "\<lparr>sc_num = SYSCALLS_PID, sc_func = ()\<rparr>"
      "witness_registers\<lparr>interrupt := 128, r_eax := 3, r_ebx := 7, r_edi := 5\<rparr>" "witness_registers\<lparr>interrupt := 128\<rparr>"
      "\<lambda>f a s. Some (sum_list a, s :: nat)" "\<lambda>w s. s"] i
  show ?thesis by (auto simp: witness_registers_def)
qed

end
