(* ===== verification/User_Calls.thy ===== *)
theory User_Calls
  imports Task_Memory Syscalls
begin

text \<open>
  System calls from the side of a program: the functions of src/lib/syscalls-lib.h, which execute interrupt
  0x80, over the table of the six functions the kernel registers. The state behind the interrupt is
  the kernel and the list of port writes performed so far.
\<close>

section \<open>The registered functions\<close>

datatype syscall_function =
  Programable_interval_timer_get_tick | Scheduler_exit | Scheduler_sleep | Syscall_get_proccess_id | Syscall_malloc | Syscall_free

definition registered_syscalls :: "syscall_function syscall_entry list" where
  "registered_syscalls =
     [\<lparr>sc_num = SYSCALLS_SLEEP, sc_func = Scheduler_sleep\<rparr>, \<lparr>sc_num = SYSCALLS_EXIT, sc_func = Scheduler_exit\<rparr>,
      \<lparr>sc_num = SYSCALLS_PID, sc_func = Syscall_get_proccess_id\<rparr>, \<lparr>sc_num = SYSCALLS_MALLOC, sc_func = Syscall_malloc\<rparr>,
      \<lparr>sc_num = SYSCALLS_FREE, sc_func = Syscall_free\<rparr>,
      \<lparr>sc_num = SYSCALLS_TICK, sc_func = Programable_interval_timer_get_tick\<rparr>]"

text \<open>
  What a call leaves: the caller goes on, or another task has the processor, and the rest of the
  call (storing the result, the end of interrupt, the return to the program) waits until the caller
  is selected again.
\<close>

datatype control = Continues kernel | Switched kernel

definition after_switch :: "nat option \<Rightarrow> outcome \<times> kernel \<Rightarrow> (u32 \<times> control) option" where
  "after_switch caller = (\<lambda>(r, k). case r of
       Returned \<Rightarrow> Some (0, if current k = caller then Continues k else Switched k)
     | Started _ \<Rightarrow> Some (0, Switched k)
     | Panicked \<Rightarrow> None)"

text \<open>
  One of them on its arguments, the value in \<open>eax\<close> and the kernel. A panic is \<open>None\<close>. \<open>void\<close> is what the
  function without a result leaves in \<open>eax\<close>; \<open>n\<close> and \<open>junk\<close> are the arguments of the heap. Only the
  running program makes calls.
\<close>

definition run_syscall :: "nat \<Rightarrow> u32 \<Rightarrow> u32 \<Rightarrow> syscall_function \<Rightarrow> u32 list \<Rightarrow> control \<Rightarrow> (u32 \<times> control) option" where
  "run_syscall n junk void f xs s =
     (case s of Switched _ \<Rightarrow> None | Continues k \<Rightarrow>
      (case f of
        Programable_interval_timer_get_tick \<Rightarrow> Some (programable_interval_timer_get_tick (pit k), Continues k)
      | Scheduler_exit \<Rightarrow> (case scheduler_exit k of None \<Rightarrow> None
        | Some (Inl v, k') \<Rightarrow> Some (of_int v, Continues k')
        | Some (Inr r, k') \<Rightarrow> after_switch (current k) (r, k'))
      | Scheduler_sleep \<Rightarrow> Option.bind (scheduler_sleep (xs ! 0) k) (after_switch (current k))
      | Syscall_get_proccess_id \<Rightarrow> Some (syscall_get_proccess_id k, Continues k)
      | Syscall_malloc \<Rightarrow> map_option (\<lambda>(v, k). (v, Continues k)) (syscall_malloc n (xs ! 0) k)
      | Syscall_free \<Rightarrow> map_option (\<lambda>k. (void, Continues k)) (syscall_free junk (xs ! 0) k)))"

section \<open>The user library\<close>

type_synonym user = "registers \<times> control \<times> port_write list"

text \<open>
  \<open>call\<close> executes a registered function and \<open>os\<close> is what \<open>syscalls_init\<close> set up: the table of calls and the table of
  interrupt handlers, whose entry 0x80 is the system call handler. A call that ends in another task
  neither stores a result nor acknowledges the interrupt.
\<close>

definition handle_interrupt ::
  "('f \<Rightarrow> u32 list \<Rightarrow> control \<Rightarrow> (u32 \<times> control) option) \<Rightarrow> 'f option list \<Rightarrow> registers \<Rightarrow> user \<Rightarrow> user option" where
  "handle_interrupt call table r = (\<lambda>(_, s, w).
     map_option (\<lambda>(r', s). (case s of Continues _ \<Rightarrow> r' | Switched _ \<Rightarrow> r, s, w)) (handle_syscalls_interrupt call table r s))"

definition end_of_interrupt :: "port_write list \<Rightarrow> user \<Rightarrow> user" where
  "end_of_interrupt out = (\<lambda>(r, s, w). (r, s, case s of Continues _ \<Rightarrow> w @ out | Switched _ \<Rightarrow> w))"

text \<open>The value in \<open>eax\<close>, when the program goes on, and the state.\<close>

definition int80 ::
  "('f \<Rightarrow> u32 list \<Rightarrow> control \<Rightarrow> (u32 \<times> control) option) \<Rightarrow> 'f option list \<times> 'h handles \<Rightarrow> syscalls \<Rightarrow> u32 \<Rightarrow> u32 \<Rightarrow> u32 \<Rightarrow>
   registers \<times> kernel \<times> port_write list \<Rightarrow> (u32 option \<times> user) option" where
  "int80 call os i arg1 arg2 arg3 = (\<lambda>(r, k, w).
     let r = r\<lparr>r_eax := of_nat (syscall_number i), r_ebx := arg1, r_ecx := arg2, r_edx := arg3, interrupt := 0x80\<rparr>
     in map_option (\<lambda>(r, s, w). (case s of Continues _ \<Rightarrow> Some (r_eax r) | Switched _ \<Rightarrow> None, r, s, w))
          (ir_handler (\<lambda>_. handle_interrupt call (fst os)) end_of_interrupt (snd os) r (r, Continues k, w)))"

definition get_system_tick_count where "get_system_tick_count call os = int80 call os SYSCALLS_TICK 0 0 0"
definition user_exit where "user_exit call os u = map_option snd (int80 call os SYSCALLS_EXIT 0 0 0 u)"
definition user_sleep where "user_sleep call os ms u = map_option snd (int80 call os SYSCALLS_SLEEP ms 0 0 u)"
definition get_proccess_id where "get_proccess_id call os = int80 call os SYSCALLS_PID 0 0 0"
definition user_malloc where "user_malloc call os sz = int80 call os SYSCALLS_MALLOC sz 0 0"
definition user_free where "user_free call os address u = map_option snd (int80 call os SYSCALLS_FREE address 0 0 u)"

lemmas user_library = get_system_tick_count_def user_exit_def user_sleep_def get_proccess_id_def user_malloc_def user_free_def

section \<open>Through the interrupt\<close>

definition kernel_function :: "syscalls \<Rightarrow> syscall_function" where
  "kernel_function i = (case i of SYSCALLS_TICK \<Rightarrow> Programable_interval_timer_get_tick | SYSCALLS_EXIT \<Rightarrow> Scheduler_exit
     | SYSCALLS_SLEEP \<Rightarrow> Scheduler_sleep | SYSCALLS_PID \<Rightarrow> Syscall_get_proccess_id
     | SYSCALLS_MALLOC \<Rightarrow> Syscall_malloc | SYSCALLS_FREE \<Rightarrow> Syscall_free)"

lemma registered_table:
  assumes "syscalls_init registered_syscalls h hs = (table, hs')" "length hs = 256"
  shows "length table = SYSCALLS_MAX_COUNT" "table ! syscall_number i = Some (kernel_function i)" "hs' ! 128 = Some h"
proof -
  have d: "distinct (map sc_num registered_syscalls)" by (simp add: registered_syscalls_def)
  have t: "table = fold (\<lambda>e t. t[syscall_number (sc_num e) := Some (sc_func e)]) registered_syscalls (replicate SYSCALLS_MAX_COUNT None)"
    and h: "hs' = hs[128 := Some h]"
    using assms(1) by (auto simp: syscalls_init_def kernel_interrupts_add_service_handle_def)
  show "length table = SYSCALLS_MAX_COUNT" unfolding t using table_entries(1) [OF d] by simp
  have "\<lparr>sc_num = i, sc_func = kernel_function i\<rparr> \<in> set registered_syscalls"
    by (cases i) (simp_all add: registered_syscalls_def kernel_function_def)
  from table_entries(2) [OF d this, of "replicate SYSCALLS_MAX_COUNT None"] show "table ! syscall_number i = Some (kernel_function i)"
    unfolding t by simp
  show "hs' ! 128 = Some h" using h assms(2) by simp
qed

lemma unat_syscall_number [simp]: "unat (of_nat (syscall_number i) :: u32) = syscall_number i"
  by (cases i) simp_all

text \<open>The registers of a call with one argument \<open>a\<close>, and those after it with the result \<open>v\<close>.\<close>

definition calling :: "registers \<Rightarrow> syscalls \<Rightarrow> u32 \<Rightarrow> registers" where
  "calling r i a = r\<lparr>r_eax := of_nat (syscall_number i), r_ebx := a, r_ecx := 0, r_edx := 0, interrupt := 0x80\<rparr>"

definition returned :: "registers \<Rightarrow> u32 \<Rightarrow> u32 \<Rightarrow> registers" where
  "returned r a v = r\<lparr>r_eax := v, r_ebx := a, r_ecx := 0, r_edx := 0, interrupt := 0x80\<rparr>"

definition acknowledged :: "port_write list \<Rightarrow> port_write list" where
  "acknowledged w = w @ [Outb PIC2 0x20, Outb PIC1 0x20]"

text \<open>What the program sees of a kernel function that ended with the value \<open>v\<close> and \<open>s\<close>.\<close>

definition call_result :: "registers \<Rightarrow> syscalls \<Rightarrow> u32 \<Rightarrow> port_write list \<Rightarrow> u32 \<times> control \<Rightarrow> u32 option \<times> user" where
  "call_result r i a w = (\<lambda>(v, s). case s of
       Continues k \<Rightarrow> (Some v, returned r a v, Continues k, acknowledged w)
     | Switched k \<Rightarrow> (None, calling r i a, Switched k, w))"

lemma int80_runs:
  assumes "syscalls_init registered_syscalls h hs = os" "length hs = 256"
  shows "int80 call os i a 0 0 (r, k, w) =
    map_option (call_result r i a w) (call (kernel_function i) [a, 0, 0, r_esi r, r_edi r] (Continues k))"
proof -
  obtain table hs' where os: "os = (table, hs')" by fastforce
  note t = registered_table [OF assms(1) [unfolded os] assms(2)]
  have e: "IR_EOI 128 = [Outb PIC2 0x20, Outb PIC1 0x20]" by (simp add: IR_EOI_def PIC_SLAVE_OFFSET_def)
  show ?thesis
    using t(1,3) by (cases "call (kernel_function i) [a, 0, 0, r_esi r, r_edi r] (Continues k)")
      (auto simp: int80_def os ir_handler_def handle_interrupt_def handle_syscalls_interrupt_def end_of_interrupt_def
        call_result_def calling_def returned_def acknowledged_def t(2) e Let_def split: control.splits)
qed

section \<open>Properties\<close>

lemma user_calls:
  assumes "syscalls_init registered_syscalls h hs = os" "length hs = 256"
  shows "get_system_tick_count (run_syscall n junk void) os (r, k, w) =
      Some (Some (ticks (pit k)), returned r 0 (ticks (pit k)), Continues k, acknowledged w)"
    "get_proccess_id (run_syscall n junk void) os (r, k, w) =
      Some (Some (syscall_get_proccess_id k), returned r 0 (syscall_get_proccess_id k), Continues k, acknowledged w)"
    "user_malloc (run_syscall n junk void) os sz (r, k, w) =
      map_option (\<lambda>(v, k'). (Some v, returned r sz v, Continues k', acknowledged w)) (syscall_malloc n sz k)"
    "user_free (run_syscall n junk void) os a (r, k, w) =
      map_option (\<lambda>k'. (returned r a void, Continues k', acknowledged w)) (syscall_free junk a k)"
    "user_exit (run_syscall n junk void) os (r, k, w) =
      (case scheduler_exit k of None \<Rightarrow> None
       | Some (Inl v, k') \<Rightarrow> Some (returned r 0 (of_int v), Continues k', acknowledged w)
       | Some (Inr q, k') \<Rightarrow> map_option (snd \<circ> call_result r SYSCALLS_EXIT 0 w) (after_switch (current k) (q, k')))"
    "user_sleep (run_syscall n junk void) os ms (r, k, w) =
      map_option (snd \<circ> call_result r SYSCALLS_SLEEP ms w) (Option.bind (scheduler_sleep ms k) (after_switch (current k)))"
  by (auto simp: user_library int80_runs [OF assms(1,2)] run_syscall_def kernel_function_def call_result_def
      programable_interval_timer_get_tick_def option.map_comp comp_def case_prod_unfold split: option.splits sum.splits)

lemma user_exit_switches:
  assumes "syscalls_init registered_syscalls h hs = os" "length hs = 256"
    "running_ok k (t # rest) zs" "runnable k (t # rest)" "nobody_due (ticks (pit k)) k" "current k = Some c"
  shows "\<exists>k'. user_exit (run_syscall n junk void) os (r, k, w) = Some (calling r SYSCALLS_EXIT 0, Switched k', w) \<and>
    current k' = Some t \<and> running_ok k' rest zs \<and> state (tasks k' c) = TASK_STATE_ZOMBIE \<and> c \<noteq> t \<and> \<not> queued k' rest zs c"
proof -
  obtain k' where k': "scheduler_exit k = Some (Inr Returned, k')" "current k' = Some t" "running_ok k' rest zs"
    "state (tasks k' c) = TASK_STATE_ZOMBIE" "c \<noteq> t" "\<not> queued k' rest zs c"
    using exit_switches [OF assms(3-6)] by auto
  then have "user_exit (run_syscall n junk void) os (r, k, w) = Some (calling r SYSCALLS_EXIT 0, Switched k', w)"
    using user_calls(5) [OF assms(1,2), of n junk void r k w] assms(6) by (simp add: after_switch_def call_result_def)
  with k' show ?thesis by blast
qed

lemma user_sleep_switches:
  assumes "syscalls_init registered_syscalls h hs = os" "length hs = 256"
    "running_ok k (t # rest) zs" "runnable k (t # rest)" "nobody_due (ticks (pit k)) k" "current k = Some c"
    "sq_room (sleepers k)" "unat ms * unat (hz_frequency (pit k)) < 4294967296"
    "unat (ticks (pit k)) + max 1 (unat ms * unat (hz_frequency (pit k)) div 1000) < 4294967296"
  shows "\<exists>k'. user_sleep (run_syscall n junk void) os ms (r, k, w) = Some (calling r SYSCALLS_SLEEP ms, Switched k', w) \<and>
    current k' = Some t \<and> running_ok k' rest zs \<and> state (tasks k' c) = TASK_STATE_SLEEPING \<and>
    unat (wake_tick (tasks k' c)) = unat (ticks (pit k)) + max 1 (unat ms * unat (hz_frequency (pit k)) div 1000)"
proof -
  obtain k' where k': "scheduler_sleep ms k = Some (Returned, k')" "current k' = Some t" "running_ok k' rest zs"
    "state (tasks k' c) = TASK_STATE_SLEEPING"
    "unat (wake_tick (tasks k' c)) = unat (ticks (pit k)) + max 1 (unat ms * unat (hz_frequency (pit k)) div 1000)"
    using sleep_switches [OF assms(3-9)] by auto
  moreover have "c \<noteq> t" using assms(3,6) by (auto simp: running_ok_def selected_def queued_def)
  ultimately have "user_sleep (run_syscall n junk void) os ms (r, k, w) = Some (calling r SYSCALLS_SLEEP ms, Switched k', w)"
    using user_calls(6) [OF assms(1,2), of n junk void ms r k w] assms(6) by (simp add: after_switch_def call_result_def)
  with k' show ?thesis by blast
qed

text \<open>
  C24: With the kernel's calls registered, each function of the user library does through interrupt 0x80 what the kernel
  function does on its argument. The tick count, the process number, \<open>malloc\<close> and \<open>free\<close> return to the program with the result
  in \<open>eax\<close>, no register changed but those of the call, and an acknowledgement of both interrupt controllers; they stop where
  the kernel function does. \<open>exit\<close> outside a task returns -1. While no sleeper is due and every ready task has been
  started, \<open>exit\<close> of a task makes it a zombie and gives the processor to the next ready task, and \<open>sleep\<close>, with room in
  the sleep queue and no overflow of the wake tick, puts the task to sleep until that tick and gives the processor to the
  next ready task; neither stores a result or acknowledges the interrupt.
\<close>

theorem user_calls_reach_the_kernel:
  assumes "syscalls_init registered_syscalls h hs = os" "length hs = 256"
  shows "get_system_tick_count (run_syscall n junk void) os (r, k, w) =
      Some (Some (ticks (pit k)), returned r 0 (ticks (pit k)), Continues k, acknowledged w) \<and>
    get_proccess_id (run_syscall n junk void) os (r, k, w) =
      Some (Some (syscall_get_proccess_id k), returned r 0 (syscall_get_proccess_id k), Continues k, acknowledged w) \<and>
    user_malloc (run_syscall n junk void) os sz (r, k, w) =
      map_option (\<lambda>(v, k'). (Some v, returned r sz v, Continues k', acknowledged w)) (syscall_malloc n sz k) \<and>
    user_free (run_syscall n junk void) os a (r, k, w) =
      map_option (\<lambda>k'. (returned r a void, Continues k', acknowledged w)) (syscall_free junk a k) \<and>
    (current k = None \<longrightarrow>
      user_exit (run_syscall n junk void) os (r, k, w) = Some (returned r 0 (- 1), Continues k, acknowledged w)) \<and>
    (\<forall>c t rest zs. running_ok k (t # rest) zs \<and> runnable k (t # rest) \<and> nobody_due (ticks (pit k)) k \<and> current k = Some c \<longrightarrow>
      (\<exists>k'. user_exit (run_syscall n junk void) os (r, k, w) = Some (calling r SYSCALLS_EXIT 0, Switched k', w) \<and>
         current k' = Some t \<and> running_ok k' rest zs \<and> state (tasks k' c) = TASK_STATE_ZOMBIE \<and> c \<noteq> t \<and>
         \<not> queued k' rest zs c)) \<and>
    (\<forall>c t rest zs. running_ok k (t # rest) zs \<and> runnable k (t # rest) \<and> nobody_due (ticks (pit k)) k \<and> current k = Some c \<and>
      sq_room (sleepers k) \<and> unat ms * unat (hz_frequency (pit k)) < 4294967296 \<and>
      unat (ticks (pit k)) + max 1 (unat ms * unat (hz_frequency (pit k)) div 1000) < 4294967296 \<longrightarrow>
      (\<exists>k'. user_sleep (run_syscall n junk void) os ms (r, k, w) = Some (calling r SYSCALLS_SLEEP ms, Switched k', w) \<and>
         current k' = Some t \<and> running_ok k' rest zs \<and> state (tasks k' c) = TASK_STATE_SLEEPING \<and>
         unat (wake_tick (tasks k' c)) = unat (ticks (pit k)) + max 1 (unat ms * unat (hz_frequency (pit k)) div 1000)))"
proof -
  have "current k = None \<Longrightarrow>
      user_exit (run_syscall n junk void) os (r, k, w) = Some (returned r 0 (- 1), Continues k, acknowledged w)"
    using user_calls(5) [OF assms, of n junk void r k w] by (simp add: scheduler_exit_def)
  with user_calls(1-4) [OF assms] user_exit_switches [OF assms] user_sleep_switches [OF assms] show ?thesis
    by (intro conjI allI impI; (elim conjE)?; (simp only:)?; blast?)
qed

text \<open>
  Memory that a program requests and gives back leaves no trace: the request returns the address the heap found with the task's
  table holding it, and giving it back restores the record of the task's allocations and the interrupt state.
\<close>

theorem user_memory_round_trip:
  assumes "syscalls_init registered_syscalls h hs = os" "length hs = 256"
    "current k = Some c" "t_heap_manager (tasks k c)" "interrupts_ok (irq k)" "0 < sint sz"
    "malloc n sz False (km k) = Some (ret, m)" "table_ok (allocations k c)"
    "size (recorded (allocations k c)) < ALLOCATION_MAX_COUNT" "ret \<notin># image_mset fst (recorded (allocations k c))"
    "heap_manager_free junk ret m = Some m'" "ret \<noteq> NULL"
  shows "\<exists>r' k' r'' k''.
    user_malloc (run_syscall n junk void) os sz (r, k, w) = Some (Some ret, r', Continues k', acknowledged w) \<and>
    recorded (allocations k' c) = add_mset (ret, sz) (recorded (allocations k c)) \<and>
    user_free (run_syscall n junk void) os ret (r', k', acknowledged w) = Some (r'', Continues k'', acknowledged (acknowledged w)) \<and>
    recorded (allocations k'' c) = recorded (allocations k c) \<and> km k'' = m' \<and> irq k'' = irq k"
proof -
  from memory_recorded [OF assms(3-11)] assms(12) obtain k' k'' where
    k: "syscall_malloc n sz k = Some (ret, k')" "recorded (allocations k' c) = add_mset (ret, sz) (recorded (allocations k c))"
      "syscall_free junk ret k' = Some k''" "km k'' = m'" "irq k'' = irq k" "recorded (allocations k'' c) = recorded (allocations k c)"
    by auto
  with user_calls(3,4) [OF assms(1,2)] show ?thesis by simp
qed

text \<open>Task 3 exits, and task 5 runs.\<close>

theorem user_calls_reach_the_kernel_witness:
  "\<exists>k'. user_exit (run_syscall 1 0 0) (syscalls_init registered_syscalls () (replicate 256 None))
     (witness_registers, witness_two_tasks, []) = Some (calling witness_registers SYSCALLS_EXIT 0, Switched k', []) \<and>
     current k' = Some 5 \<and> state (tasks k' 3) = TASK_STATE_ZOMBIE \<and> \<not> queued k' [6] [] 3"
proof -
  have l: "length (replicate 256 None :: unit handles) = 256" by simp
  from user_calls_reach_the_kernel [OF refl l, where n = 1 and junk = 0 and void = 0 and h = "()"
      and r = witness_registers and k = witness_two_tasks and w = "[]"
      and sz = 0 and a = 0 and ms = 0]
    witness_two_tasks(1,2,3) witness_two_tasks(4) [of "ticks (pit witness_two_tasks)"]
  show ?thesis by blast
qed

theorem user_memory_round_trip_witness:
  "\<exists>r' k' r'' k''.
    user_malloc (run_syscall 1 0 0) (syscalls_init registered_syscalls () (replicate 256 None)) 64 (witness_registers, witness_running, []) =
      Some (Some 0x200000, r', Continues k', acknowledged []) \<and>
    user_free (run_syscall 1 0 0) (syscalls_init registered_syscalls () (replicate 256 None)) 0x200000 (r', k', acknowledged []) =
      Some (r'', Continues k'', acknowledged (acknowledged [])) \<and> recorded (allocations k'' 3) = {#}"
proof -
  have t: "table_ok (allocations witness_running 3)" "recorded (allocations witness_running 3) = {#}"
    using allocation_table_init_ok [of "allocations witness_running 3"] witness_running(6) by simp_all
  have l: "length (replicate 256 None :: unit handles) = 256" by simp
  from user_memory_round_trip [OF refl l witness_running(1-3) _ witness_running(4) t(1) _ _ witness_running(5),
      where h = "()" and void = 0 and r = witness_registers and w = "[]" and junk = 0] t(2)
  show ?thesis by (auto simp: ALLOCATION_MAX_COUNT_def)
qed

end
