(* ===== verification/Multiboot.thy ===== *)
theory Multiboot
  imports Memory
begin

text \<open>
  The size of physical memory from the boot loader's memory map (src/multiboot2/multiboot2.c, on the
  structures of src/include/multiboot2.h). The tags are walked in memory; the walk never ends on a list
  without an end tag or on a tag or an entry of size zero.
\<close>

definition MULTIBOOT2_BOOTLOADER_MAGIC :: u32 where "MULTIBOOT2_BOOTLOADER_MAGIC = 0x36d76289"
definition MULTIBOOT_TAG_TYPE_END :: u32 where "MULTIBOOT_TAG_TYPE_END = 0"
definition MULTIBOOT_TAG_TYPE_MMAP :: u32 where "MULTIBOOT_TAG_TYPE_MMAP = 6"
definition MULTIBOOT_MEMORY_AVAILABLE :: u32 where "MULTIBOOT_MEMORY_AVAILABLE = 1"

text \<open>
  The macro \<open>IS_VALID_MULTIBOOT2_MAGIC(magic_number)\<close> stands for
  \<open>magic_number == MULTIBOOT2_BOOTLOADER_MAGIC\<close> without parentheses. Its only use is
  \<open>!IS_VALID_MULTIBOOT2_MAGIC(magic)\<close>, where the negation binds to the number alone: \<open>!magic\<close>, which is 0 or 1, is
  compared with the magic number.
\<close>

definition refuses_magic :: "u32 \<Rightarrow> bool" where
  "refuses_magic magic \<longleftrightarrow> (if magic = 0 then 1 else 0) = MULTIBOOT2_BOOTLOADER_MAGIC"

lemma never_refused [simp]: "\<not> refuses_magic magic"
  by (simp add: refuses_magic_def MULTIBOOT2_BOOTLOADER_MAGIC_def)

definition read64 :: "mem \<Rightarrow> u32 \<Rightarrow> u64" where
  "read64 m a = ucast (read32 m a) OR push_bit 32 (ucast (read32 m (a + 4)))"

text \<open>The fields of \<open>struct multiboot_tag\<close>, \<open>struct multiboot_tag_mmap\<close> and \<open>struct multiboot_mmap_entry\<close>.\<close>

definition tag_type :: "mem \<Rightarrow> u32 \<Rightarrow> u32" where "tag_type m tag = read32 m tag"
definition tag_size :: "mem \<Rightarrow> u32 \<Rightarrow> u32" where "tag_size m tag = read32 m (tag + 4)"
definition tag_entry_size :: "mem \<Rightarrow> u32 \<Rightarrow> u32" where "tag_entry_size m tag = read32 m (tag + 8)"
definition tag_entries :: "u32 \<Rightarrow> u32" where "tag_entries tag = tag + 16"

record mmap_entry =
  mm_addr :: u64
  mm_len :: u64
  mm_type :: u32

definition mmap_at :: "mem \<Rightarrow> u32 \<Rightarrow> mmap_entry" where
  "mmap_at m e = \<lparr>mm_addr = read64 m e, mm_len = read64 m (e + 8), mm_type = read32 m (e + 16)\<rparr>"

text \<open>What one entry adds to \<open>*memory\<close>.\<close>

definition count_entry :: "mmap_entry \<Rightarrow> u32 \<Rightarrow> u32" where
  "count_entry x acc =
     (if mm_type x \<noteq> MULTIBOOT_MEMORY_AVAILABLE \<or> mm_addr x = 0 then acc else acc + ucast (mm_len x))"

partial_function (option) mmap_loop :: "mem \<Rightarrow> u32 \<Rightarrow> u32 \<Rightarrow> u32 \<Rightarrow> u32 option" where
  "mmap_loop m tag e acc =
     (if e < tag + tag_size m tag then mmap_loop m tag (e + tag_entry_size m tag) (count_entry (mmap_at m e) acc)
      else Some acc)"

partial_function (option) tag_loop :: "mem \<Rightarrow> u32 \<Rightarrow> u32 \<Rightarrow> u32 option" where
  "tag_loop m tag acc =
     (if tag_type m tag = MULTIBOOT_TAG_TYPE_END then Some acc
      else if tag_type m tag = MULTIBOOT_TAG_TYPE_MMAP then mmap_loop m tag (tag_entries tag) acc
      else tag_loop m (tag + ((tag_size m tag + 7) AND NOT 7)) acc)"

text \<open>\<open>memory\<close> is the cell the pointer names, or \<open>None\<close> for a null pointer.\<close>

definition multiboot2_get_physical_memory_size :: "mem \<Rightarrow> u32 \<Rightarrow> u32 option \<Rightarrow> u32 option option" where
  "multiboot2_get_physical_memory_size m addr memory =
     (case memory of None \<Rightarrow> Some None | Some acc \<Rightarrow> map_option Some (tag_loop m (addr + 8) acc))"

section \<open>Well-formed tag lists\<close>

text \<open>The tags from \<open>tag\<close> up to the memory map at \<open>p\<close>; none of them ends the list.\<close>

inductive tags_to :: "mem \<Rightarrow> u32 \<Rightarrow> u32 \<Rightarrow> bool" for m where
  here: "tags_to m p p"
| skip: "tag_type m tag \<noteq> MULTIBOOT_TAG_TYPE_END \<Longrightarrow> tag_type m tag \<noteq> MULTIBOOT_TAG_TYPE_MMAP \<Longrightarrow>
    tags_to m (tag + ((tag_size m tag + 7) AND NOT 7)) p \<Longrightarrow> tags_to m tag p"

lemma tag_loop_skip: "tags_to m tag p \<Longrightarrow> tag_loop m tag acc = tag_loop m p acc"
proof (induction rule: tags_to.induct)
  case (skip tag p)
  then show ?case by (subst tag_loop.simps) simp
qed simp

text \<open>The entries of a memory map with entries of \<open>sz\<close> bytes.\<close>

definition mmap_list :: "mem \<Rightarrow> u32 \<Rightarrow> u32 \<Rightarrow> nat \<Rightarrow> mmap_entry list" where
  "mmap_list m e sz n = map (\<lambda>i. mmap_at m (e + of_nat i * sz)) [0..<n]"

lemma mmap_loop_counts:
  assumes "unat tag + 16 + n * unat (tag_entry_size m tag) < 4294967296" "0 < tag_entry_size m tag"
    "unat (tag_size m tag) = 16 + n * unat (tag_entry_size m tag)" "k \<le> n"
  shows "mmap_loop m tag (tag_entries tag + of_nat k * tag_entry_size m tag) acc =
    Some (fold count_entry (map (\<lambda>i. mmap_at m (tag_entries tag + of_nat i * tag_entry_size m tag)) [k..<n]) acc)"
  using assms(4)
proof (induction "n - k" arbitrary: k acc)
  case (Suc j)
  let ?sz = "tag_entry_size m tag"
  have at: "unat (tag_entries tag + of_nat k * ?sz) = unat tag + 16 + k * unat ?sz" if "k \<le> n" for k
  proof -
    have le: "k * unat ?sz \<le> n * unat ?sz" using that by (rule mult_le_mono1)
    have "tag_entries tag + of_nat k * ?sz = of_nat (unat tag + 16 + k * unat ?sz)" by (simp add: tag_entries_def)
    then show ?thesis using le assms(1) by (simp only: unat_of_nat_u32)
  qed
  have top: "unat (tag + tag_size m tag) = unat tag + 16 + n * unat ?sz"
    using assms(1,3) unat_add_noov [of tag "tag_size m tag"] by simp
  have "k < n" using Suc.hyps(2) by simp
  moreover have "0 < unat ?sz" using assms(2) by (simp add: word_less_nat_alt)
  ultimately have "k * unat ?sz < n * unat ?sz" by simp
  then have "tag_entries tag + of_nat k * ?sz < tag + tag_size m tag"
    using at [OF Suc.prems] top by (simp add: word_less_nat_alt)
  then have "mmap_loop m tag (tag_entries tag + of_nat k * ?sz) acc =
      mmap_loop m tag (tag_entries tag + of_nat (Suc k) * ?sz) (count_entry (mmap_at m (tag_entries tag + of_nat k * ?sz)) acc)"
    by (subst mmap_loop.simps) (simp add: algebra_simps)
  then show ?case using Suc.hyps(1) [of "Suc k"] Suc.hyps(2) \<open>k < n\<close> by (simp add: upt_conv_Cons del: upt_Suc)
next
  case 0
  then have k: "k = n" by simp
  let ?sz = "tag_entry_size m tag"
  have "tag_entries tag + of_nat n * ?sz = of_nat (unat tag + 16 + n * unat ?sz)" by (simp add: tag_entries_def)
  then have "unat (tag_entries tag + of_nat n * ?sz) = unat tag + 16 + n * unat ?sz" using assms(1) by (simp only: unat_of_nat_u32)
  moreover have "unat (tag + tag_size m tag) = unat tag + 16 + n * unat ?sz"
    using assms(1,3) unat_add_noov [of tag "tag_size m tag"] by simp
  ultimately have "\<not> tag_entries tag + of_nat n * ?sz < tag + tag_size m tag" by (simp add: word_less_nat_alt)
  then show ?case using k by (subst mmap_loop.simps) simp
qed

lemma count_entries:
  "fold count_entry xs acc = acc + of_nat (\<Sum>x \<leftarrow> filter (\<lambda>x. mm_type x = MULTIBOOT_MEMORY_AVAILABLE \<and> mm_addr x \<noteq> 0) xs. unat (mm_len x))"
proof (induction xs arbitrary: acc)
  case (Cons x xs)
  have "(ucast (mm_len x) :: u32) = of_nat (unat (mm_len x))" by simp
  then show ?case using Cons by (simp add: count_entry_def add.assoc)
qed simp

lemma memory_size:
  assumes "tags_to m (addr + 8) tag" "tag_type m tag = MULTIBOOT_TAG_TYPE_MMAP"
    "0 < tag_entry_size m tag" "unat (tag_size m tag) = 16 + n * unat (tag_entry_size m tag)"
    "unat tag + unat (tag_size m tag) < 4294967296"
  shows "\<exists>r. multiboot2_get_physical_memory_size m addr (Some acc) = Some (Some r) \<and>
    unat r = (unat acc + (\<Sum>x \<leftarrow> filter (\<lambda>x. mm_type x = MULTIBOOT_MEMORY_AVAILABLE \<and> mm_addr x \<noteq> 0)
      (mmap_list m (tag_entries tag) (tag_entry_size m tag) n). unat (mm_len x))) mod 4294967296"
proof -
  let ?xs = "mmap_list m (tag_entries tag) (tag_entry_size m tag) n"
  let ?sum = "\<Sum>x \<leftarrow> filter (\<lambda>x. mm_type x = MULTIBOOT_MEMORY_AVAILABLE \<and> mm_addr x \<noteq> 0) ?xs. unat (mm_len x)"
  have "tag_loop m (addr + 8) acc = mmap_loop m tag (tag_entries tag) acc"
    unfolding tag_loop_skip [OF assms(1)]
    by (subst tag_loop.simps) (simp add: assms(2) MULTIBOOT_TAG_TYPE_MMAP_def MULTIBOOT_TAG_TYPE_END_def)
  also have "\<dots> = Some (fold count_entry ?xs acc)"
    using mmap_loop_counts [OF _ assms(3,4), of 0 acc] assms(4,5) by (simp add: mmap_list_def)
  also have "\<dots> = Some (of_nat (unat acc + ?sum))" by (simp add: count_entries)
  finally have "multiboot2_get_physical_memory_size m addr (Some acc) = Some (Some (of_nat (unat acc + ?sum)))"
    by (simp add: multiboot2_get_physical_memory_size_def)
  moreover have "unat (of_nat (unat acc + ?sum) :: u32) = (unat acc + ?sum) mod 4294967296"
    by (simp only: unat_of_nat take_bit_eq_mod) simp
  ultimately show ?thesis by blast
qed

text \<open>
  C38: On a list of tags with a memory map, the walk returns and adds up the lengths of the available regions of the map that do not
  start at address 0, modulo 2 to the 32: of 4 GiB or more, only the remainder is seen.
\<close>

theorem memory_size_sums_available_regions:
  assumes "tags_to m (addr + 8) tag" "tag_type m tag = MULTIBOOT_TAG_TYPE_MMAP"
    "0 < tag_entry_size m tag" "unat (tag_size m tag) = 16 + n * unat (tag_entry_size m tag)"
    "unat tag + unat (tag_size m tag) < 4294967296"
  shows "\<exists>r. multiboot2_get_physical_memory_size m addr (Some acc) = Some (Some r) \<and>
    unat r = (unat acc + (\<Sum>x \<leftarrow> filter (\<lambda>x. mm_type x = MULTIBOOT_MEMORY_AVAILABLE \<and> mm_addr x \<noteq> 0)
      (mmap_list m (tag_entries tag) (tag_entry_size m tag) n). unat (mm_len x))) mod 4294967296"
  using assms by (rule memory_size)

text \<open>A map of three regions: the first at address 0, then 128 MiB, then 4 GiB.\<close>

definition witness_tags :: mem where
  "witness_tags = (\<lambda>_. 0)(0x108 := 6, 0x10C := 88, 0x110 := 24,
     0x121 := 0xFC, 0x122 := 0x09, 0x128 := 1,
     0x132 := 0x10, 0x13B := 0x08, 0x140 := 1,
     0x14C := 1, 0x154 := 1, 0x158 := 1)"

lemma witness_tags:
  "tags_to witness_tags (0x100 + 8) 0x108" "tag_type witness_tags 0x108 = 6" "tag_size witness_tags 0x108 = 88"
  "tag_entry_size witness_tags 0x108 = 24"
  "mmap_list witness_tags (tag_entries 0x108) 24 3 =
      [\<lparr>mm_addr = 0, mm_len = 0x9FC00, mm_type = 1\<rparr>, \<lparr>mm_addr = 0x100000, mm_len = 0x8000000, mm_type = 1\<rparr>,
       \<lparr>mm_addr = 0x100000000, mm_len = 0x100000000, mm_type = 1\<rparr>]"
proof -
  have u: "[0..<3] = [0, 1, 2 :: nat]" by (simp add: upt_rec)
  show "mmap_list witness_tags (tag_entries 0x108) 24 3 =
      [\<lparr>mm_addr = 0, mm_len = 0x9FC00, mm_type = 1\<rparr>, \<lparr>mm_addr = 0x100000, mm_len = 0x8000000, mm_type = 1\<rparr>,
       \<lparr>mm_addr = 0x100000000, mm_len = 0x100000000, mm_type = 1\<rparr>]"
    by (simp add: mmap_list_def u tag_entries_def mmap_at_def read64_def read32_def witness_tags_def)
  show "tags_to witness_tags (0x100 + 8) 0x108" using tags_to.here by simp
qed (simp_all add: tag_type_def tag_size_def tag_entry_size_def read32_def witness_tags_def)

lemma witness_memory_size: "multiboot2_get_physical_memory_size witness_tags 0x100 (Some 0) = Some (Some 0x08000000)"
proof -
  obtain r where r: "multiboot2_get_physical_memory_size witness_tags 0x100 (Some 0) = Some (Some r)" "unat r = 0x08000000"
    using memory_size [OF witness_tags(1), of 3 0] witness_tags(2-5)
    by (auto simp: MULTIBOOT_TAG_TYPE_MMAP_def MULTIBOOT_MEMORY_AVAILABLE_def)
  then have "r = of_nat 0x08000000" by (metis of_nat_unat_u32)
  with r(1) show ?thesis by simp
qed

theorem memory_size_sums_available_regions_witness:
  "\<exists>r. multiboot2_get_physical_memory_size witness_tags 0x100 (Some 0) = Some (Some r) \<and> unat r = 0x08000000"
  using memory_size_sums_available_regions [OF witness_tags(1), of 3 0] witness_tags(2-5)
  by (simp add: MULTIBOOT_TAG_TYPE_MMAP_def MULTIBOOT_MEMORY_AVAILABLE_def)

end
