(* ===== verification/Ports.thy ===== *)
theory Ports
  imports Interrupts Memory
begin

text \<open>
  The port instructions of src/include/memory.h. The devices behind the ports are no part of the
  program: the instructions are given as functions on a state \<open>'s\<close> of the machine, an argument of
  every definition that uses a port. \<open>each\<close> is a \<open>for\<close> loop over a list whose body may not return.
\<close>

record 's io =
  inportb :: "u16 \<Rightarrow> 's \<Rightarrow> u8 \<times> 's"
  outportb :: "u16 \<Rightarrow> u8 \<Rightarrow> 's \<Rightarrow> 's"
  inports :: "u16 \<Rightarrow> 's \<Rightarrow> u16 \<times> 's"
  outports :: "u16 \<Rightarrow> u16 \<Rightarrow> 's \<Rightarrow> 's"
  inportl :: "u16 \<Rightarrow> 's \<Rightarrow> u32 \<times> 's"
  outportl :: "u16 \<Rightarrow> u32 \<Rightarrow> 's \<Rightarrow> 's"

text \<open>No machine behind the ports: every port reads as zero.\<close>

definition silent_io :: "'s io" where
  "silent_io = \<lparr>inportb = \<lambda>_ s. (0, s), outportb = \<lambda>_ _ s. s, inports = \<lambda>_ s. (0, s), outports = \<lambda>_ _ s. s,
     inportl = \<lambda>_ s. (0, s), outportl = \<lambda>_ _ s. s\<rparr>"

text \<open>The list of writes another component produces, carried out.\<close>

definition perform :: "'s io \<Rightarrow> port_write list \<Rightarrow> 's \<Rightarrow> 's" where
  "perform io = fold (\<lambda>w. case w of Outb p v \<Rightarrow> outportb io p v | Outw p v \<Rightarrow> outports io p v | Outl p v \<Rightarrow> outportl io p v)"

primrec each :: "('a \<Rightarrow> 's \<Rightarrow> 's option) \<Rightarrow> 'a list \<Rightarrow> 's \<Rightarrow> 's option" where
  "each f [] s = Some s"
| "each f (x # xs) s = Option.bind (f x s) (each f xs)"

lemma each_append: "each f (xs @ ys) s = Option.bind (each f xs s) (each f ys)"
  by (induction xs arbitrary: s) (simp_all add: Option.bind_eq_Some_conv split: bind_splits)

text \<open>Rules for such loops: what holds of the part of the list done so far.\<close>

lemma each_rule:
  assumes "each f xs s = Some s'" "P [] s"
    and "\<And>ys x zs t t'. xs = ys @ x # zs \<Longrightarrow> P ys t \<Longrightarrow> f x t = Some t' \<Longrightarrow> P (ys @ [x]) t'"
  shows "P xs s'"
proof -
  have "P (ys @ zs) s'" if "xs = ys @ zs" "P ys t" "each f zs t = Some s'" for ys zs t
    using that
  proof (induction zs arbitrary: ys t)
    case (Cons x zs)
    then obtain t' where t': "f x t = Some t'" "each f zs t' = Some s'" by (auto simp: Option.bind_eq_Some_conv)
    have "P (ys @ [x]) t'" using assms(3) Cons.prems(1,2) t'(1) by blast
    with Cons.IH [of "ys @ [x]" t'] Cons.prems(1) t'(2) show ?case by simp
  qed simp
  from this [of "[]" xs s] assms(1,2) show ?thesis by simp
qed

lemma each_total:
  assumes "P [] s" and "\<And>ys x zs t. xs = ys @ x # zs \<Longrightarrow> P ys t \<Longrightarrow> \<exists>t'. f x t = Some t' \<and> P (ys @ [x]) t'"
  shows "\<exists>s'. each f xs s = Some s' \<and> P xs s'"
proof -
  have "\<exists>s'. each f zs t = Some s' \<and> P (ys @ zs) s'" if "xs = ys @ zs" "P ys t" for ys zs t
    using that
  proof (induction zs arbitrary: ys t)
    case (Cons x zs)
    from assms(2) [OF Cons.prems] obtain t' where t': "f x t = Some t'" "P (ys @ [x]) t'" by blast
    with Cons.IH [of "ys @ [x]" t'] Cons.prems(1) show ?case by simp
  qed simp
  from this [of "[]" xs s] assms(1) show ?thesis by simp
qed

text \<open>Little-endian fields of a packed structure, as the list of its bytes.\<close>

definition le16 :: "u8 list \<Rightarrow> nat \<Rightarrow> u16" where
  "le16 bs i = ucast (bs ! i) OR push_bit 8 (ucast (bs ! (i + 1)))"

definition le32 :: "u8 list \<Rightarrow> nat \<Rightarrow> u32" where
  "le32 bs i = ucast (bs ! i) OR push_bit 8 (ucast (bs ! (i + 1))) OR push_bit 16 (ucast (bs ! (i + 2))) OR
     push_bit 24 (ucast (bs ! (i + 3)))"

text \<open>The values a \<open>uint8_t\<close> counter takes below a bound.\<close>

definition counter :: "nat \<Rightarrow> u8 list" where "counter n = map of_nat [0..<n]"

lemma unat_less_256: "unat (x :: u8) < 256"
  using unsigned_less [of x, where ?'a = nat] by simp

lemma u8_less_255: "x \<noteq> (255 :: u8) \<Longrightarrow> unat x < 255"
  using unat_less_256 [of x] by (simp add: word_unat_eq_iff less_Suc_eq)

lemma unat_of_nat_u8: "n < 256 \<Longrightarrow> unat (of_nat n :: u8) = n"
  by (simp add: unat_of_nat take_bit_eq_mod)

lemma set_counter:
  assumes "n \<le> 256"
  shows "set (counter n) = {x. unat x < n}"
proof (intro equalityI subsetI)
  fix x assume "x \<in> {x :: u8. unat x < n}"
  then have "of_nat (unat x) \<in> set (counter n)" by (simp only: counter_def set_map set_upt) (rule imageI, simp)
  then show "x \<in> set (counter n)" by simp
next
  fix x assume "x \<in> set (counter n)"
  then obtain i where i: "i < n" "x = of_nat i" unfolding counter_def set_map set_upt by auto
  then have "unat x = i" using assms by (simp only: unat_of_nat_u8 less_le_trans)
  then show "x \<in> {x. unat x < n}" using i(1) by simp
qed

lemma distinct_counter: "n \<le> 256 \<Longrightarrow> distinct (counter n)"
  unfolding counter_def
proof (rule distinct_map_upt)
  fix i j assume *: "n \<le> 256" "i < n" "j < n" "(of_nat i :: u8) = of_nat j"
  have "unat (of_nat i :: u8) = i" "unat (of_nat j :: u8) = j"
    by (rule unat_of_nat_u8, rule less_le_trans [OF *(2,1)], rule unat_of_nat_u8, rule less_le_trans [OF *(3,1)])
  with arg_cong [OF *(4), of unat] show "i = j" by (simp only:)
qed

end
