(* ===== verification/Debug_Output.thy ===== *)
theory Debug_Output
  imports Ports CString "HOL-Library.Char_ord"
begin

text \<open>
  Debug output on the serial port (src/kernel/debug/serial-com1.c) and the handlers of the two exceptions
  that report through it (src/kernel/interrupts/exceptions.c). \<open>dbgprintf\<close> formats into a buffer of 512
  bytes, here the list of the bytes written so far; a write behind its end is undefined (\<open>None\<close>). The
  variable arguments are a list of words and doubles; reading a missing argument or one of another size is
  undefined. The text of a double (\<open>ftoa\<close>, floating-point arithmetic) is an argument.
\<close>

section \<open>The serial port\<close>

definition COM1_PORT_ADDRESS :: u16 where "COM1_PORT_ADDRESS = 0x3F8"
definition BUFFER_SIZE :: nat where "BUFFER_SIZE = 512"

record 's serial =
  is_initialized :: bool
  port :: 's

partial_function (option) serial_write :: "'s io \<Rightarrow> u8 \<Rightarrow> 's \<Rightarrow> 's option" where
  "serial_write io c s =
     (case inportb io (COM1_PORT_ADDRESS + 5) s of (v, s) \<Rightarrow>
        if v AND 0x20 = 0 then serial_write io c s else Some (outportb io COM1_PORT_ADDRESS c s))"

definition serial_print :: "'s io \<Rightarrow> u8 list \<Rightarrow> 's \<Rightarrow> 's option" where
  "serial_print io str = each (serial_write io) (takeWhile (\<lambda>c. c \<noteq> 0) str)"

definition kernel_serial_com1_init :: "'s io \<Rightarrow> 's serial \<Rightarrow> 's serial" where
  "kernel_serial_com1_init io s =
     (if is_initialized s then s
      else \<lparr>is_initialized = True,
        port = perform io [Outb (COM1_PORT_ADDRESS + 1) 0x00, Outb (COM1_PORT_ADDRESS + 3) 0x80, Outb (COM1_PORT_ADDRESS + 0) 0x03,
          Outb (COM1_PORT_ADDRESS + 1) 0x00, Outb (COM1_PORT_ADDRESS + 3) 0x03, Outb (COM1_PORT_ADDRESS + 2) 0xC7,
          Outb (COM1_PORT_ADDRESS + 4) 0x0B] (port s)\<rparr>)"

section \<open>Formatting\<close>

datatype varg = Word u32 | Double u64

definition append_to_buffer :: "u8 list \<Rightarrow> u8 list \<Rightarrow> u8 list option" where
  "append_to_buffer buf src = (if length buf + length src \<le> BUFFER_SIZE then Some (buf @ src) else None)"

text \<open>The characters of the string at an address.\<close>

definition mem_string :: "mem \<Rightarrow> u32 \<Rightarrow> u8 list option" where
  "mem_string m p = map_option (\<lambda>l. map (\<lambda>i. m (p + of_nat i)) [0..<l]) (strlen m p)"

definition uitoa_text :: "u32 \<Rightarrow> u32 \<Rightarrow> u8 list option" where
  "uitoa_text n base = map_option rev (udigits base n)"

definition itoa_text :: "int \<Rightarrow> int \<Rightarrow> u8 list option" where
  "itoa_text n base =
     (if n = - 2147483648 \<and> base = 10 then None
      else let neg = n < 0 \<and> base = 10
           in map_option (\<lambda>ds. (if neg then [0x2D] else []) @ rev ds) (idigits base (if neg then - n else n)))"

text \<open>
  The switch on the character of a directive other than \<open>s\<close>: the string left in \<open>temp\<close> and the
  remaining arguments.
\<close>

definition directive :: "(u64 \<Rightarrow> u8 list) \<Rightarrow> u8 \<Rightarrow> varg list \<Rightarrow> (u8 list \<times> varg list) option" where
  "directive ftoa c args =
     (if c = 0x64 \<or> c = 0x69 then
        (case args of Word w # args \<Rightarrow> map_option (\<lambda>t. (t, args)) (itoa_text (sint w) 10) | _ \<Rightarrow> None)
      else if c = 0x44 \<or> c = 0x75 then
        (case args of Word w # args \<Rightarrow> map_option (\<lambda>t. (t, args)) (uitoa_text w 10) | _ \<Rightarrow> None)
      else if c = 0x78 then
        (case args of Word w # args \<Rightarrow> map_option (\<lambda>t. (t, args)) (itoa_text (sint w) 16) | _ \<Rightarrow> None)
      else if c = 0x58 then
        (case args of Word w # args \<Rightarrow> map_option (\<lambda>t. (t, args)) (uitoa_text w 16) | _ \<Rightarrow> None)
      else if c = 0x70 then
        (case args of Word w # args \<Rightarrow> map_option (\<lambda>t. ([0x30, 0x78] @ t, args)) (uitoa_text w 16) | _ \<Rightarrow> None)
      else if c = 0x63 then
        (case args of Word w # args \<Rightarrow> Some (takeWhile (\<lambda>c. c \<noteq> 0) [ucast w], args) | _ \<Rightarrow> None)
      else if c = 0x66 then
        (case args of Double x # args \<Rightarrow> Some (ftoa x, args) | _ \<Rightarrow> None)
      else if c = 0x25 then Some ([0x25], args)
      else Some (0x25 # takeWhile (\<lambda>c. c \<noteq> 0) [c], args))"

text \<open>The digits of a width; their value and the address behind them.\<close>

partial_function (option) width_loop :: "mem \<Rightarrow> u32 \<Rightarrow> nat \<Rightarrow> (nat \<times> u32) option" where
  "width_loop m ptr width =
     (if 0x30 \<le> m ptr \<and> m ptr \<le> 0x39 then width_loop m (ptr + 1) (width * 10 + unat (m ptr - 0x30)) else Some (width, ptr))"

text \<open>Print the buffer if it is nearly full.\<close>

definition flush :: "'s io \<Rightarrow> u8 list \<Rightarrow> 's \<Rightarrow> (u8 list \<times> 's) option" where
  "flush io buf s =
     (if BUFFER_SIZE - 64 \<le> length buf
      then (if length buf < BUFFER_SIZE then map_option (\<lambda>s. ([], s)) (serial_print io buf s) else None)
      else Some (buf, s))"

text \<open>\<open>skip_zero m ptr\<close>: the optional zero of a directive, and the address behind it.\<close>

definition skip_zero :: "mem \<Rightarrow> u32 \<Rightarrow> bool \<times> u32" where
  "skip_zero m ptr = (if m ptr = 0x30 then (True, ptr + 1) else (False, ptr))"

definition padding :: "bool \<Rightarrow> nat \<Rightarrow> u8 list \<Rightarrow> u8 list" where
  "padding zero_pad width temp = replicate (width - length temp) (if zero_pad then 0x30 else 0x20)"

partial_function (option) format_loop ::
  "'s io \<Rightarrow> (u64 \<Rightarrow> u8 list) \<Rightarrow> mem \<Rightarrow> u32 \<Rightarrow> varg list \<Rightarrow> u8 list \<Rightarrow> 's \<Rightarrow> 's option" where
  "format_loop io ftoa m ptr args buf s =
     (if m ptr = 0 then (if length buf < BUFFER_SIZE then serial_print io buf s else None)
      else if m ptr = 0x25 then
        (case skip_zero m (ptr + 1) of (zero_pad, ptr) \<Rightarrow>
           Option.bind (width_loop m ptr 0) (\<lambda>(width, ptr).
             if m ptr = 0x73 then
               (case args of Word a # args \<Rightarrow>
                  Option.bind (mem_string m a) (\<lambda>str.
                    Option.bind (append_to_buffer buf str) (\<lambda>buf. format_loop io ftoa m (ptr + 1) args buf s))
                | _ \<Rightarrow> None)
             else
               Option.bind (directive ftoa (m ptr) args) (\<lambda>(temp, args).
                 Option.bind (append_to_buffer buf (padding zero_pad width temp)) (\<lambda>buf.
                   Option.bind (append_to_buffer buf temp) (\<lambda>buf.
                     Option.bind (flush io buf s) (\<lambda>(buf, s). format_loop io ftoa m (ptr + 1) args buf s))))))
      else
        Option.bind (append_to_buffer buf [m ptr]) (\<lambda>buf.
          Option.bind (flush io buf s) (\<lambda>(buf, s). format_loop io ftoa m (ptr + 1) args buf s)))"

definition dbgprintf :: "'s io \<Rightarrow> (u64 \<Rightarrow> u8 list) \<Rightarrow> mem \<Rightarrow> u32 \<Rightarrow> varg list \<Rightarrow> 's serial \<Rightarrow> 's serial option" where
  "dbgprintf io ftoa m format args s =
     (if \<not> is_initialized s then Some s
      else map_option (\<lambda>h. s\<lparr>port := h\<rparr>) (format_loop io ftoa m format args [] (port s)))"

section \<open>The text of a format\<close>

text \<open>
  The reference, written without the functions above. The values a format is applied to are numbers, texts and doubles; an
  argument denotes a text when it is the address of that string.
\<close>

datatype val = Number u32 | Text "u8 list" | Real u64

fun denotes :: "mem \<Rightarrow> varg \<Rightarrow> val \<Rightarrow> bool" where
  "denotes m (Word w) (Number n) = (n = w)"
| "denotes m (Word a) (Text t) = cstr m a t"
| "denotes m (Double x) (Real y) = (y = x)"
| "denotes m _ _ = False"

definition bytes :: "string \<Rightarrow> u8 list" where "bytes = map of_char"

text \<open>The numeral of a number in a base up to 16.\<close>

definition figure :: "nat \<Rightarrow> u8" where "figure d = bytes ''0123456789ABCDEF'' ! d"

function positional :: "nat \<Rightarrow> nat \<Rightarrow> u8 list" where
  "positional b n = (if b < 2 \<or> n < b then [figure n] else positional b (n div b) @ [figure (n mod b)])"
  by pat_completeness auto
termination
  by (relation "measure snd") auto

declare positional.simps [simp del]

text \<open>
  The text of a number under a conversion that takes one. The smallest integer has no text under \<open>%d\<close>. The text of a negative
  one under \<open>%x\<close> is a single character, from the zero downwards: the code makes it so, and it is not hexadecimal.
\<close>

definition number_text :: "u8 \<Rightarrow> u32 \<Rightarrow> u8 list option" where
  "number_text c w =
     (if c \<in> set (bytes ''di'') then
        (if sint w = - (2 ^ 31) then None
         else Some ((if sint w < 0 then bytes ''-'' else []) @ positional 10 (nat \<bar>sint w\<bar>)))
      else if c \<in> set (bytes ''Du'') then Some (positional 10 (unat w))
      else if c \<in> set (bytes ''x'') then
        Some (if 0 \<le> sint w then positional 16 (unat w) else [of_char (CHR ''0'') - of_nat (nat (- sint w) mod 16)])
      else if c \<in> set (bytes ''X'') then Some (positional 16 (unat w))
      else if c \<in> set (bytes ''p'') then Some (bytes ''0x'' @ positional 16 (unat w))
      else Some (if ucast w = (0 :: u8) then [] else [ucast w]))"

definition conversion :: "(u64 \<Rightarrow> u8 list) \<Rightarrow> u8 \<Rightarrow> val list \<Rightarrow> (u8 list \<times> val list) option" where
  "conversion ftoa c vals =
     (if c \<in> set (bytes ''diDuxXpc'') then
        (case vals of Number w # rest \<Rightarrow> map_option (\<lambda>t. (t, rest)) (number_text c w) | _ \<Rightarrow> None)
      else if c \<in> set (bytes ''f'') then (case vals of Real x # rest \<Rightarrow> Some (ftoa x, rest) | _ \<Rightarrow> None)
      else if c \<in> set (bytes ''%'') then Some (bytes ''%'', vals)
      else Some (bytes ''%'' @ [c], vals))"

definition padded :: "bool \<Rightarrow> nat \<Rightarrow> u8 list \<Rightarrow> u8 list" where
  "padded zero_pad width t = replicate (width - length t) (of_char (if zero_pad then CHR ''0'' else CHR '' '')) @ t"

text \<open>
  A format is cut into pieces, each the text of a character or a directive, marked when it is a string. A
  directive at the end of the format has no text.
\<close>

definition digits_number :: "u8 list \<Rightarrow> nat \<Rightarrow> nat" where
  "digits_number ds w = fold (\<lambda>d w. w * 10 + unat (d - 0x30)) ds w"

definition digit :: "u8 \<Rightarrow> bool" where "digit c \<longleftrightarrow> 0x30 \<le> c \<and> c \<le> 0x39"

definition split_directive :: "u8 list \<Rightarrow> bool \<times> nat \<times> u8 list" where
  "split_directive cs =
     (let zero_pad = (cs \<noteq> [] \<and> hd cs = 0x30); cs = (if zero_pad then tl cs else cs)
      in (zero_pad, digits_number (takeWhile digit cs) 0, dropWhile digit cs))"

lemma length_split_directive: "split_directive cs = (z, w, rest) \<Longrightarrow> length rest \<le> length cs"
  using length_dropWhile_le [of digit cs] length_dropWhile_le [of digit "tl cs"]
  by (auto simp: split_directive_def Let_def split: if_splits)

function pieces :: "(u64 \<Rightarrow> u8 list) \<Rightarrow> u8 list \<Rightarrow> val list \<Rightarrow> (bool \<times> u8 list) list option" where
  "pieces ftoa [] vals = Some []"
| "pieces ftoa (c # cs) vals =
     (if [c] \<noteq> bytes ''%'' then map_option ((#) (False, [c])) (pieces ftoa cs vals)
      else case split_directive cs of (zero_pad, width, rest) \<Rightarrow>
        (case rest of [] \<Rightarrow> None
         | d # rest \<Rightarrow>
           if [d] = bytes ''s'' then
             (case vals of Text t # vals \<Rightarrow> map_option ((#) (True, t)) (pieces ftoa rest vals) | _ \<Rightarrow> None)
           else
             (case conversion ftoa d vals of None \<Rightarrow> None
              | Some (t, vals) \<Rightarrow> map_option ((#) (False, padded zero_pad width t)) (pieces ftoa rest vals))))"
  by pat_completeness auto
termination
  by (relation "measure (\<lambda>(ftoa, cs, vals). length cs)") (auto dest!: length_split_directive [OF sym])

text \<open>The pieces fit: the buffer, emptied when it holds 448 bytes after a piece that is no string, never overflows.\<close>

fun fits :: "nat \<Rightarrow> (bool \<times> u8 list) list \<Rightarrow> bool" where
  "fits n [] \<longleftrightarrow> n < 512"
| "fits n ((string, t) # ps) \<longleftrightarrow>
     (let n = n + length t
      in if string then n \<le> 512 \<and> fits n ps else if 448 \<le> n then n < 512 \<and> fits 0 ps else fits n ps)"

lemma fits_short: "n + length (concat (map snd ps)) < 448 \<Longrightarrow> fits n ps"
  by (induction n ps rule: fits.induct) (auto simp: Let_def)

section \<open>The conversions have the text of the reference\<close>

lemma digit_char_figure:
  assumes "d < 16"
  shows "digit_char (of_nat d) = figure d"
proof -
  from assms have "d \<in> set [0..<16]" by simp
  then show ?thesis by (auto simp: upt_rec [of _ 16] digit_char_def figure_def bytes_def of_char_def)
qed

lemma udigits_positional:
  assumes "2 \<le> unat b" "unat b \<le> 16"
  shows "udigits b n = Some (rev (positional (unat b) (unat n)))"
proof (induction "unat n" arbitrary: n rule: less_induct)
  case less
  have b: "b \<noteq> 0" using assms(1) by auto
  have "unat (n mod b) < unat b" using assms(1) by (simp add: unat_mod)
  then have d: "digit_char (n mod b) = figure (unat n mod unat b)"
    using digit_char_figure [of "unat (n mod b)"] assms(2) by (simp only: of_nat_unat ucast_id) (simp add: unat_mod)
  have q: "0 < n div b \<longleftrightarrow> unat b \<le> unat n"
    using assms(1) by (simp add: word_less_nat_alt unat_div div_greater_zero_iff)
  show ?case
  proof (cases "unat n < unat b")
    case True
    then show ?thesis using b d q assms(1)
      by (subst udigits.simps, subst positional.simps) (simp add: Let_def)
  next
    case False
    then have "unat (n div b) < unat n" using assms(1) by (simp add: unat_div)
    from less [OF this] show ?thesis using False b d q assms(1)
      by (subst udigits.simps, subst positional.simps) (simp add: Let_def unat_div)
  qed
qed

lemma idigits_positional:
  assumes "2 \<le> b" "b \<le> 16"
  shows "idigits (int b) (int n) = Some (rev (positional b n))"
proof (induction n rule: less_induct)
  case (less n)
  have e: "int n smod int b = int (n mod b)" "int n sdiv int b = int (n div b)"
    by (simp_all add: signed_divide_int_def signed_modulo_int_def sgn_if zdiv_int zmod_int)
  have "n mod b < b" using assms(1) by simp
  then have d: "digit_char (of_int (int (n mod b))) = figure (n mod b)"
    using digit_char_figure [of "n mod b"] assms(2) by simp
  have q: "0 < int (n div b) \<longleftrightarrow> b \<le> n" using assms(1) by (simp add: div_greater_zero_iff)
  show ?case
  proof (cases "n < b")
    case True
    then show ?thesis using d q assms(1)
      by (subst idigits.simps, subst positional.simps) (simp add: Let_def e)
  next
    case False
    then have "n div b < n" using assms(1) by simp
    from less [OF this] show ?thesis using False d q assms(1)
      by (subst idigits.simps, subst positional.simps) (simp add: Let_def e)
  qed
qed

lemma uitoa_text_positional: "uitoa_text w 10 = Some (positional 10 (unat w))" "uitoa_text w 16 = Some (positional 16 (unat w))"
  using udigits_positional [of 10 w] udigits_positional [of 16 w] by (simp_all add: uitoa_text_def)

lemma itoa_text_decimal:
  fixes w :: u32
  shows "itoa_text (sint w) 10 = (if sint w = - (2 ^ 31) then None
     else Some ((if sint w < 0 then bytes ''-'' else []) @ positional 10 (nat \<bar>sint w\<bar>)))"
proof -
  have "idigits 10 \<bar>sint w\<bar> = Some (rev (positional 10 (nat \<bar>sint w\<bar>)))"
    using idigits_positional [of 10 "nat \<bar>sint w\<bar>"] by simp
  then show ?thesis by (auto simp: itoa_text_def bytes_def of_char_def abs_if)
qed

lemma itoa_text_hex:
  fixes w :: u32
  shows "itoa_text (sint w) 16 =
     Some (if 0 \<le> sint w then positional 16 (unat w) else [of_char (CHR ''0'') - of_nat (nat (- sint w) mod 16)])"
proof (cases "0 \<le> sint w")
  case True
  have "uint (of_int (sint w) :: u32) = take_bit 32 (sint w)" by (simp only: unsigned_of_int) simp
  then have "uint w = take_bit 32 (sint w)" by (simp add: scast_id)
  moreover have "sint w < 2 ^ 31" using sint_lt [of w] by simp
  ultimately have "sint w = int (unat w)" using True by (simp add: take_bit_int_eq_self)
  then show ?thesis using True idigits_positional [of 16 "unat w"] by (simp add: itoa_text_def)
next
  case False
  define k where "k = nat (- sint w)"
  have k: "sint w = - int k" "0 < k" using False by (simp_all add: k_def)
  have e: "int k smod 16 = int (k mod 16)" "int k sdiv 16 = int (k div 16)"
    using k(2) by (simp_all add: signed_divide_int_def signed_modulo_int_def sgn_if zdiv_int zmod_int)
  have m: "(ucast (- 1 :: u32) :: u8) = - 1" by (rule bit_word_eqI) (auto simp: bit_simps)
  have "k mod 16 \<in> set [0..<16]" by simp
  then have "digit_char (of_int (- int (k mod 16))) = of_char (CHR ''0'') - of_nat (k mod 16)"
    by (auto simp: upt_rec [of _ 16] digit_char_def of_char_def m)
  then have "idigits 16 (- int k) = Some [of_char (CHR ''0'') - of_nat (k mod 16)]"
    by (subst idigits.simps) (simp add: Let_def e)
  then show ?thesis using False k by (simp add: itoa_text_def)
qed

text \<open>The characters of the conversions.\<close>

lemma conversion_bytes:
  "set (bytes ''di'') = {0x64, 0x69}" "set (bytes ''Du'') = {0x44, 0x75}" "set (bytes ''x'') = {0x78}" "set (bytes ''X'') = {0x58}"
  "set (bytes ''p'') = {0x70}" "set (bytes ''f'') = {0x66}" "set (bytes ''%'') = {0x25}" "bytes ''%'' = [0x25]" "bytes ''s'' = [0x73]"
  "bytes ''0x'' = [0x30, 0x78]" "set (bytes ''diDuxXpc'') = {0x64, 0x69, 0x44, 0x75, 0x78, 0x58, 0x70, 0x63}"
  by (simp_all add: bytes_def of_char_def)

lemma directive_conversion:
  assumes "conversion ftoa c vals = Some (t, vals')" "list_all2 (denotes m) args vals" "c \<noteq> 0"
  shows "\<exists>args'. directive ftoa c args = Some (t, args') \<and> list_all2 (denotes m) args' vals'"
proof (cases "c \<in> set (bytes ''diDuxXpc'')")
  case True
  then obtain w where w: "vals = Number w # vals'" "number_text c w = Some t"
    using assms(1) by (auto simp: conversion_def split: list.splits val.splits)
  then obtain args' where a: "args = Word w # args'" "list_all2 (denotes m) args' vals'"
    using assms(2) by (cases args; cases "hd args") auto
  have "directive ftoa c args = map_option (\<lambda>t. (t, args')) (number_text c w)"
    using True unfolding a(1) directive_def number_text_def conversion_bytes itoa_text_decimal itoa_text_hex uitoa_text_positional
      list.case varg.case by (elim insertE emptyE) simp_all
  with a(2) w(2) show ?thesis by simp
next
  case number: False
  show ?thesis
  proof (cases "c = 0x66")
    case True
    then obtain x where x: "vals = Real x # vals'" "t = ftoa x"
      using assms(1) number by (auto simp: conversion_def conversion_bytes split: list.splits val.splits)
    then obtain args' where a: "args = Double x # args'" "list_all2 (denotes m) args' vals'"
      using assms(2) by (cases args; cases "hd args") auto
    with True x show ?thesis by (simp add: directive_def)
  next
    case False
    then show ?thesis using number assms by (auto simp: conversion_def directive_def conversion_bytes split: if_splits)
  qed
qed

lemma padded_padding: "padded z w t = padding z w t @ t"
  by (simp add: padded_def padding_def of_char_def)

lemma mem_string_cstr:
  assumes "cstr m a t"
  shows "mem_string m a = Some t"
proof -
  have "map (\<lambda>i. m (a + of_nat i)) [0..<length t] = t"
    by (rule nth_equalityI) (use assms in \<open>simp_all add: cstr_nth\<close>)
  then show ?thesis by (simp add: mem_string_def strlen_cstr [OF assms])
qed

section \<open>Printing\<close>

text \<open>Printing in parts is printing the whole, when no part has a zero byte.\<close>

lemma serial_print_append:
  assumes "0 \<notin> set xs"
  shows "Option.bind (serial_print io xs s) (serial_print io ys) = serial_print io (xs @ ys) s"
proof -
  have x: "takeWhile (\<lambda>c. c \<noteq> 0) xs = xs" using assms by (induction xs) auto
  have "takeWhile (\<lambda>c. c \<noteq> 0) (xs @ ys) = xs @ takeWhile (\<lambda>c. c \<noteq> 0) ys"
    using assms by (intro takeWhile_append2) auto
  then show ?thesis by (simp only: serial_print_def x each_append)
qed

lemma append_twice:
  "Option.bind (append_to_buffer buf xs) (\<lambda>buf. Option.bind (append_to_buffer buf ys) f) =
    Option.bind (append_to_buffer buf (xs @ ys)) f"
  by (simp add: append_to_buffer_def)

text \<open>One piece, a possible flush, and the rest.\<close>

lemma piece_step:
  assumes "fits (length buf) ((False, t) # ps)" "0 \<notin> set buf" "0 \<notin> set t"
    "\<And>buf s. fits (length buf) ps \<Longrightarrow> 0 \<notin> set buf \<Longrightarrow> L buf s = serial_print io (buf @ rest) s"
  shows "Option.bind (append_to_buffer buf t) (\<lambda>buf. Option.bind (flush io buf s) (\<lambda>(buf, s). L buf s)) =
    serial_print io (buf @ t @ rest) s"
proof (cases "448 \<le> length buf + length t")
  case True
  then have f: "length buf + length t < 512" "fits 0 ps" using assms(1) by (simp_all add: Let_def)
  have "L [] = serial_print io rest" using assms(4) [of "[]"] f(2) by auto
  moreover have "0 \<notin> set (buf @ t)" using assms(2,3) by simp
  ultimately show ?thesis
    using True f(1) serial_print_append [of "buf @ t" io s rest]
    by (cases "serial_print io (buf @ t) s") (simp_all add: append_to_buffer_def flush_def BUFFER_SIZE_def)
next
  case False
  then have "fits (length (buf @ t)) ps" using assms(1) by (simp add: Let_def)
  with False show ?thesis
    using assms(4) [of "buf @ t" s] assms(2,3) by (simp add: append_to_buffer_def flush_def BUFFER_SIZE_def)
qed

lemma width_loop_cstr:
  "cstr m p cs \<Longrightarrow> width_loop m p w =
    Some (digits_number (takeWhile digit cs) w, p + of_nat (length (takeWhile digit cs))) \<and>
    cstr m (p + of_nat (length (takeWhile digit cs))) (dropWhile digit cs)"
proof (induction cs arbitrary: p w)
  case Nil
  then show ?case by (subst width_loop.simps) (simp add: digits_number_def)
next
  case (Cons c cs)
  then have c: "m p = c" "cstr m (p + 1) cs" by simp_all
  show ?case
  proof (cases "digit c")
    case True
    then have "width_loop m p w = width_loop m (p + 1) (w * 10 + unat (c - 0x30))"
      using c(1) by (subst width_loop.simps) (simp add: digit_def)
    then show ?thesis using Cons.IH [OF c(2)] True by (simp add: digits_number_def add.assoc)
  next
    case False
    then have "\<not> (0x30 \<le> m p \<and> m p \<le> 0x39)" using c(1) by (simp add: digit_def)
    then have "width_loop m p w = Some (w, p)" by (subst width_loop.simps) (simp only: if_False)
    moreover have "takeWhile digit (c # cs) = []" "dropWhile digit (c # cs) = c # cs" using False by simp_all
    ultimately show ?thesis using Cons.prems by (simp only: list.size of_nat_0 add_0_right) (simp add: digits_number_def)
  qed
qed

lemma skip_zero_cstr:
  assumes "cstr m p cs" "split_directive cs = (z, w, rest)"
  shows "\<exists>p1 p2. skip_zero m p = (z, p1) \<and> width_loop m p1 0 = Some (w, p2) \<and> cstr m p2 rest"
proof (cases cs)
  case Nil
  then show ?thesis using assms width_loop_cstr [of m p "[]" 0] by (simp add: skip_zero_def split_directive_def)
next
  case (Cons c cs')
  then have m: "m p = c" "cstr m (p + 1) cs'" using assms(1) by simp_all
  show ?thesis
  proof (cases "c = 0x30")
    case True
    then show ?thesis using assms(2) m Cons width_loop_cstr [OF m(2), of 0]
      by (auto simp: skip_zero_def split_directive_def Let_def)
  next
    case False
    then show ?thesis using assms m Cons width_loop_cstr [OF assms(1), of 0]
      by (auto simp: skip_zero_def split_directive_def Let_def)
  qed
qed

lemma format_loop_pieces:
  assumes "cstr m ptr cs" "pieces ftoa cs vals = Some ps" "list_all2 (denotes m) args vals" "fits (length buf) ps"
    "0 \<notin> set buf" "0 \<notin> set (concat (map snd ps))"
  shows "format_loop io ftoa m ptr args buf s = serial_print io (buf @ concat (map snd ps)) s"
  using assms
proof (induction ftoa cs vals arbitrary: ptr args buf ps s rule: pieces.induct)
  case (1 ftoa vals)
  then show ?case by (subst format_loop.simps) (simp add: BUFFER_SIZE_def)
next
  case (2 ftoa c cs vals)
  have c: "m ptr = c" "c \<noteq> 0" "cstr m (ptr + 1) cs" using 2(4) by simp_all
  show ?case
  proof (cases "c = 0x25")
    case False
    then have F: "[c] \<noteq> bytes ''%''" by (simp add: conversion_bytes)
    then obtain qs where qs: "pieces ftoa cs vals = Some qs" "ps = (False, [c]) # qs" using 2(5) by auto
    have z: "0 \<notin> set (concat (map snd qs))" "0 \<notin> set [c]" using 2(9) c(2) by (simp_all add: qs(2))
    have IH: "format_loop io ftoa m (ptr + 1) args buf s = serial_print io (buf @ concat (map snd qs)) s"
      if "fits (length buf) qs" "0 \<notin> set buf" for buf s
      by (rule 2(1) [OF F c(3) qs(1) 2(6) that z(1)])
    show ?thesis
      using piece_step [OF 2(7) [unfolded qs(2)] 2(8) z(2) IH] c(1,2) False
      by (subst format_loop.simps) (simp add: qs(2))
  next
    case True
    then have T: "\<not> [c] \<noteq> bytes ''%''" by (simp add: conversion_bytes)
    obtain zp w rest where sd: "split_directive cs = (zp, w, rest)" by (metis prod_cases3)
    obtain d rest' where rest: "rest = d # rest'" using 2(5) T sd by (cases rest) auto
    obtain p1 p2 where p: "skip_zero m (ptr + 1) = (zp, p1)" "width_loop m p1 0 = Some (w, p2)" "cstr m p2 rest"
      using skip_zero_cstr [OF c(3) sd] by blast
    then have d: "m p2 = d" "d \<noteq> 0" "cstr m (p2 + 1) rest'" using rest by simp_all
    show ?thesis
    proof (cases "d = 0x73")
      case True
      then have string: "[d] = bytes ''s''" by (simp add: conversion_bytes)
      obtain str vals' qs where v: "vals = Text str # vals'" "pieces ftoa rest' vals' = Some qs" "ps = (True, str) # qs"
        using 2(5) T sd rest string by (auto split: list.splits val.splits)
      obtain a args' where a: "args = Word a # args'" "cstr m a str" "list_all2 (denotes m) args' vals'"
        using 2(6) v(1) by (cases args; cases "hd args") auto
      have f: "length buf + length str \<le> 512" "fits (length (buf @ str)) qs" using 2(7) by (simp_all add: v(3) Let_def)
      have z: "0 \<notin> set (buf @ str)" "0 \<notin> set (concat (map snd qs))" using 2(8,9) by (simp_all add: v(3))
      from 2(2) [OF T sd [symmetric] refl rest string v(1) refl d(3) v(2) a(3) f(2) z]
      have "format_loop io ftoa m (p2 + 1) args' (buf @ str) s = serial_print io ((buf @ str) @ concat (map snd qs)) s" .
      then show ?thesis
        using c \<open>c = 0x25\<close> p d True a(1) mem_string_cstr [OF a(2)] v(3) f(1)
        by (subst format_loop.simps) (simp add: append_to_buffer_def BUFFER_SIZE_def)
    next
      case False
      then have other: "[d] \<noteq> bytes ''s''" by (simp add: conversion_bytes)
      obtain temp vals' qs where t: "conversion ftoa d vals = Some (temp, vals')" "pieces ftoa rest' vals' = Some qs"
        "ps = (False, padding zp w temp @ temp) # qs"
        using 2(5) T sd rest other by (auto simp: padded_padding split: option.splits)
      obtain args' where a: "directive ftoa d args = Some (temp, args')" "list_all2 (denotes m) args' vals'"
        using directive_conversion [OF t(1) 2(6) d(2)] by blast
      have z: "0 \<notin> set (concat (map snd qs))" "0 \<notin> set (padding zp w temp @ temp)" using 2(9) by (simp_all add: t(3))
      have IH: "format_loop io ftoa m (p2 + 1) args' buf s = serial_print io (buf @ concat (map snd qs)) s"
        if "fits (length buf) qs" "0 \<notin> set buf" for buf s
        using 2(3) [OF T sd [symmetric] refl rest other t(1) refl d(3) t(2) a(2) that z(1)] by blast
      from piece_step [OF 2(7) [unfolded t(3)] 2(8) z(2) IH] show ?thesis
        using c \<open>c = 0x25\<close> p d False a(1) t(3) by (subst format_loop.simps) (simp add: append_twice)
    qed
  qed
qed

text \<open>
  C33: On an initialised port, \<open>dbgprintf\<close> sends exactly the text of its format, in order, whenever the pieces fit its buffer:
  where the buffer is emptied in between cannot be seen. Texts shorter than 448 bytes always fit. The text replaces \<open>%d\<close>, \<open>%i\<close>
  by the signed and \<open>%u\<close>, \<open>%D\<close> by the unsigned decimal numeral, \<open>%X\<close> by the hexadecimal one, \<open>%x\<close> likewise if the number is
  not negative and by one character that is no numeral if it is (\<open>number_text\<close>), \<open>%p\<close> by 0x and the hexadecimal numeral, \<open>%c\<close> by the character, \<open>%f\<close> by the text of a double (an argument of
  the model), each padded on the left to the width with zeros or blanks, and \<open>%s\<close> by the string, which is not padded.
  Formats that end within a directive, missing arguments, the smallest integer under \<open>%d\<close> and texts of doubles with a zero
  byte are left out. Without initialisation nothing is sent.
\<close>

theorem dbgprintf_prints_format:
  assumes "cstr m format cs" "list_all2 (denotes m) args vals" "pieces ftoa cs vals = Some ps" "0 \<notin> set (concat (map snd ps))"
    "fits 0 ps \<or> length (concat (map snd ps)) < 448"
  shows "dbgprintf io ftoa m format args \<lparr>is_initialized = True, port = h\<rparr> =
      map_option (\<lambda>h. \<lparr>is_initialized = True, port = h\<rparr>) (each (serial_write io) (concat (map snd ps)) h) \<and>
    dbgprintf io ftoa m format args \<lparr>is_initialized = False, port = h\<rparr> = Some \<lparr>is_initialized = False, port = h\<rparr>"
proof -
  have "fits 0 ps" using assms(5) fits_short [of 0 ps] by auto
  then have "format_loop io ftoa m format args [] h = serial_print io (concat (map snd ps)) h"
    using format_loop_pieces [OF assms(1,3,2) _ _ assms(4), of "[]" io h] by simp
  moreover have "takeWhile (\<lambda>c. c \<noteq> 0) (concat (map snd ps)) = concat (map snd ps)"
    using assms(4) by (intro takeWhile_eq_all_conv [THEN iffD2]) auto
  ultimately have "format_loop io ftoa m format args [] h = each (serial_write io) (concat (map snd ps)) h"
    by (simp only: serial_print_def)
  then show ?thesis by (cases "each (serial_write io) (concat (map snd ps)) h") (simp_all add: dbgprintf_def)
qed

text \<open>A port that is always ready and keeps what is sent to it.\<close>

definition recorder :: "u8 list io" where
  "recorder = \<lparr>inportb = \<lambda>_ s. (0x20, s), outportb = \<lambda>_ v s. s @ [v], inports = \<lambda>_ s. (0, s), outports = \<lambda>_ _ s. s,
     inportl = \<lambda>_ s. (0, s), outportl = \<lambda>_ _ s. s\<rparr>"

lemma recorder_write: "serial_write recorder c s = Some (s @ [c])"
  by (subst serial_write.simps) (simp add: recorder_def)

theorem dbgprintf_prints_format_witness:
  "\<exists>s'. dbgprintf recorder (\<lambda>_. []) ((\<lambda>_. 0)(1 := 0x78, 2 := 0x25, 3 := 0x30, 4 := 0x33, 5 := 0x58)) 1 [Word 0x2A]
     \<lparr>is_initialized = True, port = []\<rparr> = Some s' \<and> port s' = bytes ''x02A''"
proof -
  let ?m = "(\<lambda>_. 0)(1 := 0x78, 2 := 0x25, 3 := 0x30, 4 := 0x33, 5 := 0x58) :: mem"
  have f: "cstr ?m 1 [0x78, 0x25, 0x30, 0x33, 0x58]" by simp
  have n: "positional 16 42 = [0x32, 0x41]"
    by (simp add: positional.simps [of 16 42] positional.simps [of 16 2] figure_def bytes_def of_char_def)
  have sd: "split_directive [0x30, 0x33, 0x58] = (True, 3, [0x58])"
    by (simp add: split_directive_def digit_def digits_number_def)
  have pd: "padded True 3 [0x32, 0x41] = [0x30, 0x32, 0x41]" by (simp add: padded_def of_char_def numeral_3_eq_3)
  have p: "pieces (\<lambda>_. []) [0x78, 0x25, 0x30, 0x33, 0x58] [Number 0x2A] = Some [(False, [0x78]), (False, [0x30, 0x32, 0x41])]"
    by (simp add: conversion_bytes sd conversion_def number_text_def n pd)
  have d: "list_all2 (denotes ?m) [Word 0x2A] [Number 0x2A]" by simp
  have b: "bytes ''x02A'' = [0x78, 0x30, 0x32, 0x41]" by (simp add: bytes_def of_char_def)
  from dbgprintf_prints_format [OF f d p, where io = recorder and h = "[]"] show ?thesis
    by (simp add: recorder_write b)
qed

section \<open>The handlers of exceptions\<close>

text \<open>
  A report is a list of calls of \<open>dbgprintf\<close>, each a format and its arguments. \<open>lit\<close> is the address of a
  string literal.
\<close>

type_synonym report = "(string \<times> varg list) list"

definition page_fault_report :: "u32 \<Rightarrow> registers \<Rightarrow> report" where
  "page_fault_report faulting_address r =
     (let e = r_error r in
      [(''Page Fault | Possible causes: [ '', [])] @
      (if e AND 0x1 = 0 then [(''Page not present '', [])] else []) @
      (if e AND 0x2 \<noteq> 0 then [(''Page is read only '', [])] else []) @
      (if e AND 0x4 \<noteq> 0 then [(''Page is read only '', [])] else []) @
      (if e AND 0x8 \<noteq> 0 then [(''Overwrote reserved bits '', [])] else []) @
      (if e AND 0x10 \<noteq> 0 then [(''Instruction fetch '', [])] else []) @
      [(''] at 0x%X'' @ [CHR 0x0A], [Word faulting_address]),
       (''Registers:'' @ [CHR 0x0A], []),
       (''EAX=0x%X EBX=0x%X ECX=0x%X EDX=0x%X'' @ [CHR 0x0A], map Word [r_eax r, r_ebx r, r_ecx r, r_edx r]),
       (''ESI=0x%X EDI=0x%X EBP=0x%X ESP=0x%X'' @ [CHR 0x0A], map Word [r_esi r, r_edi r, r_ebp r, r_esp r]),
       (''EIP=0x%X CS=0x%X DS=0x%X'' @ [CHR 0x0A], map Word [r_eip r, r_cs r, r_ds r])])"

definition general_protection_fault_report :: "registers \<Rightarrow> report" where
  "general_protection_fault_report r =
     (let e = r_error r; table = drop_bit 1 e AND 0x3 in
      [(''General Protection Fault | Error code: 0x%X'' @ [CHR 0x0A], [Word e]), (''Details: [ '', [])] @
      (if e AND 0x1 \<noteq> 0 then [(''External event '', [])] else []) @
      [(if table = 0 then ''GDT '' else if table = 1 then ''IDT '' else if table = 2 then ''LDT '' else ''Unknown table '', []),
       (''Index: %D ]'' @ [CHR 0x0A], [Word (drop_bit 3 e)]),
       (''EIP at fault: 0x%X'' @ [CHR 0x0A], [Word (r_eip r)])])"

definition print_report :: "'s io \<Rightarrow> (u64 \<Rightarrow> u8 list) \<Rightarrow> mem \<Rightarrow> (string \<Rightarrow> u32) \<Rightarrow> report \<Rightarrow> 's serial \<Rightarrow> 's serial option" where
  "print_report io ftoa m lit = each (\<lambda>(f, args). dbgprintf io ftoa m (lit f) args)"

text \<open>\<open>cr2\<close> is the processor's register of the faulting address.\<close>

definition page_fault_handler ::
  "'s io \<Rightarrow> (u64 \<Rightarrow> u8 list) \<Rightarrow> mem \<Rightarrow> (string \<Rightarrow> u32) \<Rightarrow> u32 \<Rightarrow> registers \<Rightarrow> 's serial \<Rightarrow> 's serial option" where
  "page_fault_handler io ftoa m lit cr2 r = print_report io ftoa m lit (page_fault_report cr2 r)"

definition general_protection_fault_handler ::
  "'s io \<Rightarrow> (u64 \<Rightarrow> u8 list) \<Rightarrow> mem \<Rightarrow> (string \<Rightarrow> u32) \<Rightarrow> registers \<Rightarrow> 's serial \<Rightarrow> 's serial option" where
  "general_protection_fault_handler io ftoa m lit r = print_report io ftoa m lit (general_protection_fault_report r)"

text \<open>The report of a write to a read-only page and that of an access from user mode read the same.\<close>

lemma page_fault_user_reported_as_read_only:
  "page_fault_report cr2 (r\<lparr>r_error := 0x3\<rparr>) = page_fault_report cr2 (r\<lparr>r_error := 0x5\<rparr>)"
  by (simp add: page_fault_report_def Let_def)

end
