(* ===== verification/Kernel_Main.thy ===== *)
theory Kernel_Main
  imports User_Calls Multiboot Debug_Output
begin

text \<open>
  The first and the last part of \<open>kernel_main\<close> (src/kernel/kernel-main.c): from the check of the
  boot loader's magic number to paging, and the start of multitasking. The parts in between are \<open>kernel_heap_setup\<close>,
  \<open>kernel_bios32_init\<close>, \<open>kernel_discover_devices\<close> and \<open>select_video_mode\<close>.
\<close>

section \<open>The state at boot\<close>

text \<open>The functions the kernel installs as interrupt handlers, and the addresses of its tables, stubs and limits.\<close>

datatype service = Page_fault_handler | General_protection_fault_handler | Handle_syscalls_interrupt | Timer_handle

record image =
  im_gdt :: u32
  im_idt :: u32
  im_tss :: u32
  im_entry :: "nat \<Rightarrow> u32"
  im_start :: u32
  im_end :: u32
  im_space :: u32

record 's boot =
  kernel_state :: kernel
  handlers :: "service handles"
  com1 :: "'s serial"
  reserved_memory :: u32
  useable_memory :: u32
  syscall_table :: "syscall_function option list"

definition set_irq :: "(interrupts \<Rightarrow> interrupts) \<Rightarrow> 's boot \<Rightarrow> 's boot" where
  "set_irq f b = b\<lparr>kernel_state := (kernel_state b)\<lparr>irq := f (irq (kernel_state b))\<rparr>\<rparr>"

definition out :: "'s io \<Rightarrow> port_write list \<Rightarrow> 's boot \<Rightarrow> 's boot" where
  "out io ws b = b\<lparr>com1 := (com1 b)\<lparr>port := perform io ws (port (com1 b))\<rparr>\<rparr>"

section \<open>From the boot loader to paging\<close>

text \<open>The tables of the processor; \<open>sp\<close> is the stack pointer, which the task state segment is given.\<close>

definition kernel_tables :: "image \<Rightarrow> u32 \<Rightarrow> descriptors \<Rightarrow> descriptors" where
  "kernel_tables img sp d =
     (let d = kernel_global_descriptor_table_init (im_gdt img) d;
          d = kernel_global_descriptor_table_install d;
          d = kernel_task_state_segment_int (im_tss img) 5 0x10 sp d
      in kernel_interrupt_descriptor_table_init (im_idt img) d)"

definition kernel_gates :: "image \<Rightarrow> descriptors \<times> service handles \<Rightarrow> descriptors \<times> service handles" where
  "kernel_gates img x =
     (let (d, hs) = kernel_interrupts_init (im_entry img) x in (kernel_interrupt_descriptor_table_finalize d, hs))"

text \<open>The result says whether \<open>kernel_main\<close> went on after the check of the magic number.\<close>

definition kernel_early_boot :: "'s io \<Rightarrow> image \<Rightarrow> u32 \<Rightarrow> u32 \<Rightarrow> u32 \<Rightarrow> 's boot \<Rightarrow> (bool \<times> 's boot) option" where
  "kernel_early_boot io img sp magic addr b =
     (let b = set_irq disable_interrupts b in
      if refuses_magic magic then Some (False, b)
      else
        let b = b\<lparr>com1 := kernel_serial_com1_init io (com1 b)\<rparr>;
            d = kernel_tables img sp (dt (kernel_state b));
            b = out io pic_8259_remap b;
            (d, hs) = kernel_gates img (d, handlers b);
            b = b\<lparr>kernel_state := (kernel_state b)\<lparr>dt := d\<rparr>, handlers := hs\<rparr>
        in case multiboot2_get_physical_memory_size (mem (km (kernel_state b))) addr (Some (reserved_memory b)) of
          Some (Some memory) \<Rightarrow>
            let b = b\<lparr>reserved_memory := memory, useable_memory := memory - (im_end img - im_start img)\<rparr>;
                hs = kernel_interrupts_add_service_handle 14 (Some Page_fault_handler) (handlers b);
                hs = kernel_interrupts_add_service_handle 13 (Some General_protection_fault_handler) hs;
                (table, hs) = syscalls_init registered_syscalls Handle_syscalls_interrupt hs
            in Some (True, b\<lparr>handlers := hs, syscall_table := table\<rparr>)
        | _ \<Rightarrow> None)"

definition kernel_boot :: "nat \<Rightarrow> 's io \<Rightarrow> image \<Rightarrow> u32 \<Rightarrow> u32 \<Rightarrow> u32 \<Rightarrow> 's boot \<Rightarrow> (bool \<times> 's boot) option" where
  "kernel_boot n io img sp magic addr b =
     (case kernel_early_boot io img sp magic addr b of None \<Rightarrow> None
      | Some (valid, b) \<Rightarrow>
        if \<not> valid then Some (False, b)
        else map_option (\<lambda>m. (True, b\<lparr>kernel_state := (kernel_state b)\<lparr>km := m\<rparr>\<rparr>))
          (kernel_paging_setup n (im_end img) (im_space img) (useable_memory b) (km (kernel_state b))))"

section \<open>The start of multitasking\<close>

text \<open>\<open>cleaner\<close>, \<open>idle\<close> and \<open>colin\<close> are the addresses of the names of the threads, which are literals in the code.\<close>

definition kernel_start_multitasking ::
  "nat \<Rightarrow> 's io \<Rightarrow> u32 \<Rightarrow> kthread list \<Rightarrow> u32 \<Rightarrow> u32 \<Rightarrow> u32 \<Rightarrow> 's boot \<Rightarrow> 's boot option" where
  "kernel_start_multitasking n io ke es cleaner idle colin b =
     (case task_init (kernel_state b) of None \<Rightarrow> None
      | Some k \<Rightarrow>
        case scheduler_init n ke es cleaner idle k of None \<Rightarrow> None
      | Some k \<Rightarrow>
        case programable_interval_timer_init Timer_handle 500 (irq k, pit k, handlers b) of None \<Rightarrow> None
      | Some (w, i, p, hs) \<Rightarrow>
        let k = k\<lparr>irq := i, pit := programable_interval_timer_add_handle SCHEDULER_SCHEDULE p\<rparr>;
            b = out io w (b\<lparr>handlers := hs\<rparr>)
        in map_option (\<lambda>(_, k). set_irq enable_interrupts (b\<lparr>kernel_state := k\<rparr>)) (kthread_start n ke es colin 0 NULL k))"

section \<open>The tables\<close>

lemma fold_set_interrupt_frame: "(fold (set_interrupt ir fl) ns d)\<lparr>pIDT := x\<rparr> = d\<lparr>pIDT := x\<rparr>"
proof (induction ns arbitrary: d)
  case (Cons n ns)
  from Cons [of "set_interrupt ir fl n d"] show ?case
    by (simp add: set_interrupt_def kernel_interrupt_descriptor_set_gate_def)
qed simp

definition same_tables :: "descriptors \<Rightarrow> descriptors \<Rightarrow> bool" where
  "same_tables d d' \<longleftrightarrow> pGDT d' = pGDT d \<and> gdtr d' = gdtr d \<and> tss d' = tss d \<and> task_register d' = task_register d \<and> idt_ptr d' = idt_ptr d"

lemma kernel_interrupts_init_frame:
  assumes "kernel_interrupts_init ir (d, hs) = (d', hs')"
  shows "same_tables d d'"
proof -
  have f: "same_tables d (fold (set_interrupt ir fl) ns d)" for fl ns d
    using arg_cong [OF fold_set_interrupt_frame [where ir = ir and fl = fl and ns = ns and d = d and x = "[]"], of "\<lambda>d. (pGDT d, gdtr d, tss d, task_register d, idt_ptr d)"]
    by (simp add: same_tables_def)
  from f [of d "0x8E" "[0..<32]"] f [where d = "set_interrupt ir 0xEE 128 (fold (set_interrupt ir 0x8E) [0..<32] d)" and fl = "0x8E" and ns = "[32..<48]"]
    f [of "fold (set_interrupt ir 0x8E) [0..<32] d" "0xEE" "[128]"]
  show ?thesis using assms by (auto simp: kernel_interrupts_init_def same_tables_def Let_def)
qed

text \<open>The tables the processor is given: segments, task state segment and gates.\<close>

definition tables_loaded :: "image \<Rightarrow> u32 \<Rightarrow> descriptors \<Rightarrow> bool" where
  "tables_loaded img sp d \<longleftrightarrow>
     gdtr d = Some \<lparr>dp_limit = 63, dp_base = im_gdt img\<rparr> \<and> idtr d = Some \<lparr>dp_limit = 2047, dp_base = im_idt img\<rparr> \<and>
     task_register d = 0x28 \<and> gdt_base (pGDT d ! 5) = im_tss img \<and> tss_ss0 (tss d) = 0x10 \<and> tss_esp0 (tss d) = sp \<and>
     map (\<lambda>i. access_dpl (gdt_access (pGDT d ! i))) [1, 2, 3, 4] = [0, 0, 3, 3] \<and>
     (\<forall>m < 256. if m < 48 then gate_set (im_entry img) 0x8E m (pIDT d ! m)
        else if m = 128 then gate_set (im_entry img) 0xEE m (pIDT d ! m) else pIDT d ! m = null_idt_entry)"

lemma kernel_tables_loaded:
  assumes "kernel_gates img (kernel_tables img sp d, hs) = (d', hs')"
  shows "tables_loaded img sp d'" "hs' = replicate 256 None"
proof -
  let ?g = "kernel_task_state_segment_int (im_tss img) 5 0x10 sp
    (kernel_global_descriptor_table_install (kernel_global_descriptor_table_init (im_gdt img) d))"
  let ?i = "kernel_interrupt_descriptor_table_init (im_idt img) ?g"
  obtain e hs1 where i: "kernel_interrupts_init (im_entry img) (?i, hs) = (e, hs1)" by fastforce
  have d': "d' = e\<lparr>idtr := Some (idt_ptr e)\<rparr>" "hs' = hs1"
    using assms i by (simp_all add: kernel_tables_def kernel_gates_def kernel_interrupt_descriptor_table_finalize_def Let_def)
  have s: "same_tables ?i e" by (rule kernel_interrupts_init_frame [OF i])
  have g: "gdtr ?g = Some \<lparr>dp_limit = 63, dp_base = im_gdt img\<rparr>" "map (\<lambda>i. access_dpl (gdt_access (pGDT ?g ! i))) [1, 2, 3, 4] = [0, 0, 3, 3]"
    "gdt_base (pGDT ?g ! 5) = im_tss img" "tss_ss0 (tss ?g) = 0x10" "tss_esp0 (tss ?g) = sp" "task_register ?g = 0x28"
    using boot_segments [of "im_tss img" sp "im_gdt img" d] by (simp_all add: Let_def)
  have t: "pGDT ?i = pGDT ?g" "gdtr ?i = gdtr ?g" "tss ?i = tss ?g" "task_register ?i = task_register ?g"
    "idt_ptr ?i = \<lparr>dp_limit = 2047, dp_base = im_idt img\<rparr>"
    by (simp_all add: kernel_interrupt_descriptor_table_init_def KERNEL_DESCRIPTORS_IDT_ENTRYCOUT_def)
  have gates: "(if m < 48 then gate_set (im_entry img) 0x8E m (pIDT e ! m)
      else if m = 128 then gate_set (im_entry img) 0xEE m (pIDT e ! m) else pIDT e ! m = null_idt_entry)" if "m < 256" for m
    using interrupt_gates [OF i that] by blast
  from s g t gates show "tables_loaded img sp d'" unfolding tables_loaded_def same_tables_def d'(1) by simp
  show "hs' = replicate 256 None" using i unfolding d'(2) by (auto simp: kernel_interrupts_init_def KERNEL_DESCRIPTORS_IDT_ENTRYCOUT_def Let_def)
qed

text \<open>Only the exceptions with a report and the system calls have a handler.\<close>

definition boot_handlers :: "service handles" where
  "boot_handlers = (replicate 256 None)[14 := Some Page_fault_handler, 13 := Some General_protection_fault_handler,
     128 := Some Handle_syscalls_interrupt]"

text \<open>What holds of the state when the tables, the handlers and the memory sizes are there and interrupts are off.\<close>

definition booted :: "image \<Rightarrow> u32 \<Rightarrow> u32 \<Rightarrow> 's boot \<Rightarrow> 's boot \<Rightarrow> bool" where
  "booted img sp memory b b' \<longleftrightarrow>
     tables_loaded img sp (dt (kernel_state b')) \<and> handlers b' = boot_handlers \<and> is_initialized (com1 b') \<and>
     irq (kernel_state b') = disable_interrupts (irq (kernel_state b)) \<and>
     reserved_memory b' = memory \<and> useable_memory b' = memory - (im_end img - im_start img) \<and>
     (\<forall>i. syscall_table b' ! syscall_number i = Some (kernel_function i))"

lemma set_irq_simps [simp]:
  "km (kernel_state (set_irq f b)) = km (kernel_state b)" "irq (kernel_state (set_irq f b)) = f (irq (kernel_state b))"
  "dt (kernel_state (set_irq f b)) = dt (kernel_state b)" "handlers (set_irq f b) = handlers b" "com1 (set_irq f b) = com1 b"
  "reserved_memory (set_irq f b) = reserved_memory b"
  by (simp_all add: set_irq_def)

lemma out_simps [simp]:
  "kernel_state (out io w b) = kernel_state b" "handlers (out io w b) = handlers b" "reserved_memory (out io w b) = reserved_memory b"
  "is_initialized (com1 (out io w b)) = is_initialized (com1 b)"
  "port (com1 (out io w b)) = perform io w (port (com1 b))"
  by (simp_all add: out_def)

lemma early_boot:
  assumes "multiboot2_get_physical_memory_size (mem (km (kernel_state b))) addr (Some (reserved_memory b)) = Some (Some memory)"
  shows "\<exists>b'. kernel_early_boot io img sp magic addr b = Some (True, b') \<and> booted img sp memory b b' \<and>
    km (kernel_state b') = km (kernel_state b) \<and>
    port (com1 b') = perform io pic_8259_remap (port (kernel_serial_com1_init io (com1 b)))"
proof -
  obtain d hs where t: "kernel_gates img (kernel_tables img sp (dt (kernel_state b)), handlers b) = (d, hs)" by fastforce
  note l = kernel_tables_loaded [OF t]
  let ?hs = "hs[14 := Some Page_fault_handler, 13 := Some General_protection_fault_handler]"
  obtain table hs' where s: "syscalls_init registered_syscalls Handle_syscalls_interrupt ?hs = (table, hs')" by fastforce
  have hs': "hs' = boot_handlers"
    using s by (auto simp: syscalls_init_def kernel_interrupts_add_service_handle_def boot_handlers_def l(2))
  have table: "table ! syscall_number i = Some (kernel_function i)" for i
    using registered_table(2) [OF s] l(2) by simp
  have c: "is_initialized (kernel_serial_com1_init io x)" for x by (simp add: kernel_serial_com1_init_def)
  show ?thesis
    using assms l(1) hs' table c
    by (simp add: kernel_early_boot_def t s Let_def booted_def kernel_interrupts_add_service_handle_def)
qed

section \<open>Properties\<close>

text \<open>
  C25: With a memory map of enough memory and a kernel that ends between 0xC0000000 and 0xCF000000, the first part of \<open>kernel_main\<close>, run
  before any manager is initialised, goes on to its end whatever number the boot loader passed. It then has interrupts off, the
  processor's tables loaded, a gate to its own stub for every exception, hardware interrupt and the system call and no other, handlers
  for page faults, protection faults and system calls only, each system call in the table, the interrupt controllers remapped after
  the serial port was set up, and paging on, with every address of the kernel up to two pages past the page directory translated to
  what it was before by the processor's walk from CR3.
\<close>

theorem kernel_boots:
  assumes "multiboot2_get_physical_memory_size (mem (km (kernel_state b))) addr (Some (reserved_memory b)) = Some (Some memory)"
    "status (heap (km (kernel_state b))) = HEAP_UNINITIALIZED" "\<not> pm_initialized (pmm (km (kernel_state b)))"
    "\<not> paging_enabled (km (kernel_state b))" "im_space img = 0xC0000000" "0xC0000000 \<le> im_end img" "im_end img \<le> 0xCF000000"
    "m = memory - (im_end img - im_start img)" "unat (im_end img) - 3221225472 + 0x48000 \<le> unat m"
  shows "\<exists>b'. kernel_boot (Suc n) io img sp magic addr b = Some (True, b') \<and> booted img sp memory b b' \<and>
      port (com1 b') = perform io pic_8259_remap (port (kernel_serial_com1_init io (com1 b))) \<and>
      paging_enabled (km (kernel_state b')) \<and> bit (cr0 (km (kernel_state b'))) 31 \<and>
      (\<forall>va. 0xC0000000 \<le> va \<longrightarrow> va < boot_directory (im_end img) m + 0x4000 \<longrightarrow>
        processor_walk (mem (km (kernel_state b'))) (cr3 (km (kernel_state b'))) va = Some (va - 0xC0000000))"
proof -
  from early_boot [OF assms(1), of io img sp magic] obtain b1 where
    b1: "kernel_early_boot io img sp magic addr b = Some (True, b1)" "booted img sp memory b b1"
      "km (kernel_state b1) = km (kernel_state b)"
      "port (com1 b1) = perform io pic_8259_remap (port (kernel_serial_com1_init io (com1 b)))" by blast
  from paging_setup_identity [OF assms(2-4,6,7,9), of n] b1(2,3) assms(5,8) obtain k' where
    k': "kernel_paging_setup (Suc n) (im_end img) (im_space img) (useable_memory b1) (km (kernel_state b1)) = Some k'"
      "paging_enabled k'" "bit (cr0 k') 31" "\<forall>va. 0xC0000000 \<le> va \<longrightarrow> va < boot_directory (im_end img) m + 0x4000 \<longrightarrow>
        processor_walk (mem k') (cr3 k') va = Some (va - 0xC0000000)"
    by (auto simp: booted_def)
  moreover have "booted img sp memory b (b1\<lparr>kernel_state := (kernel_state b1)\<lparr>km := k'\<rparr>\<rparr>)"
    using b1(2) by (simp add: booted_def)
  ultimately show ?thesis using b1(1,4) by (simp add: kernel_boot_def)
qed

definition witness_image :: image where
  "witness_image = \<lparr>im_gdt = 0xC0110000, im_idt = 0xC0111000, im_tss = 0xC0112000, im_entry = \<lambda>n. 0xC0100000 + 16 * of_nat n,
     im_start = 0xC0100000, im_end = 0xC0200000, im_space = 0xC0000000\<rparr>"

definition witness_power_up :: "unit boot" where
  "witness_power_up = \<lparr>kernel_state = (witness_kernel None (\<lambda>_. zero_task) task_queue_init)\<lparr>km := power_on\<lparr>mem := witness_tags\<rparr>\<rparr>,
     handlers = [], com1 = \<lparr>is_initialized = False, port = ()\<rparr>, reserved_memory = 0, useable_memory = 0, syscall_table = []\<rparr>"

theorem kernel_boots_witness:
  "\<exists>b'. kernel_boot 1 silent_io witness_image 0xC0130000 0 0x100 witness_power_up = Some (True, b') \<and>
      handlers b' ! 14 = Some Page_fault_handler \<and> paging_enabled (km (kernel_state b')) \<and> useable_memory b' = 0x7F00000"
proof -
  have "multiboot2_get_physical_memory_size (mem (km (kernel_state witness_power_up))) 0x100 (Some (reserved_memory witness_power_up)) = Some (Some 0x08000000)"
    using witness_memory_size by (simp add: witness_power_up_def)
  from kernel_boots [OF this, where img = witness_image and m = "0x7F00000" and n = 0 and magic = 0] show ?thesis
    by (fastforce simp: witness_power_up_def witness_kernel_def power_on_def witness_image_def booted_def boot_handlers_def)
qed

text \<open>
  C26: The start of multitasking, with memory for three stacks, leaves the cleaner, the idle thread and \<open>colin\<close> ready in this order, the
  timer at 500 Hz on interrupt 32 calling the scheduler, and interrupts on if they were disabled once. The first tick of the timer
  starts the idle thread, leaves \<open>colin\<close> ready and loses the cleaner: it is in no queue and never runs.
\<close>

theorem multitasking_starts:
  assumes "\<not> scheduler_is_initialized k" "irq k = \<lparr>disable_counter = 1, interrupt_flag = False\<rparr>"
    "length (sq_data (sleepers k)) = MAX_SLEEP_TASKS" "current k = None" "\<not> pit_is_initialized (pit k)" "length hs = 256"
    "kernel_amalloc n TASK_STACK_SIZE (km k) = Some (s1, m1)" "s1 \<noteq> NULL"
    "kernel_amalloc n TASK_STACK_SIZE (cleared s1 m1) = Some (s2, m2)" "s2 \<noteq> NULL"
    "kernel_amalloc n TASK_STACK_SIZE (cleared s2 m2) = Some (s3, m3)" "s3 \<noteq> NULL"
    "cstr (mem (km k)) cleaner cn" "cstr (mem (cleared s1 m1)) idle idn" "cstr (mem (cleared s2 m2)) colin gn"
    "\<forall>m \<in> {km k, cleared s1 m1, cleared s2 m2, cleared s3 m3}. named f es (mem m)"
    "find (\<lambda>e. prefix (f e) cn) es = Some c" "find (\<lambda>e. prefix (f e) idn) es = Some d" "find (\<lambda>e. prefix (f e) gn) es = Some g"
    "kernel_state b = k" "handlers b = hs"
  shows "\<exists>b' p k''. kernel_start_multitasking n io ke es cleaner idle colin b = Some b' \<and>
    (let k' = kernel_state b' in sched_ok k' [0, 1, 2] [] \<and>
      map (\<lambda>t. thread_eip (tasks k' t)) [0, 1, 2] = [kt_entry c, kt_entry d, kt_entry g] \<and>
      irq k' = \<lparr>disable_counter = 0, interrupt_flag = True\<rparr> \<and> handlers b' = hs[32 := Some Timer_handle] \<and>
      hz_frequency (pit k') = 500 \<and> timer_handle (pit k') = (IR_EOI 32, Some (SCHEDULER_SCHEDULE, 1), p) \<and>
      scheduler_schedule 1 (k'\<lparr>pit := p\<rparr>) = Some (Started 1, k'') \<and> current k'' = Some 1 \<and> sched_ok k'' [2] [] \<and>
      \<not> queued k'' [2] [] 0 \<and> state (tasks k'' 0) = TASK_STATE_CREATED)"
proof -
  have iok: "interrupts_ok (irq k)" using assms(2) by (simp add: interrupts_ok_def)
  from task_init_ok [OF iok] obtain k0 um where
    k0: "task_init k = Some k0" "k0 = k\<lparr>tasks := tasks k0, task_table_lock := 0, user_stacks := um\<rparr>" by blast
  have f0: "scheduler_is_initialized k0 = scheduler_is_initialized k" "irq k0 = irq k" "sleepers k0 = sleepers k" "km k0 = km k"
    "current k0 = current k" "pit k0 = pit k" by (subst k0(2), simp)+
  have nm: "named f es (mem (km k))" "named f es (mem (cleared s1 m1))" "named f es (mem (cleared s2 m2))" "named f es (mem (cleared s3 m3))"
    using assms(16) by auto
  have "\<exists>k1. scheduler_init n ke es cleaner idle k0 = Some k1 \<and> sched_ok k1 [0, 1] [] \<and>
    state (tasks k1 0) = TASK_STATE_CREATED \<and> thread_eip (tasks k1 0) = kt_entry c \<and>
    state (tasks k1 1) = TASK_STATE_CREATED \<and> thread_eip (tasks k1 1) = kt_entry d \<and>
    current k1 = None \<and> irq k1 = irq k \<and> sq_elems (sleepers k1) = {#} \<and> pit k1 = pit k \<and> km k1 = cleared s2 m2 \<and>
    task_table_lock k1 = 0 \<and> queued_in_use k1 [0, 1] [] \<and> first_free k1 2"
    using scheduler_init_ok [of k0 n s1 m1 s2 m2 cleaner cn idle idn f es c d ke] assms(1,3,4,7-10,13,14,17,18) iok nm(1-3) by (simp add: f0, blast)
  then obtain k1 where k1: "scheduler_init n ke es cleaner idle k0 = Some k1" "sched_ok k1 [0, 1] []"
    "state (tasks k1 0) = TASK_STATE_CREATED" "thread_eip (tasks k1 0) = kt_entry c"
    "state (tasks k1 1) = TASK_STATE_CREATED" "thread_eip (tasks k1 1) = kt_entry d"
    "current k1 = None" "irq k1 = irq k" "sq_elems (sleepers k1) = {#}" "pit k1 = pit k" "km k1 = cleared s2 m2"
    "task_table_lock k1 = 0" "queued_in_use k1 [0, 1] []" "first_free k1 2" by blast
  obtain w p0 where pit: "programable_interval_timer_init Timer_handle 500 (irq k, pit k, hs) = Some (w, irq k, p0, hs[32 := Some Timer_handle])"
    "hz_frequency p0 = 500" "ticks p0 = 0"
    using assms(5,6) iok by (simp add: programable_interval_timer_init_def programable_interval_timer_set_frequency_def
        kernel_interrupts_add_request_handle_def Let_def)
  define P where "P = programable_interval_timer_add_handle SCHEDULER_SCHEDULE p0"
  have P: "hz_frequency P = 500" "timer_handle P = (IR_EOI 32, Some (SCHEDULER_SCHEDULE, 1), P\<lparr>ticks := 1\<rparr>)"
    using pit(2,3) by (simp_all add: P_def programable_interval_timer_add_handle_def timer_handle_def Let_def)
  define k2 where "k2 = k1\<lparr>irq := irq k, pit := P\<rparr>"
  have ok2: "sched_ok k2 [0, 1] []" by (rule sched_ok_tasks [OF k1(2)]) (simp_all add: k2_def)
  have k2: "queued_in_use k2 [0, 1] []" "task_table_lock k2 = 0" "first_free k2 2" "interrupts_ok (irq k2)" "tasks k2 = tasks k1"
    "km k2 = cleared s2 m2" "irq k2 = irq k" "pit k2 = P" "current k2 = None" "sq_elems (sleepers k2) = {#}"
    using k1(7,9,11-14) iok by (simp_all add: k2_def queued_in_use_def queued_def first_free_def)
  have "g \<in> set es" using assms(19) by (auto simp: find_Some_iff)
  with nm(4) have g: "cstr (mem (cleared s3 m3)) (kt_name g) (f g)" "length (f g) < TASK_NAME_LENGTH" by (auto simp: named_def)
  from task_create_kthread_ok [OF ok2 k2(1-4) _ assms(12) g, of n ke "kt_entry g" NULL] assms(11) k2(6) obtain k3 where
    k3: "task_create_kthread n ke (kt_entry g) (kt_name g) 0 NULL k2 = Some (2, k3)" "sched_ok k3 [0, 1, 2] []"
      "core (tasks k3 2) = core (kthread_task 2 ke (kt_entry g) (f g) s3 (cleared s3 m3) (tasks k2 2))"
      "\<forall>j. j \<noteq> 2 \<longrightarrow> core (tasks k3 j) = core (tasks k2 j) \<and> state (tasks k3 j) = state (tasks k2 j)"
      "irq k3 = irq k2" "current k3 = current k2" "sleepers k3 = sleepers k2" "pit k3 = pit k2" by auto
  let ?b = "set_irq enable_interrupts ((out io w (b\<lparr>handlers := hs[32 := Some Timer_handle]\<rparr>))\<lparr>kernel_state := k3\<rparr>)"
  have "kthread_start n ke es colin 0 NULL k2 = Some (2, k3)"
    using kthread_start_find [of k2 colin gn f es] assms(15,19) nm(3) k2(6) k3(1) by simp
  then have run: "kernel_start_multitasking n io ke es cleaner idle colin b = Some ?b"
    using k0(1) k1(1,8,10) pit(1) assms(20,21) by (simp add: kernel_start_multitasking_def k2_def P_def Let_def)
  let ?k = "kernel_state ?b"
  have ks: "?k = k3\<lparr>irq := \<lparr>disable_counter = 0, interrupt_flag = True\<rparr>\<rparr>"
    using k2(7) k3(5) assms(2) by (simp add: set_irq_def enable_interrupts_def)
  have ok: "sched_ok ?k [0, 1, 2] []" "sched_ok (?k\<lparr>pit := p\<rparr>) [0, 1, 2] []" for p
    unfolding ks by (rule sched_ok_tasks [OF k3(2)]; simp)+
  have st: "state (tasks (?k\<lparr>pit := p\<rparr>) 0) = TASK_STATE_CREATED" "state (tasks (?k\<lparr>pit := p\<rparr>) 1) = TASK_STATE_CREATED"
    "current (?k\<lparr>pit := p\<rparr>) = None" "nobody_due 1 (?k\<lparr>pit := p\<rparr>)" for p
    unfolding ks using k3(4,6,7) k2(5,9,10) k1(3,5) by (simp_all add: nobody_due_def)
  from first_schedule_loses_a_task [OF ok(2) st(3,4,1,2), of "P\<lparr>ticks := 1\<rparr>"] obtain k4 where
    k4: "scheduler_schedule 1 (?k\<lparr>pit := P\<lparr>ticks := 1\<rparr>\<rparr>) = Some (Started 1, k4)" "current k4 = Some 1" "sched_ok k4 [2] []"
      "\<not> queued k4 [2] [] 0" "state (tasks k4 0) = TASK_STATE_CREATED" by blast
  have "map (\<lambda>t. thread_eip (tasks ?k t)) [0, 1, 2] = [kt_entry c, kt_entry d, kt_entry g]"
    using core_more(5) [OF k3(3)] core_more(5) [of "tasks k3 0" "tasks k2 0"] core_more(5) [of "tasks k3 1" "tasks k2 1"] k3(4) k2(5) k1(4,6)
    by (simp add: ks kthread_task_def)
  moreover have "irq ?k = \<lparr>disable_counter = 0, interrupt_flag = True\<rparr>" "pit ?k = P" using k3(8) k2(8) unfolding ks by simp_all
  moreover have "handlers ?b = hs[32 := Some Timer_handle]" by simp
  ultimately show ?thesis
    using run ok(1) P k4 by (intro exI [of _ ?b] exI [of _ "P\<lparr>ticks := 1\<rparr>"] exI [of _ k4]) (simp only: Let_def simp_thms)
qed

text \<open>A machine with three threads in its image and memory from 2 MiB on.\<close>

definition witness_threads :: "unit boot" where
  "witness_threads = \<lparr>kernel_state = (witness_kernel None (\<lambda>_. zero_task) task_queue_init)
       \<lparr>km := power_on\<lparr>mem := (\<lambda>_. 0)(0x1000 := 0x63, 0x1001 := 0x6C, 0x1100 := 0x69, 0x1101 := 0x64, 0x1200 := 0x67, 0x1201 := 0x6F),
          heap := (heap power_on)\<lparr>status := HEAP_BOOTSTRAPED, placement_address := 0x200000\<rparr>\<rparr>,
        irq := \<lparr>disable_counter = 1, interrupt_flag = False\<rparr>,
        pit := \<lparr>pit_is_initialized = False, hz_frequency = 0, ticks = 0, s_handle = None\<rparr>, scheduler_is_initialized := False\<rparr>,
     handlers = replicate 256 None, com1 = \<lparr>is_initialized = True, port = ()\<rparr>, reserved_memory = 0, useable_memory = 0, syscall_table = []\<rparr>"

definition witness_kthreads :: "kthread list" where
  "witness_kthreads = [\<lparr>kt_name = 0x1000, kt_entry = 11\<rparr>, \<lparr>kt_name = 0x1100, kt_entry = 22\<rparr>, \<lparr>kt_name = 0x1200, kt_entry = 33\<rparr>]"

definition witness_names :: "kthread \<Rightarrow> u8 list" where
  "witness_names e = (if kt_entry e = 11 then [0x63, 0x6C] else if kt_entry e = 22 then [0x69, 0x64] else [0x67, 0x6F])"

definition witness_memory :: "nat \<Rightarrow> kmem" where
  "witness_memory i = ((\<lambda>m. cleared (placement_address (heap m)) (bumped (placement_address (heap m) + TASK_STACK_SIZE) m)) ^^ i)
     (km (kernel_state witness_threads))"

lemma witness_memory:
  "km (kernel_state witness_threads) = witness_memory 0"
  "i < 3 \<Longrightarrow> \<exists>m. kernel_amalloc 1 TASK_STACK_SIZE (witness_memory i) = Some (0x200000 + of_nat i * 0x8000, m) \<and>
     cleared (0x200000 + of_nat i * 0x8000) m = witness_memory (Suc i)"
  "i < 4 \<Longrightarrow> cstr (mem (witness_memory i)) 0x1000 [0x63, 0x6C] \<and> cstr (mem (witness_memory i)) 0x1100 [0x69, 0x64] \<and>
     cstr (mem (witness_memory i)) 0x1200 [0x67, 0x6F]"
proof -
  have h: "placement_address (heap (witness_memory i)) = 0x200000 + of_nat i * 0x8000" "status (heap (witness_memory i)) = HEAP_BOOTSTRAPED" for i
    by (induction i) (simp_all add: witness_memory_def witness_threads_def cleared_def bumped_def TASK_STACK_SIZE_def algebra_simps)
  show "km (kernel_state witness_threads) = witness_memory 0" by (simp add: witness_memory_def)
  show "\<exists>m. kernel_amalloc 1 TASK_STACK_SIZE (witness_memory i) = Some (0x200000 + of_nat i * 0x8000, m) \<and>
     cleared (0x200000 + of_nat i * 0x8000) m = witness_memory (Suc i)" if "i < 3"
  proof -
    have "placement_address (heap (witness_memory i)) AND 0xFFF = 0"
      unfolding h using that by (auto simp: less_Suc_eq numeral_3_eq_3)
    from bump_amalloc [OF h(2) this, of TASK_STACK_SIZE] h(1) [of i] show ?thesis by (simp add: witness_memory_def)
  qed
  have s: "mem (witness_memory (Suc i)) = memset (mem (witness_memory i)) (0x200000 + of_nat i * 0x8000) 0 TASK_STACK_SIZE" for i
    using h(1) [of i] by (simp add: witness_memory_def cleared_def bumped_def)
  show "cstr (mem (witness_memory i)) 0x1000 [0x63, 0x6C] \<and> cstr (mem (witness_memory i)) 0x1100 [0x69, 0x64] \<and>
     cstr (mem (witness_memory i)) 0x1200 [0x67, 0x6F]" if "i < 4"
  proof -
    have 0: "mem (witness_memory 0) = mem (km (kernel_state witness_threads))" by (simp add: witness_memory_def)
    have 1: "mem (witness_memory (Suc 0)) = memset (mem (witness_memory 0)) 0x200000 0 TASK_STACK_SIZE" using s [of 0] by simp
    have 2: "mem (witness_memory 2) = memset (mem (witness_memory 1)) 0x208000 0 TASK_STACK_SIZE" using s [of 1] by (simp add: numeral_2_eq_2)
    have 3: "mem (witness_memory 3) = memset (mem (witness_memory 2)) 0x210000 0 TASK_STACK_SIZE" using s [of 2] by (simp add: numeral_3_eq_3 numeral_2_eq_2)
    have c: "cstr (mem (witness_memory 0)) 0x1000 [0x63, 0x6C]" "cstr (mem (witness_memory 0)) 0x1100 [0x69, 0x64]"
      "cstr (mem (witness_memory 0)) 0x1200 [0x67, 0x6F]" by (simp_all add: 0 witness_threads_def)
    have "i = 0 \<or> i = 1 \<or> i = 2 \<or> i = 3" using that by linarith
    then show ?thesis by (elim disjE) (use c in \<open>simp_all add: 1 2 3 memset_apply TASK_STACK_SIZE_def\<close>)
  qed
qed

theorem multitasking_starts_witness:
  "\<exists>b' p k''. kernel_start_multitasking 1 silent_io 0xC0001000 witness_kthreads 0x1000 0x1100 0x1200 witness_threads = Some b' \<and>
     interrupt_flag (irq (kernel_state b')) \<and> scheduler_schedule 1 ((kernel_state b')\<lparr>pit := p\<rparr>) = Some (Started 1, k'') \<and> \<not> queued k'' [2] [] 0"
proof -
  have i: "(0 :: nat) < 3" "(1 :: nat) < 3" "(2 :: nat) < 3" "Suc 0 = 1" "Suc 1 = 2" "Suc 2 = 3" by simp_all
  obtain m1 m2 m3 where
    m1: "kernel_amalloc 1 TASK_STACK_SIZE (km (kernel_state witness_threads)) = Some (0x200000, m1)" "cleared 0x200000 m1 = witness_memory 1" and
    m2: "kernel_amalloc 1 TASK_STACK_SIZE (witness_memory 1) = Some (0x208000, m2)" "cleared 0x208000 m2 = witness_memory 2" and
    m3: "kernel_amalloc 1 TASK_STACK_SIZE (witness_memory 2) = Some (0x210000, m3)" "cleared 0x210000 m3 = witness_memory 3"
    using witness_memory(2) [OF i(1)] witness_memory(2) [OF i(2)] witness_memory(2) [OF i(3)] unfolding witness_memory(1) i(4-6) by auto
  have n: "named witness_names witness_kthreads (mem (witness_memory i))" if "i < 4" for i
    using witness_memory(3) [OF that] by (simp add: named_def witness_kthreads_def witness_names_def TASK_NAME_LENGTH_def)
  have names: "\<forall>m \<in> {km (kernel_state witness_threads), cleared 0x200000 m1, cleared 0x208000 m2, cleared 0x210000 m3}.
      named witness_names witness_kthreads (mem m)"
    using n [of 0] n [of 1] n [of 2] n [of 3] by (simp add: witness_memory(1) m1(2) m2(2) m3(2))
  have c: "cstr (mem (km (kernel_state witness_threads))) 0x1000 [0x63, 0x6C]" "cstr (mem (cleared 0x200000 m1)) 0x1100 [0x69, 0x64]"
    "cstr (mem (cleared 0x208000 m2)) 0x1200 [0x67, 0x6F]"
    using witness_memory(3) [of 0] witness_memory(3) [of 1] witness_memory(3) [of 2] by (simp_all add: witness_memory(1) m1(2) m2(2))
  have f: "find (\<lambda>e. prefix (witness_names e) [0x63, 0x6C]) witness_kthreads = Some \<lparr>kt_name = 0x1000, kt_entry = 11\<rparr>"
    "find (\<lambda>e. prefix (witness_names e) [0x69, 0x64]) witness_kthreads = Some \<lparr>kt_name = 0x1100, kt_entry = 22\<rparr>"
    "find (\<lambda>e. prefix (witness_names e) [0x67, 0x6F]) witness_kthreads = Some \<lparr>kt_name = 0x1200, kt_entry = 33\<rparr>"
    by (simp_all add: witness_names_def witness_kthreads_def)
  have b: "\<not> scheduler_is_initialized (kernel_state witness_threads)"
    "irq (kernel_state witness_threads) = \<lparr>disable_counter = 1, interrupt_flag = False\<rparr>"
    "length (sq_data (sleepers (kernel_state witness_threads))) = MAX_SLEEP_TASKS" "current (kernel_state witness_threads) = None"
    "\<not> pit_is_initialized (pit (kernel_state witness_threads))" "length (handlers witness_threads) = 256"
    by (simp_all add: witness_threads_def witness_kernel_def sleep_queue_init_def)
  have nz: "(0x200000 :: u32) \<noteq> NULL" "(0x208000 :: u32) \<noteq> NULL" "(0x210000 :: u32) \<noteq> NULL" by simp_all
  from multitasking_starts [OF b m1(1) nz(1) _ nz(2) _ nz(3) c names f refl refl, of silent_io "0xC0001000"] m2(1) m3(1)
  show ?thesis unfolding m1(2) m2(2) Let_def by fastforce
qed

end
