(* ===== verification/PCI.thy ===== *)
theory PCI
  imports Ports
begin

text \<open>
  The PCI bus (src/kernel/drivers/pci/pci.c, include/kernel/drivers/pci.h and
  include/kernel/data-structures/drivers/pci.h): configuration access, the headers of a device, the
  depth-first scan that fills the table of devices, and the choice of a driver. A pointer to a device
  or to a driver is its index.
\<close>

section \<open>Configuration space\<close>

definition PCI_CONFIG_ADDRESS :: u16 where "PCI_CONFIG_ADDRESS = 0xCF8"
definition PCI_CONFIG_DATA :: u16 where "PCI_CONFIG_DATA = 0xCFC"

definition pci_make_address :: "u8 \<Rightarrow> u8 \<Rightarrow> u8 \<Rightarrow> u8 \<Rightarrow> u32" where
  "pci_make_address bus slot func offset =
     0x80000000 OR push_bit 16 (ucast bus) OR push_bit 11 (ucast (slot AND 0x1F)) OR
     push_bit 8 (ucast (func AND 0x07)) OR ucast (offset AND 0xFC)"

definition pci_read32 :: "'s io \<Rightarrow> u8 \<Rightarrow> u8 \<Rightarrow> u8 \<Rightarrow> u8 \<Rightarrow> 's \<Rightarrow> u32 \<times> 's" where
  "pci_read32 io bus slot func offset s =
     inportl io PCI_CONFIG_DATA (outportl io PCI_CONFIG_ADDRESS (pci_make_address bus slot func offset) s)"

definition pci_read16 :: "'s io \<Rightarrow> u8 \<Rightarrow> u8 \<Rightarrow> u8 \<Rightarrow> u8 \<Rightarrow> 's \<Rightarrow> u16 \<times> 's" where
  "pci_read16 io bus slot func offset s =
     (case pci_read32 io bus slot func offset s of (v, s) \<Rightarrow>
        (ucast (drop_bit (unat (offset AND 2) * 8) v AND 0xFFFF), s))"

definition pci_read8 :: "'s io \<Rightarrow> u8 \<Rightarrow> u8 \<Rightarrow> u8 \<Rightarrow> u8 \<Rightarrow> 's \<Rightarrow> u8 \<times> 's" where
  "pci_read8 io bus slot func offset s =
     (case pci_read32 io bus slot func offset s of (v, s) \<Rightarrow>
        (ucast (drop_bit (unat (offset AND 3) * 8) v AND 0xFF), s))"

definition pci_write32 :: "'s io \<Rightarrow> u8 \<Rightarrow> u8 \<Rightarrow> u8 \<Rightarrow> u8 \<Rightarrow> u32 \<Rightarrow> 's \<Rightarrow> 's" where
  "pci_write32 io bus slot func offset data s =
     outportl io PCI_CONFIG_DATA data (outportl io PCI_CONFIG_ADDRESS (pci_make_address bus slot func offset) s)"

definition pci_write16 :: "'s io \<Rightarrow> u8 \<Rightarrow> u8 \<Rightarrow> u8 \<Rightarrow> u8 \<Rightarrow> u16 \<Rightarrow> 's \<Rightarrow> 's" where
  "pci_write16 io bus slot func offset data s =
     (case pci_read32 io bus slot func offset s of (v, s) \<Rightarrow>
        let shift = unat (offset AND 2) * 8;
            v = v AND NOT (push_bit shift 0xFFFF);
            v = v OR push_bit shift (ucast data)
        in pci_write32 io bus slot func offset v s)"

definition pci_write8 :: "'s io \<Rightarrow> u8 \<Rightarrow> u8 \<Rightarrow> u8 \<Rightarrow> u8 \<Rightarrow> u8 \<Rightarrow> 's \<Rightarrow> 's" where
  "pci_write8 io bus slot func offset data s =
     (case pci_read32 io bus slot func offset s of (v, s) \<Rightarrow>
        let shift = unat (offset AND 3) * 8;
            v = v AND NOT (push_bit shift 0xFF);
            v = v OR push_bit shift (ucast data)
        in pci_write32 io bus slot func offset v s)"

section \<open>Headers\<close>

text \<open>
  The union of the three headers is its 64 bytes. The functions \<open>common\<close>, \<open>type0\<close>, \<open>type1\<close> and
  \<open>type2\<close> read the packed structures from them.
\<close>

definition store32 :: "u8 list \<Rightarrow> nat \<Rightarrow> u32 \<Rightarrow> u8 list" where
  "store32 bs i v = bs[i := ucast v, i + 1 := ucast (drop_bit 8 v), i + 2 := ucast (drop_bit 16 v),
     i + 3 := ucast (drop_bit 24 v)]"

record pci_device_common =
  vendor_id :: u16
  device_id :: u16
  command :: u16
  pci_status :: u16
  rev_id :: u8
  prog_if :: u8
  subclass_code :: u8
  class_code :: u8
  cache_line_size :: u8
  latency_timer :: u8
  header_kind :: u8
  BIST :: u8

definition common :: "u8 list \<Rightarrow> pci_device_common" where
  "common h = \<lparr>vendor_id = le16 h 0x00, device_id = le16 h 0x02, command = le16 h 0x04, pci_status = le16 h 0x06,
     rev_id = h ! 0x08, prog_if = h ! 0x09, subclass_code = h ! 0x0A, class_code = h ! 0x0B,
     cache_line_size = h ! 0x0C, latency_timer = h ! 0x0D, header_kind = h ! 0x0E, BIST = h ! 0x0F\<rparr>"

record pci_header_type0 =
  t0_BAR :: "u32 list"
  cardbus_cis_ptr :: u32
  subsystem_vendor_id :: u16
  subsystem_id :: u16
  t0_expansion_rom_base :: u32
  t0_capabilities_ptr :: u8
  t0_interrupt_line :: u8
  t0_interrupt_pin :: u8
  min_grant :: u8
  max_latency :: u8

definition type0 :: "u8 list \<Rightarrow> pci_header_type0" where
  "type0 h = \<lparr>t0_BAR = map (\<lambda>i. le32 h (0x10 + 4 * i)) [0..<6], cardbus_cis_ptr = le32 h 0x28,
     subsystem_vendor_id = le16 h 0x2C, subsystem_id = le16 h 0x2E, t0_expansion_rom_base = le32 h 0x30,
     t0_capabilities_ptr = h ! 0x34, t0_interrupt_line = h ! 0x3C, t0_interrupt_pin = h ! 0x3D,
     min_grant = h ! 0x3E, max_latency = h ! 0x3F\<rparr>"

record pci_header_type1 =
  t1_BAR :: "u32 list"
  primary_bus :: u8
  secondary_bus :: u8
  subordinate_bus :: u8
  secondary_latency_timer :: u8
  io_base :: u8
  io_limit :: u8
  t1_secondary_status :: u16
  mem_base :: u16
  mem_limit :: u16
  prefetch_base :: u16
  prefetch_limit :: u16
  prefetch_base_upper :: u32
  prefetch_limit_upper :: u32
  io_base_upper :: u16
  io_limit_upper :: u16
  t1_capabilities_ptr :: u8
  t1_expansion_rom_base :: u32
  t1_interrupt_line :: u8
  t1_interrupt_pin :: u8
  t1_bridge_control :: u16

definition type1 :: "u8 list \<Rightarrow> pci_header_type1" where
  "type1 h = \<lparr>t1_BAR = map (\<lambda>i. le32 h (0x10 + 4 * i)) [0..<2], primary_bus = h ! 0x18, secondary_bus = h ! 0x19,
     subordinate_bus = h ! 0x1A, secondary_latency_timer = h ! 0x1B, io_base = h ! 0x1C, io_limit = h ! 0x1D,
     t1_secondary_status = le16 h 0x1E, mem_base = le16 h 0x20, mem_limit = le16 h 0x22,
     prefetch_base = le16 h 0x24, prefetch_limit = le16 h 0x26, prefetch_base_upper = le32 h 0x28,
     prefetch_limit_upper = le32 h 0x2C, io_base_upper = le16 h 0x30, io_limit_upper = le16 h 0x32,
     t1_capabilities_ptr = h ! 0x34, t1_expansion_rom_base = le32 h 0x38, t1_interrupt_line = h ! 0x3C,
     t1_interrupt_pin = h ! 0x3D, t1_bridge_control = le16 h 0x3E\<rparr>"

record pci_header_type2 =
  cardbus_socket_base :: u32
  t2_capabilities_ptr :: u8
  t2_secondary_status :: u16
  pci_bus :: u8
  cardbus_bus :: u8
  t2_subordinate_bus :: u8
  cardbus_latency :: u8
  mem_ranges :: "(u32 \<times> u32) list"
  io_ranges :: "(u32 \<times> u32) list"
  t2_interrupt_line :: u8
  t2_interrupt_pin :: u8
  t2_bridge_control :: u16

definition type2 :: "u8 list \<Rightarrow> pci_header_type2" where
  "type2 h = \<lparr>cardbus_socket_base = le32 h 0x10, t2_capabilities_ptr = h ! 0x14, t2_secondary_status = le16 h 0x16,
     pci_bus = h ! 0x18, cardbus_bus = h ! 0x19, t2_subordinate_bus = h ! 0x1A, cardbus_latency = h ! 0x1B,
     mem_ranges = map (\<lambda>i. (le32 h (0x1C + 8 * i), le32 h (0x20 + 8 * i))) [0..<2],
     io_ranges = map (\<lambda>i. (le32 h (0x2C + 8 * i), le32 h (0x30 + 8 * i))) [0..<2],
     t2_interrupt_line = h ! 0x3C, t2_interrupt_pin = h ! 0x3D, t2_bridge_control = le16 h 0x3E\<rparr>"

definition pci_header_type_general :: u8 where "pci_header_type_general = 0x0"
definition pci_header_type_pci_to_pci :: u8 where "pci_header_type_pci_to_pci = 0x1"
definition pci_header_type_pci_to_card :: u8 where "pci_header_type_pci_to_card = 0x2"

definition sizeof_pci_header :: u8 where "sizeof_pci_header = 64"

section \<open>Devices and drivers\<close>

record pci_device =
  bus :: u8
  slot :: u8
  func :: u8
  header_type :: u8
  header :: "u8 list"
  driver :: "nat option"

record 'h pci_driver =
  dr_vendor_id :: u16
  dr_device_id :: u16
  dr_class_code :: u8
  dr_subclass :: u8
  dr_name :: u32
  probe :: "'h option"
  remove :: "'h option"

record pci =
  pci_devices :: "pci_device list"
  pci_scanned_bus :: "u8 \<Rightarrow> bool"
  pci_decoded :: "u8 \<Rightarrow> u8 \<Rightarrow> u8 \<Rightarrow> bool"
  pci_device_count :: u32

definition PCI_MAX_DEVICES :: nat where "PCI_MAX_DEVICES = 256"
definition PCI_ANY_ID :: u16 where "PCI_ANY_ID = 0xFFFF"
definition PCI_ANY_CLASS :: u8 where "PCI_ANY_CLASS = 0xFF"
definition PCI_ANY_SUBCLASS :: u8 where "PCI_ANY_SUBCLASS = 0xFF"

definition zero_device :: pci_device where
  "zero_device = \<lparr>bus = 0, slot = 0, func = 0, header_type = 0, header = replicate 64 0, driver = None\<rparr>"

definition pci_start :: pci where
  "pci_start = \<lparr>pci_devices = replicate PCI_MAX_DEVICES zero_device, pci_scanned_bus = (\<lambda>_. False),
     pci_decoded = (\<lambda>_ _ _. False), pci_device_count = 0\<rparr>"

text \<open>The loop over the offsets does not end for sizes above 252; it is called with 64.\<close>

definition pci_read_config_block :: "'s io \<Rightarrow> u8 \<Rightarrow> u8 \<Rightarrow> u8 \<Rightarrow> u8 \<Rightarrow> u8 list \<times> 's \<Rightarrow> u8 list \<times> 's" where
  "pci_read_config_block io b sl f sz =
     fold (\<lambda>offset (h, s). case pci_read32 io b sl f offset s of (v, s) \<Rightarrow> (store32 h (unat offset) v, s))
       (map (\<lambda>i. of_nat (4 * i)) [0..<(unat sz + 3) div 4])"

definition pci_decode_device :: "'s io \<Rightarrow> u8 \<Rightarrow> u8 \<Rightarrow> u8 \<Rightarrow> nat \<Rightarrow> pci \<times> 's \<Rightarrow> pci \<times> 's" where
  "pci_decode_device io b sl f dev = (\<lambda>(p, s).
     case pci_read8 io b sl f 0x0E s of (ht, s) \<Rightarrow>
       let ht = ht AND 0x7F;
           d = (pci_devices p ! dev)\<lparr>bus := b, slot := sl, func := f, header_type := ht\<rparr>
       in if ht = pci_header_type_general \<or> ht = pci_header_type_pci_to_pci \<or> ht = pci_header_type_pci_to_card
          then case pci_read_config_block io b sl f sizeof_pci_header (header d, s) of (h, s) \<Rightarrow>
            (p\<lparr>pci_devices := (pci_devices p)[dev := d\<lparr>header := h\<rparr>],
               pci_decoded := (pci_decoded p)(b := (pci_decoded p b)(sl := (pci_decoded p b sl)(f := True)))\<rparr>, s)
          else (p\<lparr>pci_devices := (pci_devices p)[dev := d]\<rparr>, s))"

definition driver_matches :: "'h pci_driver \<Rightarrow> pci_device_common \<Rightarrow> bool" where
  "driver_matches e c \<longleftrightarrow>
     \<not> (dr_vendor_id e \<noteq> PCI_ANY_ID \<and> dr_vendor_id e \<noteq> vendor_id c) \<and>
     \<not> (dr_device_id e \<noteq> PCI_ANY_ID \<and> dr_device_id e \<noteq> device_id c) \<and>
     \<not> (dr_class_code e \<noteq> PCI_ANY_CLASS \<and> dr_class_code e \<noteq> class_code c) \<and>
     \<not> (dr_subclass e \<noteq> PCI_ANY_SUBCLASS \<and> dr_subclass e \<noteq> subclass_code c)"

text \<open>The loop over the drivers the linker collects; \<open>run\<close> calls a probe function.\<close>

fun try_drivers ::
  "('h \<Rightarrow> pci_device \<Rightarrow> 's \<Rightarrow> (u8 \<times> 's) option) \<Rightarrow> pci_device \<Rightarrow> nat \<Rightarrow> 'h pci_driver list \<Rightarrow> 's \<Rightarrow>
   (nat option \<times> 's) option" where
  "try_drivers run d k [] s = Some (None, s)"
| "try_drivers run d k (e # es) s =
     (if \<not> driver_matches e (common (header d)) then try_drivers run d (k + 1) es s
      else case probe e of None \<Rightarrow> try_drivers run d (k + 1) es s
      | Some h \<Rightarrow> (case run h d s of None \<Rightarrow> None
         | Some (code, s) \<Rightarrow> if code = 0 then Some (Some k, s) else try_drivers run d (k + 1) es s))"

definition pci_register_device_to_driver ::
  "('h \<Rightarrow> pci_device \<Rightarrow> 's \<Rightarrow> (u8 \<times> 's) option) \<Rightarrow> 'h pci_driver list \<Rightarrow> nat \<Rightarrow> pci \<times> 's \<Rightarrow> (pci \<times> 's) option" where
  "pci_register_device_to_driver run es dev = (\<lambda>(p, s).
     case try_drivers run (pci_devices p ! dev) 0 es s of None \<Rightarrow> None
     | Some (None, s) \<Rightarrow> Some (p, s)
     | Some (Some e, s) \<Rightarrow>
         Some (p\<lparr>pci_devices := (pci_devices p)[dev := (pci_devices p ! dev)\<lparr>driver := Some e\<rparr>]\<rparr>, s))"

text \<open>The loop over the buses behind a bridge, with a \<open>uint8_t\<close> counter.\<close>

partial_function (option) bus_loop :: "(u8 \<Rightarrow> 's \<Rightarrow> 's option) \<Rightarrow> u8 \<Rightarrow> u8 \<Rightarrow> 's \<Rightarrow> 's option" where
  "bus_loop scan b sub s = (if b \<le> sub then Option.bind (scan b s) (bus_loop scan (b + 1) sub) else Some s)"

definition pci_register_device ::
  "'s io \<Rightarrow> ('h \<Rightarrow> pci_device \<Rightarrow> 's \<Rightarrow> (u8 \<times> 's) option) \<Rightarrow> 'h pci_driver list \<Rightarrow>
   (u8 \<Rightarrow> pci \<times> 's \<Rightarrow> (pci \<times> 's) option) \<Rightarrow> u8 \<Rightarrow> u8 \<Rightarrow> u8 \<Rightarrow> pci \<times> 's \<Rightarrow> (pci \<times> 's) option" where
  "pci_register_device io run es scan b sl f = (\<lambda>(p, s).
     if PCI_MAX_DEVICES \<le> unat (pci_device_count p) then Some (p, s)
     else if pci_decoded p b sl f then Some (p, s)
     else
       let dev = unat (pci_device_count p);
           (p, s) = pci_decode_device io b sl f dev (p\<lparr>pci_device_count := pci_device_count p + 1\<rparr>, s);
           d = pci_devices p ! dev
       in Option.bind
            (if header_type d = pci_header_type_pci_to_pci
             then bus_loop scan (secondary_bus (type1 (header d))) (subordinate_bus (type1 (header d))) (p, s)
             else Some (p, s))
            (pci_register_device_to_driver run es dev))"

definition scan_function ::
  "'s io \<Rightarrow> (u8 \<Rightarrow> u8 \<Rightarrow> u8 \<Rightarrow> pci \<times> 's \<Rightarrow> (pci \<times> 's) option) \<Rightarrow> u8 \<Rightarrow> u8 \<Rightarrow> u8 \<Rightarrow> pci \<times> 's \<Rightarrow> (pci \<times> 's) option" where
  "scan_function io register b sl f = (\<lambda>(p, s).
     case pci_read16 io b sl f 0x00 s of (vendor, s) \<Rightarrow>
       if vendor = 0xFFFF then Some (p, s) else register b sl f (p, s))"

definition scan_slot ::
  "'s io \<Rightarrow> (u8 \<Rightarrow> u8 \<Rightarrow> u8 \<Rightarrow> pci \<times> 's \<Rightarrow> (pci \<times> 's) option) \<Rightarrow> u8 \<Rightarrow> u8 \<Rightarrow> pci \<times> 's \<Rightarrow> (pci \<times> 's) option" where
  "scan_slot io register b sl = (\<lambda>(p, s).
     case pci_read16 io b sl 0 0x00 s of (vendor, s) \<Rightarrow>
       if vendor = 0xFFFF then Some (p, s)
       else case pci_read8 io b sl 0 0x0E s of (ht, s) \<Rightarrow>
         each (scan_function io register b sl) (counter (if ht AND 0x80 \<noteq> 0 then 8 else 1)) (p, s))"

text \<open>The first argument bounds how deep bridges nest.\<close>

primrec pci_scan_bus ::
  "nat \<Rightarrow> 's io \<Rightarrow> ('h \<Rightarrow> pci_device \<Rightarrow> 's \<Rightarrow> (u8 \<times> 's) option) \<Rightarrow> 'h pci_driver list \<Rightarrow> u8 \<Rightarrow> pci \<times> 's \<Rightarrow>
   (pci \<times> 's) option" where
  "pci_scan_bus 0 io run es b ps = None"
| "pci_scan_bus (Suc n) io run es b ps =
     (if pci_scanned_bus (fst ps) b then Some ps
      else each (scan_slot io (pci_register_device io run es (pci_scan_bus n io run es)) b) (counter 32)
        ((fst ps)\<lparr>pci_scanned_bus := (pci_scanned_bus (fst ps))(b := True)\<rparr>, snd ps))"

definition pci_get_devices :: "pci \<Rightarrow> u32 \<times> pci_device list" where
  "pci_get_devices p = (pci_device_count p, pci_devices p)"

section \<open>Configuration space as a table\<close>

text \<open>
  What configuration mechanism 1 documents: the address written to 0xCF8 selects the register the next
  access of 0xCFC reads, and reading changes no register. \<open>conf\<close> gives the registers by address.
\<close>

definition pci_hardware :: "'s io \<Rightarrow> ('s \<Rightarrow> u32 \<Rightarrow> u32) \<Rightarrow> bool" where
  "pci_hardware io conf \<longleftrightarrow>
     (\<forall>a s v s'. inportl io PCI_CONFIG_DATA (outportl io PCI_CONFIG_ADDRESS a s) = (v, s') \<longrightarrow> v = conf s a \<and> conf s' = conf s)"

definition conf32 :: "(u32 \<Rightarrow> u32) \<Rightarrow> u8 \<Rightarrow> u8 \<Rightarrow> u8 \<Rightarrow> u8 \<Rightarrow> u32" where
  "conf32 C b sl f offset = C (pci_make_address b sl f offset)"

definition conf16 :: "(u32 \<Rightarrow> u32) \<Rightarrow> u8 \<Rightarrow> u8 \<Rightarrow> u8 \<Rightarrow> u8 \<Rightarrow> u16" where
  "conf16 C b sl f offset = ucast (drop_bit (unat (offset AND 2) * 8) (conf32 C b sl f offset) AND 0xFFFF)"

definition conf8 :: "(u32 \<Rightarrow> u32) \<Rightarrow> u8 \<Rightarrow> u8 \<Rightarrow> u8 \<Rightarrow> u8 \<Rightarrow> u8" where
  "conf8 C b sl f offset = ucast (drop_bit (unat (offset AND 3) * 8) (conf32 C b sl f offset) AND 0xFF)"

lemma pci_read:
  assumes "pci_hardware io conf"
  shows "pci_read32 io b sl f off s = (v, s') \<Longrightarrow> v = conf32 (conf s) b sl f off \<and> conf s' = conf s"
    "pci_read16 io b sl f off s = (v16, s') \<Longrightarrow> v16 = conf16 (conf s) b sl f off \<and> conf s' = conf s"
    "pci_read8 io b sl f off s = (v8, s') \<Longrightarrow> v8 = conf8 (conf s) b sl f off \<and> conf s' = conf s"
  using assms by (auto simp: pci_read32_def pci_read16_def pci_read8_def pci_hardware_def conf32_def conf16_def conf8_def
      split: prod.splits)

text \<open>The 64 bytes of a function's configuration header.\<close>

definition conf_header :: "(u32 \<Rightarrow> u32) \<Rightarrow> u8 \<Rightarrow> u8 \<Rightarrow> u8 \<Rightarrow> u8 list" where
  "conf_header C b sl f = map (conf8 C b sl f) (counter 64)"

lemma offset_parts:
  assumes "i < 64"
  shows "(of_nat i :: u8) AND 3 = of_nat (i mod 4)" "(of_nat i :: u8) AND 0xFC = of_nat (i - i mod 4) AND 0xFC"
proof -
  have "\<forall>i \<in> set [0..<64]. (of_nat i :: u8) AND 3 = of_nat (i mod 4) \<and> (of_nat i :: u8) AND 0xFC = of_nat (i - i mod 4) AND 0xFC"
    by code_simp
  then show "(of_nat i :: u8) AND 3 = of_nat (i mod 4)" "(of_nat i :: u8) AND 0xFC = of_nat (i - i mod 4) AND 0xFC"
    using assms by simp_all
qed

lemma low_byte: "ucast (x AND 0xFF :: u32) = (ucast x :: u8)"
proof -
  have *: "(0xFF :: u32) = mask 8" by (simp add: mask_eq_exp_minus_1)
  show ?thesis unfolding * by (rule bit_word_eqI) (auto simp: bit_simps)
qed

lemma conf8_byte:
  assumes "k < 16" "j < 4"
  shows "conf8 C b sl f (of_nat (4 * k + j)) = ucast (drop_bit (8 * j) (conf32 C b sl f (of_nat (4 * k))))"
proof -
  have i: "4 * k + j < 64" "(4 * k + j) mod 4 = j" "4 * k + j - j = 4 * k" using assms by simp_all
  have "unat (of_nat j :: u8) = j" using assms by (simp add: unat_of_nat_u8)
  moreover have "conf32 C b sl f (of_nat (4 * k + j)) = conf32 C b sl f (of_nat (4 * k))"
    using offset_parts(2) [OF i(1)] i(2,3) by (simp only: conf32_def pci_make_address_def)
  ultimately show ?thesis
    using offset_parts(1) [OF i(1)] i(2) by (simp only: conf8_def low_byte mult.commute)
qed

lemma nth_store32:
  "i + 3 < length h \<Longrightarrow> j < length h \<Longrightarrow> store32 h i v ! j =
     (if i \<le> j \<and> j < i + 4 then ucast (drop_bit (8 * (j - i)) v) else h ! j)"
  by (auto simp: store32_def nth_list_update less_Suc_eq numeral_eq_Suc)

lemma config_stores:
  assumes "length h = 64" "k \<le> 16"
  shows "length (fold (\<lambda>off h. store32 h (unat off) (conf32 C b sl f off)) (map (\<lambda>i. of_nat (4 * i)) [0..<k]) h) = 64 \<and>
    (\<forall>i < 4 * k. fold (\<lambda>off h. store32 h (unat off) (conf32 C b sl f off)) (map (\<lambda>i. of_nat (4 * i)) [0..<k]) h ! i =
       conf8 C b sl f (of_nat i))"
  using assms(2)
proof (induction k)
  case (Suc k)
  let ?h = "fold (\<lambda>off h. store32 h (unat off) (conf32 C b sl f off)) (map (\<lambda>i. of_nat (4 * i)) [0..<k]) h"
  have IH: "length ?h = 64" "\<And>i. i < 4 * k \<Longrightarrow> ?h ! i = conf8 C b sl f (of_nat i)" using Suc by simp_all
  have u: "unat (of_nat (4 * k) :: u8) = 4 * k" using Suc.prems by (intro unat_of_nat_u8) simp
  have "store32 ?h (4 * k) (conf32 C b sl f (of_nat (4 * k))) ! i = conf8 C b sl f (of_nat i)" if "i < 4 * Suc k" for i
  proof (cases "i < 4 * k")
    case True
    then show ?thesis using IH Suc.prems by (subst nth_store32) simp_all
  next
    case False
    then obtain j where "i = 4 * k + j" by (metis le_Suc_ex not_le)
    with that False show ?thesis
      using IH(1) Suc.prems conf8_byte [of k j] by (subst nth_store32) simp_all
  qed
  moreover have "length (store32 ?h (4 * k) v) = 64" for v using IH(1) by (simp add: store32_def)
  ultimately show ?case using u by (simp del: of_nat_mult of_nat_Suc of_nat_numeral)
qed (use assms(1) in simp)

lemma config_block:
  assumes "pci_hardware io conf" "length h = 64"
    "pci_read_config_block io b sl f sizeof_pci_header (h, s) = (h', s')"
  shows "h' = conf_header (conf s) b sl f" "conf s' = conf s"
proof -
  let ?C = "conf s"
  let ?step = "\<lambda>offset (h, s). case pci_read32 io b sl f offset s of (v, s) \<Rightarrow> (store32 h (unat offset) v, s)"
  let ?offs = "map (\<lambda>i. of_nat (4 * i)) [0..<16] :: u8 list"
  let ?stores = "\<lambda>offs h. fold (\<lambda>off h. store32 h (unat off) (conf32 ?C b sl f off)) offs h"
  have step: "\<exists>s1. ?step off (h, t) = (store32 h (unat off) (conf32 ?C b sl f off), s1) \<and> conf s1 = ?C" if "conf t = ?C" for off h t
    using pci_read(1) [OF assms(1), of b sl f off t] that by (auto split: prod.splits)
  have "\<exists>t'. fold ?step offs (h, t) = (?stores offs h, t') \<and> conf t' = ?C" if "conf t = ?C" for offs h t
    using that
  proof (induction offs arbitrary: h t)
    case (Cons off offs)
    obtain s1 where s1: "?step off (h, t) = (store32 h (unat off) (conf32 ?C b sl f off), s1)" "conf s1 = ?C"
      using step [OF Cons.prems] by blast
    from Cons.IH [OF s1(2), of "store32 h (unat off) (conf32 ?C b sl f off)"] show ?case
      by (simp only: fold_Cons comp_apply s1(1))
  qed simp
  from this [OF refl, of ?offs h] obtain t' where t': "fold ?step ?offs (h, s) = (?stores ?offs h, t')" "conf t' = ?C" by blast
  have "fold ?step ?offs (h, s) = (h', s')"
    using assms(3) by (simp add: pci_read_config_block_def sizeof_pci_header_def)
  with t' have r: "h' = ?stores ?offs h" "conf s' = ?C" by simp_all
  then show "conf s' = conf s" by simp
  from config_stores [OF assms(2), of 16 ?C b sl f] r(1) show "h' = conf_header ?C b sl f"
    by (intro nth_equalityI) (simp_all add: conf_header_def counter_def)
qed

section \<open>What the scan finds\<close>

text \<open>A function answers when its vendor is not 0xFFFF; functions 1 to 7 only count on a multi-function device.\<close>

definition answers :: "(u32 \<Rightarrow> u32) \<Rightarrow> u8 \<Rightarrow> u8 \<Rightarrow> u8 \<Rightarrow> bool" where
  "answers C b sl f \<longleftrightarrow> unat sl < 32 \<and> unat f < 8 \<and> conf16 C b sl 0 0 \<noteq> 0xFFFF \<and> conf16 C b sl f 0 \<noteq> 0xFFFF \<and>
     (f = 0 \<or> conf8 C b sl 0 0x0E AND 0x80 \<noteq> 0)"

text \<open>The devices registered so far, without their drivers.\<close>

definition found :: "pci \<Rightarrow> pci_device list" where
  "found p = map (driver_update (\<lambda>_. None)) (take (unat (pci_device_count p)) (pci_devices p))"

definition place :: "pci_device \<Rightarrow> u8 \<times> u8 \<times> u8" where
  "place d = (bus d, slot d, func d)"

text \<open>A registered device: where it is, and what was read from it.\<close>

definition device_ok :: "(u32 \<Rightarrow> u32) \<Rightarrow> pci_device \<Rightarrow> bool" where
  "device_ok C d \<longleftrightarrow> answers C (bus d) (slot d) (func d) \<and>
     header_type d = conf8 C (bus d) (slot d) (func d) 0x0E AND 0x7F \<and>
     (if header_type d \<le> 2 then header d = conf_header C (bus d) (slot d) (func d) else header d = replicate 64 0)"

definition pci_ok :: "(u32 \<Rightarrow> u32) \<Rightarrow> pci \<Rightarrow> bool" where
  "pci_ok C p \<longleftrightarrow> length (pci_devices p) = PCI_MAX_DEVICES \<and> unat (pci_device_count p) \<le> PCI_MAX_DEVICES \<and>
     distinct (map place (found p)) \<and>
     (\<forall>d \<in> set (found p). device_ok C d \<and> pci_scanned_bus p (bus d)) \<and>
     (\<forall>b sl f. pci_decoded p b sl f \<longrightarrow> (b, sl, f) \<in> place ` set (found p)) \<and>
     (\<forall>i \<ge> unat (pci_device_count p). i < PCI_MAX_DEVICES \<longrightarrow> pci_devices p ! i = zero_device)"

definition pci_full :: "pci \<Rightarrow> bool" where
  "pci_full p \<longleftrightarrow> unat (pci_device_count p) = PCI_MAX_DEVICES"

text \<open>All buses behind a bridge have been scanned, which is only possible below bus 255.\<close>

definition bridge_done :: "pci \<Rightarrow> pci_device \<Rightarrow> bool" where
  "bridge_done p d \<longleftrightarrow> (header_type d = pci_header_type_pci_to_pci \<longrightarrow>
     subordinate_bus (type1 (header d)) \<noteq> 0xFF \<and>
     (\<forall>b. secondary_bus (type1 (header d)) \<le> b \<and> b \<le> subordinate_bus (type1 (header d)) \<longrightarrow> pci_scanned_bus p b))"

definition bus_done :: "(u32 \<Rightarrow> u32) \<Rightarrow> pci \<Rightarrow> u8 \<Rightarrow> bool" where
  "bus_done C p b \<longleftrightarrow> (\<forall>sl f. answers C b sl f \<longrightarrow> (b, sl, f) \<in> place ` set (found p) \<or> pci_full p)"

text \<open>
  A stretch of the scan: it only adds devices, on buses not scanned before or at the places \<open>D\<close>; what
  it adds is complete.
\<close>

definition scanned_on :: "(u32 \<Rightarrow> u32) \<Rightarrow> (u8 \<times> u8 \<times> u8) set \<Rightarrow> pci \<Rightarrow> pci \<Rightarrow> bool" where
  "scanned_on C D p p' \<longleftrightarrow> pci_ok C p' \<and>
     (\<exists>ds. found p' = found p @ ds \<and>
        (\<forall>d \<in> set ds. (\<not> pci_scanned_bus p (bus d) \<or> place d \<in> D) \<and> bridge_done p' d)) \<and>
     (\<forall>b. pci_scanned_bus p b \<longrightarrow> pci_scanned_bus p' b) \<and>
     (\<forall>b. pci_scanned_bus p' b \<longrightarrow> pci_scanned_bus p b \<or> bus_done C p' b) \<and>
     (\<forall>(b, sl, f) \<in> D. answers C b sl f \<longrightarrow> (b, sl, f) \<in> place ` set (found p') \<or> pci_full p')"

lemma length_found: "pci_ok C p \<Longrightarrow> length (found p) = unat (pci_device_count p)"
  by (simp add: pci_ok_def found_def)

lemma scanned_on_refl: "pci_ok C p \<Longrightarrow> scanned_on C {} p p"
  by (simp add: scanned_on_def)

lemma pci_full_mono:
  assumes "scanned_on C D p p'" "pci_ok C p" "pci_full p"
  shows "pci_full p'"
proof -
  obtain ds where ok: "pci_ok C p'" and "found p' = found p @ ds" using assms(1) by (auto simp: scanned_on_def)
  then have "unat (pci_device_count p) \<le> unat (pci_device_count p')"
    using length_found [OF ok] length_found [OF assms(2)] by simp
  with ok assms(3) show ?thesis by (simp add: pci_full_def pci_ok_def)
qed

lemma scanned_on_trans:
  assumes "scanned_on C D p p1" "scanned_on C E p1 p2" "pci_ok C p"
  shows "scanned_on C (D \<union> E) p p2"
proof -
  have ok: "pci_ok C p1" "pci_ok C p2" using assms by (simp_all add: scanned_on_def)
  note full = pci_full_mono [OF assms(2) ok(1)]
  obtain ds es where f: "found p1 = found p @ ds" "found p2 = found p1 @ es"
    and ds: "\<forall>d \<in> set ds. (\<not> pci_scanned_bus p (bus d) \<or> place d \<in> D) \<and> bridge_done p1 d"
    and es: "\<forall>d \<in> set es. (\<not> pci_scanned_bus p1 (bus d) \<or> place d \<in> E) \<and> bridge_done p2 d"
    using assms(1,2) by (auto simp: scanned_on_def)
  have m: "\<forall>b. pci_scanned_bus p b \<longrightarrow> pci_scanned_bus p1 b" "\<forall>b. pci_scanned_bus p1 b \<longrightarrow> pci_scanned_bus p2 b"
    using assms(1,2) by (auto simp: scanned_on_def)
  have sub: "place ` set (found p1) \<subseteq> place ` set (found p2)" using f(2) by auto
  have "\<forall>d \<in> set (ds @ es). (\<not> pci_scanned_bus p (bus d) \<or> place d \<in> D \<union> E) \<and> bridge_done p2 d"
    using ds es m by (auto simp: bridge_done_def)
  moreover have "found p2 = found p @ ds @ es" using f by simp
  moreover have "bus_done C p2 b" if "bus_done C p1 b" for b
    using that sub full unfolding bus_done_def by blast
  then have "\<forall>b. pci_scanned_bus p2 b \<longrightarrow> pci_scanned_bus p b \<or> bus_done C p2 b"
    using assms(1,2) by (meson scanned_on_def)
  moreover have "\<forall>(b, sl, f) \<in> D. answers C b sl f \<longrightarrow> (b, sl, f) \<in> place ` set (found p2) \<or> pci_full p2"
    using assms(1) sub full by (fastforce simp: scanned_on_def)
  moreover have "\<forall>(b, sl, f) \<in> E. answers C b sl f \<longrightarrow> (b, sl, f) \<in> place ` set (found p2) \<or> pci_full p2"
    using assms(2) by (simp add: scanned_on_def)
  ultimately show ?thesis using ok(2) m unfolding scanned_on_def by blast
qed

text \<open>Registering a device at a place not yet registered, and the loop over the buses behind it.\<close>

lemma bus_loop_Some:
  assumes "bus_loop scan b sub s = Some s'"
  shows "b \<le> sub \<longrightarrow> sub \<noteq> 255"
proof (rule bus_loop.raw_induct [where P = "\<lambda>scan b sub s s'. b \<le> sub \<longrightarrow> sub \<noteq> 255", OF _ assms], intro impI notI)
  fix loop :: "(u8 \<Rightarrow> 'a \<Rightarrow> 'a option) \<Rightarrow> u8 \<Rightarrow> u8 \<Rightarrow> 'a \<Rightarrow> 'a option" and scan b sub s s'
  assume IH: "\<And>scan b sub s s'. loop scan b sub s = Some s' \<Longrightarrow> b \<le> sub \<longrightarrow> sub \<noteq> 255"
    and eq: "(if b \<le> sub then Option.bind (scan b s) (loop scan (b + 1) sub) else Some s) = Some s'"
    and *: "b \<le> sub" "sub = 255"
  obtain s1 where "loop scan (b + 1) sub s1 = Some s'" using eq *(1) by (auto simp: Option.bind_eq_Some_conv)
  moreover have "x \<le> (255 :: u8)" for x using unat_less_256 [of x] by (simp add: word_le_nat_alt)
  ultimately show False using IH *(2) by blast
qed

lemma bus_loop_each:
  assumes "sub \<noteq> 255"
  shows "bus_loop scan b sub s = each scan (map of_nat [unat b..<unat sub + 1]) s"
  using assms
proof (induction "unat sub + 1 - unat b" arbitrary: b s)
  case 0
  then have "\<not> b \<le> sub" by (simp add: word_le_nat_alt)
  with 0 show ?case by (subst bus_loop.simps) simp
next
  case (Suc n)
  then have le: "b \<le> sub" by (simp add: word_le_nat_alt)
  have "unat sub < 255" using Suc.prems by (rule u8_less_255)
  then have u: "unat (b + 1) = unat b + 1" using le by (simp add: word_le_nat_alt unat_word_ariths)
  have "each scan (map of_nat [unat b..<unat sub + 1]) s =
      Option.bind (scan b s) (each scan (map of_nat [unat (b + 1)..<unat sub + 1]))"
    using le by (simp add: word_le_nat_alt upt_conv_Cons u del: upt_Suc)
  moreover have "bus_loop scan (b + 1) sub = each scan (map of_nat [unat (b + 1)..<unat sub + 1])"
    using Suc u by (intro ext Suc.hyps(1)) simp_all
  ultimately show ?case using le by (subst bus_loop.simps) (simp only: if_True)
qed

lemma bus_loop_endless: "b \<le> 255 \<Longrightarrow> bus_loop scan b 255 s = None"
  using bus_loop_Some [of scan b 255 s] by (cases "bus_loop scan b 255 s") auto

lemma take_count_append:
  "n < length xs \<Longrightarrow> map f (take n xs) @ [f x] = map f (take (Suc n) (xs[n := x]))"
  by (simp add: take_Suc_conv_app_nth)

text \<open>A fresh entry of the table is filled.\<close>

lemma decode_ok:
  assumes "pci_hardware io conf" "conf s = C" "pci_ok C p" "unat (pci_device_count p) < PCI_MAX_DEVICES"
    "answers C b sl f" "(b, sl, f) \<notin> place ` set (found p)" "pci_scanned_bus p b"
    "pci_decode_device io b sl f (unat (pci_device_count p)) (p\<lparr>pci_device_count := pci_device_count p + 1\<rparr>, s) = (p', s')"
  shows "\<exists>d. found p' = found p @ [d] \<and> place d = (b, sl, f) \<and> device_ok C d \<and> pci_ok C p' \<and> conf s' = C \<and>
    pci_scanned_bus p' = pci_scanned_bus p \<and> pci_devices p' ! unat (pci_device_count p) = d \<and> driver d = None"
proof -
  let ?n = "unat (pci_device_count p)"
  obtain ht s1 where ht: "pci_read8 io b sl f 0x0E s = (ht, s1)" by fastforce
  from pci_read(3) [OF assms(1) ht] assms(2) have h: "ht = conf8 C b sl f 0x0E" "conf s1 = C" by simp_all
  have len: "length (pci_devices p) = 256" "?n < 256" using assms(3,4) by (simp_all add: pci_ok_def PCI_MAX_DEVICES_def)
  then have z: "pci_devices p ! ?n = zero_device" using assms(3) by (simp add: pci_ok_def PCI_MAX_DEVICES_def)
  obtain hd s2 where cb: "pci_read_config_block io b sl f sizeof_pci_header (replicate 64 0, s1) = (hd, s2)" by fastforce
  from config_block [OF assms(1) _ cb] h(2) have hd: "hd = conf_header C b sl f" "conf s2 = C" by simp_all
  define valid where "valid = (ht AND 0x7F = 0 \<or> ht AND 0x7F = 1 \<or> ht AND 0x7F = 2)"
  define d where "d = \<lparr>bus = b, slot = sl, func = f, header_type = ht AND 0x7F,
    header = if valid then hd else replicate 64 0, driver = None\<rparr>"
  have v2: "ht AND 0x7F \<le> 2 \<longleftrightarrow> valid" 
    unfolding valid_def word_le_nat_alt word_unat_eq_iff by auto
  have devs: "pci_devices p' = (pci_devices p)[?n := d]" and cnt: "pci_device_count p' = pci_device_count p + 1"
    and sc: "pci_scanned_bus p' = pci_scanned_bus p" and cs: "conf s' = C"
    and dec: "\<And>b' sl' f'. pci_decoded p' b' sl' f' \<Longrightarrow> pci_decoded p b' sl' f' \<or> (b', sl', f') = (b, sl, f)"
    using assms(8) ht cb z h(2) hd(2)
    by (auto simp: pci_decode_device_def Let_def d_def valid_def zero_device_def pci_header_type_general_def
        pci_header_type_pci_to_pci_def pci_header_type_pci_to_card_def split: if_splits)
  have cnt': "unat (pci_device_count p') = Suc ?n"
    using cnt len(2) unat_Suc_u32 [of "pci_device_count p" 256] by (simp add: word_less_nat_alt)
  have fd: "found p' = found p @ [d]"
    using len by (simp add: found_def devs cnt' take_count_append [symmetric] d_def)
  have dok: "device_ok C d" using assms(5) v2 h hd by (simp add: device_ok_def d_def)
  have pl: "place d = (b, sl, f)" by (simp add: place_def d_def)
  have decs: "(b', sl', f') \<in> place ` set (found p @ [d])" if "pci_decoded p' b' sl' f'" for b' sl' f'
    using dec [OF that]
  proof
    assume "pci_decoded p b' sl' f'"
    then have "(b', sl', f') \<in> place ` set (found p)" using assms(3) unfolding pci_ok_def by blast
    then show ?thesis by auto
  next
    assume "(b', sl', f') = (b, sl, f)"
    then have "(b', sl', f') = place d" using pl by simp
    then show ?thesis by simp
  qed
  have bd: "bus d = b" by (simp add: d_def)
  have "distinct (map place (found p @ [d]))" using assms(3,6) pl by (simp add: pci_ok_def)
  moreover have "\<forall>x \<in> set (found p @ [d]). device_ok C x \<and> pci_scanned_bus p (bus x)"
    using assms(3,7) dok bd by (auto simp: pci_ok_def)
  moreover have "\<forall>i \<ge> Suc ?n. i < 256 \<longrightarrow> pci_devices p' ! i = zero_device"
    using assms(3) len by (simp add: pci_ok_def devs PCI_MAX_DEVICES_def nth_list_update)
  ultimately have "pci_ok C p'"
    using decs len unfolding pci_ok_def fd sc cnt' by (simp add: devs PCI_MAX_DEVICES_def)
  with fd pl dok cs sc len show ?thesis by (intro exI [of _ d]) (simp add: devs d_def)
qed

text \<open>Probing leaves configuration space alone.\<close>

definition probes_ok :: "('s \<Rightarrow> u32 \<Rightarrow> u32) \<Rightarrow> ('h \<Rightarrow> pci_device \<Rightarrow> 's \<Rightarrow> (u8 \<times> 's) option) \<Rightarrow> bool" where
  "probes_ok conf run \<longleftrightarrow> (\<forall>h d s c s'. run h d s = Some (c, s') \<longrightarrow> conf s' = conf s)"

lemma try_drivers_conf:
  "probes_ok conf run \<Longrightarrow> try_drivers run d k es s = Some (e, s') \<Longrightarrow> conf s' = conf s"
proof (induction run d k es s rule: try_drivers.induct)
  case (2 run d k e es s)
  then show ?case
    by (auto simp: probes_ok_def split: if_splits option.splits)
qed simp

lemma found_driver:
  assumes "i < length (pci_devices p)"
  shows "found (p\<lparr>pci_devices := (pci_devices p)[i := (pci_devices p ! i)\<lparr>driver := e\<rparr>]\<rparr>) = found p"
proof -
  have "driver_update (\<lambda>_. None) ((pci_devices p ! i)\<lparr>driver := e\<rparr>) = driver_update (\<lambda>_. None) (pci_devices p ! i)" by simp
  then show ?thesis using assms
    by (intro nth_equalityI) (simp_all add: found_def nth_list_update)
qed

lemma register_driver_ok:
  assumes "probes_ok conf run" "pci_ok C p" "i < unat (pci_device_count p)"
    "pci_register_device_to_driver run es i (p, s) = Some (p', s')"
  shows "pci_ok C p' \<and> found p' = found p \<and> pci_scanned_bus p' = pci_scanned_bus p \<and> pci_device_count p' = pci_device_count p \<and>
    conf s' = conf s"
proof -
  have l: "i < length (pci_devices p)" using assms(2,3) by (simp add: pci_ok_def)
  obtain e where e: "try_drivers run (pci_devices p ! i) 0 es s = Some (e, s')"
    and p': "p' = p \<or> p' = p\<lparr>pci_devices := (pci_devices p)[i := (pci_devices p ! i)\<lparr>driver := e\<rparr>]\<rparr>"
    using assms(4) by (auto simp: pci_register_device_to_driver_def split: option.splits)
  have "found p' = found p" using p' found_driver [OF l] by auto
  moreover have "pci_devices p' ! j = pci_devices p ! j" if "unat (pci_device_count p) \<le> j" for j
    using p' that assms(3) by (auto simp: nth_list_update)
  ultimately show ?thesis
    using p' assms(2) try_drivers_conf [OF assms(1) e] unfolding pci_ok_def by auto
qed

text \<open>The specification of a scan of one bus, as the bus loop and the registration use it.\<close>

definition scan_ok :: "('s \<Rightarrow> u32 \<Rightarrow> u32) \<Rightarrow> (u32 \<Rightarrow> u32) \<Rightarrow> (u8 \<Rightarrow> pci \<times> 's \<Rightarrow> (pci \<times> 's) option) \<Rightarrow> bool" where
  "scan_ok conf C scan \<longleftrightarrow> (\<forall>b p s p' s'. pci_ok C p \<and> conf s = C \<and> scan b (p, s) = Some (p', s') \<longrightarrow>
     scanned_on C {} p p' \<and> pci_scanned_bus p' b \<and> conf s' = C)"

lemma scanned_onD:
  assumes "scanned_on C D p p'"
  shows "pci_ok C p'" "pci_scanned_bus p b \<Longrightarrow> pci_scanned_bus p' b"
  using assms by (auto simp: scanned_on_def)

lemma scan_each:
  assumes "scan_ok conf C scan" "pci_ok C p" "conf s = C" "each scan bs (p, s) = Some (p', s')"
  shows "scanned_on C {} p p' \<and> (\<forall>b \<in> set bs. pci_scanned_bus p' b) \<and> conf s' = C"
proof -
  let ?P = "\<lambda>ys t. scanned_on C {} p (fst t) \<and> (\<forall>b \<in> set ys. pci_scanned_bus (fst t) b) \<and> conf (snd t) = C"
  have "?P bs (p', s')"
  proof (rule each_rule [OF assms(4)])
    fix ys x zs t t'
    assume t: "?P ys t" "scan x t = Some t'"
    then have "pci_ok C (fst t)" using scanned_onD(1) by blast
    with assms(1) t have "scanned_on C {} (fst t) (fst t') \<and> pci_scanned_bus (fst t') x \<and> conf (snd t') = C"
      unfolding scan_ok_def by (metis prod.collapse)
    with t(1) scanned_on_trans [of C "{}" p "fst t" "{}" "fst t'"] assms(2) show "?P (ys @ [x]) t'"
      by (auto dest: scanned_onD(2))
  qed (simp add: scanned_on_refl assms(2,3))
  then show ?thesis by simp
qed

lemma bus_loop_ok:
  assumes "scan_ok conf C scan" "pci_ok C p" "conf s = C" "bus_loop scan b sub (p, s) = Some (p', s')"
  shows "scanned_on C {} p p' \<and> (\<forall>x. b \<le> x \<and> x \<le> sub \<longrightarrow> pci_scanned_bus p' x) \<and> conf s' = C"
proof (cases "b \<le> sub")
  case True
  then have "sub \<noteq> 255" using bus_loop_Some [OF assms(4)] by simp
  note r = scan_each [OF assms(1-3), of "map of_nat [unat b..<unat sub + 1]" p' s']
  have "x \<in> of_nat ` {unat b..<unat sub + 1}" if "b \<le> x" "x \<le> sub" for x
    using that by (intro image_eqI [of _ _ "unat x"]) (simp_all add: word_le_nat_alt)
  moreover have "each scan (map of_nat [unat b..<unat sub + 1]) (p, s) = Some (p', s')"
    using assms(4) bus_loop_each [OF \<open>sub \<noteq> 255\<close>, of scan b "(p, s)"] by simp
  ultimately show ?thesis using r by (auto simp del: upt_Suc)
next
  case False
  then have "\<not> (b \<le> x \<and> x \<le> sub)" for x using order_trans by blast
  with False assms show ?thesis by (auto simp: bus_loop.simps [of scan b] scanned_on_refl)
qed

lemma register_device_ok:
  assumes "scan_ok conf C scan" "pci_hardware io conf" "probes_ok conf run" "conf s = C" "pci_ok C p"
    "answers C b sl f" "(b, sl, f) \<notin> place ` set (found p)" "pci_scanned_bus p b"
    "pci_register_device io run es scan b sl f (p, s) = Some (p', s')"
  shows "scanned_on C {(b, sl, f)} p p' \<and> conf s' = C"
proof (cases "PCI_MAX_DEVICES \<le> unat (pci_device_count p)")
  case True
  then have "pci_full p" using assms(5) by (simp add: pci_full_def pci_ok_def)
  with True assms(4,5,9) show ?thesis by (simp add: pci_register_device_def scanned_on_def)
next
  case room: False
  let ?n = "unat (pci_device_count p)"
  have nd: "\<not> pci_decoded p b sl f" using assms(5,7) unfolding pci_ok_def by blast
  obtain p1 s1 where dd: "pci_decode_device io b sl f ?n (p\<lparr>pci_device_count := pci_device_count p + 1\<rparr>, s) = (p1, s1)"
    by fastforce
  from decode_ok [OF assms(2,4,5) _ assms(6-8) dd] room obtain d where
    f1: "found p1 = found p @ [d]" and d: "place d = (b, sl, f)" and ok1: "pci_ok C p1" and c1: "conf s1 = C"
    and sc1: "pci_scanned_bus p1 = pci_scanned_bus p" and dev1: "pci_devices p1 ! ?n = d"
    by auto
  let ?bridge = "header_type d = pci_header_type_pci_to_pci"
  obtain p2 s2 where loop: "(if ?bridge then bus_loop scan (secondary_bus (type1 (header d))) (subordinate_bus (type1 (header d))) (p1, s1)
      else Some (p1, s1)) = Some (p2, s2)"
    and drv: "pci_register_device_to_driver run es ?n (p2, s2) = Some (p', s')"
    using assms(9) room nd dd dev1 by (auto simp: pci_register_device_def Let_def Option.bind_eq_Some_conv)
  have l: "scanned_on C {} p1 p2 \<and> bridge_done p2 d \<and> conf s2 = C"
  proof (cases ?bridge)
    case True
    have "secondary_bus (type1 (header d)) \<le> 255" using unat_less_256 [of "secondary_bus (type1 (header d))"]
      by (simp add: word_le_nat_alt)
    moreover have L: "bus_loop scan (secondary_bus (type1 (header d))) (subordinate_bus (type1 (header d))) (p1, s1) = Some (p2, s2)"
      using loop True by simp
    ultimately show ?thesis
      using bus_loop_ok [OF assms(1) ok1 c1 L] bus_loop_Some [OF L] by (auto simp: bridge_done_def)
  next
    case False
    then show ?thesis using loop ok1 c1 by (simp add: bridge_done_def scanned_on_refl)
  qed
  then have ok2: "pci_ok C p2" using scanned_onD(1) by blast
  have "?n < unat (pci_device_count p2)"
  proof -
    have "length (found p) < length (found p2)" using l f1 by (auto simp: scanned_on_def)
    then show ?thesis using length_found [OF assms(5)] length_found [OF ok2] by simp
  qed
  from register_driver_ok [OF assms(3) ok2 this drv] have
    p': "pci_ok C p'" "found p' = found p2" "pci_scanned_bus p' = pci_scanned_bus p2" "pci_device_count p' = pci_device_count p2"
      "conf s' = conf s2" by simp_all
  have same: "bridge_done p' x = bridge_done p2 x" "bus_done C p' y = bus_done C p2 y" for x y
    using p' by (simp_all add: bridge_done_def bus_done_def pci_full_def)
  show ?thesis
    using l p' f1 d sc1 unfolding scanned_on_def same by (force simp: place_def)
qed

lemma scanned_on_new:
  assumes "scanned_on C D p p'"
  obtains ds where "found p' = found p @ ds"
    "\<And>d. d \<in> set ds \<Longrightarrow> (\<not> pci_scanned_bus p (bus d) \<or> place d \<in> D) \<and> bridge_done p' d"
  using assms unfolding scanned_on_def by auto

lemma scanned_on_widen:
  assumes "scanned_on C D p p'" "D \<subseteq> E" "\<And>b sl f. (b, sl, f) \<in> E - D \<Longrightarrow> \<not> answers C b sl f"
  shows "scanned_on C E p p'"
proof -
  have "(b, sl, f) \<in> place ` set (found p') \<or> pci_full p'" if "(b, sl, f) \<in> E" "answers C b sl f" for b sl f
  proof -
    have "(b, sl, f) \<in> D" using assms(3) [of b sl f] that by auto
    then show ?thesis using assms(1) that(2) by (auto simp: scanned_on_def)
  qed
  then have *: "\<forall>(b, sl, f) \<in> E. answers C b sl f \<longrightarrow> (b, sl, f) \<in> place ` set (found p') \<or> pci_full p'" by auto
  obtain ds where "found p' = found p @ ds"
    "\<forall>d \<in> set ds. (\<not> pci_scanned_bus p (bus d) \<or> place d \<in> D) \<and> bridge_done p' d"
    using assms(1) unfolding scanned_on_def by auto
  then have "\<exists>ds. found p' = found p @ ds \<and>
      (\<forall>d \<in> set ds. (\<not> pci_scanned_bus p (bus d) \<or> place d \<in> E) \<and> bridge_done p' d)"
    using assms(2) by blast
  with * assms(1) show ?thesis unfolding scanned_on_def by simp
qed

lemma scanned_on_nothing:
  "pci_ok C p \<Longrightarrow> (\<And>b sl f. (b, sl, f) \<in> D \<Longrightarrow> \<not> answers C b sl f) \<Longrightarrow> scanned_on C D p p"
  using scanned_on_widen [OF scanned_on_refl] by blast

lemma not_found_yet:
  assumes "scanned_on C D p p'" "pci_scanned_bus p b" "(b, sl, f) \<notin> D" "(b, sl, f) \<notin> place ` set (found p)"
  shows "(b, sl, f) \<notin> place ` set (found p')"
proof
  assume "(b, sl, f) \<in> place ` set (found p')"
  then obtain d where d: "d \<in> set (found p')" "place d = (b, sl, f)" by auto
  obtain ds where ds: "found p' = found p @ ds" "\<forall>d \<in> set ds. \<not> pci_scanned_bus p (bus d) \<or> place d \<in> D"
    using assms(1) unfolding scanned_on_def by blast
  have "d \<notin> set (found p)" using d(2) assms(4) by (metis image_eqI)
  then have "\<not> pci_scanned_bus p (bus d) \<or> place d \<in> D" using d(1) ds by auto
  then show False using d(2) assms(2,3) by (simp add: place_def)
qed

lemma scan_function_ok:
  assumes "scan_ok conf C scan" "pci_hardware io conf" "probes_ok conf run" "conf s = C" "pci_ok C p"
    "unat sl < 32" "unat f < 8" "conf16 C b sl 0 0 \<noteq> 0xFFFF" "f = 0 \<or> conf8 C b sl 0 0x0E AND 0x80 \<noteq> 0"
    "(b, sl, f) \<notin> place ` set (found p)" "pci_scanned_bus p b"
    "scan_function io (pci_register_device io run es scan) b sl f (p, s) = Some (p', s')"
  shows "scanned_on C {(b, sl, f)} p p' \<and> conf s' = C"
proof -
  obtain v s1 where v: "pci_read16 io b sl f 0 s = (v, s1)" by fastforce
  from pci_read(2) [OF assms(2) v] assms(4) have c: "v = conf16 C b sl f 0" "conf s1 = C" by simp_all
  show ?thesis
  proof (cases "v = 0xFFFF")
    case True
    then have "p' = p" "s' = s1" using assms(12) v by (simp_all add: scan_function_def)
    moreover have "\<not> answers C b sl f" using True c(1) by (simp add: answers_def)
    ultimately show ?thesis using scanned_on_nothing [OF assms(5), of "{(b, sl, f)}"] c(2) by simp
  next
    case False
    then have "answers C b sl f" using assms(6-9) c(1) by (simp add: answers_def)
    moreover have "pci_register_device io run es scan b sl f (p, s1) = Some (p', s')"
      using False assms(12) v by (simp add: scan_function_def)
    ultimately show ?thesis using register_device_ok [OF assms(1-3) c(2) assms(5) _ assms(10,11)] by blast
  qed
qed

lemma scan_slot_ok:
  assumes "scan_ok conf C scan" "pci_hardware io conf" "probes_ok conf run" "conf s = C" "pci_ok C p" "unat sl < 32"
    "\<And>f. (b, sl, f) \<notin> place ` set (found p)" "pci_scanned_bus p b"
    "scan_slot io (pci_register_device io run es scan) b sl (p, s) = Some (p', s')"
  shows "scanned_on C ({b} \<times> {sl} \<times> UNIV) p p' \<and> conf s' = C"
proof -
  obtain v s1 where v: "pci_read16 io b sl 0 0 s = (v, s1)" by fastforce
  from pci_read(2) [OF assms(2) v] assms(4) have c: "v = conf16 C b sl 0 0" "conf s1 = C" by simp_all
  show ?thesis
  proof (cases "v = 0xFFFF")
    case True
    then have "p' = p" "s' = s1" using assms(9) v by (simp_all add: scan_slot_def)
    moreover have "\<not> answers C b sl f" for f using True c(1) by (simp add: answers_def)
    ultimately show ?thesis using scanned_on_nothing [OF assms(5), of "{b} \<times> {sl} \<times> UNIV"] c(2) by simp
  next
    case False
    obtain ht s2 where ht: "pci_read8 io b sl 0 0x0E s1 = (ht, s2)" by fastforce
    from pci_read(3) [OF assms(2) ht] c(2) have h: "ht = conf8 C b sl 0 0x0E" "conf s2 = C" by simp_all
    let ?n = "if ht AND 0x80 \<noteq> 0 then 8 else 1 :: nat"
    have loop: "each (scan_function io (pci_register_device io run es scan) b sl) (counter ?n) (p, s2) = Some (p', s')"
      using assms(9) v ht False by (simp add: scan_slot_def)
    have dist: "distinct (counter ?n)" and cset: "set (counter ?n) = {x. unat x < ?n}"
      by (intro distinct_counter set_counter, simp)+
    let ?D = "\<lambda>ys. {b} \<times> {sl} \<times> set ys"
    let ?P = "\<lambda>ys t. scanned_on C (?D ys) p (fst t) \<and> conf (snd t) = C"
    have "?P (counter ?n) (p', s')"
    proof (rule each_rule [OF loop])
      fix ys x zs t t'
      assume *: "counter ?n = ys @ x # zs" "?P ys t" "scan_function io (pci_register_device io run es scan) b sl x t = Some t'"
      have "x \<in> set (counter ?n)" "x \<notin> set ys" using *(1) dist by simp_all
      then have x: "unat x < 8" "x = 0 \<or> conf8 C b sl 0 0x0E AND 0x80 \<noteq> 0" "(b, sl, x) \<notin> ?D ys"
        using h(1) unfolding cset by (auto simp: word_unat_eq_iff split: if_splits)
      have nf: "(b, sl, x) \<notin> place ` set (found (fst t))" "pci_scanned_bus (fst t) b"
        using not_found_yet [OF conjunct1 [OF *(2)] assms(8) x(3) assms(7)] scanned_onD(2) [OF conjunct1 [OF *(2)] assms(8)] by simp_all
      have v0: "conf16 C b sl 0 0 \<noteq> 0xFFFF" using False c(1) by simp
      from scan_function_ok [OF assms(1-3) _ _ assms(6) x(1) v0 x(2) nf, of "snd t" es "fst t'" "snd t'"] *(2,3)
      have "scanned_on C {(b, sl, x)} (fst t) (fst t') \<and> conf (snd t') = C" using scanned_onD(1) by fastforce
      with scanned_on_trans [OF conjunct1 [OF *(2)] _ assms(5)]
      have "scanned_on C (?D ys \<union> {(b, sl, x)}) p (fst t') \<and> conf (snd t') = C" by blast
      moreover have "?D ys \<union> {(b, sl, x)} = ?D (ys @ [x])" by auto
      ultimately show "?P (ys @ [x]) t'" by (simp only:)
    qed (simp add: scanned_on_refl assms(5) h(2))
    then have r: "scanned_on C (?D (counter ?n)) p p'" "conf s' = C" by simp_all
    have "\<not> answers C b sl f" if "f \<notin> set (counter ?n)" for f
      using that h(1) unfolding cset answers_def by (auto simp: unat_gt_0 split: if_splits)
    then have "scanned_on C ({b} \<times> {sl} \<times> UNIV) p p'" by (intro scanned_on_widen [OF r(1)]) auto
    with r(2) show ?thesis by simp
  qed
qed

lemma scan_bus_ok:
  assumes "pci_hardware io conf" "probes_ok conf run"
  shows "scan_ok conf C (pci_scan_bus n io run es)"
proof (induction n)
  case (Suc n)
  let ?scan = "pci_scan_bus n io run es"
  let ?slot = "\<lambda>b. scan_slot io (pci_register_device io run es ?scan) b"
  have "scanned_on C {} p p' \<and> pci_scanned_bus p' b \<and> conf s' = C"
    if pre: "pci_ok C p" "conf s = C" "pci_scan_bus (Suc n) io run es b (p, s) = Some (p', s')" for b p s p' s'
  proof (cases "pci_scanned_bus p b")
    case True
    then show ?thesis using pre by (simp add: scanned_on_refl)
  next
    case False
    let ?p1 = "p\<lparr>pci_scanned_bus := (pci_scanned_bus p)(b := True)\<rparr>"
    have ok1: "pci_ok C ?p1" and f1: "found ?p1 = found p" using pre(1) by (auto simp: pci_ok_def found_def)
    have loop: "each (?slot b) (counter 32) (?p1, s) = Some (p', s')" using pre(3) False by simp
    have new: "(b, sl, f) \<notin> place ` set (found ?p1)" for sl f
      using pre(1) False unfolding f1 pci_ok_def by (auto simp: place_def)
    let ?D = "\<lambda>ys. {b} \<times> set ys \<times> (UNIV :: u8 set)"
    let ?P = "\<lambda>ys t. scanned_on C (?D ys) ?p1 (fst t) \<and> conf (snd t) = C"
    have "?P (counter 32) (p', s')"
    proof (rule each_rule [OF loop])
      fix ys x zs t t'
      assume *: "counter 32 = ys @ x # zs" "?P ys t" "?slot b x t = Some t'"
      have "x \<in> set (counter 32)" "x \<notin> set ys" using *(1) distinct_counter [of 32] by simp_all
      then have x: "unat x < 32" "\<And>f. (b, x, f) \<notin> ?D ys" by (auto simp: set_counter)
      have nf: "\<And>f. (b, x, f) \<notin> place ` set (found (fst t))" and sc: "pci_scanned_bus (fst t) b"
        using not_found_yet [OF conjunct1 [OF *(2)] _ x(2) new] scanned_onD(2) [OF conjunct1 [OF *(2)]] by simp_all
      from scan_slot_ok [OF Suc assms _ _ x(1) nf sc, of "snd t" es "fst t'" "snd t'"] *(2,3)
      have "scanned_on C ({b} \<times> {x} \<times> UNIV) (fst t) (fst t') \<and> conf (snd t') = C" using scanned_onD(1) by fastforce
      with scanned_on_trans [OF conjunct1 [OF *(2)] _ ok1]
      have "scanned_on C (?D ys \<union> ({b} \<times> {x} \<times> UNIV)) ?p1 (fst t') \<and> conf (snd t') = C" by blast
      moreover have "?D ys \<union> ({b} \<times> {x} \<times> UNIV) = ?D (ys @ [x])" by auto
      ultimately show "?P (ys @ [x]) t'" by (simp only: simp_thms)
    next
      have "?D ([] :: u8 list) = {}" by simp
      then show "?P [] (?p1, s)" by (simp only: fst_conv snd_conv simp_thms scanned_on_refl [OF ok1] pre(2))
    qed
    then have r: "scanned_on C (?D (counter 32)) ?p1 p'" "conf s' = C" by simp_all
    have "bus_done C p' b"
      using r(1) unfolding scanned_on_def bus_done_def by (auto simp: set_counter answers_def)
    have old: "\<not> pci_scanned_bus p (bus d)" if "\<not> pci_scanned_bus ?p1 (bus d) \<or> place d \<in> ?D (counter 32)" for d
      using that False by (auto simp: place_def split: if_splits)
    obtain ds where ds: "found p' = found p @ ds"
      "\<And>d. d \<in> set ds \<Longrightarrow> (\<not> pci_scanned_bus ?p1 (bus d) \<or> place d \<in> ?D (counter 32)) \<and> bridge_done p' d"
      using scanned_on_new [OF r(1)] unfolding f1 by blast
    have "\<not> pci_scanned_bus p (bus d) \<and> bridge_done p' d" if "d \<in> set ds" for d
      using ds(2) [OF that] old [OF conjunct1 [OF ds(2) [OF that]]] by (simp only: simp_thms)
    moreover have "pci_scanned_bus p x \<Longrightarrow> pci_scanned_bus p' x" "pci_scanned_bus p' x \<Longrightarrow> pci_scanned_bus p x \<or> bus_done C p' x" for x
      using r(1) \<open>bus_done C p' b\<close> by (auto simp: scanned_on_def split: if_splits)
    ultimately have "scanned_on C {} p p'"
      using ds(1) scanned_onD(1) [OF r(1)] unfolding scanned_on_def by blast
    with r scanned_onD(2) [OF r(1)] show ?thesis by simp
  qed
  then show ?case unfolding scan_ok_def by blast
qed (simp add: scan_ok_def)

section \<open>The scan returns\<close>

definition unscanned :: "pci \<Rightarrow> nat" where
  "unscanned p = card {b. \<not> pci_scanned_bus p b}"

definition scan_total :: "('s \<Rightarrow> u32 \<Rightarrow> u32) \<Rightarrow> (u32 \<Rightarrow> u32) \<Rightarrow> nat \<Rightarrow> (u8 \<Rightarrow> pci \<times> 's \<Rightarrow> (pci \<times> 's) option) \<Rightarrow> bool" where
  "scan_total conf C k scan \<longleftrightarrow> scan_ok conf C scan \<and>
     (\<forall>b p s. pci_ok C p \<and> conf s = C \<and> unscanned p \<le> k \<longrightarrow> (\<exists>r. scan b (p, s) = Some r))"

definition probes_total :: "('h \<Rightarrow> pci_device \<Rightarrow> 's \<Rightarrow> (u8 \<times> 's) option) \<Rightarrow> bool" where
  "probes_total run \<longleftrightarrow> (\<forall>h d s. run h d s \<noteq> None)"

text \<open>No bridge leads to the highest bus number.\<close>

definition bridges_bounded :: "(u32 \<Rightarrow> u32) \<Rightarrow> bool" where
  "bridges_bounded C \<longleftrightarrow> (\<forall>b sl f. answers C b sl f \<and> conf8 C b sl f 0x0E AND 0x7F = pci_header_type_pci_to_pci \<longrightarrow>
     conf8 C b sl f 0x1A \<noteq> 0xFF)"

lemma unscanned_mono: "scanned_on C D p p' \<Longrightarrow> unscanned p' \<le> unscanned p"
  unfolding unscanned_def by (rule card_mono) (auto simp: scanned_on_def)

lemma try_drivers_total: "probes_total run \<Longrightarrow> \<exists>r. try_drivers run d k es s = Some r"
proof (induction run d k es s rule: try_drivers.induct)
  case (2 run d k e es s)
  show ?case
  proof (cases "probe e")
    case (Some h)
    have "\<exists>c s'. run h d s = Some (c, s')" using 2(4) by (simp add: probes_total_def)
    then obtain c s' where "run h d s = Some (c, s')" by blast
    with Some 2 show ?thesis by simp
  qed (use 2 in simp)
qed simp

lemma nth_conf_header: "unat i < 64 \<Longrightarrow> conf_header C b sl f ! unat i = conf8 C b sl f i"
  by (simp add: conf_header_def counter_def)

lemma bus_loop_total:
  assumes "scan_total conf C k scan" "pci_ok C p" "conf s = C" "unscanned p \<le> k" "sub \<noteq> 255"
  shows "\<exists>r. bus_loop scan b sub (p, s) = Some r"
proof -
  let ?P = "\<lambda>ys t. pci_ok C (fst t) \<and> conf (snd t) = C \<and> unscanned (fst t) \<le> k"
  have "\<exists>t'. each scan (map of_nat [unat b..<unat sub + 1]) (p, s) = Some t' \<and> ?P (map of_nat [unat b..<unat sub + 1]) t'"
  proof (rule each_total)
    fix ys x zs t
    assume P: "?P ys t"
    with assms(1) obtain t' where t': "scan x (fst t, snd t) = Some (fst t', snd t')" unfolding scan_total_def by (metis prod.collapse)
    have "scanned_on C {} (fst t) (fst t') \<and> conf (snd t') = C"
      using assms(1) P t' unfolding scan_total_def scan_ok_def by blast
    with P t' unscanned_mono [of C "{}" "fst t" "fst t'"] scanned_onD(1) show "\<exists>t'. scan x t = Some t' \<and> ?P (ys @ [x]) t'"
      by (intro exI [of _ t']) (auto intro: order_trans)
  qed (use assms(2-4) in simp)
  then show ?thesis using bus_loop_each [OF assms(5)] by metis
qed

lemma register_device_total:
  assumes "scan_total conf C k scan" "pci_hardware io conf" "probes_total run" "bridges_bounded C" "conf s = C" "pci_ok C p"
    "answers C b sl f" "(b, sl, f) \<notin> place ` set (found p)" "pci_scanned_bus p b" "unscanned p \<le> k"
  shows "\<exists>r. pci_register_device io run es scan b sl f (p, s) = Some r"
proof (cases "PCI_MAX_DEVICES \<le> unat (pci_device_count p) \<or> pci_decoded p b sl f")
  case True
  then show ?thesis by (auto simp: pci_register_device_def)
next
  case False
  let ?n = "unat (pci_device_count p)"
  obtain p1 s1 where dd: "pci_decode_device io b sl f ?n (p\<lparr>pci_device_count := pci_device_count p + 1\<rparr>, s) = (p1, s1)"
    by fastforce
  from decode_ok [OF assms(2,5,6) _ assms(7-9) dd] False obtain d where
    d: "place d = (b, sl, f)" "device_ok C d" and ok1: "pci_ok C p1" "conf s1 = C"
    and sc1: "pci_scanned_bus p1 = pci_scanned_bus p" and dev1: "pci_devices p1 ! ?n = d"
    by auto
  have drv: "\<exists>r. pci_register_device_to_driver run es ?n t = Some r" for t
    using try_drivers_total [OF assms(3), of "pci_devices (fst t) ! ?n" 0 es "snd t"]
    by (auto simp: pci_register_device_to_driver_def split: prod.split option.split)
  have "\<exists>r. (if header_type d = pci_header_type_pci_to_pci
      then bus_loop scan (secondary_bus (type1 (header d))) (subordinate_bus (type1 (header d))) (p1, s1)
      else Some (p1, s1)) = Some r"
  proof (cases "header_type d = pci_header_type_pci_to_pci")
    case True
    have "header d = conf_header C b sl f" "conf8 C b sl f 0x0E AND 0x7F = pci_header_type_pci_to_pci"
      using d True by (simp_all add: device_ok_def place_def pci_header_type_pci_to_pci_def)
    then have "subordinate_bus (type1 (header d)) \<noteq> 255"
      using assms(4,7) nth_conf_header [of "0x1A" C b sl f] by (simp add: type1_def bridges_bounded_def)
    with True bus_loop_total [OF assms(1) ok1] assms(10) show ?thesis by (simp add: unscanned_def sc1)
  qed simp
  then show ?thesis
    using False dd dev1 drv by (auto simp: pci_register_device_def Let_def)
qed

lemma scan_function_total:
  assumes "scan_total conf C k scan" "pci_hardware io conf" "probes_total run" "bridges_bounded C" "conf s = C" "pci_ok C p"
    "unat sl < 32" "unat f < 8" "conf16 C b sl 0 0 \<noteq> 0xFFFF" "f = 0 \<or> conf8 C b sl 0 0x0E AND 0x80 \<noteq> 0"
    "(b, sl, f) \<notin> place ` set (found p)" "pci_scanned_bus p b" "unscanned p \<le> k"
  shows "\<exists>r. scan_function io (pci_register_device io run es scan) b sl f (p, s) = Some r"
proof -
  obtain v s1 where v: "pci_read16 io b sl f 0 s = (v, s1)" by fastforce
  from pci_read(2) [OF assms(2) v] assms(5) have c: "v = conf16 C b sl f 0" "conf s1 = C" by simp_all
  show ?thesis
  proof (cases "v = 0xFFFF")
    case False
    then have "answers C b sl f" using assms(7-10) c(1) by (simp add: answers_def)
    from register_device_total [OF assms(1-4) c(2) assms(6) this assms(11-13)] False v show ?thesis
      by (simp add: scan_function_def)
  qed (use v in \<open>simp add: scan_function_def\<close>)
qed

lemma scan_slot_total:
  assumes "scan_total conf C k scan" "pci_hardware io conf" "probes_ok conf run" "probes_total run" "bridges_bounded C"
    "conf s = C" "pci_ok C p" "unat sl < 32" "\<And>f. (b, sl, f) \<notin> place ` set (found p)" "pci_scanned_bus p b" "unscanned p \<le> k"
  shows "\<exists>r. scan_slot io (pci_register_device io run es scan) b sl (p, s) = Some r"
proof -
  obtain v s1 where v: "pci_read16 io b sl 0 0 s = (v, s1)" by fastforce
  from pci_read(2) [OF assms(2) v] assms(6) have c: "v = conf16 C b sl 0 0" "conf s1 = C" by simp_all
  obtain ht s2 where ht: "pci_read8 io b sl 0 0x0E s1 = (ht, s2)" by fastforce
  from pci_read(3) [OF assms(2) ht] c(2) have h: "ht = conf8 C b sl 0 0x0E" "conf s2 = C" by simp_all
  show ?thesis
  proof (cases "v = 0xFFFF")
    case False
    let ?n = "if ht AND 0x80 \<noteq> 0 then 8 else 1 :: nat"
    let ?f = "scan_function io (pci_register_device io run es scan) b sl"
    let ?P = "\<lambda>ys t. scanned_on C ({b} \<times> {sl} \<times> set ys) p (fst t) \<and> conf (snd t) = C"
    have ok: "scan_ok conf C scan" using assms(1) by (simp add: scan_total_def)
    have v0: "conf16 C b sl 0 0 \<noteq> 0xFFFF" using False c(1) by simp
    have "\<exists>t'. each ?f (counter ?n) (p, s2) = Some t' \<and> ?P (counter ?n) t'"
    proof (rule each_total)
      fix ys x zs t
      assume *: "counter ?n = ys @ x # zs" "?P ys t"
      have dist: "distinct (counter ?n)" and cset: "set (counter ?n) = {x. unat x < ?n}"
        by (intro distinct_counter set_counter, simp)+
      have "x \<in> set (counter ?n)" "x \<notin> set ys" using *(1) dist by simp_all
      then have x: "unat x < 8" "x = 0 \<or> conf8 C b sl 0 0x0E AND 0x80 \<noteq> 0" "(b, sl, x) \<notin> {b} \<times> {sl} \<times> set ys"
        using h(1) unfolding cset by (auto simp: word_unat_eq_iff split: if_splits)
      note on = conjunct1 [OF *(2)]
      have nf: "(b, sl, x) \<notin> place ` set (found (fst t))" "pci_scanned_bus (fst t) b"
        using not_found_yet [OF on assms(10) x(3) assms(9)] scanned_onD(2) [OF on assms(10)] by simp_all
      have "unscanned (fst t) \<le> k" using unscanned_mono [OF on] assms(11) by simp
      from scan_function_total [OF assms(1,2,4,5) conjunct2 [OF *(2)] scanned_onD(1) [OF on] assms(8) x(1) v0 x(2) nf this]
      obtain t' where t': "?f x t = Some t'" by (metis prod.collapse)
      from scan_function_ok [OF ok assms(2,3) conjunct2 [OF *(2)] scanned_onD(1) [OF on] assms(8) x(1) v0 x(2) nf,
          of es "fst t'" "snd t'"] t'
      have "scanned_on C {(b, sl, x)} (fst t) (fst t') \<and> conf (snd t') = C" by simp
      with scanned_on_trans [OF on _ assms(7)]
      have "scanned_on C ({b} \<times> {sl} \<times> set ys \<union> {(b, sl, x)}) p (fst t') \<and> conf (snd t') = C" by blast
      moreover have "{b} \<times> {sl} \<times> set ys \<union> {(b, sl, x)} = {b} \<times> {sl} \<times> set (ys @ [x])" by auto
      ultimately have "?P (ys @ [x]) t'" by (simp only: simp_thms)
      with t' show "\<exists>t'. ?f x t = Some t' \<and> ?P (ys @ [x]) t'" by blast
    qed (simp add: scanned_on_refl assms(7) h(2))
    then show ?thesis using v ht False by (auto simp: scan_slot_def)
  qed (use v in \<open>simp add: scan_slot_def\<close>)
qed

lemma scan_bus_total:
  assumes "pci_hardware io conf" "probes_ok conf run" "probes_total run" "bridges_bounded C"
  shows "scan_total conf C n (pci_scan_bus (Suc n) io run es)"
proof (induction n)
  case 0
  show ?case unfolding scan_total_def
  proof (intro conjI allI impI)
    fix b p s assume "pci_ok C p \<and> conf s = C \<and> unscanned p \<le> 0"
    then have "pci_scanned_bus p b" by (auto simp: unscanned_def)
    then show "\<exists>r. pci_scan_bus (Suc 0) io run es b (p, s) = Some r" by simp
  qed (rule scan_bus_ok [OF assms(1,2)])
next
  case (Suc n)
  let ?scan = "pci_scan_bus (Suc n) io run es"
  let ?slot = "\<lambda>b. scan_slot io (pci_register_device io run es ?scan) b"
  show ?case unfolding scan_total_def
  proof (intro conjI allI impI)
    fix b p s assume pre: "pci_ok C p \<and> conf s = C \<and> unscanned p \<le> Suc n"
    show "\<exists>r. pci_scan_bus (Suc (Suc n)) io run es b (p, s) = Some r"
    proof (cases "pci_scanned_bus p b")
      case False
      let ?p1 = "p\<lparr>pci_scanned_bus := (pci_scanned_bus p)(b := True)\<rparr>"
      have ok1: "pci_ok C ?p1" and f1: "found ?p1 = found p" using pre by (auto simp: pci_ok_def found_def)
      have "{x. \<not> pci_scanned_bus ?p1 x} = {x. \<not> pci_scanned_bus p x} - {b}" by auto
      then have "unscanned ?p1 = unscanned p - 1" using False by (simp add: unscanned_def card_Diff_singleton)
      with pre have u1: "unscanned ?p1 \<le> n" by linarith
      have new: "(b, sl, f) \<notin> place ` set (found ?p1)" for sl f
        using pre False unfolding f1 pci_ok_def by (auto simp: place_def)
      let ?P = "\<lambda>ys t. scanned_on C ({b} \<times> set ys \<times> (UNIV :: u8 set)) ?p1 (fst t) \<and> conf (snd t) = C"
      have "\<exists>t'. each (?slot b) (counter 32) (?p1, s) = Some t' \<and> ?P (counter 32) t'"
      proof (rule each_total)
        fix ys x zs t
        assume *: "counter 32 = ys @ x # zs" "?P ys t"
        have "x \<in> set (counter 32)" "x \<notin> set ys" using *(1) distinct_counter [of 32] by simp_all
        then have x: "unat x < 32" "\<And>f. (b, x, f) \<notin> {b} \<times> set ys \<times> UNIV" by (auto simp: set_counter)
        note on = conjunct1 [OF *(2)]
        have nf: "\<And>f. (b, x, f) \<notin> place ` set (found (fst t))" and sc: "pci_scanned_bus (fst t) b"
          using not_found_yet [OF on _ x(2) new] scanned_onD(2) [OF on] by simp_all
        have "unscanned (fst t) \<le> n" using unscanned_mono [OF on] u1 by simp
        from scan_slot_total [OF Suc assms conjunct2 [OF *(2)] scanned_onD(1) [OF on] x(1) nf sc this]
        obtain t' where t': "?slot b x t = Some t'" by (metis prod.collapse)
        then have "?slot b x (fst t, snd t) = Some (fst t', snd t')" by simp
        from scan_slot_ok [OF scan_bus_ok [OF assms(1,2)] assms(1,2) conjunct2 [OF *(2)] scanned_onD(1) [OF on] x(1) nf sc this]
        have "scanned_on C ({b} \<times> {x} \<times> UNIV) (fst t) (fst t') \<and> conf (snd t') = C" .
        with scanned_on_trans [OF on _ ok1]
        have "scanned_on C ({b} \<times> set ys \<times> UNIV \<union> {b} \<times> {x} \<times> UNIV) ?p1 (fst t') \<and> conf (snd t') = C" by blast
        moreover have "{b} \<times> set ys \<times> UNIV \<union> {b} \<times> {x} \<times> (UNIV :: u8 set) = {b} \<times> set (ys @ [x]) \<times> UNIV" by auto
        ultimately have "?P (ys @ [x]) t'" by (simp only: simp_thms)
        with t' show "\<exists>t'. ?slot b x t = Some t' \<and> ?P (ys @ [x]) t'" by blast
      next
        have "{b} \<times> set ([] :: u8 list) \<times> (UNIV :: u8 set) = {}" by simp
        then show "?P [] (?p1, s)" using pre by (simp only: fst_conv snd_conv simp_thms scanned_on_refl [OF ok1])
      qed
      then show ?thesis using False by (simp del: pci_scan_bus.simps add: pci_scan_bus.simps(2) [of "Suc n"]) blast
    qed simp
  qed (rule scan_bus_ok [OF assms(1,2)])
qed

section \<open>Addresses of registers\<close>

lemma make_address_fields:
  assumes "unat sl < 32" "unat f < 8"
  shows "(ucast (drop_bit 16 (pci_make_address b sl f off)) :: u8) = b"
    "(ucast (take_bit 5 (drop_bit 11 (pci_make_address b sl f off))) :: u8) = sl"
    "(ucast (take_bit 3 (drop_bit 8 (pci_make_address b sl f off))) :: u8) = f"
    "(ucast (pci_make_address b sl f off) :: u8) = off AND 0xFC"
proof -
  have m: "(0x1F :: u8) = mask 5" "(0x07 :: u8) = mask 3" by (simp_all add: mask_eq_exp_minus_1)
  have n: "(0xFC :: u8) = NOT (mask 2)" by (simp add: mask_eq_exp_minus_1)
  define z :: u32 where "z = 0x80000000"
  have z1: "z = push_bit 31 1" by (simp add: z_def)
  have z: "bit z k \<longleftrightarrow> k = 31" for k unfolding z1 bit_push_bit_iff bit_1_iff by auto
  have "take_bit 5 sl = sl" "take_bit 3 f = f"
    using assms by (simp_all add: word_unat_eq_iff unsigned_take_bit_eq take_bit_nat_eq_self_iff)
  then have b: "bit sl k \<Longrightarrow> k < 5" "bit f k \<Longrightarrow> k < 3" for k
    by (metis bit_take_bit_iff)+
  show "(ucast (drop_bit 16 (pci_make_address b sl f off)) :: u8) = b"
    "(ucast (take_bit 5 (drop_bit 11 (pci_make_address b sl f off))) :: u8) = sl"
    "(ucast (take_bit 3 (drop_bit 8 (pci_make_address b sl f off))) :: u8) = f"
    "(ucast (pci_make_address b sl f off) :: u8) = off AND 0xFC"
    unfolding pci_make_address_def m n z_def [symmetric]
    by (rule bit_word_eqI; auto simp: bit_simps z dest: b)+
qed

lemma make_address_inject:
  assumes "unat sl < 32" "unat f < 8" "unat sl' < 32" "unat f' < 8"
  shows "pci_make_address b sl f off = pci_make_address b' sl' f' off' \<longleftrightarrow>
    b = b' \<and> sl = sl' \<and> f = f' \<and> off AND 0xFC = off' AND 0xFC"
  (is "?a = ?a' \<longleftrightarrow> _")
proof
  assume eq: "?a = ?a'"
  show "b = b' \<and> sl = sl' \<and> f = f' \<and> off AND 0xFC = off' AND 0xFC"
    using make_address_fields [OF assms(1,2), of b off] make_address_fields [OF assms(3,4), of b' off']
    unfolding eq by simp
qed (simp add: pci_make_address_def)

text \<open>A machine whose ports are a latch and a table of registers.\<close>

definition witness_io :: "(u32 \<times> (u32 \<Rightarrow> u32)) io" where
  "witness_io = \<lparr>inportb = \<lambda>_ s. (0, s), outportb = \<lambda>_ _ s. s, inports = \<lambda>_ s. (0, s), outports = \<lambda>_ _ s. s,
     inportl = \<lambda>port (a, C). (if port = PCI_CONFIG_DATA then C a else 0, (a, C)),
     outportl = \<lambda>port v (a, C). if port = PCI_CONFIG_ADDRESS then (v, C)
       else if port = PCI_CONFIG_DATA then (a, C(a := v)) else (a, C)\<rparr>"

lemma witness_hardware: "pci_hardware witness_io snd"
  by (auto simp: pci_hardware_def witness_io_def PCI_CONFIG_ADDRESS_def PCI_CONFIG_DATA_def)

text \<open>One function, at slot 0 of bus 0: a device, or a bridge to the buses 1 to 255.\<close>

definition witness_function :: "bool \<Rightarrow> u32 \<Rightarrow> u32" where
  "witness_function bridge a =
     (if a = 0x80000000 then 0x70108086
      else if a = 0x8000000C then (if bridge then 0x00010000 else 0)
      else if a = 0x80000018 then 0x00FF0100 else 0xFFFFFFFF)"

lemma witness_function_conf:
  "conf16 (witness_function br) 0 0 0 0 = 0x8086"
  "conf8 (witness_function br) 0 0 0 0x0E = (if br then 1 else 0)"
  "conf8 (witness_function True) 0 0 0 0x1A = 0xFF"
  by (simp_all add: conf16_def conf8_def conf32_def pci_make_address_def witness_function_def)

lemma witness_function_answers: "answers (witness_function br) b sl f \<longleftrightarrow> (b, sl, f) = (0, 0, 0)"
proof
  assume a: "answers (witness_function br) b sl f"
  then have l: "unat sl < 32" "unat f < 8" by (simp_all add: answers_def)
  have z: "unat (0 :: u8) < 32" "unat (0 :: u8) < 8" by simp_all
  have ne: "pci_make_address b sl f 0 \<noteq> 0x8000000C" "pci_make_address b sl f 0 \<noteq> 0x80000018"
    using make_address_fields(4) [OF l, of b 0] by auto
  have "pci_make_address b sl f 0 = 0x80000000"
  proof (rule ccontr)
    assume "pci_make_address b sl f 0 \<noteq> 0x80000000"
    with ne have "conf32 (witness_function br) b sl f 0 = 0xFFFFFFFF" by (simp add: conf32_def witness_function_def)
    then show False using a by (simp add: answers_def conf16_def)
  qed
  then show "(b, sl, f) = (0, 0, 0)"
    using make_address_inject [OF l z, of b 0 0 0] by (simp add: pci_make_address_def)
next
  assume "(b, sl, f) = (0, 0, 0)"
  then show "answers (witness_function br) b sl f" by (simp add: answers_def witness_function_conf)
qed

section \<open>Properties\<close>

lemma pci_start_ok: "pci_ok C pci_start" "found pci_start = []" "unscanned pci_start = 256"
proof -
  have "card (UNIV :: u8 set) = 256" by (simp add: card_word)
  then show "unscanned pci_start = 256" by (simp add: unscanned_def pci_start_def)
qed (simp_all add: pci_ok_def found_def pci_start_def PCI_MAX_DEVICES_def)

lemma not_full:
  assumes "pci_ok C p" "card {(b, sl, f). answers C b sl f} < PCI_MAX_DEVICES"
  shows "\<not> pci_full p"
proof
  assume "pci_full p"
  then have "length (found p) = PCI_MAX_DEVICES" using length_found [OF assms(1)] by (simp add: pci_full_def)
  moreover have "distinct (map place (found p))" using assms(1) by (simp add: pci_ok_def)
  ultimately have "card (set (map place (found p))) = PCI_MAX_DEVICES" using distinct_card by fastforce
  moreover have "set (map place (found p)) \<subseteq> {(b, sl, f). answers C b sl f}"
    using assms(1) by (auto simp: pci_ok_def device_ok_def place_def)
  ultimately have "PCI_MAX_DEVICES \<le> card {(b, sl, f). answers C b sl f}" using card_mono by (metis finite)
  with assms(2) show False by simp
qed

lemma scan_finds:
  assumes "pci_hardware io conf" "probes_ok conf run" "pci_scan_bus n io run es 0 (pci_start, s) = Some (p, s')"
  shows "distinct (map place (found p)) \<and> pci_scanned_bus p 0 \<and>
    (\<forall>d \<in> set (found p). device_ok (conf s) d \<and> pci_scanned_bus p (bus d) \<and> bridge_done p d) \<and>
    (\<forall>b sl f. pci_scanned_bus p b \<and> answers (conf s) b sl f \<longrightarrow> (b, sl, f) \<in> place ` set (found p) \<or> pci_full p)"
proof -
  from scan_bus_ok [OF assms(1,2), of "conf s" n es] assms(3) pci_start_ok(1)
  have r: "scanned_on (conf s) {} pci_start p" "pci_scanned_bus p 0" unfolding scan_ok_def by blast+
  obtain ds where "found p = ds" "\<And>d. d \<in> set ds \<Longrightarrow> bridge_done p d"
    using scanned_on_new [OF r(1)] pci_start_ok(2) by (metis append_Nil)
  moreover have "pci_ok (conf s) p" using r(1) by (rule scanned_onD(1))
  moreover have "bus_done (conf s) p b" if "pci_scanned_bus p b" for b
    using r(1) that by (auto simp: scanned_on_def pci_start_def)
  ultimately show ?thesis using r(2) unfolding pci_ok_def bus_done_def by blast
qed

text \<open>
  C27: A scan of bus 0 that returns leaves a table of distinct devices, each a function that answers on a
  bus that was scanned, with its header as configuration space has it. Every bus behind a bridge in the
  table was scanned, and, unless the table is full, every function that answers on a scanned bus is in
  the table.
\<close>

theorem pci_scan_finds_every_function:
  assumes "pci_hardware io conf" "probes_ok conf run" "pci_scan_bus n io run es 0 (pci_start, s) = Some (p, s')"
  shows "distinct (map place (found p)) \<and> pci_scanned_bus p 0 \<and>
    (\<forall>d \<in> set (found p). device_ok (conf s) d \<and> pci_scanned_bus p (bus d) \<and> bridge_done p d) \<and>
    (\<forall>b sl f. pci_scanned_bus p b \<and> answers (conf s) b sl f \<longrightarrow> (b, sl, f) \<in> place ` set (found p) \<or> pci_full p)"
  by (rule scan_finds [OF assms])

lemma scan_returns:
  assumes "pci_hardware io conf" "probes_ok conf run" "probes_total run" "bridges_bounded (conf s)"
  shows "\<exists>p s'. pci_scan_bus 257 io run es 0 (pci_start, s) = Some (p, s')"
proof -
  have "scan_total conf (conf s) 256 (pci_scan_bus (Suc 256) io run es)" by (rule scan_bus_total [OF assms])
  then have "\<exists>r. pci_scan_bus (Suc 256) io run es 0 (pci_start, s) = Some r"
    using pci_start_ok unfolding scan_total_def by (metis order_refl)
  then show ?thesis by (simp del: pci_scan_bus.simps)
qed

text \<open>
  C28: The scan returns when no bridge names 255 as its last bus and the probes of the drivers return:
  nested 257 deep, scans of buses already scanned included.
\<close>

theorem pci_scan_returns:
  assumes "pci_hardware io conf" "probes_ok conf run" "probes_total run" "bridges_bounded (conf s)"
  shows "\<exists>p s'. pci_scan_bus 257 io run es 0 (pci_start, s) = Some (p, s')"
  by (rule scan_returns [OF assms])

definition no_probe :: "unit \<Rightarrow> pci_device \<Rightarrow> 's \<Rightarrow> (u8 \<times> 's) option" where
  "no_probe h d s = Some (1, s)"

lemma no_probe_ok: "probes_ok conf no_probe" "probes_total no_probe"
  by (simp_all add: probes_ok_def probes_total_def no_probe_def)

lemma witness_bounded: "bridges_bounded (witness_function False)"
  by (simp add: bridges_bounded_def witness_function_answers witness_function_conf pci_header_type_pci_to_pci_def)

lemma witness_card: "card {(b, sl, f). answers (witness_function br) b sl f} < PCI_MAX_DEVICES"
proof -
  have "{(b, sl, f). answers (witness_function br) b sl f} = {(0, 0, 0)}" using witness_function_answers by auto
  then show ?thesis by (simp add: PCI_MAX_DEVICES_def)
qed

theorem pci_scan_returns_witness:
  "\<exists>p s'. pci_scan_bus 257 witness_io no_probe [] 0 (pci_start, (0, witness_function False)) = Some (p, s')"
  using pci_scan_returns [OF witness_hardware no_probe_ok, of "(0, witness_function False)" "[]"] witness_bounded by simp

theorem pci_scan_finds_every_function_witness:
  "\<exists>p s'. pci_scan_bus 257 witness_io no_probe [] 0 (pci_start, (0, witness_function False)) = Some (p, s') \<and>
     (0, 0, 0) \<in> place ` set (found p)"
proof -
  let ?s = "(0, witness_function False) :: u32 \<times> (u32 \<Rightarrow> u32)"
  have "scan_total snd (snd ?s) 256 (pci_scan_bus (Suc 256) witness_io no_probe [])"
    by (rule scan_bus_total [OF witness_hardware no_probe_ok]) (simp add: witness_bounded)
  then have "\<exists>r. pci_scan_bus (Suc 256) witness_io no_probe [] 0 (pci_start, ?s) = Some r"
    using pci_start_ok unfolding scan_total_def by (metis order_refl)
  then obtain p s' where r: "pci_scan_bus 257 witness_io no_probe [] 0 (pci_start, ?s) = Some (p, s')"
    by (auto simp del: pci_scan_bus.simps)
  from scan_bus_ok [OF witness_hardware no_probe_ok(1), of "snd ?s" 257 "[]"] r pci_start_ok(1)
  have "scanned_on (snd ?s) {} pci_start p" unfolding scan_ok_def by blast
  then have "\<not> pci_full p" using not_full [OF scanned_onD(1)] witness_card [of False] by simp
  with pci_scan_finds_every_function [OF witness_hardware no_probe_ok(1) r] r show ?thesis
    by (auto simp: witness_function_answers simp del: pci_scan_bus.simps)
qed

text \<open>
  A bridge on bus 0 that names 255 as its last bus keeps the scan from ever returning, when the table has
  room for all functions of the machine: the loop counter of the buses behind it is a byte.
\<close>

theorem pci_bridge_to_last_bus_never_returns:
  assumes "pci_hardware io conf" "probes_ok conf run" "answers (conf s) 0 sl f"
    "conf8 (conf s) 0 sl f 0x0E AND 0x7F = pci_header_type_pci_to_pci" "conf8 (conf s) 0 sl f 0x1A = 0xFF"
    "card {(b, sl, f). answers (conf s) b sl f} < PCI_MAX_DEVICES"
  shows "pci_scan_bus n io run es 0 (pci_start, s) = None"
proof (rule ccontr)
  assume "pci_scan_bus n io run es 0 (pci_start, s) \<noteq> None"
  then obtain p s' where r: "pci_scan_bus n io run es 0 (pci_start, s) = Some (p, s')" by auto
  from scan_bus_ok [OF assms(1,2), of "conf s" n es] r pci_start_ok(1)
  have on: "scanned_on (conf s) {} pci_start p" "pci_scanned_bus p 0" unfolding scan_ok_def by blast+
  have nf: "\<not> pci_full p" by (rule not_full [OF scanned_onD(1) [OF on(1)] assms(6)])
  have "bus_done (conf s) p 0" using on by (auto simp: scanned_on_def pci_start_def)
  then have "(0, sl, f) \<in> place ` set (found p)" using assms(3) nf by (simp add: bus_done_def)
  then obtain d where d: "d \<in> set (found p)" "place d = (0, sl, f)" by fastforce
  have dev: "device_ok (conf s) d" using scanned_onD(1) [OF on(1)] d(1) by (simp add: pci_ok_def)
  have "bridge_done p d" using scanned_on_new [OF on(1)] d(1) pci_start_ok(2) by (metis append_Nil)
  moreover have "header_type d = pci_header_type_pci_to_pci" "header d = conf_header (conf s) 0 sl f"
    using dev d(2) assms(4) by (simp_all add: device_ok_def place_def pci_header_type_pci_to_pci_def)
  ultimately show False
    using assms(5) nth_conf_header [of "0x1A" "conf s" 0 sl f] by (simp add: bridge_done_def type1_def)
qed

theorem pci_bridge_to_last_bus_never_returns_witness:
  "pci_scan_bus 1000 witness_io no_probe [] 0 (pci_start, (0, witness_function True)) = None"
  by (rule pci_bridge_to_last_bus_never_returns [OF witness_hardware no_probe_ok(1), where sl = 0 and f = 0])
    (simp_all add: witness_function_answers witness_function_conf witness_card pci_header_type_pci_to_pci_def
      PCI_MAX_DEVICES_def)

section \<open>The structures and configuration space agree\<close>

lemma le16_conf_header:
  assumes "i < 63" "even i"
  shows "le16 (conf_header C b sl f) i = conf16 C b sl f (of_nat i)"
proof -
  define k j where "k = i div 4" and "j = i mod 4"
  have kj: "i = 4 * k + j" "k < 16" "j = 0 \<or> j = 2" using assms unfolding k_def j_def by presburger+
  let ?v = "conf32 C b sl f (of_nat (4 * k))"
  have off: "(of_nat i :: u8) AND 3 = of_nat j" "conf32 C b sl f (of_nat i) = ?v"
    using offset_parts [of i] assms(1) kj by (auto simp: conf32_def pci_make_address_def)
  have two: "(of_nat i :: u8) AND 2 = of_nat j"
  proof -
    have "(of_nat i :: u8) AND 2 = (of_nat i AND 3) AND 2" by (simp add: and.assoc)
    then show ?thesis using off(1) kj(3) by auto
  qed
  have b: "conf_header C b sl f ! (4 * k + m) = ucast (drop_bit (8 * m) ?v)" if "m < 4" for m
    using that kj(2) conf8_byte [OF kj(2) that, of C b sl f] by (simp add: conf_header_def counter_def)
  have ff: "(0xFFFF :: u32) = mask 16" by (simp add: mask_eq_exp_minus_1)
  have sh: "unat (of_nat j :: u8) = j" using kj(3) by auto
  have "le16 (conf_header C b sl f) i = ucast (ucast (drop_bit (8 * j) ?v) :: u8) OR push_bit 8 (ucast (ucast (drop_bit (8 * Suc j) ?v) :: u8))"
    using b [of j] b [of "Suc j"] kj(1,3) by (auto simp: le16_def)
  also have "\<dots> = ucast (drop_bit (8 * j) ?v AND 0xFFFF)"
    unfolding ff using kj(3) by (intro bit_word_eqI) (auto simp: bit_simps)
  also have "\<dots> = conf16 C b sl f (of_nat i)" unfolding conf16_def two off(2) sh by (simp add: mult.commute)
  finally show ?thesis .
qed

lemma le32_conf_header:
  assumes "k < 16"
  shows "le32 (conf_header C b sl f) (4 * k) = conf32 C b sl f (of_nat (4 * k))"
proof -
  let ?v = "conf32 C b sl f (of_nat (4 * k))"
  have b: "conf_header C b sl f ! (4 * k + m) = ucast (drop_bit (8 * m) ?v)" if "m < 4" for m
    using that assms conf8_byte [OF assms that, of C b sl f] by (simp add: conf_header_def counter_def)
  have "le32 (conf_header C b sl f) (4 * k) = ucast (ucast ?v :: u8) OR push_bit 8 (ucast (ucast (drop_bit 8 ?v) :: u8)) OR
      push_bit 16 (ucast (ucast (drop_bit 16 ?v) :: u8)) OR push_bit 24 (ucast (ucast (drop_bit 24 ?v) :: u8))"
    using b [of 0] b [of 1] b [of 2] b [of 3] by (simp add: le32_def)
  also have "\<dots> = ?v"
  proof (rule bit_word_eqI)
    fix n
    show "bit (ucast (ucast ?v :: u8) OR push_bit 8 (ucast (ucast (drop_bit 8 ?v) :: u8)) OR
        push_bit 16 (ucast (ucast (drop_bit 16 ?v) :: u8)) OR push_bit 24 (ucast (ucast (drop_bit 24 ?v) :: u8)) :: u32) n = bit ?v n"
      if "n < LENGTH(32)"
      using that by (cases "n < 16"; cases "n < 24") (auto simp: bit_simps)
  qed
  finally show ?thesis .
qed

text \<open>
  The header the driver stores agrees with the configuration accesses: every field of the common part is what
  \<open>pci_read8\<close> or \<open>pci_read16\<close> read at the offset its comment gives, the base address registers are the double words from
  0x10, and the bus numbers of a bridge are the bytes 0x18 to 0x1A.
\<close>

theorem pci_header_fields:
  assumes "pci_hardware io conf" "length h = 64"
    "pci_read_config_block io b sl f sizeof_pci_header (h, s) = (h', s')"
  shows "common h' = \<lparr>vendor_id = conf16 (conf s) b sl f 0x00, device_id = conf16 (conf s) b sl f 0x02,
      command = conf16 (conf s) b sl f 0x04, pci_status = conf16 (conf s) b sl f 0x06,
      rev_id = conf8 (conf s) b sl f 0x08, prog_if = conf8 (conf s) b sl f 0x09,
      subclass_code = conf8 (conf s) b sl f 0x0A, class_code = conf8 (conf s) b sl f 0x0B,
      cache_line_size = conf8 (conf s) b sl f 0x0C, latency_timer = conf8 (conf s) b sl f 0x0D,
      header_kind = conf8 (conf s) b sl f 0x0E, BIST = conf8 (conf s) b sl f 0x0F\<rparr> \<and>
    (\<forall>i < 6. t0_BAR (type0 h') ! i = conf32 (conf s) b sl f (of_nat (0x10 + 4 * i))) \<and>
    (\<forall>i < 2. t1_BAR (type1 h') ! i = conf32 (conf s) b sl f (of_nat (0x10 + 4 * i))) \<and>
    primary_bus (type1 h') = conf8 (conf s) b sl f 0x18 \<and> secondary_bus (type1 h') = conf8 (conf s) b sl f 0x19 \<and>
    subordinate_bus (type1 h') = conf8 (conf s) b sl f 0x1A \<and> conf s' = conf s"
proof -
  let ?h = "conf_header (conf s) b sl f"
  have h: "h' = ?h" "conf s' = conf s" using config_block [OF assms] by simp_all
  have byte: "?h ! i = conf8 (conf s) b sl f (of_nat i)" if "i < 64" for i
    using that by (simp add: conf_header_def counter_def)
  have bar: "le32 ?h (0x10 + 4 * i) = conf32 (conf s) b sl f (of_nat (0x10 + 4 * i))" if "i < 6" for i
    using le32_conf_header [of "4 + i" "conf s" b sl f] that by (simp add: algebra_simps)
  show ?thesis
    using byte [of 8] byte [of 9] byte [of 10] byte [of 11] byte [of 12] byte [of 13] byte [of 14] byte [of 15]
      byte [of 24] byte [of 25] byte [of 26] bar le16_conf_header [of 0 "conf s" b sl f] le16_conf_header [of 2 "conf s" b sl f]
      le16_conf_header [of 4 "conf s" b sl f] le16_conf_header [of 6 "conf s" b sl f] h(2)
    unfolding h(1) by (simp add: common_def type0_def type1_def)
qed

theorem pci_header_fields_witness:
  "\<exists>h' s'. pci_read_config_block witness_io 0 0 0 sizeof_pci_header (replicate 64 0, (0, witness_function False)) = (h', s') \<and>
     vendor_id (common h') = 0x8086 \<and> device_id (common h') = 0x7010"
proof -
  obtain h' s' where r: "pci_read_config_block witness_io 0 0 0 sizeof_pci_header (replicate 64 0, (0, witness_function False)) = (h', s')"
    by (meson surj_pair)
  have d: "conf16 (witness_function False) 0 0 0 2 = 0x7010"
    by (simp add: conf16_def conf32_def pci_make_address_def witness_function_def)
  from pci_header_fields [OF witness_hardware _ r] r show ?thesis by (simp add: witness_function_conf d)
qed

section \<open>Writes to configuration space\<close>

text \<open>
  What a register of a function does with a written value: the bits of the mask \<open>rw\<close> take it, the bits of the
  mask \<open>wc\<close> are cleared by writing 1 (like the error bits of the status register, which shares a register with the
  command), and all other bits are read-only. No access changes another register.
\<close>

definition register_write :: "u32 \<Rightarrow> u32 \<Rightarrow> u32 \<Rightarrow> u32 \<Rightarrow> u32" where
  "register_write rw wc old v = (old AND NOT rw AND NOT (wc AND v)) OR (v AND rw)"

definition pci_registers :: "'s io \<Rightarrow> ('s \<Rightarrow> u32 \<Rightarrow> u32) \<Rightarrow> (u32 \<Rightarrow> u32) \<Rightarrow> (u32 \<Rightarrow> u32) \<Rightarrow> bool" where
  "pci_registers io conf rw wc \<longleftrightarrow> pci_hardware io conf \<and> (\<forall>a. rw a AND wc a = 0) \<and>
     (\<forall>a v s. conf (outportl io PCI_CONFIG_DATA v (outportl io PCI_CONFIG_ADDRESS a s)) =
        (conf s)(a := register_write (rw a) (wc a) (conf s a) v))"

lemma byte_replaced:
  fixes x :: u32 and v :: u8
  assumes "j < 4" "k < 4"
  shows "ucast (drop_bit (k * 8) ((x AND NOT (push_bit (j * 8) 0xFF)) OR push_bit (j * 8) (ucast v))) =
    (if k = j then v else ucast (drop_bit (k * 8) x))"
proof -
  have ff: "(0xFF :: u32) = mask 8" by (simp add: mask_eq_exp_minus_1)
  have "k * 8 + 8 \<le> j * 8 \<or> j * 8 + 8 \<le> k * 8 \<or> k = j" by linarith
  then show ?thesis unfolding ff using assms
    by (intro bit_word_eqI) (auto simp: bit_simps dest: bit_imp_le_length)
qed

text \<open>The byte \<open>k\<close> of a register, and of what a write leaves in it.\<close>

definition byte_of :: "nat \<Rightarrow> u32 \<Rightarrow> u8" where "byte_of k x = ucast (drop_bit (k * 8) x)"

lemma conf8_byte_of: "conf8 C b sl f off = byte_of (unat (off AND 3)) (C (pci_make_address b sl f off))"
  by (simp add: conf8_def conf32_def byte_of_def low_byte)

lemma byte_of_write:
  assumes "k < 4"
  shows "byte_of k (register_write rw wc old v) =
    (byte_of k old AND NOT (byte_of k rw) AND NOT (byte_of k wc AND byte_of k v)) OR (byte_of k v AND byte_of k rw)"
  using assms unfolding byte_of_def register_write_def
  by (intro bit_word_eqI) (auto simp: bit_simps dest: bit_imp_le_length)

lemma byte_of_disjoint: "rw AND wc = 0 \<Longrightarrow> byte_of k rw AND byte_of k wc = 0"
proof -
  assume "rw AND wc = 0"
  then have "\<not> (bit rw n \<and> bit wc n)" for n by (metis bit_and_iff bit_0_eq bot_apply bot_bool_def)
  then show ?thesis unfolding byte_of_def by (intro bit_word_eqI) (auto simp: bit_simps)
qed

text \<open>A byte that is written back unchanged loses the bits that writing 1 clears.\<close>

lemma write_back:
  fixes x r w :: u8
  assumes "r AND w = 0"
  shows "(x AND NOT r AND NOT (w AND x)) OR (x AND r) = x AND NOT w"
proof -
  have "\<not> (bit r n \<and> bit w n)" for n using assms by (metis bit_and_iff bit_0_eq bot_apply bot_bool_def)
  then show ?thesis by (intro bit_word_eqI) (auto simp: bit_simps)
qed

text \<open>
  C40: On registers whose bits are read-only, writable or cleared by writing 1, writing a byte of configuration space sets
  the writable bits of that byte to the data and clears the bits of the byte that are cleared by the data's ones. Because the other
  three bytes of its register are read and written back, every set bit of theirs that is cleared by writing 1 is
  cleared as well; all else in them, and every other register of every function, stays.
\<close>

theorem pci_write8_bits:
  assumes "pci_registers io conf rw wc" "unat sl < 32" "unat f < 8" "unat sl' < 32" "unat f' < 8"
    "old = conf8 (conf s) b' sl' f' off'" "R = conf8 rw b' sl' f' off'" "W = conf8 wc b' sl' f' off'"
  shows "conf8 (conf (pci_write8 io b sl f off v s)) b' sl' f' off' =
    (if (b', sl', f', off') = (b, sl, f, off) then (old AND NOT R AND NOT (W AND v)) OR (v AND R)
     else if (b', sl', f', off' AND 0xFC) = (b, sl, f, off AND 0xFC) then old AND NOT W
     else old)"
proof -
  obtain x s1 where x: "pci_read32 io b sl f off s = (x, s1)" by fastforce
  have hw: "pci_hardware io conf" and dis: "\<And>a. rw a AND wc a = 0" using assms(1) by (simp_all add: pci_registers_def)
  let ?a = "pci_make_address b sl f off"
  let ?k = "unat (off AND 3)" and ?k' = "unat (off' AND 3)"
  from pci_read(1) [OF hw x] have c: "x = conf s ?a" "conf s1 = conf s" by (simp_all add: conf32_def)
  let ?x = "(x AND NOT (push_bit (?k * 8) 0xFF)) OR push_bit (?k * 8) (ucast v)"
  have w: "conf (pci_write8 io b sl f off v s) = (conf s)(?a := register_write (rw ?a) (wc ?a) x ?x)"
    using assms(1) x c by (simp add: pci_write8_def pci_write32_def pci_registers_def Let_def)
  have ff: "(0xFF :: u32) = mask 8" "(3 :: u8) = mask 2" "(0xFC :: u8) = NOT (mask 2)" by (simp_all add: mask_eq_exp_minus_1)
  have lt: "unat (z AND 3) < 4" for z :: u8
  proof -
    have "unat (z AND 3) = take_bit 2 (unat z)" unfolding ff(2) by (simp add: take_bit_eq_mask [symmetric] unsigned_take_bit_eq)
    then show ?thesis by (simp add: take_bit_eq_mod)
  qed
  have split: "off' = off \<longleftrightarrow> off' AND 0xFC = off AND 0xFC \<and> off' AND 3 = off AND 3"
  proof
    assume e: "off' AND 0xFC = off AND 0xFC \<and> off' AND 3 = off AND 3"
    have "z = (z AND 0xFC) OR (z AND 3)" for z :: u8 unfolding ff by (rule bit_word_eqI) (auto simp: bit_simps)
    from this [of off'] this [of off] e show "off' = off" by simp
  qed simp
  show ?thesis
  proof (cases "(b', sl', f') = (b, sl, f) \<and> off' AND 0xFC = off AND 0xFC")
    case False
    then have "pci_make_address b' sl' f' off' \<noteq> ?a" using make_address_inject [OF assms(4,5,2,3)] by auto
    then have "conf8 (conf (pci_write8 io b sl f off v s)) b' sl' f' off' = old"
      by (simp add: assms(6) conf8_def conf32_def w)
    then show ?thesis using False split by auto
  next
    case True
    then have a: "pci_make_address b' sl' f' off' = ?a" using make_address_inject [OF assms(4,5,2,3)] by auto
    have o: "old = byte_of ?k' x" "R = byte_of ?k' (rw ?a)" "W = byte_of ?k' (wc ?a)"
      by (simp_all add: assms(6-8) conf8_byte_of a c(1))
    have "byte_of ?k' ?x = (if ?k' = ?k then v else old)"
      using byte_replaced [OF lt [of off] lt [of off'], of x v] by (simp add: byte_of_def o(1))
    then have "conf8 (conf (pci_write8 io b sl f off v s)) b' sl' f' off' =
        (let y = if ?k' = ?k then v else old in (old AND NOT R AND NOT (W AND y)) OR (y AND R))"
      by (simp add: conf8_byte_of a w byte_of_write [OF lt] o Let_def)
    moreover have "(old AND NOT R AND NOT (W AND old)) OR (old AND R) = old AND NOT W"
      by (rule write_back) (simp add: o byte_of_disjoint dis)
    ultimately show ?thesis using True split by (auto simp: word_unat_eq_iff)
  qed
qed

text \<open>
  A machine whose registers have a writable low half and, above it, bits cleared by writing 1. Writing the command
  (offset 4) clears the error bits of the status (offsets 6 and 7).
\<close>

definition register_io :: "(u32 \<times> (u32 \<Rightarrow> u32)) io" where
  "register_io = witness_io\<lparr>outportl := \<lambda>port v (a, C). if port = PCI_CONFIG_ADDRESS then (v, C)
       else if port = PCI_CONFIG_DATA then (a, C(a := register_write 0x0000FFFF 0xF9000000 (C a) v)) else (a, C)\<rparr>"

lemma register_io: "pci_registers register_io snd (\<lambda>_. 0x0000FFFF) (\<lambda>_. 0xF9000000)"
  by (auto simp: pci_registers_def pci_hardware_def register_io_def witness_io_def PCI_CONFIG_ADDRESS_def PCI_CONFIG_DATA_def)

theorem pci_write8_bits_witness:
  "let s = (0, \<lambda>_. 0x80900005); s' = pci_write8 register_io 0 3 1 4 7 s
   in conf8 (snd s) 0 3 1 7 = 0x80 \<and> conf8 (snd s') 0 3 1 4 = 7 \<and> conf8 (snd s') 0 3 1 6 = 0x90 \<and> conf8 (snd s') 0 3 1 7 = 0"
  unfolding Let_def
  by (subst pci_write8_bits [OF register_io _ _ _ _ refl refl refl], simp_all)+
    (simp_all add: conf8_def conf32_def)

end
