(* ===== verification/Trim.thy ===== *)
theory Trim
  imports CString
begin

text \<open>
  What \<open>trim\<close> of src/include/string.h does to a string: the blanks at both ends go, in place.
\<close>

text \<open>A list without the blanks at its ends.\<close>

definition strip :: "u8 list \<Rightarrow> u8 list" where
  "strip xs = rev (dropWhile blank (rev (dropWhile blank xs)))"

lemma trim_start_cstr:
  assumes "cstr m p xs" "n \<le> length (takeWhile blank xs)"
  shows "trim_start m p n = Some (length (takeWhile blank xs))"
  using assms(2)
proof (induction "length (takeWhile blank xs) - n" arbitrary: n)
  case 0
  then have n: "n = length (takeWhile blank xs)" by simp
  have "\<not> blank (m (p + of_nat n))"
  proof (cases "n < length xs")
    case True
    then have "\<not> blank (xs ! n)" using nth_length_takeWhile [of blank xs] n by simp
    then show ?thesis using True assms(1) by (simp add: cstr_nth)
  next
    case False
    then have "n = length xs" using n length_takeWhile_le [of blank xs] by simp
    then show ?thesis using assms(1) by (simp add: cstr_nth blank_def)
  qed
  then show ?case using n by (subst trim_start.simps) simp
next
  case (Suc k)
  then have lt: "n < length (takeWhile blank xs)" by simp
  then have "n < length xs" using length_takeWhile_le [of blank xs] by simp
  moreover have "blank (xs ! n)" using lt takeWhile_nth [OF lt] nth_mem [OF lt] set_takeWhileD by fastforce
  ultimately have "blank (m (p + of_nat n))" using assms(1) by (simp add: cstr_nth)
  then show ?case using Suc lt by (subst trim_start.simps) simp
qed

lemma trim_end_spec:
  assumes "start \<le> l"
  shows "start \<le> trim_end m p start l" "trim_end m p start l \<le> l"
    "\<forall>i. trim_end m p start l \<le> i \<and> i < l \<longrightarrow> blank (m (p + of_nat i))"
    "start < trim_end m p start l \<Longrightarrow> \<not> blank (m (p + of_nat (trim_end m p start l - 1)))"
proof -
  have "start \<le> trim_end m p start l \<and> trim_end m p start l \<le> l \<and>
      (\<forall>i. trim_end m p start l \<le> i \<and> i < l \<longrightarrow> blank (m (p + of_nat i))) \<and>
      (start < trim_end m p start l \<longrightarrow> \<not> blank (m (p + of_nat (trim_end m p start l - 1))))"
    using assms
  proof (induction l)
    case (Suc l)
    show ?case
    proof (cases "start \<le> l \<and> blank (m (p + of_nat l))")
      case True
      with Suc show ?thesis by (auto simp: less_Suc_eq)
    next
      case False
      then have "trim_end m p start (Suc l) = Suc l" by auto
      with False Suc.prems show ?thesis by (auto simp: le_Suc_eq)
    qed
  qed simp
  then show "start \<le> trim_end m p start l" "trim_end m p start l \<le> l"
    "\<forall>i. trim_end m p start l \<le> i \<and> i < l \<longrightarrow> blank (m (p + of_nat i))"
    "start < trim_end m p start l \<Longrightarrow> \<not> blank (m (p + of_nat (trim_end m p start l - 1)))" by blast+
qed

lemma strip_take:
  assumes "s = length (takeWhile blank xs)" "s \<le> e" "e \<le> length xs"
    "\<And>i. e \<le> i \<Longrightarrow> i < length xs \<Longrightarrow> blank (xs ! i)" "s < e \<Longrightarrow> \<not> blank (xs ! (e - 1))"
  shows "strip xs = take (e - s) (drop s xs)"
proof -
  let ?ys = "drop s xs"
  have ys: "dropWhile blank xs = ?ys" using assms(1) by (simp add: dropWhile_eq_drop)
  have "?ys = take (e - s) ?ys @ drop (e - s) ?ys" by (rule append_take_drop_id [symmetric])
  then have r: "rev ?ys = rev (drop (e - s) ?ys) @ rev (take (e - s) ?ys)" by (metis rev_append)
  have b: "\<And>x. x \<in> set (rev (drop (e - s) ?ys)) \<Longrightarrow> blank x"
    using assms(2-4) by (auto simp: in_set_conv_nth)
  have "dropWhile blank (rev ?ys) = dropWhile blank (rev (take (e - s) ?ys))"
    unfolding r by (rule dropWhile_append2 [OF b])
  also have "\<dots> = rev (take (e - s) ?ys)"
  proof (cases "s < e")
    case True
    then have "take (e - s) ?ys = take (e - s - 1) ?ys @ [xs ! (e - 1)]"
      using assms(2,3) take_Suc_conv_app_nth [of "e - s - 1" ?ys] by (simp add: Suc_diff_Suc)
    then show ?thesis using assms(5) True by simp
  qed simp
  finally show ?thesis by (simp add: strip_def ys)
qed

text \<open>The copy of \<open>trim\<close>, towards the beginning.\<close>

lemma move_down:
  assumes "n + s < 4294967296"
  shows "fold (\<lambda>i m. m(p + of_nat i := m (p + of_nat (s + i)))) [0..<n] m (a :: u32) =
    (if \<exists>i < n. a = p + of_nat i then m (a + of_nat s) else m a)"
  using assms
proof (induction n arbitrary: a)
  case (Suc n)
  let ?m = "fold (\<lambda>i m. m(p + of_nat i := m (p + of_nat (s + i)))) [0..<n] m"
  have pr: "n + s < 4294967296" using Suc.prems by simp
  note IH = Suc.IH [OF pr]
  have src: "?m (p + of_nat (s + n)) = m (p + of_nat (s + n))"
  proof (cases "\<exists>i < n. p + of_nat (s + n) = p + of_nat i")
    case True
    then obtain i where i: "i < n" "(of_nat (s + n) :: u32) = of_nat i" by auto
    have "unat (of_nat (s + n) :: u32) = s + n" "unat (of_nat i :: u32) = i"
      using Suc.prems i(1) by (intro unat_of_nat_u32, simp)+
    then have "s + n = i" using i(2) by metis
    then show ?thesis using i(1) by simp
  next
    case False
    then show ?thesis unfolding IH by (rule if_not_P)
  qed
  show ?case
  proof (cases "a = p + of_nat n")
    case True
    have "fold (\<lambda>i m. m(p + of_nat i := m (p + of_nat (s + i)))) [0..<Suc n] m a = ?m (p + of_nat (s + n))"
      using True by simp
    also have "\<dots> = m (a + of_nat s)" unfolding src using True by (simp add: add_ac)
    finally have "fold (\<lambda>i m. m(p + of_nat i := m (p + of_nat (s + i)))) [0..<Suc n] m a = m (a + of_nat s)" .
    moreover have "\<exists>i < Suc n. a = p + of_nat i" using True by blast
    ultimately show ?thesis by (simp only: if_True)
  next
    case False
    have "fold (\<lambda>i m. m(p + of_nat i := m (p + of_nat (s + i)))) [0..<Suc n] m a = ?m a" using False by simp
    moreover have "(\<exists>i < Suc n. a = p + of_nat i) = (\<exists>i < n. a = p + of_nat i)" using False by (auto simp: less_Suc_eq)
    ultimately show ?thesis using IH [of a] by (simp only:)
  qed
qed simp

lemma trim_cstr:
  assumes "cstr m p xs" "length xs < 4294967295" "p \<noteq> NULL"
  shows "\<exists>m'. trim m p = Some m' \<and> cstr m' p (strip xs) \<and>
    (\<forall>a. (\<forall>i \<le> length (strip xs). a \<noteq> p + of_nat i) \<longrightarrow> m' a = m a)"
proof -
  define s where "s = length (takeWhile blank xs)"
  define e where "e = trim_end m p s (length xs)"
  have sl: "s \<le> length xs" using length_takeWhile_le by (simp add: s_def)
  note te = trim_end_spec [OF sl, of m p, folded e_def]
  let ?m = "fold (\<lambda>i m. m(p + of_nat i := m (p + of_nat (s + i)))) [0..<e - s] m"
  let ?m' = "?m(p + of_nat (e - s) := 0)"
  have t: "trim m p = Some ?m'"
    using assms(3) trim_start_cstr [OF assms(1), of 0] strlen_cstr [OF assms(1)]
    by (simp add: trim_def s_def [symmetric] e_def [symmetric] Let_def)
  have nth: "m (p + of_nat i) = xs ! i" if "i < length xs" for i using assms(1) that by (simp add: cstr_nth)
  have st: "strip xs = take (e - s) (drop s xs)"
  proof (rule strip_take)
    show "s < e \<Longrightarrow> \<not> blank (xs ! (e - 1))" using te(1,2,4) nth [of "e - 1"] by simp
    show "blank (xs ! i)" if "e \<le> i" "i < length xs" for i using te(3) that nth by metis
  qed (use te in \<open>simp_all add: s_def\<close>)
  have len: "length (strip xs) = e - s" using st te(1,2) by simp
  have mv: "?m a = (if \<exists>i < e - s. a = p + of_nat i then m (a + of_nat s) else m a)" for a
    using te(1,2) assms(2) by (intro move_down) simp
  have inj: "p + of_nat i \<noteq> p + of_nat (e - s)" if "i < e - s" for i
  proof -
    have "unat (of_nat i :: u32) = i" "unat (of_nat (e - s) :: u32) = e - s"
      using that te(2) assms(2) by (intro unat_of_nat_u32, simp)+
    then show ?thesis using that by (metis add_left_cancel less_irrefl)
  qed
  have "cstr ?m' p (strip xs)"
    unfolding cstr_nth len
  proof (intro conjI allI impI)
    fix i assume i: "i < e - s"
    then have "?m' (p + of_nat i) = m (p + of_nat (s + i))" using mv [of "p + of_nat i"] inj [OF i] by (auto simp: add_ac)
    also have "\<dots> = xs ! (s + i)" using i te(2) by (intro nth) simp
    also have "\<dots> = strip xs ! i" using i te(1,2) st by simp
    finally show "?m' (p + of_nat i) = strip xs ! i" .
    have "strip xs ! i = xs ! (s + i)" using i te(1,2) st by simp
    moreover have "xs ! (s + i) \<noteq> 0" using assms(1) i te(2) by (simp add: cstr_nth)
    ultimately show "strip xs ! i \<noteq> 0" by simp
  qed simp
  moreover have "?m' a = m a" if "\<forall>i \<le> length (strip xs). a \<noteq> p + of_nat i" for a
  proof -
    have n: "a \<noteq> p + of_nat i" if "i \<le> e - s" for i
      using \<open>\<forall>i \<le> length (strip xs). a \<noteq> p + of_nat i\<close> that unfolding len by blast
    have "a \<noteq> p + of_nat (e - s)" by (rule n) (rule order_refl)
    moreover have "\<not> (\<exists>i < e - s. a = p + of_nat i)"
    proof (rule notI, elim exE conjE)
      fix i assume "i < e - s" "a = p + of_nat i"
      with n [of i] show False by simp
    qed
    ultimately show ?thesis using mv [of a] unfolding fun_upd_apply by (simp only: if_False)
  qed
  ultimately show ?thesis using t by blast
qed

text \<open>
  Trimming returns and leaves, at the same address, the string without the blanks at its two ends; nothing
  outside the new string and its terminator changes.
\<close>

theorem trim_strips_blanks:
  assumes "cstr m p xs" "length xs < 4294967295" "p \<noteq> NULL"
  shows "\<exists>m'. trim m p = Some m' \<and> cstr m' p (strip xs) \<and>
    (\<forall>a. (\<forall>i \<le> length (strip xs). a \<noteq> p + of_nat i) \<longrightarrow> m' a = m a)"
  using assms by (rule trim_cstr)

theorem trim_strips_blanks_witness:
  "\<exists>m'. trim ((\<lambda>_. 0)(16 := 0x20, 17 := 0x41, 18 := 0x20, 19 := 0x42, 20 := 0x20)) 16 = Some m' \<and> cstr m' 16 [0x41, 0x20, 0x42]"
  using trim_strips_blanks [of "(\<lambda>_. 0)(16 := 0x20, 17 := 0x41, 18 := 0x20, 19 := 0x42, 20 := 0x20)" 16 "[0x20, 0x41, 0x20, 0x42, 0x20]"]
  by (auto simp: strip_def blank_def)

end
