(* ===== verification/ATA_PIO.thy ===== *)
theory ATA_PIO
  imports PCI Trim
begin

text \<open>
  The ATA driver with programmed input and output (src/kernel/drivers/ata-pio/ata-pio.c), the drives it
  keeps and the handlers of the two disk interrupts (the first part of
  src/kernel/drivers/ide-controller/ide-controller.c). A pointer to a drive is its index in
  \<open>ide_devices\<close>; buffers are addresses.

  The devices behind the ports are the argument \<open>io\<close>. \<open>irq\<close> says what happens at a point where an
  interrupt can be taken: the number of the interrupt that arrives there, if one does. These points are
  the one after a command has been written and each round of the loop that waits. The two disk interrupts
  then run as \<open>ir_handler\<close> runs them, the handler of the drives first and the end of interrupt after it; what
  any other interrupt does to the machine is part of \<open>irq\<close>.
\<close>

section \<open>Drives\<close>

datatype ata_error =
  ATA_NO_ERROR | ATA_ERR_UNKNOWN | ATA_ERR_BSY_TIMEOUT | ATA_ERR_DRQ_TIMEOUT | ATA_ERR_DRIVE_FAULT | ATA_ERR_IRQ_TIMEOUT
| ATA_ERR_CMD_ABORTED | ATA_ERR_BAD_BLOCK | ATA_ERR_UNCORRECTABLE | ATA_ERR_MEDIA_CHANGED | ATA_ERR_IDNF | ATA_ERR_MCR
| ATA_ERR_TK0NF | ATA_ERR_AMNF | ATA_ERR_48BIT_UNSUPPORTED

definition ATA_PRIMARY_IRQ :: u32 where "ATA_PRIMARY_IRQ = 14"
definition ATA_SECONDARY_IRQ :: u32 where "ATA_SECONDARY_IRQ = 15"
definition ATA_PRIMARY_IO :: u16 where "ATA_PRIMARY_IO = 0x1F0"
definition ATA_SECONDARY_IO :: u16 where "ATA_SECONDARY_IO = 0x170"
definition ATA_PRIMARY :: u8 where "ATA_PRIMARY = 0"
definition ATA_SECONDARY :: u8 where "ATA_SECONDARY = 1"
definition ATA_MASTER :: u8 where "ATA_MASTER = 0"
definition ATA_SLAVE :: u8 where "ATA_SLAVE = 1"

definition ATA_REG_DATA :: u16 where "ATA_REG_DATA = 0x00"
definition ATA_REG_ERROR :: u16 where "ATA_REG_ERROR = 0x01"
definition ATA_REG_SECCOUNT0 :: u16 where "ATA_REG_SECCOUNT0 = 0x02"
definition ATA_REG_LBA0 :: u16 where "ATA_REG_LBA0 = 0x03"
definition ATA_REG_LBA1 :: u16 where "ATA_REG_LBA1 = 0x04"
definition ATA_REG_LBA2 :: u16 where "ATA_REG_LBA2 = 0x05"
definition ATA_REG_HDDEVSEL :: u16 where "ATA_REG_HDDEVSEL = 0x06"
definition ATA_REG_STATUS :: u16 where "ATA_REG_STATUS = 0x07"
definition ATA_REG_COMMAND :: u16 where "ATA_REG_COMMAND = 0x07"
definition ATA_REG_ALTSTATUS :: u16 where "ATA_REG_ALTSTATUS = 0x0C"

definition ATA_CMD_IDENTIFY :: u8 where "ATA_CMD_IDENTIFY = 0xEC"
definition ATA_CMD_CACHE_FLUSH :: u8 where "ATA_CMD_CACHE_FLUSH = 0xE7"
definition ATA_CMD_READ_PIO :: u8 where "ATA_CMD_READ_PIO = 0x20"
definition ATA_CMD_WRITE_PIO :: u8 where "ATA_CMD_WRITE_PIO = 0x30"

definition ATA_SR_DF :: u8 where "ATA_SR_DF = 0x20"
definition ATA_SR_DRQ :: u8 where "ATA_SR_DRQ = 0x08"
definition ATA_SR_ERR :: u8 where "ATA_SR_ERR = 0x01"

definition ATA_IDENT_DEVICETYPE :: nat where "ATA_IDENT_DEVICETYPE = 0"
definition ATA_IDENT_MODEL :: nat where "ATA_IDENT_MODEL = 54"
definition ATA_IDENT_MAX_LBA :: nat where "ATA_IDENT_MAX_LBA = 120"
definition ATA_IDENT_COMMANDSETS :: nat where "ATA_IDENT_COMMANDSETS = 164"
definition ATA_IDENT_MAX_LBA_EXT :: nat where "ATA_IDENT_MAX_LBA_EXT = 200"
definition ATA_IDE_MODEL_LENGTH :: nat where "ATA_IDE_MODEL_LENGTH = 41"

record ide_device =
  ide_present :: u8
  channel :: u8
  drive :: u8
  ide_type :: u16
  signature :: u16
  capabilities :: u16
  command_sets :: u32
  sector_size :: u32
  sector_count :: u64
  model :: "u8 list"
  identify_data :: "u8 list"
  controller_status :: u32
  irq_expected :: bool
  irq_fired :: bool

definition zero_ide :: ide_device where
  "zero_ide = \<lparr>ide_present = 0, channel = 0, drive = 0, ide_type = 0, signature = 0, capabilities = 0, command_sets = 0,
     sector_size = 0, sector_count = 0, model = replicate 41 0, identify_data = replicate 512 0,
     controller_status = 0, irq_expected = False, irq_fired = False\<rparr>"

record 's ide =
  ide_devices :: "ide_device list"
  ide_mem :: mem
  hw :: 's

definition with_dev :: "nat \<Rightarrow> (ide_device \<Rightarrow> ide_device) \<Rightarrow> 's ide \<Rightarrow> 's ide" where
  "with_dev d f s = s\<lparr>ide_devices := (ide_devices s)[d := f (ide_devices s ! d)]\<rparr>"

abbreviation dev :: "'s ide \<Rightarrow> nat \<Rightarrow> ide_device" where "dev s d \<equiv> ide_devices s ! d"

definition inb :: "'s io \<Rightarrow> u16 \<Rightarrow> 's ide \<Rightarrow> u8 \<times> 's ide" where
  "inb io p s = (case inportb io p (hw s) of (v, h) \<Rightarrow> (v, s\<lparr>hw := h\<rparr>))"

definition inw :: "'s io \<Rightarrow> u16 \<Rightarrow> 's ide \<Rightarrow> u16 \<times> 's ide" where
  "inw io p s = (case inports io p (hw s) of (v, h) \<Rightarrow> (v, s\<lparr>hw := h\<rparr>))"

definition outb :: "'s io \<Rightarrow> u16 \<Rightarrow> u8 \<Rightarrow> 's ide \<Rightarrow> 's ide" where
  "outb io p v s = s\<lparr>hw := outportb io p v (hw s)\<rparr>"

definition outw :: "'s io \<Rightarrow> u16 \<Rightarrow> u16 \<Rightarrow> 's ide \<Rightarrow> 's ide" where
  "outw io p v s = s\<lparr>hw := outports io p v (hw s)\<rparr>"

definition io_of :: "u8 \<Rightarrow> u16" where
  "io_of ch = (if ch = ATA_PRIMARY then ATA_PRIMARY_IO else ATA_SECONDARY_IO)"

definition ata_pio_clear_status :: "'s io \<Rightarrow> nat \<Rightarrow> 's ide \<Rightarrow> 's ide" where
  "ata_pio_clear_status io d s = snd (inb io (io_of (channel (dev s d)) + ATA_REG_STATUS) s)"

section \<open>The disk interrupts\<close>

text \<open>One turn of the loop over the drives of a channel; the number of the drive is \<open>d\<close>.\<close>

definition drive_irq :: "'s io \<Rightarrow> nat \<Rightarrow> 's ide \<Rightarrow> 's ide" where
  "drive_irq io d s =
     (if irq_expected (dev s d) then ata_pio_clear_status io d (with_dev d (irq_fired_update (\<lambda>_. True)) s) else s)"

definition ata_primary_irq_handle :: "'s io \<Rightarrow> 's ide \<Rightarrow> 's ide" where
  "ata_primary_irq_handle io s =
     (let s = fold (drive_irq io) [0, 1] s in s\<lparr>hw := perform io (IR_EOI ATA_PRIMARY_IRQ) (hw s)\<rparr>)"

definition ata_secondary_irq_handle :: "'s io \<Rightarrow> 's ide \<Rightarrow> 's ide" where
  "ata_secondary_irq_handle io s =
     (let s = fold (drive_irq io) [2, 3] s in s\<lparr>hw := perform io (IR_EOI ATA_SECONDARY_IRQ) (hw s)\<rparr>)"

text \<open>
  What \<open>ir_handler\<close> does after the handler of a request: the end of interrupt, for the number of its vector.
\<close>

definition end_of_request :: "'s io \<Rightarrow> u32 \<Rightarrow> 's ide \<Rightarrow> 's ide" where
  "end_of_request io i s = s\<lparr>hw := perform io (IR_EOI (32 + i)) (hw s)\<rparr>"

text \<open>A point where an interrupt can be taken.\<close>

definition pause :: "'s io \<Rightarrow> ('s \<Rightarrow> u32 option \<times> 's) \<Rightarrow> 's ide \<Rightarrow> 's ide" where
  "pause io irq s =
     (case irq (hw s) of (i, h) \<Rightarrow>
        let s = s\<lparr>hw := h\<rparr>
        in if i = Some ATA_PRIMARY_IRQ then end_of_request io ATA_PRIMARY_IRQ (ata_primary_irq_handle io s)
           else if i = Some ATA_SECONDARY_IRQ then end_of_request io ATA_SECONDARY_IRQ (ata_secondary_irq_handle io s)
           else s)"

section \<open>Commands\<close>

definition ata_pio_check_error :: "'s io \<Rightarrow> u16 \<Rightarrow> 's ide \<Rightarrow> ata_error \<times> 's ide" where
  "ata_pio_check_error io base s =
     (case inb io (base + ATA_REG_STATUS) s of (status, s) \<Rightarrow>
        if status AND ATA_SR_DF \<noteq> 0 then (ATA_ERR_DRIVE_FAULT, s)
        else if status AND ATA_SR_ERR \<noteq> 0 then
          (case inb io (base + ATA_REG_ERROR) s of (err, s) \<Rightarrow>
             (if err AND 0x80 \<noteq> 0 then ATA_ERR_BAD_BLOCK
              else if err AND 0x40 \<noteq> 0 then ATA_ERR_UNCORRECTABLE
              else if err AND 0x20 \<noteq> 0 then ATA_ERR_MEDIA_CHANGED
              else if err AND 0x10 \<noteq> 0 then ATA_ERR_IDNF
              else if err AND 0x08 \<noteq> 0 then ATA_ERR_MCR
              else if err AND 0x04 \<noteq> 0 then ATA_ERR_CMD_ABORTED
              else if err AND 0x02 \<noteq> 0 then ATA_ERR_TK0NF
              else if err AND 0x01 \<noteq> 0 then ATA_ERR_AMNF
              else ATA_ERR_UNKNOWN, s))
        else (ATA_NO_ERROR, s))"

definition ata_pio_io_wait :: "'s io \<Rightarrow> u16 \<Rightarrow> 's ide \<Rightarrow> 's ide" where
  "ata_pio_io_wait io base s = ((\<lambda>s. snd (inb io (base + ATA_REG_ALTSTATUS) s)) ^^ 4) s"

text \<open>The loop of \<open>ata_wait_irq\<close>, with the number of rounds left.\<close>

primrec wait_loop :: "'s io \<Rightarrow> ('s \<Rightarrow> u32 option \<times> 's) \<Rightarrow> nat \<Rightarrow> nat \<Rightarrow> 's ide \<Rightarrow> 's ide" where
  "wait_loop io irq d 0 s = s"
| "wait_loop io irq d (Suc n) s = (if irq_fired (dev s d) then s else wait_loop io irq d n (pause io irq s))"

definition ata_wait_irq :: "'s io \<Rightarrow> ('s \<Rightarrow> u32 option \<times> 's) \<Rightarrow> nat \<Rightarrow> 's ide \<Rightarrow> ata_error \<times> 's ide" where
  "ata_wait_irq io irq d s =
     (let s = with_dev d (\<lambda>x. x\<lparr>irq_expected := True, irq_fired := False\<rparr>) s;
          s = wait_loop io irq d 1000000 s
      in if \<not> irq_fired (dev s d) then (ATA_ERR_IRQ_TIMEOUT, s)
         else (ATA_NO_ERROR, with_dev d (\<lambda>x. x\<lparr>irq_expected := False, irq_fired := False\<rparr>) s))"

definition ata_post_irq_check :: "'s io \<Rightarrow> u16 \<Rightarrow> 's ide \<Rightarrow> ata_error \<times> 's ide" where
  "ata_post_irq_check io base s =
     (case inb io (base + ATA_REG_STATUS) s of (status, s) \<Rightarrow>
        (if status AND ATA_SR_ERR \<noteq> 0 then ATA_ERR_CMD_ABORTED
         else if status AND ATA_SR_DF \<noteq> 0 then ATA_ERR_DRIVE_FAULT
         else if status AND ATA_SR_DRQ = 0 then ATA_ERR_DRQ_TIMEOUT
         else ATA_NO_ERROR, s))"

definition ata_pio_select_drive :: "'s io \<Rightarrow> u8 \<Rightarrow> u8 \<Rightarrow> 's ide \<Rightarrow> ata_error \<times> 's ide" where
  "ata_pio_select_drive io ch dr s =
     (let base = io_of ch;
          s = outb io (base + ATA_REG_HDDEVSEL) (if dr = ATA_MASTER then 0xA0 else 0xB0) s
      in ata_pio_check_error io base (ata_pio_io_wait io base s))"

text \<open>The loop that waits for a drive to answer IDENTIFY may never end; its result is the last status.\<close>

partial_function (option) identify_wait :: "'s io \<Rightarrow> u16 \<Rightarrow> 's ide \<Rightarrow> (u8 \<times> 's ide) option" where
  "identify_wait io base s =
     (case inb io (base + ATA_REG_STATUS) s of (status, s) \<Rightarrow>
        if status AND ATA_SR_ERR \<noteq> 0 then Some (status, s)
        else if status AND ATA_SR_DRQ \<noteq> 0 then Some (status, s)
        else identify_wait io base s)"

definition read_identify :: "'s io \<Rightarrow> u16 \<Rightarrow> nat \<Rightarrow> 's ide \<Rightarrow> 's ide" where
  "read_identify io base d =
     fold (\<lambda>i s. case inw io (base + ATA_REG_DATA) s of (w, s) \<Rightarrow>
         with_dev d (identify_data_update (\<lambda>xs. xs[2 * i := ucast w, 2 * i + 1 := ucast (drop_bit 8 w)])) s) [0..<256]"

text \<open>\<open>trim\<close> on the array \<open>model\<close>, as a string at an address of its own.\<close>

definition trim_array :: "u8 list \<Rightarrow> u8 list option" where
  "trim_array bs =
     map_option (\<lambda>m. map (\<lambda>i. m (1 + of_nat i)) [0..<length bs])
       (trim (\<lambda>a. if unat (a - 1) < length bs then bs ! unat (a - 1) else 0) 1)"

definition le64 :: "u8 list \<Rightarrow> nat \<Rightarrow> u64" where
  "le64 bs i = ucast (le32 bs i) OR push_bit 32 (ucast (le32 bs (i + 4)))"

definition has_lba48 :: "ide_device \<Rightarrow> bool" where
  "has_lba48 x \<longleftrightarrow> command_sets x AND push_bit 26 1 \<noteq> 0"

text \<open>What \<open>ata_pio_init_drive\<close> takes from the identification of the drive.\<close>

definition identified :: "u8 list \<Rightarrow> ide_device \<Rightarrow> ide_device" where
  "identified name x =
     (let ident = identify_data x;
          x = x\<lparr>model := name, signature := le16 ident ATA_IDENT_DEVICETYPE, command_sets := le32 ident ATA_IDENT_COMMANDSETS\<rparr>
      in x\<lparr>sector_count := (if has_lba48 x then le64 ident ATA_IDENT_MAX_LBA_EXT else ucast (le32 ident ATA_IDENT_MAX_LBA)),
           sector_size := 512, irq_expected := False, irq_fired := False\<rparr>)"

definition model_bytes :: "u8 list \<Rightarrow> u8 list \<Rightarrow> u8 list" where
  "model_bytes ident =
     fold (\<lambda>i m. m[i := ident ! (ATA_IDENT_MODEL + i + 1), i + 1 := ident ! (ATA_IDENT_MODEL + i)])
       (map (\<lambda>k. 2 * k) [0..<20])"

definition ata_pio_init_drive :: "'s io \<Rightarrow> u8 \<Rightarrow> u8 \<Rightarrow> nat option \<Rightarrow> 's ide \<Rightarrow> (u8 \<times> 's ide) option" where
  "ata_pio_init_drive io ch dr dev_out s =
     (case dev_out of None \<Rightarrow> Some (1, s)
      | Some d \<Rightarrow>
        let base = io_of ch;
            s = with_dev d (\<lambda>x. x\<lparr>channel := ch, drive := dr\<rparr>) s;
            s = snd (ata_pio_select_drive io ch dr s);
            s = outb io (base + ATA_REG_SECCOUNT0) 0 s;
            s = outb io (base + ATA_REG_LBA0) 0 s;
            s = outb io (base + ATA_REG_LBA1) 0 s;
            s = outb io (base + ATA_REG_LBA2) 0 s;
            s = outb io (base + ATA_REG_COMMAND) ATA_CMD_IDENTIFY s;
            (status, s) = inb io (base + ATA_REG_STATUS) s
        in if status = 0 then Some (3, with_dev d (\<lambda>_. zero_ide) s)
           else
             let (status, s) = inb io (base + ATA_REG_STATUS) s
             in if status = 0 \<or> status = 0xFF then Some (1, with_dev d (\<lambda>_. zero_ide) s)
                else case identify_wait io base s of None \<Rightarrow> None
                | Some (status, s) \<Rightarrow>
                  if status AND ATA_SR_ERR \<noteq> 0 then Some (1, with_dev d (\<lambda>_. zero_ide) s)
                  else
                    let s = read_identify io base d s
                    in case trim_array (model_bytes (identify_data (dev s d)) (model (dev s d))) of None \<Rightarrow> None
                       | Some name \<Rightarrow> Some (0, with_dev d (identified name) s))"

section \<open>Reading and writing a sector\<close>

text \<open>The part the two operations share: address the sector and give the command.\<close>

definition sector_command :: "'s io \<Rightarrow> nat \<Rightarrow> u64 \<Rightarrow> u8 \<Rightarrow> 's ide \<Rightarrow> 's ide" where
  "sector_command io d lba cmd s =
     (let x = dev s d; base = io_of (channel x);
          s = snd (ata_pio_select_drive io (channel x) (drive x) s);
          s = outb io (base + ATA_REG_HDDEVSEL)
                (ucast (0xE0 OR push_bit 4 (ucast (drive x)) OR (drop_bit 24 lba AND 0x0F))) s;
          s = ata_pio_io_wait io base s;
          s = outb io (base + ATA_REG_SECCOUNT0) 1 s;
          s = outb io (base + ATA_REG_LBA0) (ucast lba) s;
          s = outb io (base + ATA_REG_LBA1) (ucast (drop_bit 8 lba)) s;
          s = outb io (base + ATA_REG_LBA2) (ucast (drop_bit 16 lba)) s
      in outb io (base + ATA_REG_COMMAND) cmd s)"

definition read16 :: "mem \<Rightarrow> u32 \<Rightarrow> u16" where
  "read16 m a = ucast (m a) OR push_bit 8 (ucast (m (a + 1)))"

definition read_words :: "'s io \<Rightarrow> u16 \<Rightarrow> u32 \<Rightarrow> 's ide \<Rightarrow> 's ide" where
  "read_words io p buf =
     fold (\<lambda>i s. case inw io p s of (w, s) \<Rightarrow> s\<lparr>ide_mem := write16 (ide_mem s) (buf + 2 * of_nat i) w\<rparr>) [0..<256]"

definition write_words :: "'s io \<Rightarrow> u16 \<Rightarrow> u32 \<Rightarrow> 's ide \<Rightarrow> 's ide" where
  "write_words io p buf = fold (\<lambda>i s. outw io p (read16 (ide_mem s) (buf + 2 * of_nat i)) s) [0..<256]"

definition ata_pio_read_sector ::
  "'s io \<Rightarrow> ('s \<Rightarrow> u32 option \<times> 's) \<Rightarrow> nat \<Rightarrow> u64 \<Rightarrow> u32 \<Rightarrow> 's ide \<Rightarrow> ata_error \<times> 's ide" where
  "ata_pio_read_sector io irq d lba buf s =
     (if has_lba48 (dev s d) then (ATA_ERR_48BIT_UNSUPPORTED, s)
      else
        let base = io_of (channel (dev s d));
            s = pause io irq (sector_command io d lba ATA_CMD_READ_PIO s);
            (err, s) = ata_wait_irq io irq d s
        in if err \<noteq> ATA_NO_ERROR then (err, s)
           else
             let (err, s) = ata_post_irq_check io base s
             in if err \<noteq> ATA_NO_ERROR then (err, s)
                else (ATA_NO_ERROR, read_words io (base + ATA_REG_DATA) buf s))"

definition ata_pio_write_sector ::
  "'s io \<Rightarrow> ('s \<Rightarrow> u32 option \<times> 's) \<Rightarrow> nat \<Rightarrow> u64 \<Rightarrow> u32 \<Rightarrow> 's ide \<Rightarrow> ata_error \<times> 's ide" where
  "ata_pio_write_sector io irq d lba buf s =
     (if has_lba48 (dev s d) then (ATA_ERR_48BIT_UNSUPPORTED, s)
      else
        let base = io_of (channel (dev s d));
            s = pause io irq (sector_command io d lba ATA_CMD_WRITE_PIO s);
            (err, s) = ata_wait_irq io irq d s
        in if err \<noteq> ATA_NO_ERROR then (err, s)
           else
             let (err, s) = ata_post_irq_check io base s
             in if err \<noteq> ATA_NO_ERROR then (err, s)
                else
                  let s = write_words io (base + ATA_REG_DATA) buf s;
                      s = pause io irq (outb io (base + ATA_REG_COMMAND) ATA_CMD_CACHE_FLUSH s)
                  in (ATA_NO_ERROR, snd (ata_wait_irq io irq d s)))"

section \<open>What the operations leave alone\<close>

text \<open>Nothing but the two interrupt flags of drives, and the machine behind the ports, changes.\<close>

definition core_dev :: "ide_device \<Rightarrow> ide_device" where
  "core_dev x = x\<lparr>irq_expected := False, irq_fired := False\<rparr>"

definition quiet :: "'s ide \<Rightarrow> 's ide \<Rightarrow> bool" where
  "quiet s s' \<longleftrightarrow> map core_dev (ide_devices s') = map core_dev (ide_devices s) \<and> ide_mem s' = ide_mem s"

lemma quiet_refl [simp, intro]: "quiet s s"
  by (simp add: quiet_def)

lemma quiet_trans [trans]: "quiet s s' \<Longrightarrow> quiet s' s'' \<Longrightarrow> quiet s s''"
  by (simp add: quiet_def)

lemma core_dev_fields [simp]:
  "channel (core_dev x) = channel x" "drive (core_dev x) = drive x" "command_sets (core_dev x) = command_sets x"
  "sector_size (core_dev x) = sector_size x" "sector_count (core_dev x) = sector_count x"
  "controller_status (core_dev x) = controller_status x" "model (core_dev x) = model x"
  "identify_data (core_dev x) = identify_data x"
  by (simp_all add: core_dev_def)

lemma quiet_dev:
  assumes "quiet s s'"
  shows "length (ide_devices s') = length (ide_devices s)"
    "d < length (ide_devices s) \<Longrightarrow> core_dev (dev s' d) = core_dev (dev s d)"
proof -
  have m: "map core_dev (ide_devices s') = map core_dev (ide_devices s)" using assms by (simp add: quiet_def)
  then show l: "length (ide_devices s') = length (ide_devices s)" by (rule map_eq_imp_length_eq)
  show "core_dev (dev s' d) = core_dev (dev s d)" if "d < length (ide_devices s)"
    using arg_cong [OF m, of "\<lambda>xs. xs ! d"] that l by simp
qed

lemma quiet_with_dev:
  assumes "\<And>x. core_dev (f x) = core_dev x"
  shows "quiet s (with_dev d f s)"
proof (cases "d < length (ide_devices s)")
  case True
  then have "map core_dev ((ide_devices s)[d := f (dev s d)]) = map core_dev (ide_devices s)"
    by (simp add: map_update assms list_update_same_conv)
  then show ?thesis by (simp add: quiet_def with_dev_def)
qed (simp add: quiet_def with_dev_def list_update_beyond)

lemma quiet_flags [simp]:
  "quiet s (with_dev d (irq_fired_update f) s)"
  "quiet s (with_dev d (\<lambda>x. x\<lparr>irq_expected := a, irq_fired := b\<rparr>) s)"
  by (rule quiet_with_dev, simp add: core_dev_def)+

lemma quiet_io [simp]:
  "quiet s (snd (inb io p s))" "quiet s (snd (inw io p s))" "quiet s (outb io p v s)" "quiet s (outw io p w s)"
  "quiet s (s\<lparr>hw := h\<rparr>)"
  by (simp_all add: quiet_def inb_def inw_def outb_def outw_def split: prod.split)

lemma quiet_inb: "inb io p s = (v, s') \<Longrightarrow> quiet s s'"
  using quiet_io(1) [of s io p] by simp

lemma quiet_fold: "(\<And>x s. quiet s (f x s)) \<Longrightarrow> quiet s (fold f xs s)"
  by (induction xs arbitrary: s) (auto intro: quiet_trans)

lemma quiet_drive_irq [simp]: "quiet s (drive_irq io d s)"
proof (cases "irq_expected (dev s d)")
  case True
  show ?thesis
    unfolding drive_irq_def ata_pio_clear_status_def if_P [OF True] by (rule quiet_trans [OF quiet_flags(1) quiet_io(1)])
qed (simp add: drive_irq_def)

lemma quiet_handle [simp]: "quiet s (ata_primary_irq_handle io s)" "quiet s (ata_secondary_irq_handle io s)"
  unfolding ata_primary_irq_handle_def ata_secondary_irq_handle_def Let_def
  by (rule quiet_trans [OF quiet_fold quiet_io(5)], rule quiet_drive_irq)+

lemma quiet_end_of_request [simp]: "quiet s (end_of_request io i s)"
  by (simp add: end_of_request_def)

lemma quiet_pause [simp]: "quiet s (pause io irq s)"
proof -
  obtain i h where i: "irq (hw s) = (i, h)" by fastforce
  show ?thesis
    unfolding pause_def i
    by (simp add: Let_def quiet_trans [OF quiet_io(5) quiet_trans [OF quiet_handle(1) quiet_end_of_request]]
        quiet_trans [OF quiet_io(5) quiet_trans [OF quiet_handle(2) quiet_end_of_request]])
qed

lemma quiet_wait_loop: "quiet s (wait_loop io irq d n s)"
  by (induction n arbitrary: s) (auto intro: quiet_trans [OF quiet_pause])

lemma quiet_wait: "quiet s (snd (ata_wait_irq io irq d s))"
  unfolding ata_wait_irq_def Let_def
  by (auto intro: quiet_trans [OF quiet_flags(2) quiet_wait_loop] quiet_trans [OF quiet_trans [OF quiet_flags(2) quiet_wait_loop] quiet_flags(2)])

lemma quiet_post_check: "quiet s (snd (ata_post_irq_check io base s))"
  by (auto simp: ata_post_irq_check_def split: prod.split dest: quiet_inb)

lemma quiet_check_error: "quiet s (snd (ata_pio_check_error io base s))"
  by (auto simp: ata_pio_check_error_def split: prod.split dest!: quiet_inb intro: quiet_trans)

lemma quiet_io_wait [simp]: "quiet s (ata_pio_io_wait io base s)"
proof -
  have "quiet s (((\<lambda>s. snd (inb io p s)) ^^ n) s)" for n p
    by (induction n) (auto intro: quiet_trans)
  then show ?thesis by (simp add: ata_pio_io_wait_def)
qed

lemma quiet_select: "quiet s (snd (ata_pio_select_drive io ch dr s))"
  unfolding ata_pio_select_drive_def Let_def
  by (rule quiet_trans [OF quiet_trans [OF quiet_io(3) quiet_io_wait] quiet_check_error])

lemma quiet_after: "quiet s t \<Longrightarrow> quiet s (outb io p v t)" "quiet s t \<Longrightarrow> quiet s (ata_pio_io_wait io base t)"
  by (rule quiet_trans, assumption, simp)+

lemma quiet_command: "quiet s (sector_command io d lba cmd s)"
  unfolding sector_command_def Let_def by (intro quiet_after quiet_select)

lemma quiet_core:
  assumes "quiet s s'" "d < length (ide_devices s)"
  shows "channel (dev s' d) = channel (dev s d)" "drive (dev s' d) = drive (dev s d)" "has_lba48 (dev s' d) = has_lba48 (dev s d)"
    "sector_size (dev s' d) = sector_size (dev s d)" "controller_status (dev s' d) = controller_status (dev s d)"
  using arg_cong [OF quiet_dev(2) [OF assms], of channel] arg_cong [OF quiet_dev(2) [OF assms], of drive]
    arg_cong [OF quiet_dev(2) [OF assms], of command_sets] arg_cong [OF quiet_dev(2) [OF assms], of sector_size]
    arg_cong [OF quiet_dev(2) [OF assms], of controller_status]
  by (simp_all add: has_lba48_def)

text \<open>Reading the words of a sector writes only the buffer.\<close>

definition only_sector :: "u32 \<Rightarrow> 's ide \<Rightarrow> 's ide \<Rightarrow> bool" where
  "only_sector buf s s' \<longleftrightarrow> map core_dev (ide_devices s') = map core_dev (ide_devices s) \<and>
     (\<forall>a. (\<forall>j < 512. a \<noteq> buf + of_nat j) \<longrightarrow> ide_mem s' a = ide_mem s a)"

lemma quiet_only_sector: "quiet s s' \<Longrightarrow> only_sector buf s s'"
  by (simp add: quiet_def only_sector_def)

lemma only_sector_trans: "only_sector buf s s' \<Longrightarrow> only_sector buf s' s'' \<Longrightarrow> only_sector buf s s''"
  by (simp add: only_sector_def)

lemma read_words_sector: "only_sector buf s (read_words io p buf s)"
proof -
  define f where "f = (\<lambda>i s. case inw io p s of (w, s) \<Rightarrow> s\<lparr>ide_mem := write16 (ide_mem s) (buf + 2 * of_nat i) w\<rparr>)"
  have step: "only_sector buf t (f n t)" if "n < 256" for n t
  proof -
    obtain w t' where w: "inw io p t = (w, t')" by fastforce
    have q: "quiet t t'" using quiet_io(2) [of t io p] w by simp
    have a: "a \<noteq> buf + 2 * of_nat n \<and> a \<noteq> buf + 2 * of_nat n + 1" if "\<forall>j < 512. a \<noteq> buf + of_nat j" for a :: u32
      using that [rule_format, of "2 * n"] that [rule_format, of "2 * n + 1"] \<open>n < 256\<close> by (simp add: algebra_simps)
    show ?thesis
      using q a by (simp add: f_def w only_sector_def quiet_def write16_def)
  qed
  have "only_sector buf s (fold f [0..<n] s)" if "n \<le> 256" for n
    using that
  proof (induction n)
    case (Suc n)
    then show ?case using only_sector_trans [OF _ step [of n]] by simp
  qed (simp add: only_sector_def)
  from this [of 256] show ?thesis by (simp add: read_words_def f_def)
qed

lemma write_words_quiet: "quiet s (write_words io p buf s)"
  unfolding write_words_def by (rule quiet_fold) simp

lemma read_sector_frame:
  assumes "ata_pio_read_sector io irq d lba buf s = (e, s')"
  shows "only_sector buf s s'" "e \<noteq> ATA_NO_ERROR \<Longrightarrow> quiet s s'"
proof -
  let ?s1 = "pause io irq (sector_command io d lba ATA_CMD_READ_PIO s)"
  obtain e2 s2 where w: "ata_wait_irq io irq d ?s1 = (e2, s2)" by fastforce
  obtain e3 s3 where c: "ata_post_irq_check io (io_of (channel (dev s d))) s2 = (e3, s3)" by fastforce
  have q: "quiet s s2" "quiet s s3"
    using quiet_trans [OF quiet_trans [OF quiet_command quiet_pause] quiet_wait [of ?s1 io irq d]] w
      quiet_post_check [of s2 io "io_of (channel (dev s d))"] c quiet_trans by fastforce+
  have o: "only_sector buf s (read_words io p buf s3)" for p
    using only_sector_trans [OF quiet_only_sector [OF q(2)] read_words_sector] .
  have "s' = s \<or> s' = s2 \<or> s' = s3 \<or> s' = read_words io (io_of (channel (dev s d)) + ATA_REG_DATA) buf s3 \<and> e = ATA_NO_ERROR"
    using assms w c by (auto simp: ata_pio_read_sector_def Let_def split: if_splits)
  then show "only_sector buf s s'" "e \<noteq> ATA_NO_ERROR \<Longrightarrow> quiet s s'"
    using q o quiet_only_sector [of s] by auto
qed

lemma write_sector_quiet:
  assumes "ata_pio_write_sector io irq d lba buf s = (e, s')"
  shows "quiet s s'"
proof -
  let ?s1 = "pause io irq (sector_command io d lba ATA_CMD_WRITE_PIO s)"
  obtain e2 s2 where w: "ata_wait_irq io irq d ?s1 = (e2, s2)" by fastforce
  obtain e3 s3 where c: "ata_post_irq_check io (io_of (channel (dev s d))) s2 = (e3, s3)" by fastforce
  have q: "quiet s s2" "quiet s s3"
    using quiet_trans [OF quiet_trans [OF quiet_command quiet_pause] quiet_wait [of ?s1 io irq d]] w
      quiet_post_check [of s2 io "io_of (channel (dev s d))"] c quiet_trans by fastforce+
  have "quiet s3 (snd (ata_wait_irq io irq d (pause io irq (outb io p v (write_words io p' buf s3)))))" for p v p'
    by (rule quiet_trans [OF quiet_trans [OF quiet_after(1) [OF write_words_quiet] quiet_pause] quiet_wait])
  then show ?thesis
    using assms w c q quiet_trans [OF q(2)] by (auto simp: ata_pio_write_sector_def Let_def split: if_splits)
qed

section \<open>The record of a drive\<close>

text \<open>The arrays of a drive's record have their lengths and the name is terminated.\<close>

definition ide_ok :: "ide_device \<Rightarrow> bool" where
  "ide_ok x \<longleftrightarrow> length (model x) = ATA_IDE_MODEL_LENGTH \<and> length (identify_data x) = 512 \<and> model x ! 40 = 0 \<and>
     (sector_size x = 0 \<or> sector_size x = 512)"

definition ide_well_formed :: "'s ide \<Rightarrow> bool" where
  "ide_well_formed s \<longleftrightarrow> length (ide_devices s) = 4 \<and> (\<forall>x \<in> set (ide_devices s). ide_ok x)"

lemma ide_ok_core: "ide_ok (core_dev x) = ide_ok x"
  by (simp add: ide_ok_def)

lemma ide_well_formed_core: "ide_well_formed s \<longleftrightarrow> length (ide_devices s) = 4 \<and> (\<forall>x \<in> set (map core_dev (ide_devices s)). ide_ok x)"
  by (simp add: ide_well_formed_def ide_ok_core)

lemma ide_well_formed_cong: "map core_dev (ide_devices s') = map core_dev (ide_devices s) \<Longrightarrow> ide_well_formed s' = ide_well_formed s"
  unfolding ide_well_formed_core by (metis map_eq_imp_length_eq)

lemma quiet_well_formed: "quiet s s' \<Longrightarrow> ide_well_formed s' = ide_well_formed s"
  by (rule ide_well_formed_cong) (simp add: quiet_def)

lemma well_formed_with_dev:
  assumes "ide_well_formed s" "ide_ok (f (dev s d))"
  shows "ide_well_formed (with_dev d f s)"
proof (cases "d < 4")
  case True
  then show ?thesis using assms set_update_subset_insert [of "ide_devices s" d "f (dev s d)"]
    by (auto simp: ide_well_formed_def with_dev_def)
qed (use assms(1) in \<open>simp add: ide_well_formed_def with_dev_def list_update_beyond\<close>)

lemma well_formed_dev: "ide_well_formed s \<Longrightarrow> d < 4 \<Longrightarrow> ide_ok (dev s d)"
  by (simp add: ide_well_formed_def)

lemma trim_array_string:
  assumes "length bs = 41" "bs ! 40 = 0"
  defines "m \<equiv> (\<lambda>a :: u32. if unat (a - 1) < length bs then bs ! unat (a - 1) else 0)"
    and "xs \<equiv> takeWhile (\<lambda>c. c \<noteq> 0) bs"
  shows "cstr m 1 xs" "length xs \<le> 40" "m (1 + of_nat 40) = 0"
proof -
  have u: "m (1 + of_nat i) = bs ! i" if "i < 41" for i
  proof -
    have "(1 + of_nat i - 1 :: u32) = of_nat i" by simp
    moreover have "unat (of_nat i :: u32) = i" using that by (intro unat_of_nat_u32) simp
    ultimately show ?thesis using that assms(1) unfolding m_def by (simp only: if_True)
  qed
  have nz: "xs ! i = bs ! i \<and> xs ! i \<noteq> 0" if "i < length xs" for i
    using that nth_mem [OF that] set_takeWhileD [of "xs ! i" "\<lambda>c. c \<noteq> 0" bs] by (simp add: xs_def takeWhile_nth)
  have l: "length xs \<le> 40" using nz [of 40] assms(2) by force
  have e: "bs ! length xs = 0"
    using nth_length_takeWhile [of "\<lambda>c. c \<noteq> 0" bs] l assms(1) by (simp add: xs_def)
  have "m (1 + of_nat i) = xs ! i \<and> xs ! i \<noteq> 0" if "i < length xs" for i
  proof -
    have "m (1 + of_nat i) = bs ! i" using u [of i] l that by simp
    with nz [OF that] show ?thesis by metis
  qed
  moreover have "m (1 + of_nat (length xs)) = 0" using u [of "length xs"] l e by simp
  ultimately show "cstr m 1 xs" unfolding cstr_nth by blast
  show "length xs \<le> 40" by (rule l)
  show "m (1 + of_nat 40) = 0" using u [of 40] assms(2) by simp
qed

lemma trim_array_total:
  assumes "length bs = 41" "bs ! 40 = 0"
  shows "\<exists>nm. trim_array bs = Some nm"
proof -
  note s = trim_array_string [OF assms]
  have "length (takeWhile (\<lambda>c. c \<noteq> 0) bs) < 4294967295" using s(2) by simp
  from trim_cstr [OF s(1) this] show ?thesis by (auto simp: trim_array_def)
qed

lemma trim_array_ok:
  assumes "length bs = 41" "bs ! 40 = 0" "trim_array bs = Some bs'"
  shows "length bs' = 41" "bs' ! 40 = 0"
proof -
  define m where "m = (\<lambda>a :: u32. if unat (a - 1) < length bs then bs ! unat (a - 1) else 0)"
  define xs where "xs = takeWhile (\<lambda>c. c \<noteq> 0) bs"
  note string = trim_array_string [OF assms(1,2), folded m_def xs_def]
  obtain m' where m': "trim m 1 = Some m'" and bs': "bs' = map (\<lambda>i. m' (1 + of_nat i)) [0..<41]"
    using assms(1,3) by (auto simp: trim_array_def m_def)
  have l: "length xs \<le> 40" by (rule string(2))
  from trim_cstr [OF string(1)] l m' have t: "cstr m' 1 (strip xs)"
    "\<And>a. (\<forall>i \<le> length (strip xs). a \<noteq> 1 + of_nat i) \<Longrightarrow> m' a = m a" by auto
  have sl: "length (strip xs) \<le> 40"
    using l length_dropWhile_le [of blank "rev (dropWhile blank xs)"] length_dropWhile_le [of blank xs] by (simp add: strip_def)
  show "length bs' = 41" by (simp add: bs')
  have "m' (1 + of_nat 40) = 0"
  proof (cases "length (strip xs) = 40")
    case True
    then show ?thesis using t(1) unfolding cstr_nth by metis
  next
    case False
    have "(1 + of_nat 40 :: u32) \<noteq> 1 + of_nat i" if "i \<le> length (strip xs)" for i
    proof -
      have i: "i < 40" using that False sl by simp
      then have "unat (of_nat i :: u32) = i" by (intro unat_of_nat_u32) simp
      moreover have "unat (of_nat 40 :: u32) = 40" by (intro unat_of_nat_u32) simp
      ultimately show ?thesis using i by (metis add_left_cancel less_irrefl)
    qed
    then have "m' (1 + of_nat 40) = m (1 + of_nat 40)" by (intro t(2)) blast
    also have "m (1 + of_nat 40) = 0" unfolding m_def by (rule trim_array_string(3) [OF assms(1,2)])
    finally show ?thesis .
  qed
  then show "bs' ! 40 = 0" by (simp add: bs')
qed

lemma read_identify_ok:
  assumes "ide_well_formed s"
  shows "ide_well_formed (read_identify io base d s) \<and> model (dev (read_identify io base d s) d) = model (dev s d)"
proof -
  define f where "f = (\<lambda>i s. case inw io (base + ATA_REG_DATA) s of (w, s) \<Rightarrow>
    with_dev d (identify_data_update (\<lambda>xs. xs[2 * i := ucast w, 2 * i + 1 := ucast (drop_bit 8 w)])) s)"
  have "ide_well_formed (fold f is s) \<and> model (dev (fold f is s) d) = model (dev s d)" for "is"
    using assms
  proof (induction "is" arbitrary: s)
    case (Cons i "is")
    obtain w t where w: "inw io (base + ATA_REG_DATA) s = (w, t)" by fastforce
    then have t: "ide_devices t = ide_devices s" by (auto simp: inw_def split: prod.splits)
    then have wf: "ide_well_formed t" using Cons.prems by (simp add: ide_well_formed_def)
    have "ide_well_formed (f i s)"
    proof (cases "d < 4")
      case True
      then show ?thesis using well_formed_dev [OF wf]
        unfolding f_def w prod.case by (intro well_formed_with_dev [OF wf]) (simp add: ide_ok_def)
    next
      case False
      then show ?thesis using wf by (simp add: f_def w with_dev_def ide_well_formed_def list_update_beyond)
    qed
    moreover have "model (dev (f i s) d) = model (dev s d)"
      by (cases "d < length (ide_devices s)") (simp_all add: f_def w with_dev_def t list_update_beyond)
    ultimately show ?case using Cons.IH [of "f i s"] by simp
  qed simp
  then show ?thesis by (simp add: read_identify_def f_def)
qed

lemma model_bytes_ok:
  assumes "length m = 41" "m ! 40 = 0"
  shows "length (model_bytes ident m) = 41 \<and> model_bytes ident m ! 40 = 0"
proof -
  define f where "f = (\<lambda>i m. m[i := ident ! (ATA_IDENT_MODEL + i + 1), i + 1 := ident ! (ATA_IDENT_MODEL + i)])"
  have "length (fold f is m) = 41 \<and> fold f is m ! 40 = 0" if "\<forall>i \<in> set is. i + 1 < 40" for "is"
    using that assms
  proof (induction "is" arbitrary: m)
    case (Cons i "is")
    have "length (f i m) = 41" "f i m ! 40 = 0" using Cons.prems by (simp_all add: f_def)
    then show ?case using Cons by simp
  qed simp
  from this [of "map (\<lambda>k. 2 * k) [0..<20]"] show ?thesis by (simp add: model_bytes_def f_def)
qed

lemma ide_ok_zero [simp]: "ide_ok zero_ide"
  by (simp add: ide_ok_def zero_ide_def ATA_IDE_MODEL_LENGTH_def)

lemma identify_wait_quiet:
  assumes "identify_wait io base s = Some r"
  shows "quiet s (snd r)"
proof (rule identify_wait.raw_induct [where P = "\<lambda>io base s r. quiet s (snd r)", OF _ assms])
  fix loop :: "'a io \<Rightarrow> u16 \<Rightarrow> 'a ide \<Rightarrow> (u8 \<times> 'a ide) option" and io base s r
  assume IH: "\<And>io base s r. loop io base s = Some r \<Longrightarrow> quiet s (snd r)"
    and eq: "(case inb io (base + ATA_REG_STATUS) s of (status, s) \<Rightarrow>
      if status AND ATA_SR_ERR \<noteq> 0 then Some (status, s)
      else if status AND ATA_SR_DRQ \<noteq> 0 then Some (status, s) else loop io base s) = Some r"
  obtain v t where v: "inb io (base + ATA_REG_STATUS) s = (v, t)" by fastforce
  with eq IH [of io base t r] quiet_inb [OF v] show "quiet s (snd r)"
    by (auto split: if_splits intro: quiet_trans)
qed

lemma dev_with_dev: "d < length (ide_devices s) \<Longrightarrow> dev (with_dev d f s) d = f (dev s d)"
  by (simp add: with_dev_def)

text \<open>The part of an initialisation that ends with the command, and the rest as a tree of cases.\<close>

definition identify_command :: "'s io \<Rightarrow> u8 \<Rightarrow> u8 \<Rightarrow> nat \<Rightarrow> 's ide \<Rightarrow> 's ide" where
  "identify_command io ch dr d s =
     outb io (io_of ch + ATA_REG_COMMAND) ATA_CMD_IDENTIFY (outb io (io_of ch + ATA_REG_LBA2) 0
      (outb io (io_of ch + ATA_REG_LBA1) 0 (outb io (io_of ch + ATA_REG_LBA0) 0 (outb io (io_of ch + ATA_REG_SECCOUNT0) 0
        (snd (ata_pio_select_drive io ch dr (with_dev d (\<lambda>x. x\<lparr>channel := ch, drive := dr\<rparr>) s)))))))"

lemma init_drive_eq:
  assumes "inb io (io_of ch + ATA_REG_STATUS) (identify_command io ch dr d s) = (st2, s2)"
    "inb io (io_of ch + ATA_REG_STATUS) s2 = (st3, s3)"
  shows "ata_pio_init_drive io ch dr (Some d) s =
     (if st2 = 0 then Some (3, with_dev d (\<lambda>_. zero_ide) s2)
      else if st3 = 0 \<or> st3 = 0xFF then Some (1, with_dev d (\<lambda>_. zero_ide) s3)
      else case identify_wait io (io_of ch) s3 of None \<Rightarrow> None
      | Some (status, s) \<Rightarrow>
        if status AND ATA_SR_ERR \<noteq> 0 then Some (1, with_dev d (\<lambda>_. zero_ide) s)
        else let s = read_identify io (io_of ch) d s
             in case trim_array (model_bytes (identify_data (dev s d)) (model (dev s d))) of None \<Rightarrow> None
                | Some name \<Rightarrow> Some (0, with_dev d (identified name) s))"
  unfolding ata_pio_init_drive_def Let_def option.case identify_command_def [symmetric] by (simp add: assms)

text \<open>The ways an initialisation ends.\<close>

lemma init_drive_cases:
  assumes "ata_pio_init_drive io ch dr (Some d) s = Some (c, s')"
  obtains (absent) t where "c \<noteq> 0" "quiet (with_dev d (\<lambda>x. x\<lparr>channel := ch, drive := dr\<rparr>) s) t"
      "s' = with_dev d (\<lambda>_. zero_ide) t"
    | (there) t nm where "c = 0" "quiet (with_dev d (\<lambda>x. x\<lparr>channel := ch, drive := dr\<rparr>) s) t"
      "trim_array (model_bytes (identify_data (dev (read_identify io (io_of ch) d t) d))
         (model (dev (read_identify io (io_of ch) d t) d))) = Some nm"
      "s' = with_dev d (identified nm) (read_identify io (io_of ch) d t)"
proof -
  define s0 where "s0 = with_dev d (\<lambda>x. x\<lparr>channel := ch, drive := dr\<rparr>) s"
  have q1: "quiet s0 (identify_command io ch dr d s)"
    unfolding identify_command_def s0_def [symmetric] by (intro quiet_after quiet_select)
  obtain st2 s2 where r2: "inb io (io_of ch + ATA_REG_STATUS) (identify_command io ch dr d s) = (st2, s2)" by fastforce
  obtain st3 s3 where r3: "inb io (io_of ch + ATA_REG_STATUS) s2 = (st3, s3)" by fastforce
  have q2: "quiet s0 s2" "quiet s0 s3"
    using quiet_trans [OF q1 quiet_inb [OF r2]] quiet_trans [OF quiet_trans [OF q1 quiet_inb [OF r2]] quiet_inb [OF r3]] by simp_all
  note init = init_drive_eq [OF r2 r3]
  consider (none) "st2 = 0" | (none') "st2 \<noteq> 0" "st3 = 0 \<or> st3 = 0xFF" | (answer) "st2 \<noteq> 0" "\<not> (st3 = 0 \<or> st3 = 0xFF)" by blast
  then show thesis
  proof cases
    case none
    then show thesis using assms init absent [of s2] q2(1) by (simp add: s0_def)
  next
    case none'
    then show thesis using assms init absent [of s3] q2(2) by (auto simp: s0_def)
  next
    case answer
    obtain st4 s4 where r4: "identify_wait io (io_of ch) s3 = Some (st4, s4)"
      using assms init answer by (auto split: option.splits)
    have q4: "quiet s0 s4" using quiet_trans [OF q2(2) identify_wait_quiet [OF r4]] by simp
    show thesis
    proof (cases "st4 AND ATA_SR_ERR \<noteq> 0")
      case True
      then show thesis using assms init answer r4 absent [of s4] q4 by (simp add: s0_def)
    next
      case False
      then show thesis using assms init answer r4 there [of s4] q4
        by (auto simp: s0_def Let_def split: option.splits)
    qed
  qed
qed

text \<open>Reading the identification of a drive changes only that.\<close>

lemma read_identify_others:
  "length (ide_devices (read_identify io base d s)) = length (ide_devices s) \<and>
   (\<forall>e. e \<noteq> d \<longrightarrow> dev (read_identify io base d s) e = dev s e) \<and>
   (d < length (ide_devices s) \<longrightarrow> channel (dev (read_identify io base d s) d) = channel (dev s d) \<and>
      drive (dev (read_identify io base d s) d) = drive (dev s d))"
proof -
  define f where "f = (\<lambda>i s. case inw io (base + ATA_REG_DATA) s of (w, s) \<Rightarrow>
    with_dev d (identify_data_update (\<lambda>xs. xs[2 * i := ucast w, 2 * i + 1 := ucast (drop_bit 8 w)])) s)"
  have step: "length (ide_devices (f i s)) = length (ide_devices s) \<and> (\<forall>e. e \<noteq> d \<longrightarrow> dev (f i s) e = dev s e) \<and>
    (d < length (ide_devices s) \<longrightarrow> channel (dev (f i s) d) = channel (dev s d) \<and> drive (dev (f i s) d) = drive (dev s d))" for i s
    by (auto simp: f_def inw_def with_dev_def split: prod.splits)
  have "length (ide_devices (fold f is s)) = length (ide_devices s) \<and> (\<forall>e. e \<noteq> d \<longrightarrow> dev (fold f is s) e = dev s e) \<and>
    (d < length (ide_devices s) \<longrightarrow> channel (dev (fold f is s) d) = channel (dev s d) \<and> drive (dev (fold f is s) d) = drive (dev s d))" for "is"
  proof (induction "is" arbitrary: s)
    case (Cons i "is")
    then show ?case using step [of i s] by simp
  qed simp
  then show ?thesis by (simp add: read_identify_def f_def)
qed

lemma init_drive_ok:
  assumes "ide_well_formed s" "d < 4" "ata_pio_init_drive io ch dr (Some d) s = Some (c, s')"
  shows "ide_well_formed s' \<and> (if c = 0 then channel (dev s' d) = ch \<and> drive (dev s' d) = dr \<and> sector_size (dev s' d) = 512
    else dev s' d = zero_ide)" "\<And>e. e < 4 \<Longrightarrow> e \<noteq> d \<Longrightarrow> core_dev (dev s' e) = core_dev (dev s e)"
proof -
  define s0 where "s0 = with_dev d (\<lambda>x. x\<lparr>channel := ch, drive := dr\<rparr>) s"
  have wf0: "ide_well_formed s0"
    unfolding s0_def using well_formed_dev [OF assms(1,2)] by (intro well_formed_with_dev [OF assms(1)]) (simp add: ide_ok_def)
  have l0: "length (ide_devices s0) = 4" using wf0 by (simp add: ide_well_formed_def)
  have d0: "channel (dev s0 d) = ch" "drive (dev s0 d) = dr"
    using assms(1,2) by (simp_all add: s0_def dev_with_dev ide_well_formed_def)
  have "(ide_well_formed s' \<and> (if c = 0 then channel (dev s' d) = ch \<and> drive (dev s' d) = dr \<and> sector_size (dev s' d) = 512
    else dev s' d = zero_ide)) \<and> (\<forall>e < 4. e \<noteq> d \<longrightarrow> core_dev (dev s' e) = core_dev (dev s0 e))"
    using assms(3)
  proof (cases rule: init_drive_cases)
    case (absent t)
    note q = absent(2) [folded s0_def]
    have wf: "ide_well_formed t" using wf0 quiet_well_formed [OF q] by simp
    then show ?thesis
      using absent assms(2) well_formed_with_dev [OF wf, of "\<lambda>_. zero_ide" d] quiet_dev(2) [OF q] l0
      by (auto simp: dev_with_dev with_dev_def ide_well_formed_def [of t])
  next
    case (there t nm)
    note q = there(2) [folded s0_def]
    let ?s5 = "read_identify io (io_of ch) d t"
    have wf: "ide_well_formed t" using wf0 quiet_well_formed [OF q] by simp
    then have lt: "length (ide_devices t) = 4" by (simp add: ide_well_formed_def)
    have wf5: "ide_well_formed ?s5" using read_identify_ok [OF wf] by simp
    then have l5: "length (ide_devices ?s5) = 4" by (simp add: ide_well_formed_def)
    have "ide_ok (dev ?s5 d)" by (rule well_formed_dev [OF wf5 assms(2)])
    then have m: "length (model (dev ?s5 d)) = 41" "model (dev ?s5 d) ! 40 = 0" and i: "length (identify_data (dev ?s5 d)) = 512"
      by (simp_all add: ide_ok_def ATA_IDE_MODEL_LENGTH_def)
    have "length nm = 41" "nm ! 40 = 0" using trim_array_ok [OF _ _ there(3)] model_bytes_ok [OF m] by simp_all
    then have ok: "ide_ok (identified nm (dev ?s5 d))" using i by (simp add: ide_ok_def identified_def Let_def ATA_IDE_MODEL_LENGTH_def)
    have "channel (dev ?s5 d) = ch" "drive (dev ?s5 d) = dr"
      using read_identify_others [where d = d and s = t and io = io and base = "io_of ch"] lt assms(2) quiet_core(1,2) [OF q, of d] d0 l0 by simp_all
    moreover have "core_dev (dev ?s5 e) = core_dev (dev s0 e)" if "e < 4" "e \<noteq> d" for e
      using that quiet_dev(2) [OF q, of e] l0 read_identify_others [where d = d and s = t and io = io and base = "io_of ch"] by simp
    ultimately show ?thesis
      using there(1,4) well_formed_with_dev [OF wf5, of "identified nm" d] ok assms(2) l5
      by (simp add: dev_with_dev) (simp add: identified_def Let_def with_dev_def)
  qed
  then show "ide_well_formed s' \<and> (if c = 0 then channel (dev s' d) = ch \<and> drive (dev s' d) = dr \<and> sector_size (dev s' d) = 512
    else dev s' d = zero_ide)" "\<And>e. e < 4 \<Longrightarrow> e \<noteq> d \<Longrightarrow> core_dev (dev s' e) = core_dev (dev s e)"
    by (auto simp: s0_def with_dev_def)
qed

text \<open>Identification touches no memory but the drive's record.\<close>

lemma init_drive_mem:
  assumes "ata_pio_init_drive io ch dr (Some d) s = Some (c, s')"
  shows "ide_mem s' = ide_mem s"
proof -
  let ?f = "\<lambda>base i s. case inw io (base + ATA_REG_DATA) s of (w, s) \<Rightarrow>
    with_dev d (identify_data_update (\<lambda>xs. xs[2 * i := ucast w, 2 * i + 1 := ucast (drop_bit 8 w)])) s"
  have w: "ide_mem (with_dev d g t) = ide_mem t" for g and t :: "'a ide" by (simp add: with_dev_def)
  have f: "ide_mem (?f base i t) = ide_mem t" for base i and t :: "'a ide" by (auto simp: inw_def w split: prod.split)
  have "ide_mem (fold (?f base) is t) = ide_mem t" for base "is" and t :: "'a ide"
    by (induction "is" arbitrary: t) (simp_all only: fold.simps f id_apply comp_def)
  then have ident: "ide_mem (read_identify io base d t) = ide_mem t" for base and t :: "'a ide"
    unfolding read_identify_def .
  show ?thesis
    using assms by (cases rule: init_drive_cases) (simp_all add: quiet_def ident w)
qed

text \<open>An initialisation returns when the drive, once it shows a status, ends the wait for its identification.\<close>

lemma init_drive_answered:
  assumes "ide_well_formed s" "d < 4"
    and r2: "inb io (io_of ch + ATA_REG_STATUS) (identify_command io ch dr d s) = (st2, s2)"
    and r3: "inb io (io_of ch + ATA_REG_STATUS) s2 = (st3, s3)"
    and r4: "st2 \<noteq> 0 \<Longrightarrow> st3 \<noteq> 0 \<Longrightarrow> st3 \<noteq> 0xFF \<Longrightarrow> identify_wait io (io_of ch) s3 = Some (st4, s4)"
  shows "\<exists>s'. ata_pio_init_drive io ch dr (Some d) s =
    Some (if st2 = 0 then 3 else if st3 = 0 \<or> st3 = 0xFF \<or> st4 AND ATA_SR_ERR \<noteq> 0 then 1 else 0, s')"
proof (cases "st2 = 0 \<or> st3 = 0 \<or> st3 = 0xFF")
  case True
  then show ?thesis unfolding init_drive_eq [OF r2 r3] by auto
next
  case False
  define s0 where "s0 = with_dev d (\<lambda>x. x\<lparr>channel := ch, drive := dr\<rparr>) s"
  have wf0: "ide_well_formed s0"
    unfolding s0_def using well_formed_dev [OF assms(1,2)] by (intro well_formed_with_dev [OF assms(1)]) (simp add: ide_ok_def)
  have "quiet s0 (identify_command io ch dr d s)"
    unfolding identify_command_def s0_def [symmetric] by (intro quiet_after quiet_select)
  then have "quiet s0 s3" using quiet_inb [OF r2] quiet_inb [OF r3] quiet_trans by blast
  moreover have i: "identify_wait io (io_of ch) s3 = Some (st4, s4)" using r4 False by simp
  ultimately have "quiet s0 s4" using identify_wait_quiet [OF i] quiet_trans by fastforce
  then have "ide_well_formed s4" using quiet_well_formed wf0 by blast
  then have "ide_well_formed (read_identify io (io_of ch) d s4)" using read_identify_ok by blast
  from well_formed_dev [OF this assms(2)]
  have "length (model (dev (read_identify io (io_of ch) d s4) d)) = 41" "model (dev (read_identify io (io_of ch) d s4) d) ! 40 = 0"
    by (simp_all add: ide_ok_def ATA_IDE_MODEL_LENGTH_def)
  from trim_array_total [OF model_bytes_ok [OF this, THEN conjunct1] model_bytes_ok [OF this, THEN conjunct2]]
  obtain nm where "trim_array (model_bytes (identify_data (dev (read_identify io (io_of ch) d s4) d))
    (model (dev (read_identify io (io_of ch) d s4) d))) = Some nm" by blast
  with False i show ?thesis unfolding init_drive_eq [OF r2 r3] by (simp add: Let_def)
qed

section \<open>Properties\<close>

lemma core_devs_kept: "map core_dev (ide_devices s') = map core_dev (ide_devices s) \<Longrightarrow> e < length (ide_devices s) \<Longrightarrow>
    core_dev (dev s' e) = core_dev (dev s e)"
  by (metis map_eq_imp_length_eq nth_map)

text \<open>
  C30: The records of the four drives keep their shape: arrays of the declared lengths, a terminated name, sectors of 512
  bytes or none. Initialising a drive leaves it with its channel, its number and sectors of 512 bytes if the result is 0 and
  zeroed otherwise, touches no memory and nothing of the other three records but their interrupt flags. Reading a sector, in
  every outcome, changes memory in the 512 bytes of the buffer at most; writing one and taking an interrupt change none; all
  three change no field of any drive but the two interrupt flags.
\<close>

theorem ide_devices_well_formed:
  assumes "ide_well_formed s" "d < 4"
  shows "(ata_pio_init_drive io ch dr (Some d) s = Some (c, s1) \<longrightarrow> ide_well_formed s1 \<and>
      (if c = 0 then channel (dev s1 d) = ch \<and> drive (dev s1 d) = dr \<and> sector_size (dev s1 d) = 512 else dev s1 d = zero_ide) \<and>
      ide_mem s1 = ide_mem s \<and> (\<forall>e < 4. e \<noteq> d \<longrightarrow> core_dev (dev s1 e) = core_dev (dev s e))) \<and>
    (case ata_pio_read_sector io irq d lba buf s of (_, s2) \<Rightarrow> ide_well_formed s2 \<and>
      (\<forall>e < 4. core_dev (dev s2 e) = core_dev (dev s e)) \<and>
      (\<forall>a. (\<forall>j < 512. a \<noteq> buf + of_nat j) \<longrightarrow> ide_mem s2 a = ide_mem s a)) \<and>
    (case ata_pio_write_sector io irq d lba buf s of (_, s3) \<Rightarrow> ide_well_formed s3 \<and>
      (\<forall>e < 4. core_dev (dev s3 e) = core_dev (dev s e)) \<and> ide_mem s3 = ide_mem s) \<and>
    ide_well_formed (pause io irq s) \<and> (\<forall>e < 4. core_dev (dev (pause io irq s) e) = core_dev (dev s e)) \<and>
    ide_mem (pause io irq s) = ide_mem s"
proof -
  have l: "length (ide_devices s) = 4" using assms(1) by (simp add: ide_well_formed_def)
  have quiet: "ide_well_formed t \<and> (\<forall>e < 4. core_dev (dev t e) = core_dev (dev s e)) \<and> ide_mem t = ide_mem s" if "quiet s t" for t
    using that quiet_well_formed [OF that] quiet_dev(2) [OF that] assms(1) l by (simp add: quiet_def)
  have init: "ata_pio_init_drive io ch dr (Some d) s = Some (c, s1) \<longrightarrow> ide_well_formed s1 \<and>
      (if c = 0 then channel (dev s1 d) = ch \<and> drive (dev s1 d) = dr \<and> sector_size (dev s1 d) = 512 else dev s1 d = zero_ide) \<and>
      ide_mem s1 = ide_mem s \<and> (\<forall>e < 4. e \<noteq> d \<longrightarrow> core_dev (dev s1 e) = core_dev (dev s e))"
    using init_drive_ok [OF assms] init_drive_mem by blast
  obtain e t where t: "ata_pio_read_sector io irq d lba buf s = (e, t)" by fastforce
  note o = read_sector_frame(1) [OF t, unfolded only_sector_def]
  have read: "case ata_pio_read_sector io irq d lba buf s of (_, s2) \<Rightarrow> ide_well_formed s2 \<and>
      (\<forall>e < 4. core_dev (dev s2 e) = core_dev (dev s e)) \<and>
      (\<forall>a. (\<forall>j < 512. a \<noteq> buf + of_nat j) \<longrightarrow> ide_mem s2 a = ide_mem s a)"
    unfolding t prod.case
    using ide_well_formed_cong [OF conjunct1 [OF o]] assms(1) core_devs_kept [OF conjunct1 [OF o]] l conjunct2 [OF o] by simp
  obtain e' t' where t': "ata_pio_write_sector io irq d lba buf s = (e', t')" by fastforce
  have "case ata_pio_write_sector io irq d lba buf s of (_, s3) \<Rightarrow> ide_well_formed s3 \<and>
      (\<forall>e < 4. core_dev (dev s3 e) = core_dev (dev s e)) \<and> ide_mem s3 = ide_mem s"
    unfolding t' prod.case by (rule quiet [OF write_sector_quiet [OF t']])
  from conjI [OF this quiet [OF quiet_pause]] show ?thesis by (rule conjI [OF init conjI [OF read]])
qed

definition witness_disk :: "'s \<Rightarrow> 's ide" where
  "witness_disk h = \<lparr>ide_devices = replicate 4 zero_ide, ide_mem = (\<lambda>_. 0), hw = h\<rparr>"

lemma witness_disk_ok: "ide_well_formed (witness_disk h)"
  by (simp add: ide_well_formed_def witness_disk_def)

text \<open>Drives that always have data ready, and whose words are all 0.\<close>

definition ready_io :: "'s io" where
  "ready_io = \<lparr>inportb = \<lambda>_ h. (0x08, h), outportb = \<lambda>_ _ h. h, inports = \<lambda>_ h. (0, h), outports = \<lambda>_ _ h. h,
     inportl = \<lambda>_ h. (0, h), outportl = \<lambda>_ _ h. h\<rparr>"

lemma ready_inb: "inb ready_io p s = (0x08, s)"
  by (cases s) (simp add: inb_def ready_io_def)

lemma ready_init:
  assumes "ide_well_formed s" "d < 4"
  shows "\<exists>s'. ata_pio_init_drive ready_io ch dr (Some d) s = Some (0, s')"
proof -
  have "identify_wait ready_io (io_of ch) t = Some (0x08, t)" for t :: "'a ide"
    by (subst identify_wait.simps) (simp add: ready_inb ATA_SR_ERR_def ATA_SR_DRQ_def)
  from init_drive_answered [OF assms ready_inb ready_inb this] show ?thesis by (simp add: ATA_SR_ERR_def)
qed

theorem ide_devices_well_formed_witness:
  "\<exists>s1. ata_pio_init_drive ready_io 0 1 (Some 1) (witness_disk ()) = Some (0, s1) \<and> ide_well_formed s1 \<and>
     drive (dev s1 1) = 1 \<and> sector_size (dev s1 1) = 512 \<and> core_dev (dev s1 0) = core_dev zero_ide"
proof -
  obtain s1 where s1: "ata_pio_init_drive ready_io 0 1 (Some 1) (witness_disk ()) = Some (0, s1)"
    using ready_init [OF witness_disk_ok, where d = 1] by (metis one_less_numeral_iff semiring_norm(76))
  have "core_dev (dev (witness_disk ()) 0) = core_dev zero_ide" by (simp add: witness_disk_def)
  with s1 ide_devices_well_formed [OF witness_disk_ok, of 1 ready_io 0 1 "()" 0 s1] show ?thesis by auto
qed

text \<open>From the states \<open>P\<close> of the machine no interrupt arrives, as long as the processor only waits.\<close>

definition no_irq :: "('s \<Rightarrow> u32 option \<times> 's) \<Rightarrow> ('s \<Rightarrow> bool) \<Rightarrow> bool" where
  "no_irq irq P \<longleftrightarrow> (\<forall>h. P h \<longrightarrow> fst (irq h) = None \<and> P (snd (irq h)))"

lemma wait_loop_no_irq:
  assumes "no_irq irq P"
  shows "P (hw s) \<Longrightarrow> \<not> irq_fired (dev s d) \<Longrightarrow>
    ide_devices (wait_loop io irq d n s) = ide_devices s \<and> P (hw (wait_loop io irq d n s))"
proof (induction n arbitrary: s)
  case (Suc n)
  obtain i h where i: "irq (hw s) = (i, h)" by fastforce
  then have "i = None" "P h" using assms Suc.prems(1) unfolding no_irq_def by fastforce+
  then have "pause io irq s = s\<lparr>hw := h\<rparr>" by (simp add: pause_def i)
  with Suc \<open>P h\<close> show ?case by simp
qed simp

lemma wait_no_irq:
  assumes "no_irq irq P" "P (hw s)" "d < length (ide_devices s)"
  shows "\<exists>s'. ata_wait_irq io irq d s = (ATA_ERR_IRQ_TIMEOUT, s') \<and> irq_expected (dev s' d) \<and> P (hw s') \<and> quiet s s'"
proof -
  let ?s = "with_dev d (\<lambda>x. x\<lparr>irq_expected := True, irq_fired := False\<rparr>) s"
  let ?t = "wait_loop io irq d 1000000 ?s"
  have s: "irq_expected (dev ?s d)" "\<not> irq_fired (dev ?s d)" "P (hw ?s)"
    using assms(2,3) by (simp_all add: with_dev_def)
  from wait_loop_no_irq [OF assms(1) s(3,2), of io 1000000] have "ide_devices ?t = ide_devices ?s" "P (hw ?t)" by simp_all
  moreover have "quiet s ?t" by (rule quiet_trans [OF quiet_flags(2) quiet_wait_loop])
  ultimately show ?thesis using s
    by (intro exI [of _ ?t]) (simp add: ata_wait_irq_def Let_def)
qed

text \<open>
  C39: The driver forgets an interrupt that comes before it waits. If no interrupt follows the one taken right after the
  command, reading a sector ends in a timeout, with nothing read and the drive still marked as expecting an
  interrupt. A write needs an interrupt before it transfers anything: when none comes after the command, it times out
  and no port is accessed after the command.
\<close>

theorem ata_interrupt_before_wait_is_lost:
  assumes "\<not> has_lba48 (dev s d)" "d < length (ide_devices s)" "no_irq irq P"
  shows "(P (hw (pause io irq (sector_command io d lba ATA_CMD_READ_PIO s))) \<longrightarrow>
      (\<exists>s'. ata_pio_read_sector io irq d lba buf s = (ATA_ERR_IRQ_TIMEOUT, s') \<and> irq_expected (dev s' d) \<and>
        ide_mem s' = ide_mem s \<and> P (hw s'))) \<and>
    (P (hw (sector_command io d lba ATA_CMD_WRITE_PIO s)) \<longrightarrow>
      (\<exists>s'. ata_pio_write_sector io irq d lba buf s = (ATA_ERR_IRQ_TIMEOUT, s') \<and> irq_expected (dev s' d) \<and> P (hw s')))"
proof -
  have l: "d < length (ide_devices (pause io irq (sector_command io d lba cmd s)))" for cmd
  proof -
    have "quiet s (pause io irq (sector_command io d lba cmd s))" by (rule quiet_trans [OF quiet_command quiet_pause])
    from quiet_dev(1) [OF this] assms(2) show ?thesis by simp
  qed
  have pp: "P (hw (pause io irq t))" if "P (hw t)" for t :: "'a ide"
  proof -
    obtain i h where i: "irq (hw t) = (i, h)" by fastforce
    then have "i = None" "P h" using assms(3) that unfolding no_irq_def by fastforce+
    then show ?thesis by (simp add: pause_def i)
  qed
  have "\<exists>s'. ata_pio_read_sector io irq d lba buf s = (ATA_ERR_IRQ_TIMEOUT, s') \<and> irq_expected (dev s' d) \<and>
      ide_mem s' = ide_mem s \<and> P (hw s')"
    if p: "P (hw (pause io irq (sector_command io d lba ATA_CMD_READ_PIO s)))"
  proof -
    from wait_no_irq [OF assms(3) p l, of io] obtain s' where
      w: "ata_wait_irq io irq d (pause io irq (sector_command io d lba ATA_CMD_READ_PIO s)) = (ATA_ERR_IRQ_TIMEOUT, s')"
        "irq_expected (dev s' d)" "P (hw s')"
        "quiet (pause io irq (sector_command io d lba ATA_CMD_READ_PIO s)) s'" by blast
    moreover have "ide_mem s' = ide_mem s"
      using quiet_trans [OF quiet_trans [OF quiet_command quiet_pause] w(4)] by (simp add: quiet_def)
    ultimately show ?thesis using assms(1) by (simp add: ata_pio_read_sector_def Let_def)
  qed
  moreover have "\<exists>s'. ata_pio_write_sector io irq d lba buf s = (ATA_ERR_IRQ_TIMEOUT, s') \<and> irq_expected (dev s' d) \<and> P (hw s')"
    if p: "P (hw (sector_command io d lba ATA_CMD_WRITE_PIO s))"
    using wait_no_irq [OF assms(3) pp [OF p] l, of io] assms(1) by (auto simp: ata_pio_write_sector_def Let_def)
  ultimately show ?thesis by blast
qed

text \<open>A drive on the primary channel that interrupts as soon as it is told to read a sector, and has the data ready.\<close>

definition eager_io :: "bool io" where
  "eager_io = silent_io\<lparr>inportb := \<lambda>_ p. (0x08, p), outportb := \<lambda>port v p. port = 0x1F7 \<and> v = ATA_CMD_READ_PIO\<rparr>"

definition eager_irq :: "bool \<Rightarrow> u32 option \<times> bool" where
  "eager_irq p = (if p then Some ATA_PRIMARY_IRQ else None, False)"

theorem ata_interrupt_before_wait_is_lost_witness:
  "(\<exists>s'. ata_pio_read_sector eager_io eager_irq 0 5 0x1000 (witness_disk False) = (ATA_ERR_IRQ_TIMEOUT, s')) \<and>
   fst (eager_irq (hw (sector_command eager_io 0 5 ATA_CMD_READ_PIO (witness_disk False)))) = Some ATA_PRIMARY_IRQ"
proof -
  have a: "\<not> has_lba48 (dev (witness_disk False) 0)" "0 < length (ide_devices (witness_disk False))"
    by (simp_all add: witness_disk_def zero_ide_def has_lba48_def)
  have n: "no_irq eager_irq (\<lambda>p. \<not> p)" by (simp add: no_irq_def eager_irq_def)
  have ch: "channel (dev (witness_disk False) 0) = 0" by (simp add: witness_disk_def zero_ide_def)
  have h: "hw (sector_command eager_io 0 5 ATA_CMD_READ_PIO (witness_disk False))"
    unfolding sector_command_def Let_def ch
    by (simp add: outb_def eager_io_def silent_io_def io_of_def ATA_PRIMARY_def ATA_PRIMARY_IO_def ATA_REG_COMMAND_def)
  have p: "\<not> hw (pause eager_io eager_irq t)" if "hw t" for t
    using that by (simp add: pause_def eager_irq_def end_of_request_def ata_primary_irq_handle_def Let_def perform_def IR_EOI_def
        PIC_SLAVE_OFFSET_def ATA_PRIMARY_IRQ_def eager_io_def silent_io_def PIC1_def PIC2_def)
  have "\<exists>s'. ata_pio_read_sector eager_io eager_irq 0 5 0x1000 (witness_disk False) = (ATA_ERR_IRQ_TIMEOUT, s')"
    using ata_interrupt_before_wait_is_lost [OF a n, where io = eager_io and lba = 5] p [OF h] by blast
  then show ?thesis by (rule conjI) (simp only: h eager_irq_def if_True fst_conv)
qed

lemma sector_command_28: "sector_command io d lba cmd s = sector_command io d (take_bit 28 lba) cmd s"
proof -
  have f: "(0x0F :: u64) = mask 4" by (simp add: mask_eq_exp_minus_1)
  have "drop_bit 24 lba AND 0x0F = drop_bit 24 (take_bit 28 lba) AND 0x0F"
    unfolding f by (rule bit_word_eqI) (auto simp: bit_simps)
  moreover have "(ucast lba :: u8) = ucast (take_bit 28 lba)" "(ucast (drop_bit 8 lba) :: u8) = ucast (drop_bit 8 (take_bit 28 lba))"
    "(ucast (drop_bit 16 lba) :: u8) = ucast (drop_bit 16 (take_bit 28 lba))"
    by (rule bit_word_eqI; auto simp: bit_simps)+
  ultimately show ?thesis unfolding sector_command_def by (simp only:)
qed

text \<open>
  Only 28 bits of a sector's number reach the drive: sectors whose numbers differ by a multiple of 2 to the 28 are the
  same sector to \<open>ata_pio_read_sector\<close> and \<open>ata_pio_write_sector\<close>, and no error says so.
\<close>

theorem ata_sector_number_truncated:
  "ata_pio_read_sector io irq d lba buf s = ata_pio_read_sector io irq d (take_bit 28 lba) buf s \<and>
   ata_pio_write_sector io irq d lba buf s = ata_pio_write_sector io irq d (take_bit 28 lba) buf s"
  unfolding ata_pio_read_sector_def ata_pio_write_sector_def
  by (simp only: sector_command_28 [of io d lba])

end
