(* ===== verification/Storage_Manager.thy ===== *)
theory Storage_Manager
  imports Prelude
begin

text \<open>
  The table of storage controllers (src/kernel/storage/storage-manager.c). Pointers to a controller's
  name, device and operations are addresses. A pointer to a controller is its index in the table.
\<close>

section \<open>The table\<close>

datatype storage_manager_result =
  STORAGE_MANAGER_OK | STORAGE_MANAGER_FULL | STORAGE_MANAGER_EXISTS | STORAGE_MANAGER_INVALID

record storage_controller =
  st_name :: u32
  st_impl :: u32
  st_ops :: u32
  st_flags :: u32
  st_uid :: u32

record storage_manager =
  controllers :: "storage_controller list"
  controller_count :: u8
  sm_initialized :: bool

definition STORAGE_MANAGER_MAX_CONTROLLERS :: nat where "STORAGE_MANAGER_MAX_CONTROLLERS = 8"

definition null_controller :: storage_controller where
  "null_controller = \<lparr>st_name = 0, st_impl = 0, st_ops = 0, st_flags = 0, st_uid = 0\<rparr>"

definition storage_manager_setup :: "storage_manager \<Rightarrow> storage_manager_result \<times> storage_manager" where
  "storage_manager_setup sm =
     (if sm_initialized sm then (STORAGE_MANAGER_INVALID, sm)
      else (STORAGE_MANAGER_OK,
        sm\<lparr>controllers := replicate STORAGE_MANAGER_MAX_CONTROLLERS null_controller, controller_count := 0,
           sm_initialized := True\<rparr>))"

text \<open>The position of a controller among those in use.\<close>

definition find_controller :: "u32 \<Rightarrow> storage_manager \<Rightarrow> nat option" where
  "find_controller uid sm = find (\<lambda>i. st_uid (controllers sm ! i) = uid) [0..<unat (controller_count sm)]"

text \<open>The static counter \<open>next_controller_uid\<close> is the second component of the state.\<close>

definition storage_manager_add_controller ::
  "storage_controller \<Rightarrow> storage_manager \<times> u32 \<Rightarrow> storage_manager_result \<times> storage_manager \<times> u32" where
  "storage_manager_add_controller c = (\<lambda>(sm, next_uid).
     if \<not> sm_initialized sm then (STORAGE_MANAGER_INVALID, sm, next_uid)
     else if STORAGE_MANAGER_MAX_CONTROLLERS \<le> unat (controller_count sm) then (STORAGE_MANAGER_FULL, sm, next_uid)
     else if find_controller (st_uid c) sm \<noteq> None then (STORAGE_MANAGER_EXISTS, sm, next_uid)
     else
       let c = c\<lparr>st_uid := next_uid\<rparr>
       in (STORAGE_MANAGER_OK,
           sm\<lparr>controllers := (controllers sm)[unat (controller_count sm) := c],
              controller_count := controller_count sm + 1\<rparr>,
           next_uid + 1))"

definition storage_manager_remove_controller ::
  "u8 \<Rightarrow> storage_manager \<Rightarrow> storage_manager_result \<times> storage_manager" where
  "storage_manager_remove_controller uid sm =
     (if \<not> sm_initialized sm then (STORAGE_MANAGER_INVALID, sm)
      else case find_controller (ucast uid) sm of None \<Rightarrow> (STORAGE_MANAGER_INVALID, sm)
      | Some index \<Rightarrow>
        let cs = fold (\<lambda>i cs. cs[i := cs ! (i + 1)]) [index..<unat (controller_count sm) - 1] (controllers sm)
        in (STORAGE_MANAGER_OK, sm\<lparr>controllers := cs, controller_count := controller_count sm - 1\<rparr>))"

definition storage_manager_get_controller :: "storage_manager \<Rightarrow> u8 \<Rightarrow> nat option" where
  "storage_manager_get_controller sm uid =
     (if \<not> sm_initialized sm then None else find_controller (ucast uid) sm)"

definition storage_manager_iterate ::
  "(storage_controller \<Rightarrow> 's \<Rightarrow> 's) option \<Rightarrow> storage_manager \<Rightarrow> 's \<Rightarrow> 's" where
  "storage_manager_iterate callback sm s =
     (case callback of None \<Rightarrow> s
      | Some f \<Rightarrow>
        if \<not> sm_initialized sm then s
        else fold (\<lambda>i. f (controllers sm ! i)) [0..<unat (controller_count sm)] s)"

section \<open>The abstract list\<close>

text \<open>The controllers in use in order, and what holds of a table and the next number.\<close>

definition in_use :: "storage_manager \<Rightarrow> storage_controller list" where
  "in_use sm = take (unat (controller_count sm)) (controllers sm)"

definition storage_ok :: "storage_manager \<times> u32 \<Rightarrow> bool" where
  "storage_ok s \<longleftrightarrow> (case s of (sm, next_uid) \<Rightarrow>
     sm_initialized sm \<and> length (controllers sm) = STORAGE_MANAGER_MAX_CONTROLLERS \<and>
     unat (controller_count sm) \<le> STORAGE_MANAGER_MAX_CONTROLLERS \<and>
     distinct (map st_uid (in_use sm)) \<and> (\<forall>c \<in> set (in_use sm). st_uid c < next_uid))"

lemma length_in_use:
  "storage_ok (sm, n) \<Longrightarrow> length (in_use sm) = unat (controller_count sm)"
  by (simp add: storage_ok_def in_use_def)

lemma nth_in_use: "storage_ok (sm, n) \<Longrightarrow> i < unat (controller_count sm) \<Longrightarrow> in_use sm ! i = controllers sm ! i"
  by (simp add: storage_ok_def in_use_def)

lemma find_controller_iff:
  assumes "storage_ok (sm, n)"
  shows "find_controller uid sm = Some i \<longleftrightarrow> i < length (in_use sm) \<and> st_uid (in_use sm ! i) = uid"
    "find_controller uid sm = None \<longleftrightarrow> uid \<notin> st_uid ` set (in_use sm)"
proof -
  have d: "distinct (map st_uid (in_use sm))" using assms by (simp add: storage_ok_def)
  note l = length_in_use [OF assms] and nth = nth_in_use [OF assms]
  have "st_uid (in_use sm ! j) \<noteq> st_uid (in_use sm ! i)" if "i < length (in_use sm)" "j < i" for i j
    using nth_eq_iff_index_eq [OF d, of j i] that by auto
  then show "find_controller uid sm = Some i \<longleftrightarrow> i < length (in_use sm) \<and> st_uid (in_use sm ! i) = uid"
    using nth l by (auto simp: find_controller_def find_upt_Some_iff)
  show "find_controller uid sm = None \<longleftrightarrow> uid \<notin> st_uid ` set (in_use sm)"
  proof -
    have "uid \<notin> st_uid ` set (in_use sm) \<longleftrightarrow> (\<forall>c \<in> set (in_use sm). st_uid c \<noteq> uid)" by auto
    then show ?thesis using nth l by (simp add: find_controller_def find_upt_None_iff all_set_conv_all_nth)
  qed
qed

lemma fold_shift_left:
  assumes "k \<le> n" "n < length xs"
  shows "fold (\<lambda>i cs. cs[i := cs ! (i + 1)]) [k..<n] xs = take k xs @ take (n - k) (drop (Suc k) xs) @ drop n xs"
  using assms
proof (induction n)
  case (Suc n)
  show ?case
  proof (cases "k = Suc n")
    case False
    with Suc have k: "k \<le> n" "n < length xs" by simp_all
    let ?a = "take k xs @ take (n - k) (drop (Suc k) xs)"
    let ?ys = "?a @ drop n xs"
    have l: "length ?a = n" using k by simp
    have d: "drop n xs = xs ! n # drop (Suc n) xs" using k by (simp add: Cons_nth_drop_Suc)
    have "?ys ! (n + 1) = xs ! Suc n"
      using Suc.prems by (simp only: nth_append l) simp
    moreover have "?ys[n := xs ! Suc n] = ?a @ xs ! Suc n # drop (Suc n) xs"
      by (simp only: list_update_append l d) simp
    ultimately have "?ys[n := ?ys ! (n + 1)] = take k xs @ take (n - k) (drop (Suc k) xs) @ xs ! Suc n # drop (Suc n) xs"
      by simp
    also have "\<dots> = take k xs @ take (Suc n - k) (drop (Suc k) xs) @ drop (Suc n) xs"
      using Suc.prems k by (simp add: Suc_diff_le take_Suc_conv_app_nth)
    finally show ?thesis using Suc.IH k by simp
  qed (use Suc.prems in simp)
qed simp

lemma add_controller_ok:
  assumes "storage_ok (sm, n)" "n \<noteq> - 1" "length (in_use sm) < STORAGE_MANAGER_MAX_CONTROLLERS"
    "st_uid c \<notin> st_uid ` set (in_use sm)"
  shows "\<exists>sm'. storage_manager_add_controller c (sm, n) = (STORAGE_MANAGER_OK, sm', n + 1) \<and>
    in_use sm' = in_use sm @ [c\<lparr>st_uid := n\<rparr>] \<and> storage_ok (sm', n + 1)"
proof -
  let ?k = "unat (controller_count sm)"
  let ?sm = "sm\<lparr>controllers := (controllers sm)[?k := c\<lparr>st_uid := n\<rparr>], controller_count := controller_count sm + 1\<rparr>"
  have k: "?k < 8" "length (controllers sm) = 8"
    using assms(1,3) length_in_use [OF assms(1)] by (simp_all add: storage_ok_def STORAGE_MANAGER_MAX_CONTROLLERS_def)
  have k1: "unat (controller_count sm + 1) = Suc ?k"
    using k(1) by (simp add: unat_plus_if')
  have u: "in_use ?sm = in_use sm @ [c\<lparr>st_uid := n\<rparr>]"
    using k k1 by (simp add: in_use_def take_Suc_conv_app_nth)
  have lt: "n < n + 1" 
    using assms(2) unat_Suc_u32 [of n "- 1"] by (simp add: word_order.not_eq_extremum word_less_nat_alt)
  have "storage_ok (?sm, n + 1)"
    using assms(1) k k1 lt unfolding storage_ok_def prod.case u by (force simp: STORAGE_MANAGER_MAX_CONTROLLERS_def)
  moreover have "storage_manager_add_controller c (sm, n) = (STORAGE_MANAGER_OK, ?sm, n + 1)"
    using assms(1,4) k find_controller_iff(2) [OF assms(1), of "st_uid c"]
    by (simp add: storage_manager_add_controller_def storage_ok_def STORAGE_MANAGER_MAX_CONTROLLERS_def Let_def)
  ultimately show ?thesis using u by blast
qed

lemma remove_controller_ok:
  assumes "storage_ok (sm, n)" "ucast u \<in> st_uid ` set (in_use sm)"
  shows "\<exists>sm'. storage_manager_remove_controller u sm = (STORAGE_MANAGER_OK, sm') \<and>
    in_use sm' = filter (\<lambda>c. st_uid c \<noteq> ucast u) (in_use sm) \<and> storage_ok (sm', n)"
proof -
  let ?xs = "in_use sm" and ?k = "unat (controller_count sm)"
  note l = length_in_use [OF assms(1)]
  have d: "distinct (map st_uid ?xs)" and k: "?k \<le> 8" "length (controllers sm) = 8" and i: "sm_initialized sm"
    using assms(1) by (simp_all add: storage_ok_def STORAGE_MANAGER_MAX_CONTROLLERS_def)
  from assms(2) find_controller_iff(2) [OF assms(1), of "ucast u"] obtain j where
    j: "find_controller (ucast u) sm = Some j" by auto
  then have j': "j < ?k" "st_uid (?xs ! j) = ucast u" using find_controller_iff(1) [OF assms(1)] l by simp_all
  let ?cs = "fold (\<lambda>i cs. cs[i := cs ! (i + 1)]) [j..<?k - 1] (controllers sm)"
  let ?sm = "sm\<lparr>controllers := ?cs, controller_count := controller_count sm - 1\<rparr>"
  have cs: "?cs = take j (controllers sm) @ take (?k - 1 - j) (drop (Suc j) (controllers sm)) @ drop (?k - 1) (controllers sm)"
    using j' k by (intro fold_shift_left) simp_all
  have k1: "unat (controller_count sm - 1) = ?k - 1"
  proof -
    have "(1 :: u8) \<le> controller_count sm" using j'(1) by (simp add: word_le_nat_alt)
    from unat_sub [OF this] show ?thesis by simp
  qed
  have u: "in_use ?sm = take j ?xs @ drop (Suc j) ?xs"
  proof -
    have "in_use ?sm = take (?k - 1) ?cs" by (simp add: in_use_def k1)
    also have "\<dots> = take j ?xs @ drop (Suc j) ?xs"
    proof -
      have "j = ?k - 1 \<or> j < ?k - 1" using j'(1) by linarith
      then show ?thesis unfolding cs using j'(1) k by (elim disjE) (simp_all add: in_use_def min_def drop_take)
    qed
    finally show ?thesis .
  qed
  have sp: "?xs = take j ?xs @ ?xs ! j # drop (Suc j) ?xs" using j' l by (simp add: id_take_nth_drop)
  have nj: "st_uid c \<noteq> ucast u" if "c \<in> set (take j ?xs) \<union> set (drop (Suc j) ?xs)" for c
  proof -
    have "distinct (map st_uid (take j ?xs @ ?xs ! j # drop (Suc j) ?xs))" using d sp by simp
    then have "ucast u \<notin> st_uid ` set (take j ?xs) \<union> st_uid ` set (drop (Suc j) ?xs)" using j'(2) by auto
    moreover have "st_uid c \<in> st_uid ` set (take j ?xs) \<union> st_uid ` set (drop (Suc j) ?xs)" using that by blast
    ultimately show ?thesis by metis
  qed
  have f: "filter (\<lambda>c. st_uid c \<noteq> ucast u) ?xs = take j ?xs @ drop (Suc j) ?xs"
    by (subst sp) (use nj j'(2) in \<open>auto simp: filter_id_conv\<close>)
  have "length ?cs = 8" using cs j' k by simp
  moreover have "set (filter (\<lambda>c. st_uid c \<noteq> ucast u) ?xs) \<subseteq> set ?xs"
    "distinct (map st_uid (filter (\<lambda>c. st_uid c \<noteq> ucast u) ?xs))" using d by (auto simp: distinct_map_filter)
  ultimately have "storage_ok (?sm, n)"
    using assms(1) k k1 unfolding storage_ok_def prod.case u f [symmetric]
    by (auto simp: STORAGE_MANAGER_MAX_CONTROLLERS_def)
  moreover have "storage_manager_remove_controller u sm = (STORAGE_MANAGER_OK, ?sm)"
    using i j by (simp add: storage_manager_remove_controller_def Let_def)
  moreover have "in_use ?sm = filter (\<lambda>c. st_uid c \<noteq> ucast u) ?xs" by (simp only: u f)
  ultimately show ?thesis by (intro exI [of _ ?sm] conjI)
qed

section \<open>Properties\<close>

text \<open>
  C23: The table is a list of at most eight controllers with different numbers. Adding appends the
  controller under the next number, and is refused when the list is full or has a controller with the
  number passed in; removing deletes exactly the controller with the number and keeps the order;
  getting finds it; iterating visits all of them in order.
\<close>

theorem storage_manager_refines_list:
  assumes "storage_ok (sm, n)" "n \<noteq> - 1"
  shows "(case storage_manager_add_controller c (sm, n) of (r, sm', n') \<Rightarrow>
      if length (in_use sm) = 8 then r = STORAGE_MANAGER_FULL \<and> sm' = sm \<and> n' = n
      else if st_uid c \<in> st_uid ` set (in_use sm) then r = STORAGE_MANAGER_EXISTS \<and> sm' = sm \<and> n' = n
      else r = STORAGE_MANAGER_OK \<and> in_use sm' = in_use sm @ [c\<lparr>st_uid := n\<rparr>] \<and> n' = n + 1 \<and> storage_ok (sm', n')) \<and>
    (case storage_manager_remove_controller u sm of (r, sm') \<Rightarrow>
      if ucast u \<in> st_uid ` set (in_use sm)
      then r = STORAGE_MANAGER_OK \<and> in_use sm' = filter (\<lambda>c. st_uid c \<noteq> ucast u) (in_use sm) \<and> storage_ok (sm', n)
      else r = STORAGE_MANAGER_INVALID \<and> sm' = sm) \<and>
    (storage_manager_get_controller sm u = Some i \<longleftrightarrow> i < length (in_use sm) \<and> st_uid (in_use sm ! i) = ucast u) \<and>
    storage_manager_iterate (Some f) sm s = fold f (in_use sm) s"
proof -
  note l = length_in_use [OF assms(1)]
  have ok: "sm_initialized sm" "length (in_use sm) \<le> 8"
    using assms(1) l by (simp_all add: storage_ok_def STORAGE_MANAGER_MAX_CONTROLLERS_def)
  have add: "storage_manager_add_controller c (sm, n) =
      (if length (in_use sm) = 8 then (STORAGE_MANAGER_FULL, sm, n) else (STORAGE_MANAGER_EXISTS, sm, n))"
    if "length (in_use sm) = 8 \<or> st_uid c \<in> st_uid ` set (in_use sm)"
    using that ok l find_controller_iff(2) [OF assms(1), of "st_uid c"]
    by (auto simp: storage_manager_add_controller_def STORAGE_MANAGER_MAX_CONTROLLERS_def)
  have 1: "case storage_manager_add_controller c (sm, n) of (r, sm', n') \<Rightarrow>
      if length (in_use sm) = 8 then r = STORAGE_MANAGER_FULL \<and> sm' = sm \<and> n' = n
      else if st_uid c \<in> st_uid ` set (in_use sm) then r = STORAGE_MANAGER_EXISTS \<and> sm' = sm \<and> n' = n
      else r = STORAGE_MANAGER_OK \<and> in_use sm' = in_use sm @ [c\<lparr>st_uid := n\<rparr>] \<and> n' = n + 1 \<and> storage_ok (sm', n')"
  proof (cases "length (in_use sm) = 8 \<or> st_uid c \<in> st_uid ` set (in_use sm)")
    case True
    then show ?thesis using add by auto
  next
    case False
    then have "length (in_use sm) < STORAGE_MANAGER_MAX_CONTROLLERS" "st_uid c \<notin> st_uid ` set (in_use sm)"
      using ok(2) by (simp_all add: STORAGE_MANAGER_MAX_CONTROLLERS_def)
    from add_controller_ok [OF assms this] obtain sm' where
      "storage_manager_add_controller c (sm, n) = (STORAGE_MANAGER_OK, sm', n + 1)"
      "in_use sm' = in_use sm @ [c\<lparr>st_uid := n\<rparr>]" "storage_ok (sm', n + 1)" by blast
    then show ?thesis using False by simp
  qed
  have 2: "case storage_manager_remove_controller u sm of (r, sm') \<Rightarrow>
      if ucast u \<in> st_uid ` set (in_use sm)
      then r = STORAGE_MANAGER_OK \<and> in_use sm' = filter (\<lambda>c. st_uid c \<noteq> ucast u) (in_use sm) \<and> storage_ok (sm', n)
      else r = STORAGE_MANAGER_INVALID \<and> sm' = sm"
  proof (cases "ucast u \<in> st_uid ` set (in_use sm)")
    case True
    from remove_controller_ok [OF assms(1) True] True show ?thesis by auto
  next
    case False
    then have "find_controller (ucast u) sm = None" using find_controller_iff(2) [OF assms(1)] by blast
    then show ?thesis using False ok(1) by (simp add: storage_manager_remove_controller_def)
  qed
  have 3: "storage_manager_get_controller sm u = Some i \<longleftrightarrow> i < length (in_use sm) \<and> st_uid (in_use sm ! i) = ucast u"
    using ok(1) find_controller_iff(1) [OF assms(1)] by (simp add: storage_manager_get_controller_def)
  have "in_use sm = map (\<lambda>i. controllers sm ! i) [0..<unat (controller_count sm)]"
    using nth_in_use [OF assms(1)] l by (intro nth_equalityI) simp_all
  then have 4: "storage_manager_iterate (Some f) sm s = fold f (in_use sm) s"
    using ok(1) by (simp add: storage_manager_iterate_def fold_map comp_def)
  from 1 2 3 4 show ?thesis by blast
qed

definition witness_storage :: "storage_manager \<times> u32" where
  "witness_storage =
    (let (_, sm) = storage_manager_setup \<lparr>controllers = [], controller_count = 3, sm_initialized = False\<rparr>;
         (_, sm, n) = storage_manager_add_controller (null_controller\<lparr>st_name := 7, st_uid := - 1\<rparr>) (sm, 255)
     in snd (storage_manager_add_controller (null_controller\<lparr>st_name := 8, st_uid := - 1\<rparr>) (sm, n)))"

lemma replicate_8: "replicate 8 x = [x, x, x, x, x, x, x, x]"
  by (simp add: eval_nat_numeral)

lemma witness_storage:
  "storage_ok witness_storage" "snd witness_storage = 257"
  "in_use (fst witness_storage) = [null_controller\<lparr>st_name := 7, st_uid := 255\<rparr>, null_controller\<lparr>st_name := 8, st_uid := 256\<rparr>]"
  by (simp_all add: witness_storage_def storage_ok_def in_use_def storage_manager_setup_def find_controller_def
    storage_manager_add_controller_def STORAGE_MANAGER_MAX_CONTROLLERS_def null_controller_def Let_def replicate_8)

theorem storage_manager_refines_list_witness:
  "map st_uid (in_use (snd (storage_manager_remove_controller 255 (fst witness_storage)))) = [256]"
proof -
  obtain sm where w: "witness_storage = (sm, 257)" using witness_storage(2) by (metis prod.collapse)
  note i = witness_storage(1,3) [unfolded w fst_conv]
  from storage_manager_refines_list [OF i(1), of null_controller 255 0 "\<lambda>_ s. s" "()"] i(2)
  show ?thesis unfolding w by (auto split: prod.splits)
qed

text \<open>
  Numbers are 32 bits wide, but are looked up as 8 bits: a controller that got a number from 256 on
  can neither be found nor removed, by any argument.
\<close>

theorem storage_numbers_truncated:
  assumes "storage_ok (sm, n)" "i < length (in_use sm)" "256 \<le> st_uid (in_use sm ! i)"
  shows "storage_manager_get_controller sm u \<noteq> Some i \<and>
    in_use sm ! i \<in> set (in_use (snd (storage_manager_remove_controller u sm)))"
proof -
  have "(ucast u :: u32) < 256"
    using unsigned_less [of u, where ?'a = nat] by (simp add: word_less_nat_alt unsigned_ucast_eq take_bit_eq_mod)
  with assms(3) have ne: "st_uid (in_use sm ! i) \<noteq> ucast u" by auto
  have 1: "storage_manager_get_controller sm u \<noteq> Some i"
    using ne find_controller_iff(1) [OF assms(1)] by (auto simp: storage_manager_get_controller_def)
  show ?thesis
  proof (cases "ucast u \<in> st_uid ` set (in_use sm)")
    case True
    from remove_controller_ok [OF assms(1) True] 1 ne assms(2) show ?thesis by auto
  next
    case False
    then have "find_controller (ucast u) sm = None" using find_controller_iff(2) [OF assms(1)] by blast
    then show ?thesis using 1 assms(2) by (simp add: storage_manager_remove_controller_def)
  qed
qed

theorem storage_numbers_truncated_witness:
  "storage_manager_get_controller (fst witness_storage) 0 \<noteq> Some 1"
proof -
  obtain sm where w: "witness_storage = (sm, 257)" using witness_storage(2) by (metis prod.collapse)
  have "storage_ok (sm, 257)" "1 < length (in_use sm)" "256 \<le> st_uid (in_use sm ! 1)"
    using witness_storage(1,3) [unfolded w fst_conv] by simp_all
  from storage_numbers_truncated [OF this, of 0] show ?thesis unfolding w by simp
qed

end
