(* ===== verification/IDE_Controller.thy ===== *)
theory IDE_Controller
  imports ATA_PIO Storage_Manager
begin

text \<open>
  The IDE controller (src/kernel/drivers/ide-controller/ide-controller.c): the operations it offers as a
  storage controller, and the probe function that registers its drives with the storage manager. The
  result of a transfer is an \<open>int32_t\<close>, here the word that represents it.
\<close>

section \<open>Operations of a storage controller\<close>

definition STORAGE_CONTROLLER_FLAG_BUSY :: u32 where "STORAGE_CONTROLLER_FLAG_BUSY = push_bit 0 1"
definition STORAGE_CONTROLLER_FLAG_READING :: u32 where "STORAGE_CONTROLLER_FLAG_READING = push_bit 1 1"
definition STORAGE_CONTROLLER_FLAG_WRITING :: u32 where "STORAGE_CONTROLLER_FLAG_WRITING = push_bit 2 1"
definition STORAGE_CONTROLLER_FLAG_ERROR :: u32 where "STORAGE_CONTROLLER_FLAG_ERROR = push_bit 3 1"

definition set_status_flag :: "nat \<Rightarrow> u32 \<Rightarrow> 's ide \<Rightarrow> 's ide" where
  "set_status_flag d flag = with_dev d (controller_status_update (\<lambda>st. st OR flag))"

definition clear_status_flag :: "nat \<Rightarrow> u32 \<Rightarrow> 's ide \<Rightarrow> 's ide" where
  "clear_status_flag d flag = with_dev d (controller_status_update (\<lambda>st. st AND NOT flag))"

text \<open>The loop over the sectors, up to the first that fails.\<close>

primrec sectors :: "(u32 \<Rightarrow> 's ide \<Rightarrow> ata_error \<times> 's ide) \<Rightarrow> u32 list \<Rightarrow> 's ide \<Rightarrow> bool \<times> 's ide" where
  "sectors f [] s = (True, s)"
| "sectors f (i # is) s = (case f i s of (e, s) \<Rightarrow> if e \<noteq> ATA_NO_ERROR then (False, s) else sectors f is s)"

definition ide_read ::
  "'s io \<Rightarrow> ('s \<Rightarrow> u32 option \<times> 's) \<Rightarrow> nat \<Rightarrow> u64 \<Rightarrow> u32 \<Rightarrow> u32 \<Rightarrow> 's ide \<Rightarrow> u32 \<times> 's ide" where
  "ide_read io irq d lba n buf s =
     (let busy = STORAGE_CONTROLLER_FLAG_BUSY OR STORAGE_CONTROLLER_FLAG_READING;
          s = clear_status_flag d STORAGE_CONTROLLER_FLAG_ERROR (set_status_flag d busy s);
          (ok, s) = sectors (\<lambda>i s. ata_pio_read_sector io irq d (lba + ucast i) (buf + i * sector_size (dev s d)) s)
            (map of_nat [0..<unat n]) s
      in if \<not> ok then (- 1, clear_status_flag d busy (set_status_flag d STORAGE_CONTROLLER_FLAG_ERROR s))
         else (n, clear_status_flag d busy s))"

definition ide_write ::
  "'s io \<Rightarrow> ('s \<Rightarrow> u32 option \<times> 's) \<Rightarrow> nat \<Rightarrow> u64 \<Rightarrow> u32 \<Rightarrow> u32 \<Rightarrow> 's ide \<Rightarrow> u32 \<times> 's ide" where
  "ide_write io irq d lba n buf s =
     (let busy = STORAGE_CONTROLLER_FLAG_BUSY OR STORAGE_CONTROLLER_FLAG_WRITING;
          s = clear_status_flag d STORAGE_CONTROLLER_FLAG_ERROR (set_status_flag d busy s);
          (ok, s) = sectors (\<lambda>i s. ata_pio_write_sector io irq d (lba + ucast i) (buf + i * sector_size (dev s d)) s)
            (map of_nat [0..<unat n]) s
      in if \<not> ok then (- 1, clear_status_flag d busy (set_status_flag d STORAGE_CONTROLLER_FLAG_ERROR s))
         else (n, clear_status_flag d busy s))"

definition ide_sector_size :: "nat \<Rightarrow> 's ide \<Rightarrow> u32" where "ide_sector_size d s = sector_size (dev s d)"
definition ide_sector_count :: "nat \<Rightarrow> 's ide \<Rightarrow> u64" where "ide_sector_count d s = sector_count (dev s d)"
definition ide_status :: "nat \<Rightarrow> 's ide \<Rightarrow> u32" where "ide_status d s = controller_status (dev s d)"

section \<open>Probing\<close>

text \<open>
  The addresses of a drive's record, of which there are four at \<open>ide_devices\<close>, and of its name. \<open>ops\<close> is the
  address of the table of operations; \<open>hp\<close> and \<open>hs\<close> are the two interrupt handlers.
\<close>

definition ide_addr :: "u32 \<Rightarrow> nat \<Rightarrow> u32" where "ide_addr base d = base + 592 * of_nat d"

definition ide_controller :: "u32 \<Rightarrow> u32 \<Rightarrow> nat \<Rightarrow> storage_controller" where
  "ide_controller base ops d =
     \<lparr>st_name = ide_addr base d + 28, st_impl = ide_addr base d, st_ops = ops, st_flags = 0, st_uid = - 1\<rparr>"

definition probe_drive ::
  "'s io \<Rightarrow> u32 \<Rightarrow> u32 \<Rightarrow> u8 \<times> u8 \<Rightarrow> (storage_manager \<times> u32) \<times> 's ide \<Rightarrow> ((storage_manager \<times> u32) \<times> 's ide) option" where
  "probe_drive io base ops = (\<lambda>(ch, dr) (st, s).
     let d = unat (push_bit 1 ch OR dr)
     in case ata_pio_init_drive io ch dr (Some d) s of None \<Rightarrow> None
        | Some (code, s) \<Rightarrow>
          if code \<noteq> 0 then Some (st, s)
          else Some (snd (storage_manager_add_controller (ide_controller base ops d) st), s))"

definition ide_pci_probe ::
  "'s io \<Rightarrow> u32 \<Rightarrow> u32 \<Rightarrow> 'h \<Rightarrow> 'h \<Rightarrow> pci_device \<Rightarrow> 'h handles \<times> (storage_manager \<times> u32) \<times> 's ide \<Rightarrow>
   (u8 \<times> 'h handles \<times> (storage_manager \<times> u32) \<times> 's ide) option" where
  "ide_pci_probe io base ops hp hs pci_dev = (\<lambda>(handles, st, s).
     if class_code (common (header pci_dev)) \<noteq> 0x1 \<or> subclass_code (common (header pci_dev)) \<noteq> 0x1
     then Some (1, handles, st, s)
     else
       let handles = kernel_interrupts_add_request_handle (ucast ATA_PRIMARY_IRQ) (Some hp) handles;
           handles = kernel_interrupts_add_request_handle (ucast ATA_SECONDARY_IRQ) (Some hs) handles
       in map_option (\<lambda>(st, s). (0, handles, st, s))
            (each (probe_drive io base ops) [(0, 0), (0, 1), (1, 0), (1, 1)] (st, s)))"

section \<open>Outcome of a transfer\<close>

lemma flags_only [simp]:
  "length (ide_devices (set_status_flag d fl s)) = length (ide_devices s)" "length (ide_devices (clear_status_flag d fl s)) = length (ide_devices s)"
  "ide_mem (set_status_flag d fl s) = ide_mem s" "ide_mem (clear_status_flag d fl s) = ide_mem s"
  "e \<noteq> d \<Longrightarrow> dev (set_status_flag d fl s) e = dev s e" "e \<noteq> d \<Longrightarrow> dev (clear_status_flag d fl s) e = dev s e"
  by (simp_all add: set_status_flag_def clear_status_flag_def with_dev_def)

lemma flags_dev [simp]:
  assumes "d < length (ide_devices s)"
  shows "controller_status (dev (set_status_flag d fl s) d) = controller_status (dev s d) OR fl"
    "controller_status (dev (clear_status_flag d fl s) d) = controller_status (dev s d) AND NOT fl"
    "sector_size (dev (set_status_flag d fl s) d) = sector_size (dev s d)" "sector_size (dev (clear_status_flag d fl s) d) = sector_size (dev s d)"
    "has_lba48 (dev (set_status_flag d fl s) d) = has_lba48 (dev s d)" "has_lba48 (dev (clear_status_flag d fl s) d) = has_lba48 (dev s d)"
  using assms by (simp_all add: set_status_flag_def clear_status_flag_def with_dev_def has_lba48_def)

text \<open>What a loop over sectors keeps, when each step does.\<close>

lemma sectors_keep:
  assumes "\<And>i s e s'. i \<in> set is \<Longrightarrow> I s \<Longrightarrow> f i s = (e, s') \<Longrightarrow> I s'" "I s" "sectors f is s = (ok, s')"
  shows "I s'"
  using assms
proof (induction "is" arbitrary: s)
  case (Cons i "is")
  obtain e t where e: "f i s = (e, t)" by fastforce
  have t: "I t" by (rule Cons.prems(1) [OF _ Cons.prems(2) e]) simp
  show ?case
  proof (cases "e = ATA_NO_ERROR")
    case True
    then have r: "sectors f is t = (ok, s')" using Cons.prems(3) e by simp
    show ?thesis by (rule Cons.IH [OF _ t r], rule Cons.prems(1)) simp_all
  qed (use Cons.prems(3) e t in auto)
qed simp

text \<open>The state of a transfer that differs from \<open>s\<close> only in the buffer and in interrupt flags.\<close>

definition transferred :: "u32 \<Rightarrow> u32 \<Rightarrow> nat \<Rightarrow> 's ide \<Rightarrow> 's ide \<Rightarrow> bool" where
  "transferred n buf d s s' \<longleftrightarrow> map core_dev (ide_devices s') = map core_dev (ide_devices s) \<and>
     (\<forall>a. (\<forall>i < unat n. \<forall>j < 512. a \<noteq> buf + of_nat i * sector_size (dev s d) + of_nat j) \<longrightarrow> ide_mem s' a = ide_mem s a)"

lemma read_sectors_transferred:
  assumes "d < length (ide_devices s)"
    "sectors (\<lambda>i s. ata_pio_read_sector io irq d (lba + ucast i) (buf + i * sector_size (dev s d)) s)
       (map of_nat [0..<unat n]) s = (ok, s')"
  shows "transferred n buf d s s'"
proof (rule sectors_keep [where I = "transferred n buf d s", OF _ _ assms(2)])
  fix i t e t'
  assume i: "i \<in> set (map of_nat [0..<unat n] :: u32 list)" and I: "transferred n buf d s t"
    and r: "ata_pio_read_sector io irq d (lba + ucast i) (buf + i * sector_size (dev t d)) t = (e, t')"
  obtain k where k: "k < unat n" "i = of_nat k" using i by auto
  have m: "map core_dev (ide_devices t) = map core_dev (ide_devices s)" using I by (simp add: transferred_def)
  have "core_dev (dev t d) = core_dev (dev s d)"
    using arg_cong [OF m, of "\<lambda>xs. xs ! d"] assms(1) map_eq_imp_length_eq [OF m] by simp
  then have ss: "sector_size (dev t d) = sector_size (dev s d)" by (metis core_dev_fields(4))
  show "transferred n buf d s t'"
    using read_sector_frame(1) [OF r] I k unfolding transferred_def only_sector_def ss by auto
qed (simp add: transferred_def)

lemma write_sectors_quiet:
  assumes "sectors (\<lambda>i s. ata_pio_write_sector io irq d (lba + ucast i) (buf + i * sector_size (dev s d)) s) is s = (ok, s')"
  shows "quiet s s'"
  by (rule sectors_keep [where I = "quiet s", OF _ _ assms]) (auto intro: quiet_trans dest: write_sector_quiet)

lemma busy_bits:
  "(STORAGE_CONTROLLER_FLAG_BUSY OR STORAGE_CONTROLLER_FLAG_READING) = 3"
  "(STORAGE_CONTROLLER_FLAG_BUSY OR STORAGE_CONTROLLER_FLAG_WRITING) = 5"
  "STORAGE_CONTROLLER_FLAG_ERROR = 8"
  by (simp_all add: STORAGE_CONTROLLER_FLAG_BUSY_def STORAGE_CONTROLLER_FLAG_READING_def STORAGE_CONTROLLER_FLAG_WRITING_def
      STORAGE_CONTROLLER_FLAG_ERROR_def)

lemma flag_algebra:
  fixes x b e :: u32
  assumes "b AND e = 0"
  shows "((x OR b) AND NOT e) AND NOT b = x AND NOT (b OR e)"
    "(((x OR b) AND NOT e) OR e) AND NOT b = (x AND NOT (b OR e)) OR e"
    "((x OR e) AND NOT b) AND e = e"
proof -
  have d: "\<not> (bit b k \<and> bit e k)" for k using arg_cong [OF assms, of "\<lambda>w. bit w k"] by (simp add: bit_and_iff)
  show "((x OR b) AND NOT e) AND NOT b = x AND NOT (b OR e)"
    by (rule bit_word_eqI) (auto simp: bit_simps)
  show "(((x OR b) AND NOT e) OR e) AND NOT b = (x AND NOT (b OR e)) OR e"
    by (rule bit_word_eqI) (use d in \<open>auto simp: bit_simps\<close>)
  show "((x OR e) AND NOT b) AND e = e"
    by (rule bit_word_eqI) (use d in \<open>auto simp: bit_simps\<close>)
qed

lemma status_algebra:
  fixes x :: u32
  assumes "busy = 3 \<or> busy = 5"
  shows "((x OR busy) AND NOT 8) AND NOT busy = x AND NOT (busy OR 8)"
    "(((x OR busy) AND NOT 8) OR 8) AND NOT busy = (x AND NOT (busy OR 8)) OR 8"
    "((x OR 8) AND NOT busy) AND 8 = 8"
  using assms flag_algebra [of busy 8 x] by auto

text \<open>
  What a transfer of \<open>n\<close> sectors amounts to, stated without the loop: the state after the sectors 0 to \<open>n\<close> - 1 one after
  the other, and how many of them succeed before the first that fails.
\<close>

definition after_sectors :: "(u32 \<Rightarrow> 's ide \<Rightarrow> ata_error \<times> 's ide) \<Rightarrow> nat \<Rightarrow> 's ide \<Rightarrow> 's ide" where
  "after_sectors f n s = fold (\<lambda>j s. snd (f (of_nat j) s)) [0..<n] s"

definition sectors_done :: "(u32 \<Rightarrow> 's ide \<Rightarrow> ata_error \<times> 's ide) \<Rightarrow> nat \<Rightarrow> 's ide \<Rightarrow> nat" where
  "sectors_done f n s = length (takeWhile (\<lambda>j. fst (f (of_nat j) (after_sectors f j s)) = ATA_NO_ERROR) [0..<n])"

lemma after_sectors_Suc: "after_sectors f (Suc n) s = snd (f (of_nat n) (after_sectors f n s))"
  by (simp add: after_sectors_def)

lemma sectors_done_le: "sectors_done f n s \<le> n"
  unfolding sectors_done_def by (metis length_takeWhile_le length_upt minus_nat.diff_0)

lemma sectors_done_Suc:
  "sectors_done f (Suc n) s =
     (if sectors_done f n s < n then sectors_done f n s
      else if fst (f (of_nat n) (after_sectors f n s)) = ATA_NO_ERROR then Suc n else n)"
proof -
  let ?P = "\<lambda>j. fst (f (of_nat j) (after_sectors f j s)) = ATA_NO_ERROR"
  show ?thesis
  proof (cases "\<forall>j \<in> set [0..<n]. ?P j")
    case True
    then have "sectors_done f n s = n" unfolding sectors_done_def by (simp add: takeWhile_eq_all_conv [THEN iffD2])
    moreover have "takeWhile ?P ([0..<n] @ [n]) = [0..<n] @ takeWhile ?P [n]" by (rule takeWhile_append2) (use True in blast)
    ultimately show ?thesis by (simp add: sectors_done_def)
  next
    case False
    then obtain j where j: "j \<in> set [0..<n]" "\<not> ?P j" by blast
    have "sectors_done f n s \<noteq> n"
      using j takeWhile_eq_all_conv [of ?P "[0..<n]"] takeWhile_eq_take [of ?P "[0..<n]"] unfolding sectors_done_def
      by (metis length_upt minus_nat.diff_0 take_all order_refl)
    moreover have "takeWhile ?P ([0..<n] @ [n]) = takeWhile ?P [0..<n]" by (rule takeWhile_append1 [of j]) (use j in auto)
    ultimately show ?thesis using sectors_done_le [of f n s] by (simp add: sectors_done_def)
  qed
qed

lemma sectors_snoc:
  "sectors f (is @ [i]) s =
     (case sectors f is s of (ok, t) \<Rightarrow> if \<not> ok then (False, t) else (fst (f i t) = ATA_NO_ERROR, snd (f i t)))"
  by (induction "is" arbitrary: s) (auto split: prod.split)

lemma sectors_run:
  "sectors f (map of_nat [0..<n]) s =
     (sectors_done f n s = n, after_sectors f (min n (Suc (sectors_done f n s))) s)"
proof (induction n)
  case (Suc n)
  consider (all) "sectors_done f n s = n" | (last) "n = Suc (sectors_done f n s)" | (less) "Suc (sectors_done f n s) < n"
    using sectors_done_le [of f n s] by linarith
  then show ?case
  proof cases
    case last
    then have "min n (Suc (sectors_done f n s)) = n" "min (Suc n) (Suc (sectors_done f n s)) = n" "sectors_done f n s < n" by linarith+
    with Suc show ?thesis by (simp add: sectors_snoc sectors_done_Suc)
  qed (use Suc in \<open>auto simp: sectors_snoc sectors_done_Suc after_sectors_Suc\<close>)
qed (simp add: sectors_done_def after_sectors_def)

lemma sectors_cong:
  assumes "\<And>i s. I s \<Longrightarrow> f i s = g i s \<and> I (snd (f i s))" "I s"
  shows "sectors f is s = sectors g is s"
  using assms(2)
proof (induction "is" arbitrary: s)
  case (Cons i "is")
  then show ?case using assms(1) [of s i] by (auto split: prod.splits)
qed simp

text \<open>The flags of a drive while it is busy with a transfer.\<close>

definition started :: "nat \<Rightarrow> u32 \<Rightarrow> 's ide \<Rightarrow> 's ide" where
  "started d busy = with_dev d (controller_status_update (\<lambda>st. (st OR busy) AND NOT 8))"

lemma started_eq: "d < length (ide_devices s) \<Longrightarrow> clear_status_flag d 8 (set_status_flag d b s) = started d b s"
  by (simp add: started_def clear_status_flag_def set_status_flag_def with_dev_def comp_def)

lemma started_dev:
  assumes "d < length (ide_devices s)"
  shows "length (ide_devices (started d b s)) = length (ide_devices s)" "ide_mem (started d b s) = ide_mem s"
    "controller_status (dev (started d b s) d) = (controller_status (dev s d) OR b) AND NOT 8"
    "sector_size (dev (started d b s) d) = sector_size (dev s d)"
    "e \<noteq> d \<Longrightarrow> dev (started d b s) e = dev s e"
  using assms by (simp_all add: started_def with_dev_def)

lemma core_sector_size:
  assumes "map core_dev (ide_devices t) = map core_dev (ide_devices u)" "d < length (ide_devices u)"
  shows "sector_size (dev t d) = sector_size (dev u d)"
  using core_devs_kept [OF assms] by (metis core_dev_fields(4))

lemma transfer_loops:
  assumes "d < length (ide_devices s)"
  shows "sectors (\<lambda>i s. ata_pio_read_sector io irq d (lba + ucast i) (buf + i * sector_size (dev s d)) s) is s =
      sectors (\<lambda>i. ata_pio_read_sector io irq d (lba + ucast i) (buf + i * sector_size (dev s d))) is s"
    "sectors (\<lambda>i s. ata_pio_write_sector io irq d (lba + ucast i) (buf + i * sector_size (dev s d)) s) is s =
      sectors (\<lambda>i. ata_pio_write_sector io irq d (lba + ucast i) (buf + i * sector_size (dev s d))) is s"
proof -
  let ?I = "\<lambda>t. map core_dev (ide_devices t) = map core_dev (ide_devices s)"
  have rd: "?I (snd (ata_pio_read_sector io irq d l b t))" if "?I t" for l b t
    using read_sector_frame(1) [of io irq d l b t] that by (cases "ata_pio_read_sector io irq d l b t") (simp add: only_sector_def)
  have wr: "?I (snd (ata_pio_write_sector io irq d l b t))" if "?I t" for l b t
    using write_sector_quiet [of io irq d l b t] that by (cases "ata_pio_write_sector io irq d l b t") (simp add: quiet_def)
  show "sectors (\<lambda>i s. ata_pio_read_sector io irq d (lba + ucast i) (buf + i * sector_size (dev s d)) s) is s =
      sectors (\<lambda>i. ata_pio_read_sector io irq d (lba + ucast i) (buf + i * sector_size (dev s d))) is s"
  proof (rule sectors_cong [where I = ?I])
    fix i :: u32 and t :: "'a ide" assume t: "?I t"
    show "ata_pio_read_sector io irq d (lba + ucast i) (buf + i * sector_size (dev t d)) t =
        ata_pio_read_sector io irq d (lba + ucast i) (buf + i * sector_size (dev s d)) t \<and>
        ?I (snd (ata_pio_read_sector io irq d (lba + ucast i) (buf + i * sector_size (dev t d)) t))"
      using rd [OF t] by (simp only: core_sector_size [OF t assms])
  qed (rule refl)
  show "sectors (\<lambda>i s. ata_pio_write_sector io irq d (lba + ucast i) (buf + i * sector_size (dev s d)) s) is s =
      sectors (\<lambda>i. ata_pio_write_sector io irq d (lba + ucast i) (buf + i * sector_size (dev s d))) is s"
  proof (rule sectors_cong [where I = ?I])
    fix i :: u32 and t :: "'a ide" assume t: "?I t"
    show "ata_pio_write_sector io irq d (lba + ucast i) (buf + i * sector_size (dev t d)) t =
        ata_pio_write_sector io irq d (lba + ucast i) (buf + i * sector_size (dev s d)) t \<and>
        ?I (snd (ata_pio_write_sector io irq d (lba + ucast i) (buf + i * sector_size (dev t d)) t))"
      using wr [OF t] by (simp only: core_sector_size [OF t assms])
  qed (rule refl)
qed

text \<open>The flags at the end, from a state in which nothing but interrupt flags changed since the start.\<close>

definition finished :: "nat \<Rightarrow> u32 \<Rightarrow> bool \<Rightarrow> 's ide \<Rightarrow> 's ide" where
  "finished d busy ok t = (if ok then clear_status_flag d busy t else clear_status_flag d busy (set_status_flag d 8 t))"

lemma finished_ok:
  assumes "d < length (ide_devices s)" "b = 3 \<or> b = 5" "map core_dev (ide_devices t) = map core_dev (ide_devices (started d b s))"
  shows "controller_status (dev (finished d b ok t) d) = (controller_status (dev s d) AND NOT (b OR 8)) OR (if ok then 0 else 8)"
    "hw (finished d b ok t) = hw t" "ide_mem (finished d b ok t) = ide_mem t"
    "\<forall>e. e \<noteq> d \<and> e < length (ide_devices s) \<longrightarrow> core_dev (dev (finished d b ok t) e) = core_dev (dev s e)"
proof -
  have l: "length (ide_devices t) = length (ide_devices s)"
    using map_eq_imp_length_eq [OF assms(3)] started_dev(1) [OF assms(1)] by simp
  have "core_dev (dev t d) = core_dev (dev (started d b s) d)"
    using core_devs_kept [OF assms(3), of d] assms(1) by (simp add: started_dev)
  then have "controller_status (dev t d) = (controller_status (dev s d) OR b) AND NOT 8"
    using started_dev(3) [OF assms(1)] by (metis core_dev_fields(6))
  then show "controller_status (dev (finished d b ok t) d) = (controller_status (dev s d) AND NOT (b OR 8)) OR (if ok then 0 else 8)"
    using status_algebra [OF assms(2), of "controller_status (dev s d)"] assms(1) l by (simp add: finished_def)
  show "hw (finished d b ok t) = hw t"
    by (simp add: finished_def clear_status_flag_def set_status_flag_def with_dev_def)
  show "ide_mem (finished d b ok t) = ide_mem t" by (simp add: finished_def)
  show "\<forall>e. e \<noteq> d \<and> e < length (ide_devices s) \<longrightarrow> core_dev (dev (finished d b ok t) e) = core_dev (dev s e)"
    using core_devs_kept [OF assms(3)] assms(1) by (simp add: finished_def started_dev)
qed

lemma transfer_eq:
  assumes "d < length (ide_devices s)"
  shows "ide_read io irq d lba n buf s =
      (let f = \<lambda>i. ata_pio_read_sector io irq d (lba + ucast i) (buf + i * sector_size (dev s d));
           k = sectors_done f (unat n) (started d 3 s)
       in (if k = unat n then n else - 1,
           finished d 3 (k = unat n) (after_sectors f (min (unat n) (Suc k)) (started d 3 s))))"
    "ide_write io irq d lba n buf s =
      (let f = \<lambda>i. ata_pio_write_sector io irq d (lba + ucast i) (buf + i * sector_size (dev s d));
           k = sectors_done f (unat n) (started d 5 s)
       in (if k = unat n then n else - 1,
           finished d 5 (k = unat n) (after_sectors f (min (unat n) (Suc k)) (started d 5 s))))"
proof -
  have l: "d < length (ide_devices (started d b s))" for b using assms by (simp add: started_dev)
  show "ide_read io irq d lba n buf s =
      (let f = \<lambda>i. ata_pio_read_sector io irq d (lba + ucast i) (buf + i * sector_size (dev s d));
           k = sectors_done f (unat n) (started d 3 s)
       in (if k = unat n then n else - 1,
           finished d 3 (k = unat n) (after_sectors f (min (unat n) (Suc k)) (started d 3 s))))"
    unfolding ide_read_def busy_bits Let_def started_eq [OF assms] transfer_loops(1) [OF l] started_dev(4) [OF assms]
    unfolding sectors_run prod.case finished_def by (simp only: not_not if_not_P if_P split: if_split) simp
  show "ide_write io irq d lba n buf s =
      (let f = \<lambda>i. ata_pio_write_sector io irq d (lba + ucast i) (buf + i * sector_size (dev s d));
           k = sectors_done f (unat n) (started d 5 s)
       in (if k = unat n then n else - 1,
           finished d 5 (k = unat n) (after_sectors f (min (unat n) (Suc k)) (started d 5 s))))"
    unfolding ide_write_def busy_bits Let_def started_eq [OF assms] transfer_loops(2) [OF l] started_dev(4) [OF assms]
    unfolding sectors_run prod.case finished_def by (simp only: not_not if_not_P if_P split: if_split) simp
qed

text \<open>
  C31: A transfer of \<open>n\<close> sectors does the sectors in order, sector \<open>i\<close> at \<open>lba\<close> + \<open>i\<close> from or to the place \<open>i\<close> of the
  buffer, and stops after the first that fails: \<open>k\<close> is the number of those before. The result is \<open>n\<close> if none failed and -1
  otherwise, and the error flag is set exactly in the second case; the controller is neither busy nor reading (writing)
  any more, and the other status bits are as before. Reading changes memory only inside the sectors of the buffer, writing
  changes no memory, and the other drives keep everything but interrupt flags.
\<close>

theorem ide_transfer_outcome:
  assumes "d < length (ide_devices s)"
  shows "(let f = \<lambda>i. ata_pio_read_sector io irq d (lba + ucast i) (buf + i * sector_size (dev s d));
        s0 = with_dev d (controller_status_update (\<lambda>st. (st OR 3) AND NOT 8)) s;
        k = sectors_done f (unat n) s0; t = after_sectors f (min (unat n) (Suc k)) s0
      in case ide_read io irq d lba n buf s of (r, s') \<Rightarrow> r = (if k = unat n then n else - 1) \<and>
        controller_status (dev s' d) = (controller_status (dev s d) AND NOT (3 OR 8)) OR (if k = unat n then 0 else 8) \<and>
        hw s' = hw t \<and> ide_mem s' = ide_mem t \<and>
        (\<forall>a. (\<forall>i < unat n. \<forall>j < 512. a \<noteq> buf + of_nat i * sector_size (dev s d) + of_nat j) \<longrightarrow> ide_mem s' a = ide_mem s a) \<and>
        (\<forall>e. e \<noteq> d \<and> e < length (ide_devices s) \<longrightarrow> core_dev (dev s' e) = core_dev (dev s e))) \<and>
    (let f = \<lambda>i. ata_pio_write_sector io irq d (lba + ucast i) (buf + i * sector_size (dev s d));
        s0 = with_dev d (controller_status_update (\<lambda>st. (st OR 5) AND NOT 8)) s;
        k = sectors_done f (unat n) s0; t = after_sectors f (min (unat n) (Suc k)) s0
      in case ide_write io irq d lba n buf s of (r, s') \<Rightarrow> r = (if k = unat n then n else - 1) \<and>
        controller_status (dev s' d) = (controller_status (dev s d) AND NOT (5 OR 8)) OR (if k = unat n then 0 else 8) \<and>
        hw s' = hw t \<and> ide_mem s' = ide_mem s \<and>
        (\<forall>e. e \<noteq> d \<and> e < length (ide_devices s) \<longrightarrow> core_dev (dev s' e) = core_dev (dev s e)))"
proof -
  let ?rd = "\<lambda>i. ata_pio_read_sector io irq d (lba + ucast i) (buf + i * sector_size (dev s d))"
  let ?wr = "\<lambda>i. ata_pio_write_sector io irq d (lba + ucast i) (buf + i * sector_size (dev s d))"
  let ?s3 = "started d 3 s" and ?s5 = "started d 5 s"
  have l: "d < length (ide_devices (started d b s))" for b using assms by (simp add: started_dev)
  define k where "k = sectors_done ?rd (unat n) ?s3"
  define t where "t = after_sectors ?rd (min (unat n) (Suc k)) ?s3"
  have r: "ide_read io irq d lba n buf s = (if k = unat n then n else - 1, finished d 3 (k = unat n) t)"
    by (simp only: transfer_eq(1) [OF assms] Let_def k_def t_def)
  have "sectors (\<lambda>i s. ata_pio_read_sector io irq d (lba + ucast i) (buf + i * sector_size (dev s d)) s)
      (map of_nat [0..<unat n]) ?s3 = (k = unat n, t)"
    unfolding transfer_loops(1) [OF l] started_dev(4) [OF assms] by (simp only: sectors_run k_def t_def)
  note tr = read_sectors_transferred [OF l this, unfolded transferred_def started_dev(2,4) [OF assms]]
  define k' where "k' = sectors_done ?wr (unat n) ?s5"
  define t' where "t' = after_sectors ?wr (min (unat n) (Suc k')) ?s5"
  have w: "ide_write io irq d lba n buf s = (if k' = unat n then n else - 1, finished d 5 (k' = unat n) t')"
    by (simp only: transfer_eq(2) [OF assms] Let_def k'_def t'_def)
  have "sectors (\<lambda>i s. ata_pio_write_sector io irq d (lba + ucast i) (buf + i * sector_size (dev s d)) s)
      (map of_nat [0..<unat n]) ?s5 = (k' = unat n, t')"
    unfolding transfer_loops(2) [OF l] started_dev(4) [OF assms] by (simp only: sectors_run k'_def t'_def)
  note q = write_sectors_quiet [OF this, unfolded quiet_def started_dev(2) [OF assms]]
  note r3 = finished_ok [OF assms _ conjunct1 [OF tr], of "k = unat n"]
  note w5 = finished_ok [OF assms _ conjunct1 [OF q], of "k' = unat n"]
  show ?thesis
    unfolding Let_def started_def [symmetric] k_def [symmetric] t_def [symmetric] k'_def [symmetric] t'_def [symmetric] r w prod.case
    using r3 w5 conjunct2 [OF tr] conjunct2 [OF q] by simp
qed

text \<open>
  Every drive with 48-bit addressing is refused: reading or writing one sector or more returns -1 with the error flag,
  without any access to a port or to memory.
\<close>

theorem ide_lba48_drives_fail:
  assumes "d < length (ide_devices s)" "has_lba48 (dev s d)" "n \<noteq> 0"
  shows "(\<exists>s'. ide_read io irq d lba n buf s = (- 1, s') \<and> hw s' = hw s \<and> ide_mem s' = ide_mem s \<and> ide_status d s' AND 8 \<noteq> 0) \<and>
    (\<exists>s'. ide_write io irq d lba n buf s = (- 1, s') \<and> hw s' = hw s \<and> ide_mem s' = ide_mem s \<and> ide_status d s' AND 8 \<noteq> 0)"
proof -
  have u: "[0..<unat n] = 0 # [1..<unat n]" using assms(3) by (simp add: upt_conv_Cons unat_gt_0)
  have h: "hw (set_status_flag d f t) = hw t" "hw (clear_status_flag d f t) = hw t" for f and t :: "'a ide"
    by (simp_all add: set_status_flag_def clear_status_flag_def with_dev_def)
  have "NOT 3 = (- 4 :: u32)" "NOT 5 = (- 6 :: u32)" by simp_all
  then have e: "((x OR 8) AND - 4) AND 8 = (8 :: u32)" "((x OR 8) AND - 6) AND 8 = (8 :: u32)" for x :: u32
    using status_algebra(3) [of 3 x] status_algebra(3) [of 5 x] by simp_all
  show ?thesis
    using assms by (simp add: ide_read_def ide_write_def ata_pio_read_sector_def ata_pio_write_sector_def Let_def busy_bits u h
        ide_status_def e)
qed

section \<open>Probing a controller\<close>

text \<open>The entries of the storage manager for the drives \<open>ds\<close>, numbered from \<open>n\<close>.\<close>

definition registered :: "u32 \<Rightarrow> u32 \<Rightarrow> u32 \<Rightarrow> nat list \<Rightarrow> storage_controller list" where
  "registered base ops n ds =
     map (\<lambda>(d, i). (ide_controller base ops d)\<lparr>st_uid := n + of_nat i\<rparr>) (zip ds [0..<length ds])"

lemma registered_snoc:
  "registered base ops n (ds @ [d]) = registered base ops n ds @ [(ide_controller base ops d)\<lparr>st_uid := n + of_nat (length ds)\<rparr>]"
  by (simp add: registered_def)

definition drive_index :: "u8 \<times> u8 \<Rightarrow> nat" where
  "drive_index x = unat (push_bit 1 (fst x) OR snd x)"

text \<open>The drives probed so far: those in \<open>ds\<close> are ready, the others zeroed.\<close>

definition probed :: "nat list \<Rightarrow> (u8 \<times> u8) set \<Rightarrow> 's ide \<Rightarrow> bool" where
  "probed ds X s \<longleftrightarrow> ide_well_formed s \<and> distinct ds \<and> set ds \<subseteq> drive_index ` X \<and>
     (\<forall>(ch, dr) \<in> X. if drive_index (ch, dr) \<in> set ds
        then channel (dev s (drive_index (ch, dr))) = ch \<and> drive (dev s (drive_index (ch, dr))) = dr \<and>
          sector_size (dev s (drive_index (ch, dr))) = 512
        else core_dev (dev s (drive_index (ch, dr))) = core_dev zero_ide)"

lemma probed_init:
  assumes "probed ds X s" "\<And>x. x \<in> insert (ch, dr) X \<Longrightarrow> drive_index x < 4" "inj_on drive_index (insert (ch, dr) X)" "(ch, dr) \<notin> X"
    "ata_pio_init_drive io ch dr (Some (drive_index (ch, dr))) s = Some (c, s')"
  shows "probed (if c = 0 then ds @ [drive_index (ch, dr)] else ds) (insert (ch, dr) X) s'"
proof -
  let ?d = "drive_index (ch, dr)"
  have wf: "ide_well_formed s" and d: "?d < 4" using assms(1,2) by (simp_all add: probed_def)
  note r = init_drive_ok [OF wf d assms(5)]
  have ne: "drive_index x < 4 \<and> drive_index x \<noteq> ?d" if "x \<in> X" for x
    using that assms(2-4) by (auto simp: inj_on_def)
  moreover have "set ds \<subseteq> drive_index ` X" using assms(1) by (simp add: probed_def)
  ultimately have nd: "?d \<notin> set ds" by (metis imageE subsetD)
  have core: "core_dev (dev s' (drive_index x)) = core_dev (dev s (drive_index x))" if "x \<in> X" for x
    using r(2) ne [OF that] by blast
  then have f: "channel (dev s' (drive_index x)) = channel (dev s (drive_index x))" "drive (dev s' (drive_index x)) = drive (dev s (drive_index x))"
    "sector_size (dev s' (drive_index x)) = sector_size (dev s (drive_index x))" if "x \<in> X" for x
    using that by (metis core_dev_fields(1), metis core_dev_fields(2), metis core_dev_fields(4))
  show ?thesis
    unfolding probed_def
  proof (intro conjI ballI)
    show "ide_well_formed s'" using r(1) by simp
    show "distinct (if c = 0 then ds @ [?d] else ds)" using assms(1) nd by (simp add: probed_def)
    show "set (if c = 0 then ds @ [?d] else ds) \<subseteq> drive_index ` insert (ch, dr) X" using assms(1) by (auto simp: probed_def)
    fix x assume x: "x \<in> insert (ch, dr) X"
    show "case x of (ch', dr') \<Rightarrow> if drive_index (ch', dr') \<in> set (if c = 0 then ds @ [?d] else ds)
        then channel (dev s' (drive_index (ch', dr'))) = ch' \<and> drive (dev s' (drive_index (ch', dr'))) = dr' \<and>
          sector_size (dev s' (drive_index (ch', dr'))) = 512
        else core_dev (dev s' (drive_index (ch', dr'))) = core_dev zero_ide"
    proof (cases "x \<in> X")
      case True
      then have "case x of (ch', dr') \<Rightarrow> if drive_index (ch', dr') \<in> set ds
          then channel (dev s (drive_index (ch', dr'))) = ch' \<and> drive (dev s (drive_index (ch', dr'))) = dr' \<and>
            sector_size (dev s (drive_index (ch', dr'))) = 512
          else core_dev (dev s (drive_index (ch', dr'))) = core_dev zero_ide" using assms(1) by (auto simp: probed_def)
      then show ?thesis using ne [OF True] f [OF True] core [OF True] by (cases x) (auto split: if_splits)
    next
      case False
      then have "x = (ch, dr)" using x by simp
      then show ?thesis using r(1) nd by (auto split: if_splits)
    qed
  qed
qed

lemma probe_drive_ok:
  assumes "probed ds X s" "\<And>x. x \<in> insert (ch, dr) X \<Longrightarrow> drive_index x < 4" "inj_on drive_index (insert (ch, dr) X)" "(ch, dr) \<notin> X"
    "storage_ok (sm, n)" "n \<noteq> - 1" "length (in_use sm) < STORAGE_MANAGER_MAX_CONTROLLERS"
    "probe_drive io base ops (ch, dr) ((sm, n), s) = Some ((sm', n'), s')"
  shows "\<exists>c ds'. ata_pio_init_drive io ch dr (Some (drive_index (ch, dr))) s = Some (c, s') \<and>
    ds' = (if c = 0 then [drive_index (ch, dr)] else []) \<and> probed (ds @ ds') (insert (ch, dr) X) s' \<and> storage_ok (sm', n') \<and>
    length ds' \<le> 1 \<and> n' = n + of_nat (length ds') \<and> in_use sm' = in_use sm @ registered base ops n ds'"
proof -
  let ?d = "drive_index (ch, dr)"
  obtain c s1 where i: "ata_pio_init_drive io ch dr (Some ?d) s = Some (c, s1)"
    using assms(8) by (auto simp: probe_drive_def drive_index_def Let_def split: option.splits)
  note p = probed_init [OF assms(1-4) i]
  show ?thesis
  proof (cases "c = 0")
    case True
    have "- 1 \<notin> st_uid ` set (in_use sm)"
    proof
      assume "- 1 \<in> st_uid ` set (in_use sm)"
      then obtain x where "x \<in> set (in_use sm)" "st_uid x = - 1" by auto
      then have "(- 1 :: u32) < n" using assms(5) unfolding storage_ok_def prod.case by metis
      then show False using word_order.extremum_strict by blast
    qed
    then obtain sm1 where a: "storage_manager_add_controller (ide_controller base ops ?d) (sm, n) = (STORAGE_MANAGER_OK, sm1, n + 1)"
      "in_use sm1 = in_use sm @ [(ide_controller base ops ?d)\<lparr>st_uid := n\<rparr>]" "storage_ok (sm1, n + 1)"
      using add_controller_ok [OF assms(5-7), of "ide_controller base ops ?d"] by (auto simp: ide_controller_def)
    then have "sm' = sm1" "n' = n + 1" "s' = s1"
      using assms(8) i True by (simp_all add: probe_drive_def drive_index_def Let_def)
    with a p i True show ?thesis by (simp add: registered_def)
  next
    case False
    then have "sm' = sm" "n' = n" "s' = s1"
      using assms(8) i by (simp_all add: probe_drive_def drive_index_def Let_def)
    with p i False assms(5) show ?thesis by (simp add: registered_def)
  qed
qed

lemma registered_append:
  "registered base ops n (ds @ es) = registered base ops n ds @ registered base ops (n + of_nat (length ds)) es"
proof (induction es rule: rev_induct)
  case (snoc e es)
  have "registered base ops n (ds @ es @ [e]) = registered base ops n (ds @ es) @
      [(ide_controller base ops e)\<lparr>st_uid := n + of_nat (length ds + length es)\<rparr>]"
    using registered_snoc [of base ops n "ds @ es" e] by simp
  then show ?case using snoc registered_snoc [of base ops "n + of_nat (length ds)" es e] by (simp add: add.assoc)
qed (simp add: registered_def)

text \<open>
  What probing has to do: initialise the drives \<open>ds\<close> one after the other, drive \<open>d\<close> as number \<open>d mod 2\<close> of channel
  \<open>d div 2\<close>. The result is the list of those that answer.
\<close>

primrec init_drives :: "'s io \<Rightarrow> nat list \<Rightarrow> 's ide \<Rightarrow> (nat list \<times> 's ide) option" where
  "init_drives io [] s = Some ([], s)"
| "init_drives io (d # ds) s =
     Option.bind (ata_pio_init_drive io (of_nat (d div 2)) (of_nat (d mod 2)) (Some d) s)
       (\<lambda>(c, s). map_option (\<lambda>(es, s). (if c = 0 then d # es else es, s)) (init_drives io ds s))"

lemma init_drives_snoc:
  assumes "init_drives io ds s = Some (es, t)"
    "ata_pio_init_drive io (of_nat (d div 2)) (of_nat (d mod 2)) (Some d) t = Some (c, u)"
  shows "init_drives io (ds @ [d]) s = Some (es @ (if c = 0 then [d] else []), u)"
  using assms(1)
proof (induction ds arbitrary: s es)
  case Nil
  then show ?case using assms(2) by simp
next
  case (Cons x ds)
  then show ?case by (cases "ata_pio_init_drive io (of_nat (x div 2)) (of_nat (x mod 2)) (Some x) s") auto
qed

lemma init_drives_order:
  assumes "init_drives io ds s = Some (es, t)" "sorted_wrt (<) ds"
  shows "sorted_wrt (<) es \<and> set es \<subseteq> set ds"
  using assms
proof (induction ds arbitrary: s es)
  case (Cons x ds)
  obtain c u where c: "ata_pio_init_drive io (of_nat (x div 2)) (of_nat (x mod 2)) (Some x) s = Some (c, u)"
    using Cons.prems(1) by (cases "ata_pio_init_drive io (of_nat (x div 2)) (of_nat (x mod 2)) (Some x) s") auto
  obtain fs where fs: "init_drives io ds u = Some (fs, t)" "es = (if c = 0 then x # fs else fs)"
    using Cons.prems(1) c by auto
  with Cons.IH [OF fs(1)] Cons.prems(2) show ?case by auto
qed simp

text \<open>
  C32: Probing an IDE controller initialises the four drives in the order primary master to secondary slave and registers
  exactly those that answer, in that order, under consecutive numbers, with the addresses of their records and names, after
  the controllers the storage manager had. Each has its channel, its number and 512-byte sectors; the record of a drive that
  does not answer is zeroed. This is for a storage manager with room: at most four of its eight entries are in use, and
  the next number is not among the last six of 32 bits; and for a probe that returns (no drive is busy for ever).
\<close>

theorem ide_probe_registers_drives:
  assumes "storage_ok (sm, n)" "length (in_use sm) \<le> 4" "unat n < 4294967290" "ide_well_formed s"
    "class_code (common (header pci_dev)) = 0x1" "subclass_code (common (header pci_dev)) = 0x1"
    "ide_pci_probe io base ops hp hs pci_dev (handles, (sm, n), s) = Some (code, handles', (sm', n'), s')"
  shows "code = 0 \<and> (\<exists>ds. init_drives io [0, 1, 2, 3] s = Some (ds, s') \<and>
    in_use sm' = in_use sm @ registered base ops n ds \<and> n' = n + of_nat (length ds) \<and>
    sorted_wrt (<) ds \<and> set ds \<subseteq> {0, 1, 2, 3} \<and> storage_ok (sm', n') \<and> ide_well_formed s' \<and>
    (\<forall>d < 4. if d \<in> set ds
       then channel (dev s' d) = of_nat (d div 2) \<and> drive (dev s' d) = of_nat (d mod 2) \<and> sector_size (dev s' d) = 512
       else core_dev (dev s' d) = core_dev zero_ide))"
proof -
  let ?xs = "[(0, 0), (0, 1), (1, 0), (1, 1)] :: (u8 \<times> u8) list"
  have idx: "drive_index (0, 0) = 0" "drive_index (0, 1) = 1" "drive_index (1, 0) = 2" "drive_index (1, 1) = 3"
    by (simp_all add: drive_index_def)
  then have inj: "inj_on drive_index (set ?xs)" and lt: "\<And>x. x \<in> set ?xs \<Longrightarrow> drive_index x < 4" by (auto simp: inj_on_def)
  have num: "of_nat (drive_index x div 2) = fst x \<and> of_nat (drive_index x mod 2) = snd x" if "x \<in> set ?xs" for x
    using that idx by auto
  have code: "code = 0" and loop: "each (probe_drive io base ops) ?xs ((sm, n), s) = Some ((sm', n'), s')"
    using assms(5-7) by (auto simp: ide_pci_probe_def Let_def)
  let ?P = "\<lambda>ys (st, t). \<exists>ds. init_drives io (map drive_index ys) s = Some (ds, t) \<and> probed ds (set ys) t \<and> storage_ok st \<and>
    length ds \<le> length ys \<and> snd st = n + of_nat (length ds) \<and> in_use (fst st) = in_use sm @ registered base ops n ds"
  have "?P ?xs ((sm', n'), s')"
  proof (rule each_rule [OF loop])
    show "?P [] ((sm, n), s)" using assms(1,4) by (auto simp: probed_def registered_def intro!: exI [of _ "[]"])
  next
    fix ys x zs t t'
    assume xs: "?xs = ys @ x # zs" and P: "?P ys t" and step: "probe_drive io base ops x t = Some t'"
    obtain ch dr smt nt tt where t: "x = (ch, dr)" "t = ((smt, nt), tt)" by (metis surj_pair)
    obtain smt' nt' tt' where t': "t' = ((smt', nt'), tt')" by (metis surj_pair)
    from P t obtain ds where ds: "probed ds (set ys) tt" "storage_ok (smt, nt)" "length ds \<le> length ys"
      "nt = n + of_nat (length ds)" "in_use smt = in_use sm @ registered base ops n ds"
      "init_drives io (map drive_index ys) s = Some (ds, tt)" by auto
    have len: "length ys < 4" using arg_cong [OF xs, of length] by simp
    have "distinct ?xs" by simp
    then have x: "(ch, dr) \<notin> set ys" using xs t(1) by (metis distinct_append distinct.simps(2) disjoint_iff list.set_intros(1))
    have sub: "insert (ch, dr) (set ys) \<subseteq> set ?xs" using xs t(1) by auto
    have "unat nt = unat n + length ds"
      using ds(3,4) len assms(3) unat_add_noov [of n "of_nat (length ds)"] by (simp add: unat_of_nat_u32)
    then have "nt \<noteq> - 1" using ds(3) len assms(3) unat_max_u32 by auto
    moreover have "length (in_use smt) < STORAGE_MANAGER_MAX_CONTROLLERS"
      using ds(3,5) len assms(2) by (simp add: registered_def STORAGE_MANAGER_MAX_CONTROLLERS_def)
    ultimately obtain c ds' where ds': "ata_pio_init_drive io ch dr (Some (drive_index (ch, dr))) tt = Some (c, tt')"
      "ds' = (if c = 0 then [drive_index (ch, dr)] else [])"
      "probed (ds @ ds') (insert (ch, dr) (set ys)) tt'" "storage_ok (smt', nt')" "length ds' \<le> 1"
      "nt' = nt + of_nat (length ds')" "in_use smt' = in_use smt @ registered base ops nt ds'"
      using probe_drive_ok [OF ds(1) _ inj_on_subset [OF inj sub] x ds(2), of io base ops smt' nt' tt'] lt sub step t t' by blast
    have "of_nat (drive_index (ch, dr) div 2) = ch" "of_nat (drive_index (ch, dr) mod 2) = dr"
      using num [of "(ch, dr)"] sub by auto
    then have "init_drives io (map drive_index (ys @ [x])) s = Some (ds @ ds', tt')"
      using init_drives_snoc [OF ds(6), of "drive_index (ch, dr)" c tt'] ds'(1,2) t(1) by simp
    then show "?P (ys @ [x]) t'"
      using ds(1-5) ds'(3-) t t' by (auto simp: registered_append intro!: exI [of _ "ds @ ds'"])
  qed
  then obtain ds where ds: "probed ds (set ?xs) s'" "storage_ok (sm', n')" "n' = n + of_nat (length ds)"
    "in_use sm' = in_use sm @ registered base ops n ds" "init_drives io (map drive_index ?xs) s = Some (ds, s')" by auto
  have run: "init_drives io [0, 1, 2, 3] s = Some (ds, s')" using ds(5) idx by simp
  have "if d \<in> set ds then channel (dev s' d) = of_nat (d div 2) \<and> drive (dev s' d) = of_nat (d mod 2) \<and> sector_size (dev s' d) = 512
      else core_dev (dev s' d) = core_dev zero_ide" if "d < 4" for d
  proof -
    consider "d = 0" | "d = 1" | "d = 2" | "d = 3" using \<open>d < 4\<close> by linarith
    then show ?thesis using ds(1) by cases (auto simp: probed_def idx split: if_splits)
  qed
  moreover have "sorted_wrt (<) ds" "set ds \<subseteq> {0, 1, 2, 3}" using init_drives_order [OF run] by simp_all
  moreover have "ide_well_formed s'" using ds(1) by (simp add: probed_def)
  ultimately show ?thesis using code ds run by blast
qed

section \<open>Witnesses\<close>

text \<open>Drives that have data ready and interrupt at every point: reading a sector succeeds.\<close>

definition ready_irq :: "unit \<Rightarrow> u32 option \<times> unit" where "ready_irq h = (Some ATA_PRIMARY_IRQ, h)"

lemma ready_fired:
  assumes "irq_expected (dev t 0)" "0 < length (ide_devices t)"
  shows "irq_fired (dev (pause ready_io ready_irq t) 0)"
proof -
  have "irq_fired (dev (drive_irq ready_io 0 u) 0)" if "irq_expected (dev u 0)" "0 < length (ide_devices u)" for u :: "unit ide"
    using that by (simp add: drive_irq_def ata_pio_clear_status_def ready_inb with_dev_def)
  moreover have "dev (drive_irq ready_io 1 u) 0 = dev u 0" for u :: "unit ide"
    by (simp add: drive_irq_def ata_pio_clear_status_def ready_inb with_dev_def)
  ultimately show ?thesis
    using assms by (simp add: pause_def ready_irq_def end_of_request_def ata_primary_irq_handle_def Let_def)
qed

lemma ready_read:
  assumes "0 < length (ide_devices s)" "\<not> has_lba48 (dev s 0)"
  shows "fst (ata_pio_read_sector ready_io ready_irq 0 lba buf s) = ATA_NO_ERROR"
proof -
  let ?t = "pause ready_io ready_irq (sector_command ready_io 0 lba ATA_CMD_READ_PIO s)"
  let ?u = "with_dev 0 (\<lambda>x. x\<lparr>irq_expected := True, irq_fired := False\<rparr>) ?t"
  have "quiet s ?t" by (rule quiet_trans [OF quiet_command quiet_pause])
  then have "0 < length (ide_devices ?t)" using quiet_dev(1) assms(1) by metis
  then have u: "irq_expected (dev ?u 0)" "\<not> irq_fired (dev ?u 0)" "0 < length (ide_devices ?u)" by (simp_all add: with_dev_def)
  have "1000000 = Suc (Suc 999998)" by simp
  then have "wait_loop ready_io ready_irq 0 1000000 ?u = pause ready_io ready_irq ?u"
    using u ready_fired [OF u(1,3)] by (simp only: wait_loop.simps if_False if_True)
  then have "fst (ata_wait_irq ready_io ready_irq 0 ?t) = ATA_NO_ERROR"
    using ready_fired [OF u(1,3)] by (simp add: ata_wait_irq_def Let_def)
  then obtain v where v: "ata_wait_irq ready_io ready_irq 0 ?t = (ATA_NO_ERROR, v)" by (metis prod.collapse)
  have "fst (ata_post_irq_check ready_io base v) = ATA_NO_ERROR" for base
    by (simp add: ata_post_irq_check_def ready_inb ATA_SR_ERR_def ATA_SR_DF_def ATA_SR_DRQ_def)
  then obtain w where "ata_post_irq_check ready_io (io_of (channel (dev s 0))) v = (ATA_NO_ERROR, w)" by (metis prod.collapse)
  with v assms(2) show ?thesis by (simp add: ata_pio_read_sector_def Let_def)
qed

theorem ide_transfer_outcome_witness:
  "fst (ide_read ready_io ready_irq 0 5 1 0x1000 (witness_disk ())) = 1 \<and>
   controller_status (dev (snd (ide_read ready_io ready_irq 0 5 1 0x1000 (witness_disk ()))) 0) = 0"
proof -
  let ?s0 = "with_dev 0 (controller_status_update (\<lambda>st. (st OR 3) AND NOT 8)) (witness_disk ())"
  have l: "0 < length (ide_devices (witness_disk ()))" and z: "sector_size (dev (witness_disk ()) 0) = 0"
    "controller_status (dev (witness_disk ()) 0) = 0" by (simp_all add: witness_disk_def zero_ide_def)
  have "0 < length (ide_devices ?s0)" "\<not> has_lba48 (dev ?s0 0)"
    by (simp_all add: witness_disk_def zero_ide_def has_lba48_def with_dev_def)
  from ready_read [OF this] have "sectors_done (\<lambda>i. ata_pio_read_sector ready_io ready_irq 0 (5 + ucast i) (0x1000 + i * 0)) 1 ?s0 = 1"
    by (simp add: sectors_done_def after_sectors_def)
  with ide_transfer_outcome [OF l, where io = ready_io and irq = ready_irq and lba = 5 and n = 1 and buf = "0x1000"]
  show ?thesis unfolding Let_def z by (simp add: case_prod_beta)
qed

definition witness_lba48 :: "unit ide" where
  "witness_lba48 = with_dev 0 (command_sets_update (\<lambda>_. 0x04000000)) (witness_disk ())"

theorem ide_lba48_drives_fail_witness:
  "\<exists>s'. ide_read silent_io (\<lambda>h. (None, h)) 0 0 1 0x1000 witness_lba48 = (- 1, s') \<and> ide_mem s' = (\<lambda>_. 0)"
proof -
  have "0 < length (ide_devices witness_lba48)" "has_lba48 (dev witness_lba48 0)" "(1 :: u32) \<noteq> 0" "ide_mem witness_lba48 = (\<lambda>_. 0)"
    by (simp_all add: witness_lba48_def witness_disk_def with_dev_def has_lba48_def)
  with ide_lba48_drives_fail [OF this(1-3), where io = silent_io and irq = "\<lambda>h. (None, h)" and lba = 0 and buf = "0x1000"]
  show ?thesis by auto
qed

definition witness_ide_function :: pci_device where
  "witness_ide_function = zero_device\<lparr>header := (replicate 64 0)[0x0A := 1, 0x0B := 1]\<rparr>"

lemma ready_init_drives:
  assumes "ide_well_formed s" "\<forall>d \<in> set ds. d < 4"
  shows "\<exists>t. init_drives ready_io ds s = Some (ds, t)"
  using assms
proof (induction ds arbitrary: s)
  case (Cons d ds)
  obtain u where u: "ata_pio_init_drive ready_io (of_nat (d div 2)) (of_nat (d mod 2)) (Some d) s = Some (0, u)"
    using ready_init [OF Cons.prems(1), where d = d and ch = "of_nat (d div 2)" and dr = "of_nat (d mod 2)"] Cons.prems(2) by auto
  have "ide_well_formed u" using init_drive_ok(1) [OF Cons.prems(1) _ u] Cons.prems(2) by simp
  from Cons.IH [OF this] Cons.prems(2) u show ?case by auto
qed simp

lemma ready_probe:
  "ide_well_formed s \<Longrightarrow> drive_index x < 4 \<Longrightarrow>
    \<exists>t. probe_drive ready_io base ops x (st, s) = Some t \<and> ide_well_formed (snd t)"
proof -
  assume s: "ide_well_formed s" "drive_index x < 4"
  from ready_init [OF this, of "fst x" "snd x"] obtain u where
    u: "ata_pio_init_drive ready_io (fst x) (snd x) (Some (drive_index x)) s = Some (0, u)" by blast
  have "ide_well_formed u" using init_drive_ok(1) [OF s u] by simp
  with u show ?thesis by (cases x; simp add: probe_drive_def drive_index_def Let_def)
qed

theorem ide_probe_registers_drives_witness:
  "\<exists>code hs' sm' n' s'. ide_pci_probe ready_io 0xC0010000 0xC0020000 True False witness_ide_function
     (replicate 16 None, (snd (storage_manager_setup \<lparr>controllers = [], controller_count = 0, sm_initialized = False\<rparr>), 0), witness_disk ()) =
     Some (code, hs', (sm', n'), s') \<and> code = 0 \<and> n' = 4 \<and>
     in_use sm' = registered 0xC0010000 0xC0020000 0 [0, 1, 2, 3] \<and> drive (dev s' 3) = 1"
proof -
  let ?sm = "snd (storage_manager_setup \<lparr>controllers = [], controller_count = 0, sm_initialized = False\<rparr>)"
  let ?ds = "[(0, 0), (0, 1), (1, 0), (1, 1)] :: (u8 \<times> u8) list"
  have sm: "storage_ok (?sm, 0)" "in_use ?sm = []"
    by (simp_all add: storage_manager_setup_def storage_ok_def in_use_def STORAGE_MANAGER_MAX_CONTROLLERS_def)
  then have ok: "storage_ok (?sm, 0)" "length (in_use ?sm) \<le> 4" by simp_all
  have c: "class_code (common (header witness_ide_function)) = 0x1" "subclass_code (common (header witness_ide_function)) = 0x1"
    by (simp_all add: witness_ide_function_def common_def)
  have "\<exists>t. each (probe_drive ready_io 0xC0010000 0xC0020000) ?ds ((?sm, 0), witness_disk ()) = Some t \<and> ide_well_formed (snd t)"
  proof (rule each_total [where P = "\<lambda>_ t. ide_well_formed (snd t)"])
    fix ys x zs and t :: "(storage_manager \<times> u32) \<times> unit ide"
    assume x: "?ds = ys @ x # zs" and t: "ide_well_formed (snd t)"
    have "x \<in> set ?ds" by (simp only: x) simp
    then have "drive_index x < 4" by (auto simp: drive_index_def)
    from ready_probe [OF t this, of "0xC0010000" "0xC0020000" "fst t"]
    show "\<exists>t'. probe_drive ready_io 0xC0010000 0xC0020000 x t = Some t' \<and> ide_well_formed (snd t')" by simp
  qed (simp add: witness_disk_ok)
  then obtain sm' n' s' where
    t: "each (probe_drive ready_io 0xC0010000 0xC0020000) ?ds ((?sm, 0), witness_disk ()) = Some ((sm', n'), s')" by auto
  have r: "\<exists>hs'. ide_pci_probe ready_io 0xC0010000 0xC0020000 True False witness_ide_function
      (replicate 16 None, (?sm, 0), witness_disk ()) = Some (0, hs', (sm', n'), s')"
    using c unfolding ide_pci_probe_def Let_def prod.case t by simp
  then obtain hs' where r: "ide_pci_probe ready_io 0xC0010000 0xC0020000 True False witness_ide_function
      (replicate 16 None, (?sm, 0), witness_disk ()) = Some (0, hs', (sm', n'), s')" by blast
  from ide_probe_registers_drives [OF ok _ witness_disk_ok c r] obtain ds where
    ds: "init_drives ready_io [0, 1, 2, 3] (witness_disk ()) = Some (ds, s')"
      "in_use sm' = in_use ?sm @ registered 0xC0010000 0xC0020000 0 ds" "n' = 0 + of_nat (length ds)"
      "\<forall>d < 4. if d \<in> set ds
         then channel (dev s' d) = of_nat (d div 2) \<and> drive (dev s' d) = of_nat (d mod 2) \<and> sector_size (dev s' d) = 512
         else core_dev (dev s' d) = core_dev zero_ide" by auto
  have "\<forall>d \<in> set [0, 1, 2, 3]. d < (4 :: nat)" by simp
  from ready_init_drives [OF witness_disk_ok [of "()"] this]
  obtain t where "init_drives ready_io [0, 1, 2, 3] (witness_disk ()) = Some ([0, 1, 2, 3], t)" by blast
  with ds(1) have "ds = [0, 1, 2, 3]" by (metis option.inject prod.inject)
  then have "n' = 4" "in_use sm' = registered 0xC0010000 0xC0020000 0 [0, 1, 2, 3]" "drive (dev s' 3) = 1"
    using ds(2-4) sm(2) by auto
  with r show ?thesis by blast
qed

end
