(* ===== verification/Device_Discovery.thy ===== *)
theory Device_Discovery
  imports IDE_Controller
begin

text \<open>
  Finding the devices at boot: \<open>kernel_main\<close> sets the storage manager up and scans the PCI buses with the
  drivers the linker collected, of which the IDE controller is the only one. The state of the scan is
  the table of interrupt handlers, the storage manager and the drives, with the machine behind them.
\<close>

section \<open>The scan at boot\<close>

text \<open>
  The drivers in the section \<open>.pci_driver\<close>; \<open>name\<close> is the address of the driver's name. Its probe function runs on the
  three parts of the state; accesses of configuration space go to the machine behind the drives.
\<close>

datatype pci_probe = Ide_pci_probe

definition pci_drivers :: "u32 \<Rightarrow> pci_probe pci_driver list" where
  "pci_drivers name =
     [\<lparr>dr_vendor_id = PCI_ANY_ID, dr_device_id = PCI_ANY_ID, dr_class_code = PCI_ANY_CLASS, dr_subclass = PCI_ANY_SUBCLASS,
       dr_name = name, probe = Some Ide_pci_probe, remove = None\<rparr>]"

definition run_probe ::
  "'s io \<Rightarrow> u32 \<Rightarrow> u32 \<Rightarrow> 'h \<Rightarrow> 'h \<Rightarrow> pci_probe \<Rightarrow> pci_device \<Rightarrow> 'h handles \<times> (storage_manager \<times> u32) \<times> 's ide \<Rightarrow>
   (u8 \<times> 'h handles \<times> (storage_manager \<times> u32) \<times> 's ide) option" where
  "run_probe io base ops hp hs f d st = (case f of Ide_pci_probe \<Rightarrow> ide_pci_probe io base ops hp hs d st)"

definition on_hw :: "('s \<Rightarrow> 'v \<times> 's) \<Rightarrow> 'a \<times> 'b \<times> 's ide \<Rightarrow> 'v \<times> 'a \<times> 'b \<times> 's ide" where
  "on_hw f = (\<lambda>(a, b, s). case f (hw s) of (v, h) \<Rightarrow> (v, a, b, s\<lparr>hw := h\<rparr>))"

definition to_hw :: "('s \<Rightarrow> 's) \<Rightarrow> 'a \<times> 'b \<times> 's ide \<Rightarrow> 'a \<times> 'b \<times> 's ide" where
  "to_hw f = (\<lambda>(a, b, s). (a, b, s\<lparr>hw := f (hw s)\<rparr>))"

definition on_disks :: "'s io \<Rightarrow> ('a \<times> 'b \<times> 's ide) io" where
  "on_disks io = \<lparr>inportb = \<lambda>p. on_hw (inportb io p), outportb = \<lambda>p v. to_hw (outportb io p v),
     inports = \<lambda>p. on_hw (inports io p), outports = \<lambda>p v. to_hw (outports io p v),
     inportl = \<lambda>p. on_hw (inportl io p), outportl = \<lambda>p v. to_hw (outportl io p v)\<rparr>"

definition kernel_discover_devices ::
  "nat \<Rightarrow> 's io \<Rightarrow> u32 \<Rightarrow> u32 \<Rightarrow> u32 \<Rightarrow> 'h \<Rightarrow> 'h \<Rightarrow> 'h handles \<times> (storage_manager \<times> u32) \<times> 's ide \<Rightarrow>
   (pci \<times> 'h handles \<times> (storage_manager \<times> u32) \<times> 's ide) option" where
  "kernel_discover_devices n io name base ops hp hs = (\<lambda>(handles, (sm, next_uid), s).
     let sm = snd (storage_manager_setup sm)
     in pci_scan_bus n (on_disks io) (run_probe io base ops hp hs) (pci_drivers name) 0 (pci_start, handles, (sm, next_uid), s))"

section \<open>What probing keeps\<close>

text \<open>The scan runs one loop body or another, as long as they agree on the states that occur.\<close>

definition agrees :: "('s \<Rightarrow> bool) \<Rightarrow> ('s \<Rightarrow> 's option) \<Rightarrow> ('s \<Rightarrow> 's option) \<Rightarrow> bool" where
  "agrees I f g \<longleftrightarrow> (\<forall>s. I s \<longrightarrow> f s = g s \<and> (\<forall>s'. f s = Some s' \<longrightarrow> I s'))"

lemma agreesI: "(\<And>s. I s \<Longrightarrow> f s = g s \<and> (\<forall>s'. f s = Some s' \<longrightarrow> I s')) \<Longrightarrow> agrees I f g"
  by (simp add: agrees_def)

lemma agreesD: "agrees I f g \<Longrightarrow> I s \<Longrightarrow> f s = g s" "agrees I f g \<Longrightarrow> I s \<Longrightarrow> f s = Some s' \<Longrightarrow> I s'"
  by (simp_all add: agrees_def)

lemma agrees_bind:
  assumes "agrees I f g" "agrees I f' g'"
  shows "agrees I (\<lambda>s. Option.bind (f s) f') (\<lambda>s. Option.bind (g s) g')"
proof (rule agreesI)
  fix s assume I: "I s"
  show "Option.bind (f s) f' = Option.bind (g s) g' \<and> (\<forall>s'. Option.bind (f s) f' = Some s' \<longrightarrow> I s')"
  proof (cases "f s")
    case None
    then show ?thesis using agreesD(1) [OF assms(1) I] by simp
  next
    case (Some t)
    then have "g s = Some t" "I t" using agreesD [OF assms(1) I] by simp_all
    with Some agreesD [OF assms(2) \<open>I t\<close>] show ?thesis by simp
  qed
qed

lemma agrees_each:
  assumes "\<And>x. agrees I (f x) (g x)"
  shows "agrees I (each f xs) (each g xs)"
proof (induction xs)
  case (Cons x xs)
  have "agrees I (\<lambda>s. Option.bind (f x s) (each f xs)) (\<lambda>s. Option.bind (g x s) (each g xs))"
    by (rule agrees_bind [OF assms Cons])
  then show ?case by (simp add: agrees_def)
qed (simp add: agrees_def)

lemma agrees_bus_loop:
  assumes "\<And>b. agrees I (f b) (g b)"
  shows "agrees I (bus_loop f b sub) (bus_loop g b sub)"
proof (cases "sub = 255")
  case True
  have "b \<le> 255" using unat_less_256 [of b] by (simp add: word_le_nat_alt)
  with True show ?thesis by (simp add: agrees_def bus_loop_endless)
next
  case False
  with agrees_each [of I f g, OF assms] show ?thesis by (simp add: bus_loop_each agrees_def)
qed

text \<open>A probe function that is replaced by a refusal where the invariant does not hold.\<close>

definition guarded :: "('s \<Rightarrow> bool) \<Rightarrow> ('h \<Rightarrow> pci_device \<Rightarrow> 's \<Rightarrow> (u8 \<times> 's) option) \<Rightarrow> 'h \<Rightarrow> pci_device \<Rightarrow> 's \<Rightarrow> (u8 \<times> 's) option" where
  "guarded I run h d s = (if I s then run h d s else Some (1, s))"

abbreviation scans :: "('s \<Rightarrow> bool) \<Rightarrow> (pci \<times> 's \<Rightarrow> (pci \<times> 's) option) \<Rightarrow> (pci \<times> 's \<Rightarrow> (pci \<times> 's) option) \<Rightarrow> bool" where
  "scans I \<equiv> agrees (\<lambda>ps. I (snd ps))"

lemma scansI:
  "(\<And>p s. I s \<Longrightarrow> f (p, s) = g (p, s) \<and> (\<forall>p' s'. f (p, s) = Some (p', s') \<longrightarrow> I s')) \<Longrightarrow> scans I f g"
  by (auto simp: agrees_def)

lemma scansD:
  assumes "scans I f g" "I s"
  shows "f (p, s) = g (p, s)" "f (p, s) = Some (p', s') \<Longrightarrow> I s'"
  using agreesD [OF assms(1), of "(p, s)"] assms(2) by auto

text \<open>The contract between the scan and the drivers: reads and writes of configuration space and probes keep an invariant.\<close>

locale probing =
  fixes io :: "'s io" and run :: "'h \<Rightarrow> pci_device \<Rightarrow> 's \<Rightarrow> (u8 \<times> 's) option" and I :: "'s \<Rightarrow> bool"
  assumes read_keeps: "I s \<Longrightarrow> inportl io p s = (v, s') \<Longrightarrow> I s'"
    and write_keeps: "I s \<Longrightarrow> I (outportl io p w s)"
    and probe_keeps: "I s \<Longrightarrow> run h d s = Some (c, s') \<Longrightarrow> I s'"
begin

lemma config_reads_keep:
  "I s \<Longrightarrow> pci_read32 io b sl f off s = (v, s') \<Longrightarrow> I s'"
  "I s \<Longrightarrow> pci_read16 io b sl f off s = (v16, s') \<Longrightarrow> I s'"
  "I s \<Longrightarrow> pci_read8 io b sl f off s = (v8, s') \<Longrightarrow> I s'"
  by (auto simp: pci_read32_def pci_read16_def pci_read8_def split: prod.splits intro: read_keeps write_keeps)

lemma config_block_keeps:
  assumes "I s" "pci_read_config_block io b sl f sz (h, s) = (h', s')"
  shows "I s'"
proof -
  let ?f = "\<lambda>offset (h, s). case pci_read32 io b sl f offset s of (v, s) \<Rightarrow> (store32 h (unat offset) v, s)"
  have "I (snd (fold ?f xs (h, s)))" if "I s" for xs h s
    using that
  proof (induction xs arbitrary: h s)
    case (Cons x xs)
    obtain v t where v: "pci_read32 io b sl f x s = (v, t)" by fastforce
    then show ?case using Cons.IH [OF config_reads_keep(1) [OF Cons.prems v]] by simp
  qed simp
  from this [OF assms(1), of "map (\<lambda>i. of_nat (4 * i)) [0..<(unat sz + 3) div 4]" h]
  show ?thesis using assms(2) unfolding pci_read_config_block_def by (simp only: snd_conv)
qed

lemma decode_keeps:
  assumes "I s" "pci_decode_device io b sl f i (p, s) = (p', s')"
  shows "I s'"
  using assms by (auto simp: pci_decode_device_def Let_def split: prod.splits if_splits
      intro: config_block_keeps config_reads_keep(3))

lemma try_drivers_guarded:
  assumes "I s"
  shows "try_drivers run d k es s = try_drivers (guarded I run) d k es s \<and>
    (\<forall>e s'. try_drivers run d k es s = Some (e, s') \<longrightarrow> I s')"
  using assms
proof (induction es arbitrary: k s)
  case (Cons e es)
  note IH = Cons.IH [of _ "k + 1"]
  show ?case
  proof (cases "driver_matches e (common (header d)) \<and> probe e \<noteq> None")
    case False
    then have eq: "try_drivers f d k (e # es) s = try_drivers f d (k + 1) es s" for f :: "'h \<Rightarrow> pci_device \<Rightarrow> 's \<Rightarrow> (u8 \<times> 's) option"
      by (cases "probe e") simp_all
    show ?thesis unfolding eq by (rule IH [OF Cons.prems])
  next
    case True
    then obtain h where h: "driver_matches e (common (header d))" "probe e = Some h" by auto
    have g: "guarded I run h d s = run h d s" using Cons.prems by (simp add: guarded_def)
    show ?thesis
    proof (cases "run h d s")
      case None
      with h g show ?thesis by (simp only: try_drivers.simps) simp
    next
      case (Some r)
      then obtain c t where r: "run h d s = Some (c, t)" by (cases r) auto
      have "I t" by (rule probe_keeps [OF Cons.prems r])
      from IH [OF this] h g r \<open>I t\<close> show ?thesis by (simp only: try_drivers.simps) (simp split: if_split)
    qed
  qed
qed simp

lemma register_driver_agrees:
  "scans I (pci_register_device_to_driver run es n) (pci_register_device_to_driver (guarded I run) es n)"
proof (rule scansI)
  fix p :: pci and s assume "I s"
  from try_drivers_guarded [OF this]
  have tr: "try_drivers run (pci_devices p ! n) 0 es s = try_drivers (guarded I run) (pci_devices p ! n) 0 es s"
    "\<And>e s'. try_drivers (guarded I run) (pci_devices p ! n) 0 es s = Some (e, s') \<Longrightarrow> I s'" by metis+
  show "pci_register_device_to_driver run es n (p, s) = pci_register_device_to_driver (guarded I run) es n (p, s) \<and>
    (\<forall>p' s'. pci_register_device_to_driver run es n (p, s) = Some (p', s') \<longrightarrow> I s')"
  proof (cases "try_drivers (guarded I run) (pci_devices p ! n) 0 es s")
    case None
    then show ?thesis using tr by (simp add: pci_register_device_to_driver_def)
  next
    case (Some r)
    then obtain e t where "try_drivers (guarded I run) (pci_devices p ! n) 0 es s = Some (e, t)" by (cases r) auto
    then show ?thesis using tr by (cases e) (simp_all add: pci_register_device_to_driver_def)
  qed
qed

lemma register_agrees:
  assumes "\<And>b. scans I (f b) (g b)"
  shows "scans I (pci_register_device io run es f b sl fn) (pci_register_device io (guarded I run) es g b sl fn)"
proof (rule scansI)
  fix p :: pci and s assume I: "I s"
  let ?n = "unat (pci_device_count p)"
  obtain p1 s1 where d: "pci_decode_device io b sl fn ?n (p\<lparr>pci_device_count := pci_device_count p + 1\<rparr>, s) = (p1, s1)" by fastforce
  have I1: "I s1" by (rule decode_keeps [OF I d])
  define x where "x = pci_devices p1 ! ?n"
  define buses where "buses = (\<lambda>scan (ps :: pci \<times> 's). if header_type x = pci_header_type_pci_to_pci
    then bus_loop scan (secondary_bus (type1 (header x))) (subordinate_bus (type1 (header x))) ps else Some ps)"
  have "scans I (buses f) (buses g)"
  proof (cases "header_type x = pci_header_type_pci_to_pci")
    case True
    then have "buses h = bus_loop h (secondary_bus (type1 (header x))) (subordinate_bus (type1 (header x)))" for h
      by (simp add: buses_def)
    then show ?thesis by (simp only:) (rule agrees_bus_loop, rule assms)
  next
    case False
    then have "buses h = Some" for h by (simp add: buses_def)
    then show ?thesis by (simp only:) (simp add: agrees_def)
  qed
  note step = scansD [OF agrees_bind [OF this register_driver_agrees [of es ?n]] I1, of p1]
  have "pci_register_device io r es h b sl fn (p, s) =
      (if PCI_MAX_DEVICES \<le> ?n \<or> pci_decoded p b sl fn then Some (p, s)
       else Option.bind (buses h (p1, s1)) (pci_register_device_to_driver r es ?n))" for r h
    by (simp add: pci_register_device_def d Let_def buses_def x_def)
  note eq = this
  show "pci_register_device io run es f b sl fn (p, s) = pci_register_device io (guarded I run) es g b sl fn (p, s) \<and>
    (\<forall>p' s'. pci_register_device io run es f b sl fn (p, s) = Some (p', s') \<longrightarrow> I s')"
    unfolding eq using step I by (simp split: if_split)
qed

lemma slot_agrees:
  assumes "\<And>f. scans I (r b sl f) (r' b sl f)"
  shows "scans I (scan_slot io r b sl) (scan_slot io r' b sl)"
proof (rule scansI)
  fix p :: pci and s assume I: "I s"
  have fn: "scans I (scan_function io r b sl f) (scan_function io r' b sl f)" for f
  proof (rule scansI)
    fix q t assume t: "I t"
    obtain v t1 where v: "pci_read16 io b sl f 0x00 t = (v, t1)" by fastforce
    have I1: "I t1" by (rule config_reads_keep(2) [OF t v])
    show "scan_function io r b sl f (q, t) = scan_function io r' b sl f (q, t) \<and>
      (\<forall>p' s'. scan_function io r b sl f (q, t) = Some (p', s') \<longrightarrow> I s')"
      using scansD [OF assms I1, of f q] I1 by (auto simp: scan_function_def v)
  qed
  have fns: "scans I (each (scan_function io r b sl) xs) (each (scan_function io r' b sl) xs)" for xs
    by (rule agrees_each) (rule fn)
  obtain v s1 where v: "pci_read16 io b sl 0 0x00 s = (v, s1)" by fastforce
  have I1: "I s1" by (rule config_reads_keep(2) [OF I v])
  obtain ht s2 where ht: "pci_read8 io b sl 0 0x0E s1 = (ht, s2)" by fastforce
  have I2: "I s2" by (rule config_reads_keep(3) [OF I1 ht])
  show "scan_slot io r b sl (p, s) = scan_slot io r' b sl (p, s) \<and> (\<forall>p' s'. scan_slot io r b sl (p, s) = Some (p', s') \<longrightarrow> I s')"
    using scansD [OF fns I2, of "counter (if ht AND 0x80 \<noteq> 0 then 8 else 1)" p] I1
    by (auto simp: scan_slot_def v ht)
qed

lemma scan_agrees: "scans I (pci_scan_bus n io run es b) (pci_scan_bus n io (guarded I run) es b)"
proof (induction n arbitrary: b)
  case (Suc n)
  have "scans I (each (scan_slot io (pci_register_device io run es (pci_scan_bus n io run es)) b) (counter 32))
    (each (scan_slot io (pci_register_device io (guarded I run) es (pci_scan_bus n io (guarded I run) es)) b) (counter 32))"
    by (intro agrees_each slot_agrees register_agrees Suc)
  from agreesD [OF this] show ?case by (auto simp: agrees_def)
qed (simp add: agrees_def)

text \<open>The client: with probes that return and leave configuration space alone, the scan ends with a complete table.\<close>

lemma scan_discovers:
  assumes "pci_hardware io conf" "bridges_bounded (conf s)" "I s"
    and "\<forall>h d s c s'. I s \<longrightarrow> run h d s = Some (c, s') \<longrightarrow> conf s' = conf s"
    and "\<forall>h d s. I s \<longrightarrow> run h d s \<noteq> None"
  shows "\<exists>p s'. pci_scan_bus 257 io run es 0 (pci_start, s) = Some (p, s') \<and> I s' \<and>
    distinct (map place (found p)) \<and> pci_scanned_bus p 0 \<and>
    (\<forall>d \<in> set (found p). device_ok (conf s) d \<and> pci_scanned_bus p (bus d) \<and> bridge_done p d) \<and>
    (\<forall>b sl f. pci_scanned_bus p b \<and> answers (conf s) b sl f \<longrightarrow> (b, sl, f) \<in> place ` set (found p) \<or> pci_full p)"
proof -
  have ok: "probes_ok conf (guarded I run)" "probes_total (guarded I run)"
    using assms(4,5) by (auto simp: probes_ok_def probes_total_def guarded_def split: if_splits)
  from scan_returns [OF assms(1) ok assms(2), of es] obtain p s' where
    r: "pci_scan_bus 257 io (guarded I run) es 0 (pci_start, s) = Some (p, s')" by blast
  have "I (snd (pci_start, s))" using assms(3) by simp
  from agreesD [OF scan_agrees this] r
  have "pci_scan_bus 257 io run es 0 (pci_start, s) = Some (p, s')" "I s'" by (metis snd_conv)+
  with scan_finds [OF assms(1) ok(1) r] show ?thesis by blast
qed

end

section \<open>The IDE driver keeps the contract\<close>

text \<open>
  The registered controllers are IDE drives under consecutive numbers; of the interrupt handlers only those of the
  two disk interrupts, entries 46 and 47, differ from the table \<open>hs0\<close>, and they are there when a drive is.
\<close>

definition discovered ::
  "u32 \<Rightarrow> u32 \<Rightarrow> 'h \<Rightarrow> 'h \<Rightarrow> 'h handles \<Rightarrow> 'h handles \<times> (storage_manager \<times> u32) \<times> 's ide \<Rightarrow> bool" where
  "discovered base ops hp hs hs0 = (\<lambda>(handles, (sm, n), s).
     storage_ok (sm, n) \<and> n = of_nat (Suc (length (in_use sm))) \<and>
     (\<forall>i < length (in_use sm). \<exists>d < 4. in_use sm ! i = (ide_controller base ops d)\<lparr>st_uid := of_nat (Suc i)\<rparr>) \<and>
     ide_well_formed s \<and> length handles = length hs0 \<and> (\<forall>i. i \<noteq> 46 \<and> i \<noteq> 47 \<longrightarrow> handles ! i = hs0 ! i) \<and>
     (in_use sm \<noteq> [] \<longrightarrow> handles[46 := Some hp, 47 := Some hs] = handles))"

lemma storage_full:
  assumes "storage_ok (sm, n)" "\<not> length (in_use sm) < STORAGE_MANAGER_MAX_CONTROLLERS"
  shows "storage_manager_add_controller c (sm, n) = (STORAGE_MANAGER_FULL, sm, n)"
  using assms length_in_use [OF assms(1)] by (simp add: storage_manager_add_controller_def storage_ok_def)

text \<open>One drive, with the handlers installed.\<close>

lemma probe_drive_discovered:
  assumes "discovered base ops hp hs hs0 (handles, (sm, n), s)" "handles[46 := Some hp, 47 := Some hs] = handles"
    "drive_index (ch, dr) < 4" "probe_drive io base ops (ch, dr) ((sm, n), s) = Some (st', s')"
  shows "discovered base ops hp hs hs0 (handles, st', s')"
proof -
  let ?d = "drive_index (ch, dr)"
  have ok: "storage_ok (sm, n)" and n: "n = of_nat (Suc (length (in_use sm)))" and wf: "ide_well_formed s"
    and ds: "\<And>i. i < length (in_use sm) \<Longrightarrow> \<exists>d < 4. in_use sm ! i = (ide_controller base ops d)\<lparr>st_uid := of_nat (Suc i)\<rparr>"
    using assms(1) unfolding discovered_def prod.case by blast+
  obtain c s1 where i: "ata_pio_init_drive io ch dr (Some ?d) s = Some (c, s1)"
    using assms(4) by (auto simp: probe_drive_def drive_index_def Let_def split: option.splits)
  have wf1: "ide_well_formed s1" using init_drive_ok(1) [OF wf assms(3) i] by simp
  show ?thesis
  proof (cases "c = 0 \<and> length (in_use sm) < STORAGE_MANAGER_MAX_CONTROLLERS")
    case True
    then have l: "length (in_use sm) < 8" by (simp add: STORAGE_MANAGER_MAX_CONTROLLERS_def)
    have u: "unat n = Suc (length (in_use sm))" unfolding n by (rule unat_of_nat_u32) (use l in simp)
    have "n \<noteq> - 1" using u l unat_max_u32 by auto
    moreover have "- 1 \<notin> st_uid ` set (in_use sm)"
    proof
      assume "- 1 \<in> st_uid ` set (in_use sm)"
      then obtain x where "x \<in> set (in_use sm)" "st_uid x = - 1" by auto
      then have "(- 1 :: u32) < n" using ok unfolding storage_ok_def prod.case by metis
      then show False using word_order.extremum_strict by blast
    qed
    ultimately obtain sm1 where a: "storage_manager_add_controller (ide_controller base ops ?d) (sm, n) = (STORAGE_MANAGER_OK, sm1, n + 1)"
      "in_use sm1 = in_use sm @ [(ide_controller base ops ?d)\<lparr>st_uid := n\<rparr>]" "storage_ok (sm1, n + 1)"
      using add_controller_ok [OF ok, of "ide_controller base ops ?d"] True by (auto simp: ide_controller_def)
    have "st' = (sm1, n + 1)" "s' = s1"
      using assms(4) i True a(1) by (simp_all add: probe_drive_def drive_index_def Let_def)
    moreover have "\<exists>d < 4. in_use sm1 ! i = (ide_controller base ops d)\<lparr>st_uid := of_nat (Suc i)\<rparr>" if "i < length (in_use sm1)" for i
      using that ds [of i] assms(3) by (cases "i = length (in_use sm)") (auto simp: a(2) nth_append n)
    ultimately show ?thesis using assms(1,2) a wf1 by (simp add: discovered_def n)
  next
    case False
    then have "st' = (sm, n)" "s' = s1"
      using assms(4) i storage_full [OF ok] by (auto simp: probe_drive_def drive_index_def Let_def split: if_splits)
    then show ?thesis using assms(1) wf1 by (auto simp: discovered_def)
  qed
qed

lemma probed_drives: "x \<in> set [(0, 0), (0, 1), (1, 0), (1, 1)] \<Longrightarrow> drive_index x < 4"
  by (auto simp: drive_index_def)

lemma handlers_installed:
  "kernel_interrupts_add_request_handle (ucast ATA_SECONDARY_IRQ) (Some hs)
     (kernel_interrupts_add_request_handle (ucast ATA_PRIMARY_IRQ) (Some hp) handles) = handles[46 := Some hp, 47 := Some hs]"
  by (simp add: kernel_interrupts_add_request_handle_def ATA_PRIMARY_IRQ_def ATA_SECONDARY_IRQ_def)

lemma ide_probe_discovered:
  assumes "discovered base ops hp hs hs0 st" "ide_pci_probe io base ops hp hs d st = Some (c, st')"
  shows "discovered base ops hp hs hs0 st'"
proof -
  obtain handles sm n s where st: "st = (handles, (sm, n), s)" by (metis surj_pair)
  let ?hs = "handles[46 := Some hp, 47 := Some hs]"
  show ?thesis
  proof (cases "class_code (common (header d)) \<noteq> 0x1 \<or> subclass_code (common (header d)) \<noteq> 0x1")
    case True
    then show ?thesis using assms st by (auto simp: ide_pci_probe_def)
  next
    case False
    then obtain r where r: "each (probe_drive io base ops) [(0, 0), (0, 1), (1, 0), (1, 1)] ((sm, n), s) = Some r"
      "st' = (?hs, r)"
      using assms(2) st unfolding ide_pci_probe_def Let_def handlers_installed prod.case by auto
    have idem: "?hs[46 := Some hp, 47 := Some hs] = ?hs" by (simp add: list_update_swap)
    have I: "discovered base ops hp hs hs0 (?hs, (sm, n), s)"
      using assms(1) st idem by (auto simp: discovered_def)
    have "discovered base ops hp hs hs0 (?hs, r)"
    proof (rule each_rule [OF r(1), where P = "\<lambda>_ t. discovered base ops hp hs hs0 (?hs, t)"])
      fix ys x zs t t'
      assume x: "[(0, 0), (0, 1), (1, 0), (1, 1)] = ys @ x # zs" and t: "discovered base ops hp hs hs0 (?hs, t)"
        and p: "probe_drive io base ops x t = Some t'"
      have "drive_index x < 4" by (rule probed_drives) (simp only: x, simp)
      moreover obtain ch dr where "x = (ch, dr)" by fastforce
      moreover obtain m k u where "t = ((m, k), u)" by (metis surj_pair)
      moreover obtain v w where "t' = (v, w)" by fastforce
      ultimately show "discovered base ops hp hs hs0 (?hs, t')"
        using probe_drive_discovered [OF _ idem, of base ops hs0 m k u ch dr io v w] t p by simp
    qed (rule I)
    with r(2) show ?thesis by simp
  qed
qed

text \<open>
  What the driver relies on. After the command IDENTIFY a drive shows the status 0 or 255, or reports an error or data after
  some more reads of its status. This is asked only of drives that are idle when the command is given, as they are before
  the scan: accesses of configuration space leave them so, and so does an identification that ends.
\<close>

primrec responds :: "'s io \<Rightarrow> u16 \<Rightarrow> nat \<Rightarrow> 's \<Rightarrow> bool" where
  "responds io p 0 h \<longleftrightarrow> False"
| "responds io p (Suc n) h \<longleftrightarrow> (case inportb io p h of (v, h) \<Rightarrow>
     v AND ATA_SR_ERR \<noteq> 0 \<or> v AND ATA_SR_DRQ \<noteq> 0 \<or> responds io p n h)"

definition drives_answer :: "'s io \<Rightarrow> ('s \<Rightarrow> bool) \<Rightarrow> bool" where
  "drives_answer io idle \<longleftrightarrow>
     (\<forall>p v h. idle h \<longrightarrow> idle (snd (inportl io p h)) \<and> idle (outportl io p v h)) \<and>
     (\<forall>s ch dr d. idle (hw s) \<longrightarrow>
        (case inb io (io_of ch + ATA_REG_STATUS) (identify_command io ch dr d s) of (status, t) \<Rightarrow>
           case inb io (io_of ch + ATA_REG_STATUS) t of (status', u) \<Rightarrow>
             status = 0 \<or> status' = 0 \<or> status' = 0xFF \<or> (\<exists>n. responds io (io_of ch + ATA_REG_STATUS) n (hw u)))) \<and>
     (\<forall>s ch dr d c s'. idle (hw s) \<and> ata_pio_init_drive io ch dr (Some d) s = Some (c, s') \<longrightarrow> idle (hw s'))"

lemma ide_probe_idle:
  assumes "drives_answer io idle" "idle (hw s)"
    "ide_pci_probe io base ops hp hs d (handles, st, s) = Some (c, handles', st', s')"
  shows "idle (hw s')"
proof (cases "class_code (common (header d)) \<noteq> 0x1 \<or> subclass_code (common (header d)) \<noteq> 0x1")
  case True
  then show ?thesis using assms(2,3) by (auto simp: ide_pci_probe_def)
next
  case False
  then have r: "each (probe_drive io base ops) [(0, 0), (0, 1), (1, 0), (1, 1)] (st, s) = Some (st', s')"
    using assms(3) unfolding ide_pci_probe_def Let_def prod.case by auto
  have "idle (hw (snd (st', s')))"
  proof (rule each_rule [OF r, where P = "\<lambda>_ t. idle (hw (snd t))"])
    fix ys x zs t t'
    assume t: "idle (hw (snd t))" and p: "probe_drive io base ops x t = Some t'"
    obtain c u where "ata_pio_init_drive io (fst x) (snd x) (Some (drive_index x)) (snd t) = Some (c, u)" "snd t' = u"
      using p by (cases x; cases t) (auto simp: probe_drive_def drive_index_def Let_def split: option.splits if_splits)
    then show "idle (hw (snd t'))" using assms(1) t unfolding drives_answer_def by blast
  qed (simp add: assms(2))
  then show ?thesis by simp
qed

text \<open>The invariant of the scan: what it has discovered, and drives that are idle if they are as the driver expects.\<close>

definition scanning ::
  "'s io \<Rightarrow> ('s \<Rightarrow> bool) \<Rightarrow> u32 \<Rightarrow> u32 \<Rightarrow> 'h \<Rightarrow> 'h \<Rightarrow> 'h handles \<Rightarrow> 'h handles \<times> (storage_manager \<times> u32) \<times> 's ide \<Rightarrow> bool" where
  "scanning io idle base ops hp hs hs0 st \<longleftrightarrow>
     discovered base ops hp hs hs0 st \<and> (drives_answer io idle \<longrightarrow> idle (hw (snd (snd st))))"

interpretation ide: probing "on_disks io" "run_probe io base ops hp hs" "scanning io idle base ops hp hs hs0"
  for io :: "'s io" and idle base ops and hp hs :: 'h and hs0 :: "'h handles"
proof
  fix st st' :: "'h handles \<times> (storage_manager \<times> u32) \<times> 's ide" and p w v
  assume st: "scanning io idle base ops hp hs hs0 st"
  have hw: "idle (snd (inportl io p h))" "idle (outportl io p w h)" if "drives_answer io idle" "idle h" for h
    using that unfolding drives_answer_def by blast+
  show "scanning io idle base ops hp hs hs0 st'" if "inportl (on_disks io) p st = (v, st')"
    using that st hw
    by (fastforce simp: on_disks_def on_hw_def scanning_def discovered_def ide_well_formed_def split: prod.splits)
  show "scanning io idle base ops hp hs hs0 (outportl (on_disks io) p w st)"
    using st hw by (auto simp: on_disks_def to_hw_def scanning_def discovered_def ide_well_formed_def split: prod.splits)
  show "scanning io idle base ops hp hs hs0 st'" if "run_probe io base ops hp hs h d st = Some (c, st')" for h d c
  proof -
    have r: "ide_pci_probe io base ops hp hs d st = Some (c, st')" using that by (cases h) (simp add: run_probe_def)
    have "idle (hw (snd (snd st')))" if "drives_answer io idle"
      using ide_probe_idle [OF that, of "snd (snd st)" base ops hp hs d "fst st" "fst (snd st)" c "fst st'" "fst (snd st')" "snd (snd st')"]
        st that r by (simp add: scanning_def)
    with st ide_probe_discovered [OF _ r] show ?thesis by (simp add: scanning_def)
  qed
qed

section \<open>Probing leaves configuration space alone and returns\<close>

text \<open>The registers of the two channels, as offsets from their bases.\<close>

definition disk_port :: "u16 \<Rightarrow> bool" where
  "disk_port p \<longleftrightarrow> p - ATA_PRIMARY_IO \<le> ATA_REG_ALTSTATUS \<or> p - ATA_SECONDARY_IO \<le> ATA_REG_ALTSTATUS"

text \<open>A machine with configuration space \<open>conf\<close>, which accesses of the registers of disks do not change.\<close>

definition disk_machine :: "'s io \<Rightarrow> ('s \<Rightarrow> u32 \<Rightarrow> u32) \<Rightarrow> bool" where
  "disk_machine io conf \<longleftrightarrow> pci_hardware io conf \<and> (\<forall>p h v. disk_port p \<longrightarrow>
     conf (snd (inportb io p h)) = conf h \<and> conf (snd (inports io p h)) = conf h \<and> conf (outportb io p v h) = conf h)"

lemma disk_ports [simp]:
  "disk_port (io_of ch + ATA_REG_DATA)" "disk_port (io_of ch + ATA_REG_ERROR)" "disk_port (io_of ch + ATA_REG_SECCOUNT0)"
  "disk_port (io_of ch + ATA_REG_LBA0)" "disk_port (io_of ch + ATA_REG_LBA1)" "disk_port (io_of ch + ATA_REG_LBA2)"
  "disk_port (io_of ch + ATA_REG_HDDEVSEL)" "disk_port (io_of ch + ATA_REG_STATUS)" "disk_port (io_of ch + ATA_REG_COMMAND)"
  "disk_port (io_of ch + ATA_REG_ALTSTATUS)"
  by (simp_all add: disk_port_def io_of_def ATA_REG_DATA_def ATA_REG_ERROR_def ATA_REG_SECCOUNT0_def ATA_REG_LBA0_def
      ATA_REG_LBA1_def ATA_REG_LBA2_def ATA_REG_HDDEVSEL_def ATA_REG_STATUS_def ATA_REG_COMMAND_def ATA_REG_ALTSTATUS_def)

lemma conf_with_dev [simp]: "hw (with_dev d f s) = hw s"
  by (simp add: with_dev_def)

lemma conf_ports:
  assumes "disk_machine io conf" "disk_port p"
  shows "inb io p s = (v, t) \<Longrightarrow> conf (hw t) = conf (hw s)" "inw io p s = (w, t) \<Longrightarrow> conf (hw t) = conf (hw s)"
    "conf (hw (outb io p v s)) = conf (hw s)" "conf (hw (snd (inb io p s))) = conf (hw s)"
proof -
  have c: "conf (snd (inportb io p h)) = conf h" "conf (snd (inports io p h)) = conf h" "conf (outportb io p v h) = conf h" for h v
    using assms by (auto simp: disk_machine_def)
  show "conf (hw t) = conf (hw s)" if "inb io p s = (v, t)"
    using that c(1) [of "hw s"] by (auto simp: inb_def split: prod.splits)
  show "conf (hw t) = conf (hw s)" if "inw io p s = (w, t)"
    using that c(2) [of "hw s"] by (auto simp: inw_def split: prod.splits)
  show "conf (hw (snd (inb io p s))) = conf (hw s)"
    using c(1) [of "hw s"] by (auto simp: inb_def split: prod.splits)
  show "conf (hw (outb io p v s)) = conf (hw s)" by (simp add: outb_def c)
qed

lemma conf_select:
  assumes "disk_machine io conf"
  shows "conf (hw (snd (ata_pio_select_drive io ch dr s))) = conf (hw s)"
proof -
  note c = conf_ports [OF assms]
  have w: "conf (hw (ata_pio_io_wait io (io_of ch) t)) = conf (hw t)" for t
    by (simp add: ata_pio_io_wait_def numeral_eq_Suc c)
  have "conf (hw (snd (ata_pio_check_error io (io_of ch) t))) = conf (hw t)" for t
    using c(1) [of "io_of ch + ATA_REG_STATUS" t] c(1) [of "io_of ch + ATA_REG_ERROR"]
    by (simp add: ata_pio_check_error_def split: prod.split)
  then show ?thesis by (simp add: ata_pio_select_drive_def Let_def w c)
qed

lemma conf_identify_wait:
  assumes "disk_machine io conf" "identify_wait io (io_of ch) s = Some r"
  shows "conf (hw (snd r)) = conf (hw s)"
proof -
  have "io' = io \<and> base = io_of ch \<longrightarrow> conf (hw (snd r)) = conf (hw s)" if "identify_wait io' base s = Some r" for io' base s r
    using that
  proof (rule identify_wait.raw_induct [rotated], goal_cases)
    case (1 loop io' base s r)
    obtain v t where v: "inb io' (base + ATA_REG_STATUS) s = (v, t)" by fastforce
    with 1(2) 1(1) [of io' base t r] conf_ports(1,4) [OF assms(1), of "io_of ch + ATA_REG_STATUS" s]
    show ?case by (auto split: if_splits)
  qed
  with assms(2) show ?thesis by blast
qed

lemma conf_read_identify:
  assumes "disk_machine io conf"
  shows "conf (hw (read_identify io (io_of ch) d s)) = conf (hw s)"
proof -
  let ?f = "\<lambda>i s. case inw io (io_of ch + ATA_REG_DATA) s of (w, s) \<Rightarrow>
    with_dev d (identify_data_update (\<lambda>xs. xs[2 * i := ucast w, 2 * i + 1 := ucast (drop_bit 8 w)])) s"
  have f: "conf (hw (?f i s)) = conf (hw s)" for i s
    using conf_ports(2) [OF assms, of "io_of ch + ATA_REG_DATA" s] by (simp split: prod.split)
  have "conf (hw (fold ?f is s)) = conf (hw s)" for "is"
    by (induction "is" arbitrary: s) (simp_all only: fold.simps f id_apply comp_def)
  then show ?thesis unfolding read_identify_def .
qed

lemma conf_init_drive:
  assumes "disk_machine io conf" "ata_pio_init_drive io ch dr (Some d) s = Some (c, s')"
  shows "conf (hw s') = conf (hw s)"
proof -
  note k = conf_ports [OF assms(1)] conf_select [OF assms(1)]
  have s1: "conf (hw (identify_command io ch dr d s)) = conf (hw s)" by (simp add: identify_command_def k)
  obtain st2 s2 where r2: "inb io (io_of ch + ATA_REG_STATUS) (identify_command io ch dr d s) = (st2, s2)" by fastforce
  obtain st3 s3 where r3: "inb io (io_of ch + ATA_REG_STATUS) s2 = (st3, s3)" by fastforce
  have c2: "conf (hw s2) = conf (hw s)" "conf (hw s3) = conf (hw s)"
    using k(1) [OF _ r2] k(1) [OF _ r3] s1 by simp_all
  note init = init_drive_eq [OF r2 r3]
  show ?thesis
    using assms(2) c2 conf_identify_wait [OF assms(1), of ch s3] conf_read_identify [OF assms(1)]
    unfolding init by (fastforce simp: Let_def split: if_splits option.splits prod.splits)
qed

lemma ide_probe_conf:
  assumes "disk_machine io conf" "ide_pci_probe io base ops hp hs d (handles, st, s) = Some (c, handles', st', s')"
  shows "conf (hw s') = conf (hw s)"
proof (cases "class_code (common (header d)) \<noteq> 0x1 \<or> subclass_code (common (header d)) \<noteq> 0x1")
  case True
  then show ?thesis using assms(2) by (auto simp: ide_pci_probe_def)
next
  case False
  then have r: "each (probe_drive io base ops) [(0, 0), (0, 1), (1, 0), (1, 1)] (st, s) = Some (st', s')"
    using assms(2) unfolding ide_pci_probe_def Let_def prod.case by auto
  have "conf (hw (snd (st', s'))) = conf (hw s)"
  proof (rule each_rule [OF r, where P = "\<lambda>_ t. conf (hw (snd t)) = conf (hw s)"])
    fix ys x zs t t'
    assume "conf (hw (snd t)) = conf (hw s)" "probe_drive io base ops x t = Some t'"
    then show "conf (hw (snd t')) = conf (hw s)"
      by (cases x; cases t) (auto simp: probe_drive_def Let_def split: option.splits if_splits, (metis conf_init_drive [OF assms(1)])+)
  qed simp
  then show ?thesis by simp
qed

text \<open>A probe returns when the drives answer.\<close>

lemma identify_wait_responds:
  "responds io (base + ATA_REG_STATUS) n (hw s) \<Longrightarrow> \<exists>r. identify_wait io base s = Some r"
proof (induction n arbitrary: s)
  case (Suc n)
  obtain v h where v: "inportb io (base + ATA_REG_STATUS) (hw s) = (v, h)" by fastforce
  then show ?case using Suc.prems Suc.IH [of "s\<lparr>hw := h\<rparr>"]
    by (subst identify_wait.simps) (auto simp: inb_def)
qed simp

lemma init_drive_total:
  assumes "drives_answer io idle" "idle (hw s)" "ide_well_formed s" "d < 4"
  shows "\<exists>c s'. ata_pio_init_drive io ch dr (Some d) s = Some (c, s') \<and> idle (hw s')"
proof -
  obtain st2 s2 where r2: "inb io (io_of ch + ATA_REG_STATUS) (identify_command io ch dr d s) = (st2, s2)" by fastforce
  obtain st3 s3 where r3: "inb io (io_of ch + ATA_REG_STATUS) s2 = (st3, s3)" by fastforce
  have "case inb io (io_of ch + ATA_REG_STATUS) (identify_command io ch dr d s) of (status, t) \<Rightarrow>
      case inb io (io_of ch + ATA_REG_STATUS) t of (status', u) \<Rightarrow>
        status = 0 \<or> status' = 0 \<or> status' = 0xFF \<or> (\<exists>n. responds io (io_of ch + ATA_REG_STATUS) n (hw u))"
    using assms(1) [unfolded drives_answer_def, THEN conjunct2, THEN conjunct1, rule_format, OF assms(2)] .
  then have a: "st2 = 0 \<or> st3 = 0 \<or> st3 = 0xFF \<or> (\<exists>n. responds io (io_of ch + ATA_REG_STATUS) n (hw s3))"
    by (simp only: r2 r3 prod.case)
  have "\<exists>c s'. ata_pio_init_drive io ch dr (Some d) s = Some (c, s')"
  proof (cases "st2 = 0 \<or> st3 = 0 \<or> st3 = 0xFF")
    case True
    then show ?thesis using init_drive_answered [OF assms(3,4) r2 r3] by blast
  next
    case False
    then obtain st4 s4 where "identify_wait io (io_of ch) s3 = Some (st4, s4)" using a identify_wait_responds by fastforce
    then show ?thesis using init_drive_answered [OF assms(3,4) r2 r3] by blast
  qed
  then show ?thesis using assms(1,2) unfolding drives_answer_def by blast
qed

lemma probe_drive_total:
  assumes "drives_answer io idle" "idle (hw s)" "ide_well_formed s" "drive_index x < 4"
  shows "\<exists>st' s'. probe_drive io base ops x (st, s) = Some (st', s') \<and> ide_well_formed s' \<and> idle (hw s')"
proof -
  obtain ch dr where x: "x = (ch, dr)" by fastforce
  from init_drive_total [OF assms, of "fst x" "snd x"] obtain c t where
    c: "ata_pio_init_drive io ch dr (Some (drive_index x)) s = Some (c, t)" "idle (hw t)" by (auto simp: x)
  have "ide_well_formed t" using init_drive_ok(1) [OF assms(3,4) c(1)] by simp
  with c show ?thesis by (auto simp: probe_drive_def x drive_index_def Let_def)
qed

lemma ide_probe_total:
  fixes io :: "'s io"
  assumes "drives_answer io idle" "idle (hw s)" "ide_well_formed s"
  shows "\<exists>r. ide_pci_probe io base ops hp hs d (handles, st, s) = Some r"
proof -
  let ?ds = "[(0, 0), (0, 1), (1, 0), (1, 1)] :: (u8 \<times> u8) list"
  have "\<exists>t. each (probe_drive io base ops) ?ds (st, s) = Some t \<and> ide_well_formed (snd t) \<and> idle (hw (snd t))"
  proof (rule each_total [where P = "\<lambda>_ t. ide_well_formed (snd t) \<and> idle (hw (snd t))"])
    fix ys x zs and t :: "(storage_manager \<times> u32) \<times> 's ide"
    assume x: "?ds = ys @ x # zs" and t: "ide_well_formed (snd t) \<and> idle (hw (snd t))"
    have "drive_index x < 4" by (rule probed_drives) (simp only: x, simp)
    from probe_drive_total [OF assms(1) conjunct2 [OF t] conjunct1 [OF t] this, of base ops "fst t"]
    show "\<exists>t'. probe_drive io base ops x t = Some t' \<and> ide_well_formed (snd t') \<and> idle (hw (snd t'))" by auto
  qed (simp add: assms(2,3))
  then show ?thesis by (auto simp: ide_pci_probe_def Let_def simp del: each.simps)
qed

section \<open>Properties\<close>

lemma on_disks_hardware:
  assumes "disk_machine io conf"
  shows "pci_hardware (on_disks io) (\<lambda>(_, _, s). conf (hw s))"
  using assms by (fastforce simp: pci_hardware_def disk_machine_def on_disks_def on_hw_def to_hw_def split: prod.splits)

text \<open>
  C29: The discovery of devices at boot returns on every machine whose bridges name a last bus below 255 and whose drives
  are idle before it and answer the command IDENTIFY (\<open>drives_answer\<close>). It leaves a table of PCI devices with true headers, no
  two at one place, which holds every function that answers on a scanned bus, unless the table is full: then functions may
  be missing. Every registered controller is one of the four IDE drives, and their numbers count from 1. The table of
  interrupt handlers changes only in the two disk interrupts, which are handled whenever a drive is registered. The storage
  manager is set up by this call, and accesses of the disk registers do not change configuration space (\<open>disk_machine\<close>).
\<close>

theorem device_discovery:
  assumes "disk_machine io conf" "drives_answer io idle" "idle (hw s)" "bridges_bounded (conf (hw s))" "\<not> sm_initialized sm"
    "ide_well_formed s"
  shows "\<exists>p handles' sm' n' s'.
    kernel_discover_devices 257 io name base ops hp hs (handles, (sm, 1), s) = Some (p, handles', (sm', n'), s') \<and>
    storage_ok (sm', n') \<and> n' = of_nat (Suc (length (in_use sm'))) \<and>
    (\<forall>i < length (in_use sm'). \<exists>d < 4. in_use sm' ! i = (ide_controller base ops d)\<lparr>st_uid := of_nat (Suc i)\<rparr>) \<and>
    ide_well_formed s' \<and> length handles' = length handles \<and> (\<forall>i. i \<noteq> 46 \<and> i \<noteq> 47 \<longrightarrow> handles' ! i = handles ! i) \<and>
    (in_use sm' \<noteq> [] \<longrightarrow> handles'[46 := Some hp, 47 := Some hs] = handles') \<and>
    distinct (map place (found p)) \<and> pci_scanned_bus p 0 \<and>
    (\<forall>d \<in> set (found p). device_ok (conf (hw s)) d \<and> pci_scanned_bus p (bus d) \<and> bridge_done p d) \<and>
    (\<forall>b sl f. pci_scanned_bus p b \<and> answers (conf (hw s)) b sl f \<longrightarrow> (b, sl, f) \<in> place ` set (found p) \<or> pci_full p)"
proof -
  let ?conf = "\<lambda>(_, _, s). conf (hw s)" and ?run = "run_probe io base ops hp hs"
  let ?I = "scanning io idle base ops hp hs handles"
  define st where "st = (handles, (snd (storage_manager_setup sm), 1 :: u32), s)"
  have I: "?I st"
    using assms(3,5,6) by (simp add: st_def scanning_def discovered_def storage_manager_setup_def storage_ok_def in_use_def
        STORAGE_MANAGER_MAX_CONTROLLERS_def)
  have keeps: "?conf t' = ?conf t" if "?run h d t = Some (c, t')" for h d t c t'
    using that ide_probe_conf [OF assms(1)] by (cases h) (fastforce simp: run_probe_def split: prod.splits)
  have total: "?run h d t \<noteq> None" if "?I t" for h d t
  proof -
    obtain hd st' u where t: "t = (hd, st', u)" by (metis surj_pair)
    have "ide_well_formed u" "idle (hw u)" using that assms(2) by (auto simp: scanning_def discovered_def t)
    then obtain r where "ide_pci_probe io base ops hp hs d t = Some r"
      unfolding t using ide_probe_total [OF assms(2), of u base ops hp hs d hd st'] by blast
    then show ?thesis by (cases h) (simp add: run_probe_def)
  qed
  have contract: "\<forall>h d t c t'. ?I t \<longrightarrow> ?run h d t = Some (c, t') \<longrightarrow> ?conf t' = ?conf t" "\<forall>h d t. ?I t \<longrightarrow> ?run h d t \<noteq> None"
    using keeps total by blast+
  have "bridges_bounded (?conf st)" using assms(4) by (simp add: st_def)
  from ide.scan_discovers [OF on_disks_hardware [OF assms(1)] this I contract, where es = "pci_drivers name"]
  obtain p st' where r: "pci_scan_bus 257 (on_disks io) ?run (pci_drivers name) 0 (pci_start, st) = Some (p, st')"
    "?I st'" "distinct (map place (found p))" "pci_scanned_bus p 0"
    "\<forall>d \<in> set (found p). device_ok (?conf st) d \<and> pci_scanned_bus p (bus d) \<and> bridge_done p d"
    "\<forall>b sl f. pci_scanned_bus p b \<and> answers (?conf st) b sl f \<longrightarrow> (b, sl, f) \<in> place ` set (found p) \<or> pci_full p"
    by blast
  obtain handles' sm' n' s' where st': "st' = (handles', (sm', n'), s')" by (metis surj_pair)
  have "kernel_discover_devices 257 io name base ops hp hs (handles, (sm, 1), s) = Some (p, handles', (sm', n'), s')"
    using r(1) unfolding kernel_discover_devices_def st_def st' by (simp only: prod.case Let_def)
  moreover have "discovered base ops hp hs handles st'" using r(2) by (simp add: scanning_def)
  ultimately show ?thesis using r(3-6)
    unfolding st_def st' discovered_def prod.case by (intro exI conjI) (assumption | blast)+
qed

section \<open>Witness\<close>

text \<open>
  A machine with an IDE controller and four drives. The state counts the words that are left to transfer: none while the
  drives are idle, when they show the status 0x50, and 256 after IDENTIFY, when they show 0x58 until the last word is read.
  Beside it are the latch and the registers of configuration space.
\<close>

definition disk_io :: "(nat \<times> u32 \<times> (u32 \<Rightarrow> u32)) io" where
  "disk_io = \<lparr>inportb = \<lambda>_ (n, c). (if 0 < n then 0x58 else 0x50, (n, c)),
     outportb = \<lambda>_ v (n, c). (if v = ATA_CMD_IDENTIFY then 256 else n, c),
     inports = \<lambda>_ (n, c). (0, (n - 1, c)), outports = \<lambda>_ _ h. h,
     inportl = \<lambda>p (n, c). (case inportl witness_io p c of (v, c) \<Rightarrow> (v, (n, c))),
     outportl = \<lambda>p v (n, c). (n, outportl witness_io p v c)\<rparr>"

definition ide_function :: "u32 \<Rightarrow> u32" where
  "ide_function = (witness_function False)(0x80000008 := 0x01018000)"

lemma ide_function_answers: "answers ide_function b sl f \<longleftrightarrow> (b, sl, f) = (0, 0, 0)"
proof -
  have z: "conf32 ide_function b sl f o1 = conf32 (witness_function False) b sl f o1" if "o1 AND 0xFC \<noteq> 8" "unat sl < 32" "unat f < 8"
    for o1 b sl f
    using that make_address_fields(4) [OF that(2,3), of b o1] by (auto simp: conf32_def ide_function_def)
  have "conf16 ide_function b sl f 0 = conf16 (witness_function False) b sl f 0"
    "conf8 ide_function b sl f 0x0E = conf8 (witness_function False) b sl f 0x0E" if "unat sl < 32" "unat f < 8" for b sl f
    using z [OF _ that, of 0] z [OF _ that, of "0x0E"] by (simp_all add: conf16_def conf8_def)
  moreover have "unat (0 :: u8) < 8" by simp
  ultimately have "answers ide_function b sl f = answers (witness_function False) b sl f" unfolding answers_def by metis
  then show ?thesis by (simp only: witness_function_answers)
qed

lemma disk_io_machine: "disk_machine disk_io (\<lambda>h. snd (snd h))"
proof -
  have "pci_hardware disk_io (\<lambda>h. snd (snd h))"
    using witness_hardware by (fastforce simp: pci_hardware_def disk_io_def split: prod.splits)
  then show ?thesis by (auto simp: disk_machine_def disk_io_def split: prod.splits)
qed

lemma disk_io_answers: "drives_answer disk_io (\<lambda>h. fst h = 0)"
proof -
  have cmd: "fst (hw (identify_command disk_io ch dr d s)) = 256" for ch dr d s
    by (simp add: identify_command_def outb_def disk_io_def split: prod.split)
  have inb: "inb disk_io p s = (0x58, s)" if "0 < fst (hw s)" for p s
    using that by (cases s) (auto simp: inb_def disk_io_def split: prod.split)
  note st = inb [of "identify_command disk_io ch dr d s" for ch dr d s, unfolded cmd, simplified]
  have wait: "identify_wait disk_io base s = Some (0x58, s)" if "0 < fst (hw s)" for base s
    using inb [OF that] by (subst identify_wait.simps) (simp add: ATA_SR_ERR_def ATA_SR_DRQ_def)
  have ident: "fst (hw (read_identify disk_io base d s)) = fst (hw s) - 256" for base d s
  proof -
    define f where "f = (\<lambda>i s. case inw disk_io (base + ATA_REG_DATA) s of (w, s) \<Rightarrow>
      with_dev d (identify_data_update (\<lambda>xs. xs[2 * i := ucast w, 2 * i + 1 := ucast (drop_bit 8 w)])) s)"
    have f: "fst (hw (f i t)) = fst (hw t) - 1" for i t by (simp add: f_def inw_def disk_io_def split: prod.split)
    have "fst (hw (fold f is s)) = fst (hw s) - length is" for "is"
      by (induction "is" arbitrary: s) (simp_all add: f)
    then show ?thesis by (simp add: read_identify_def f_def)
  qed
  have "\<exists>n. responds disk_io p n h" if "0 < fst h" for p h
    using that by (intro exI [of _ 1]) (auto simp: disk_io_def ATA_SR_DRQ_def split: prod.split)
  moreover have "fst (hw s') = 0" if "ata_pio_init_drive disk_io ch dr (Some d) s = Some (c, s')" for ch dr d s c s'
    using that unfolding init_drive_eq [OF st st]
    by (auto simp: wait cmd Let_def ATA_SR_ERR_def ident split: option.splits)
  ultimately show ?thesis
    unfolding drives_answer_def by (auto simp: st cmd) (auto simp: disk_io_def split: prod.splits)
qed

theorem device_discovery_witness:
  "(\<exists>p handles' sm' n' s'. kernel_discover_devices 257 disk_io 0 0xC0010000 0xC0020000 True False
      (replicate 256 None, (\<lparr>controllers = [], controller_count = 0, sm_initialized = False\<rparr>, 1), witness_disk (0, 0, ide_function)) =
      Some (p, handles', (sm', n'), s') \<and> storage_ok (sm', n') \<and> ((0, 0, 0) \<in> place ` set (found p) \<or> pci_full p)) \<and>
   conf8 ide_function 0 0 0 0x0B = 1 \<and> conf8 ide_function 0 0 0 0x0A = 1"
proof -
  let ?sm = "\<lparr>controllers = [], controller_count = 0, sm_initialized = False\<rparr>" and ?s = "witness_disk (0 :: nat, 0 :: u32, ide_function)"
  have c: "conf8 ide_function 0 0 0 0x0B = 1" "conf8 ide_function 0 0 0 0x0A = 1" "conf8 ide_function 0 0 0 0x0E = 0"
    by (simp_all add: conf8_def conf32_def pci_make_address_def ide_function_def witness_function_def)
  have b: "bridges_bounded (snd (snd (hw ?s)))" "fst (hw ?s) = 0"
    by (simp_all add: witness_disk_def bridges_bounded_def ide_function_answers c(3) pci_header_type_pci_to_pci_def)
  have "\<not> sm_initialized ?sm" by simp
  from device_discovery [OF disk_io_machine disk_io_answers b(2,1) this witness_disk_ok, where name = 0 and base = "0xC0010000"
      and ops = "0xC0020000" and hp = True and hs = False and handles = "replicate 256 None"]
  obtain p handles' sm' n' s' where
    "kernel_discover_devices 257 disk_io 0 0xC0010000 0xC0020000 True False (replicate 256 None, (?sm, 1), ?s) =
       Some (p, handles', (sm', n'), s')" "storage_ok (sm', n')" "pci_scanned_bus p 0"
    "\<forall>b sl f. pci_scanned_bus p b \<and> answers (snd (snd (hw ?s))) b sl f \<longrightarrow> (b, sl, f) \<in> place ` set (found p) \<or> pci_full p"
    by (elim exE conjE) (rule that; assumption)
  moreover have "answers (snd (snd (hw ?s))) 0 0 0" by (simp add: witness_disk_def ide_function_answers)
  ultimately show ?thesis using c(1,2) by (intro conjI exI) (assumption | blast)+
qed

end
