(* ===== verification/Bios32.thy ===== *)
theory Bios32
  imports Ports Paging
begin

text \<open>
  Calls of the BIOS from protected mode (src/kernel/bios32/bios32.c and the helper of bios32.s). What a
  software interrupt does in real mode is the argument \<open>bios\<close>, on the registers, low memory and the
  machine behind the ports.
\<close>

record registers16 =
  di16 :: u16
  si16 :: u16
  bp16 :: u16
  sp16 :: u16
  bx16 :: u16
  dx16 :: u16
  cx16 :: u16
  ax16 :: u16
  ds16 :: u16
  es16 :: u16
  fs16 :: u16
  gs16 :: u16
  ss16 :: u16
  flags16 :: u16

definition zero_registers16 :: registers16 where
  "zero_registers16 = \<lparr>di16 = 0, si16 = 0, bp16 = 0, sp16 = 0, bx16 = 0, dx16 = 0, cx16 = 0, ax16 = 0,
     ds16 = 0, es16 = 0, fs16 = 0, gs16 = 0, ss16 = 0, flags16 = 0\<rparr>"

text \<open>
  The data of the helper, and what a call touches: descriptor tables, interrupts, memory and ports.
  \<open>helper_out_at\<close> is the address of \<open>_out_reg_ptr\<close>, which lies below 64 KiB.
\<close>

record 's bios32 =
  helper_gdt_entries :: "gdt_entry list"
  helper_gdt_ptr :: descriptor_ptr
  helper_idt_ptr :: descriptor_ptr
  helper_in :: registers16
  helper_out :: registers16
  helper_out_at :: u16
  helper_intnum :: u8
  tables :: descriptors
  irqs :: interrupts
  low_mem :: mem
  ports :: 's

text \<open>
  \<open>kernel_bios32_init\<close>: the helper is mapped to itself, and its tables are filled. \<open>gdt_at\<close> is the address
  of \<open>_gdt_entries\<close>, \<open>helper_start\<close> and \<open>helper_end\<close> are those of \<open>_bios32_helper\<close> and \<open>_bios32_helper_end\<close>.
\<close>

definition kernel_bios32_init where
  "kernel_bios32_init malloc helper_start helper_end gdt_at = (\<lambda>(k, b).
     map_option (\<lambda>k. (k, b
       \<lparr>helper_gdt_entries := take KERNEL_DESCRIPTORS_GDT_ENTRYCOUT (pGDT (tables b)),
        helper_gdt_ptr := \<lparr>dp_limit = of_nat (8 * KERNEL_DESCRIPTORS_GDT_ENTRYCOUT - 1), dp_base = gdt_at\<rparr>,
        helper_idt_ptr := \<lparr>dp_limit = 0x3ff, dp_base = 0\<rparr>\<rparr>))
       (paging_manager_identity_allocate_range malloc helper_start helper_end True True k))"

text \<open>
  The flags when the helper executes the interrupt: \<open>xorw\<close> has cleared carry, sign and overflow and set zero and
  parity, \<open>sti\<close> has set the interrupt flag; no later instruction changes them. (The auxiliary carry, which
  \<open>xorw\<close> leaves undefined, is taken as clear, and the direction flag as the C code leaves it.)
\<close>

definition INT_FLAGS :: u16 where "INT_FLAGS = 0x0246"

text \<open>
  The registers the interrupt sees: the general registers come from \<open>_in_reg_ptr\<close>, but the stack pointer is
  the helper's (\<open>stack\<close>), the segment registers are 0, and the flags are the helper's own.
\<close>

definition real_mode_registers :: "u16 \<Rightarrow> registers16 \<Rightarrow> registers16" where
  "real_mode_registers stack r =
     r\<lparr>sp16 := stack, ds16 := 0, es16 := 0, fs16 := 0, gs16 := 0, ss16 := 0, flags16 := INT_FLAGS\<rparr>"

text \<open>
  What the helper stores to \<open>_out_reg_ptr\<close>. It sets the stack pointer to the end of the buffer and pushes
  the flags, then \<open>ss\<close>, \<open>gs\<close>, \<open>fs\<close>, \<open>es\<close> and \<open>ds\<close> through \<open>cx\<close>, and only then all general registers: the stored
  \<open>cx\<close> is the data segment, and the stored stack pointer is that of the buffer after six pushes.
\<close>

definition stored_registers :: "u16 \<Rightarrow> registers16 \<Rightarrow> registers16" where
  "stored_registers out_at r = r\<lparr>cx16 := ds16 r, sp16 := out_at + 28 - 12\<rparr>"

text \<open>
  The helper loads its own tables, goes to real mode, executes the interrupt and stores the registers. It
  comes back with interrupts off and its tables still loaded. It relies on the interrupt to keep the data and the
  stack segment and the upper halves of \<open>ebx\<close> and \<open>edx\<close>: it reads its stack pointer back through \<open>ds\<close> and keeps CR3 and
  the protected-mode stack pointer in those registers.
\<close>

definition bios32_helper ::
  "(u8 \<Rightarrow> registers16 \<Rightarrow> mem \<times> 's \<Rightarrow> registers16 \<times> mem \<times> 's) \<Rightarrow> u16 \<Rightarrow> 's bios32 \<Rightarrow> 's bios32" where
  "bios32_helper bios stack b =
     (case bios (helper_intnum b) (real_mode_registers stack (helper_in b)) (low_mem b, ports b) of (r, m, h) \<Rightarrow>
        b\<lparr>tables := (tables b)\<lparr>gdtr := Some (helper_gdt_ptr b), idtr := Some (helper_idt_ptr b)\<rparr>,
          irqs := (irqs b)\<lparr>interrupt_flag := False\<rparr>, helper_out := stored_registers (helper_out_at b) r,
          low_mem := m, ports := h\<rparr>)"

definition kernel_bios32_service ::
  "'s io \<Rightarrow> (u8 \<Rightarrow> registers16 \<Rightarrow> mem \<times> 's \<Rightarrow> registers16 \<times> mem \<times> 's) \<Rightarrow> u16 \<Rightarrow> u8 \<Rightarrow> registers16 \<Rightarrow> 's bios32 \<Rightarrow>
   registers16 \<times> 's bios32" where
  "kernel_bios32_service io bios stack interrupt_num in_reg b =
     (let b = b\<lparr>helper_in := in_reg, helper_intnum := interrupt_num\<rparr>;
          b = b\<lparr>irqs := disable_interrupts (irqs b)\<rparr>;
          b = b\<lparr>ports := perform io pic_8259_disable (ports b)\<rparr>;
          b = bios32_helper bios stack b;
          out_reg = helper_out b;
          b = b\<lparr>tables := gdt_flush (tables b)\<rparr>;
          b = b\<lparr>tables := kernel_interrupt_descriptor_table_finalize (tables b)\<rparr>;
          b = b\<lparr>ports := perform io pic_8259_remap (ports b)\<rparr>
      in (out_reg, b\<lparr>irqs := enable_interrupts (irqs b)\<rparr>))"

text \<open>
  C34: A BIOS call whose interrupt keeps the data and stack segment leaves the kernel's descriptor tables loaded and the interrupt
  state as it was, at every nesting depth. The interrupt sees the general registers it was given, but the helper's own stack pointer
  and flags and segment registers of zero, whatever the caller asked for; the controllers are masked before it and
  programmed again after it. The caller gets the registers the interrupt left, except that \<open>cx\<close> is always 0, the data segment, and
  the stack pointer is an address in the helper: a result in \<open>cx\<close> is lost.
\<close>

theorem bios_call_restores_kernel:
  assumes "interrupts_ok (irqs b)"
    "bios num (in_reg\<lparr>sp16 := stack, ds16 := 0, es16 := 0, fs16 := 0, gs16 := 0, ss16 := 0, flags16 := 0x0246\<rparr>)
       (low_mem b, perform io pic_8259_disable (ports b)) = (r, m, h)" "ds16 r = 0" "ss16 r = 0"
  shows "\<exists>b'. kernel_bios32_service io bios stack num in_reg b = (r\<lparr>cx16 := 0, sp16 := helper_out_at b + 16\<rparr>, b') \<and>
    gdtr (tables b') = Some (gdt_ptr (tables b)) \<and> idtr (tables b') = Some (idt_ptr (tables b)) \<and>
    pGDT (tables b') = pGDT (tables b) \<and> pIDT (tables b') = pIDT (tables b) \<and> irqs b' = irqs b \<and>
    low_mem b' = m \<and> ports b' = perform io pic_8259_remap h"
proof -
  have i: "(disable_interrupts i)\<lparr>interrupt_flag := False\<rparr> = disable_interrupts i" for i
    by (simp add: disable_interrupts_def)
  have "helper_out_at b + 28 - 12 = helper_out_at b + 16" by simp
  then show ?thesis
    using assms by (simp add: kernel_bios32_service_def bios32_helper_def Let_def gdt_flush_def stored_registers_def
        real_mode_registers_def INT_FLAGS_def kernel_interrupt_descriptor_table_finalize_def i)
qed

definition witness_bios32 :: "unit bios32" where
  "witness_bios32 = \<lparr>helper_gdt_entries = [], helper_gdt_ptr = \<lparr>dp_limit = 63, dp_base = 0x8100\<rparr>,
     helper_idt_ptr = \<lparr>dp_limit = 0x3ff, dp_base = 0\<rparr>, helper_in = zero_registers16, helper_out = zero_registers16,
     helper_out_at = 0x8200, helper_intnum = 0,
     tables = \<lparr>pGDT = [], gdt_ptr = \<lparr>dp_limit = 63, dp_base = 0xC0200000\<rparr>, gdtr = None, pIDT = [],
       idt_ptr = \<lparr>dp_limit = 2047, dp_base = 0xC0201000\<rparr>, idtr = None, tss = null_tss, task_register = 0\<rparr>,
     irqs = \<lparr>disable_counter = 1, interrupt_flag = False\<rparr>, low_mem = (\<lambda>_. 0), ports = ()\<rparr>"

text \<open>An interrupt that answers with 5 in \<open>ax\<close> and 7 in \<open>cx\<close>.\<close>

theorem bios_call_restores_kernel_witness:
  "\<exists>out b'. kernel_bios32_service silent_io (\<lambda>n r s. (r\<lparr>ax16 := 5, cx16 := 7\<rparr>, s)) 0x9000 0x10
       (zero_registers16\<lparr>es16 := 0x123, bx16 := 9\<rparr>) witness_bios32 = (out, b') \<and>
     ax16 out = 5 \<and> bx16 out = 9 \<and> cx16 out = 0 \<and> es16 out = 0 \<and> sp16 out = 0x8210 \<and>
     gdtr (tables b') = Some \<lparr>dp_limit = 63, dp_base = 0xC0200000\<rparr>"
proof -
  have "interrupts_ok (irqs witness_bios32)" by (simp add: witness_bios32_def interrupts_ok_def)
  from bios_call_restores_kernel [OF this, where num = "0x10" and in_reg = "zero_registers16\<lparr>es16 := 0x123, bx16 := 9\<rparr>"
      and stack = "0x9000" and io = silent_io and bios = "\<lambda>n r s. (r\<lparr>ax16 := 5, cx16 := 7\<rparr>, s)"]
  show ?thesis by (auto simp: witness_bios32_def zero_registers16_def)
qed

end
