(* ===== verification/Vesa.thy ===== *)
theory Vesa
  imports Bios32
begin

text \<open>
  The VESA driver (src/kernel/drivers/vesa/vesa.c) and the choice of a video mode in
  src/kernel/kernel-main.c. The driver talks to the BIOS through \<open>kernel_bios32_service\<close>: \<open>io\<close>, \<open>bios\<close> and
  \<open>stack\<close> are its arguments, \<open>vbe_info\<close> and \<open>tmp\<close> the addresses of the two low-memory variables.
\<close>

section \<open>Data\<close>

definition VESA_MODE_SIZE :: nat where "VESA_MODE_SIZE = 111"

record vbe_mode_info =
  attributes :: u16
  windowA :: u8
  windowB :: u8
  granularity :: u16
  windowSize :: u16
  segmentA :: u16
  segmentB :: u16
  winFuncPtr :: u32
  mi_pitch :: u16
  mi_width :: u16
  mi_height :: u16
  wChar :: u8
  yChar :: u8
  planes :: u8
  bpp :: u8
  banks :: u8
  memoryModel :: u8
  bankSize :: u8
  imagePages :: u8
  mi_reserved0 :: u8
  colour_masks :: "u8 list"
  directColorAttributes :: u8
  physbase :: u32
  offScreenMemOff :: u32
  offScreenMemSize :: u16
  mi_reserved1 :: "u8 list"

record vesa_mode =
  number :: u32
  info :: vbe_mode_info

datatype vesa_return_status = VESA_OK | VESA_ERR | VESA_UNSUPPORTED

record video_state =
  is_text_mode :: u8
  width :: u32
  height :: u32
  pitch :: u32
  bits_per_pixel :: u32
  bytes_per_pixel :: u32
  video_size :: u32
  lfb :: u32

record 's vesa =
  vesa_bios :: "'s bios32"
  vesa_mode_count :: u16
  vesa_modes :: "vesa_mode list"
  video :: video_state

text \<open>The packed structures are read from memory byte by byte.\<close>

definition bytes_at :: "mem \<Rightarrow> u32 \<Rightarrow> nat \<Rightarrow> u8 list" where
  "bytes_at m a n = map (\<lambda>i. m (a + of_nat i)) [0..<n]"

definition vbe_mode_info_of :: "u8 list \<Rightarrow> vbe_mode_info" where
  "vbe_mode_info_of bs = \<lparr>attributes = le16 bs 0, windowA = bs ! 2, windowB = bs ! 3, granularity = le16 bs 4,
     windowSize = le16 bs 6, segmentA = le16 bs 8, segmentB = le16 bs 10, winFuncPtr = le32 bs 12,
     mi_pitch = le16 bs 16, mi_width = le16 bs 18, mi_height = le16 bs 20, wChar = bs ! 22, yChar = bs ! 23,
     planes = bs ! 24, bpp = bs ! 25, banks = bs ! 26, memoryModel = bs ! 27, bankSize = bs ! 28,
     imagePages = bs ! 29, mi_reserved0 = bs ! 30, colour_masks = take 8 (drop 31 bs),
     directColorAttributes = bs ! 39, physbase = le32 bs 40, offScreenMemOff = le32 bs 44,
     offScreenMemSize = le16 bs 48, mi_reserved1 = take 206 (drop 50 bs)\<rparr>"

definition zero_mode :: vesa_mode where
  "zero_mode = \<lparr>number = 0, info = vbe_mode_info_of (replicate 256 0)\<rparr>"

section \<open>Calls of the video BIOS\<close>

definition FP_OFF :: "u32 \<Rightarrow> u16" where "FP_OFF p = ucast (p AND 0xFFFF)"

definition FP_SEG :: "u32 \<Rightarrow> u16" where "FP_SEG p = ucast (drop_bit 4 p AND 0xFFFF)"

definition VBE_AL :: "u16 \<Rightarrow> u8" where "VBE_AL ax = ucast (ax AND 0x00FF)"

definition VBE_AH :: "u16 \<Rightarrow> u8" where "VBE_AH ax = ucast (drop_bit 8 ax AND 0x00FF)"

definition VBE_IS_FUNCTION_SUPPORTED :: "u16 \<Rightarrow> bool" where
  "VBE_IS_FUNCTION_SUPPORTED ax \<longleftrightarrow> VBE_AL ax = 0x4F"

definition vbe_call where
  "vbe_call io bios stack ax bx cx buffer v =
     (let reg_in = zero_registers16\<lparr>ax16 := ax, cx16 := cx, bx16 := bx\<rparr>;
          reg_in = (if buffer \<noteq> NULL then reg_in\<lparr>di16 := FP_OFF buffer, es16 := FP_SEG buffer\<rparr> else reg_in)
      in case kernel_bios32_service io bios stack 0x10 reg_in (vesa_bios v) of (reg_out, b) \<Rightarrow>
        (if \<not> VBE_IS_FUNCTION_SUPPORTED (ax16 reg_out) then 0x4E else VBE_AH (ax16 reg_out),
         reg_out, v\<lparr>vesa_bios := b\<rparr>))"

definition load_vbe where
  "load_vbe io bios stack vbe_info v = (case vbe_call io bios stack 0x4F00 0 0 vbe_info v of (r, out, v) \<Rightarrow> (r, v))"

definition vesa_get_mode where
  "vesa_get_mode io bios stack mode mode_info v =
     (case vbe_call io bios stack 0x4F01 0 mode mode_info v of (r, out, v) \<Rightarrow> (r, v))"

definition vesa_current_mode :: "'s io \<Rightarrow> (u8 \<Rightarrow> registers16 \<Rightarrow> mem \<times> 's \<Rightarrow> registers16 \<times> mem \<times> 's) \<Rightarrow> u16 \<Rightarrow> 's vesa \<Rightarrow> u16 \<times> 's vesa" where
  "vesa_current_mode io bios stack v =
     (case vbe_call io bios stack 0x4F03 0 0 NULL v of (ret, reg_out, v) \<Rightarrow>
        (if ret \<noteq> 0 then ucast (- 1 :: u8) else bx16 reg_out AND 0x3FFF, v))"

definition vesa_set_mode_bios where
  "vesa_set_mode_bios io bios stack mode v =
     (case vbe_call io bios stack 0x4F02 mode 0 NULL v of (r, out, v) \<Rightarrow> (r, v))"

section \<open>The table of modes\<close>

definition video_mem :: "'s vesa \<Rightarrow> mem" where "video_mem v = low_mem (vesa_bios v)"

definition read_mode_number :: "mem \<Rightarrow> u32 \<Rightarrow> u16" where
  "read_mode_number m a = le16 (bytes_at m a 2) 0"

text \<open>The body of the loop: the mode is entered at index \<open>c\<close>, unless one of the tests rejects it.\<close>

definition add_mode :: "'s io \<Rightarrow> (u8 \<Rightarrow> registers16 \<Rightarrow> mem \<times> 's \<Rightarrow> registers16 \<times> mem \<times> 's) \<Rightarrow> u16 \<Rightarrow> u32 \<Rightarrow> u16 \<Rightarrow>
   u8 \<times> 's vesa \<Rightarrow> u8 \<times> 's vesa" where
  "add_mode io bios stack tmp mode_number = (\<lambda>(c, v). case vesa_get_mode io bios stack mode_number tmp v of (r, v) \<Rightarrow>
     let t = vbe_mode_info_of (bytes_at (video_mem v) tmp 256)
     in if r \<noteq> 0 then (c, v)
        else if attributes t AND 0x90 \<noteq> 0x90 then (c, v)
        else if memoryModel t \<noteq> 4 \<and> memoryModel t \<noteq> 6 then (c, v)
        else if list_ex (\<lambda>x. number x = ucast mode_number) (take (unat c) (vesa_modes v)) then (c, v)
        else (c + 1, v\<lparr>vesa_modes := (vesa_modes v)[unat c := \<lparr>number = ucast mode_number, info = t\<rparr>]\<rparr>))"

text \<open>\<open>list\<close> is the pointer behind the mode number just read, \<open>e\<close> the end of the information block.\<close>

partial_function (option) modes_loop where
  "modes_loop io bios stack tmp e list mode_number c v =
     (if mode_number \<noteq> 0xFFFF \<and> unat c < VESA_MODE_SIZE \<and> list < e then
        case add_mode io bios stack tmp mode_number (c, v) of (c, v) \<Rightarrow>
          modes_loop io bios stack tmp e (list + 2) (read_mode_number (video_mem v) list) c v
      else Some (c :: u8, v))"

definition vesa_get_modes where
  "vesa_get_modes io bios stack vbe_info tmp v =
     (let b = vesa_bios v;
          v = v\<lparr>vesa_bios := b\<lparr>low_mem := memset (low_mem b) tmp 0 256\<rparr>\<rparr>;
          v = v\<lparr>vesa_modes := replicate VESA_MODE_SIZE zero_mode\<rparr>;
          list = read32 (video_mem v) (vbe_info + 14)
      in map_option (\<lambda>(c, v). v\<lparr>vesa_mode_count := ucast c\<rparr>)
        (modes_loop io bios stack tmp (vbe_info + 512) (list + 2) (read_mode_number (video_mem v) list) 0 v))"

definition vesa_init where
  "vesa_init io bios stack vbe_info tmp v =
     (case load_vbe io bios stack vbe_info v of (r, v) \<Rightarrow>
        if r \<noteq> 0 then Some (VESA_ERR, v)
        else if bytes_at (video_mem v) vbe_info 4 \<noteq> [0x56, 0x45, 0x53, 0x41] then Some (VESA_UNSUPPORTED, v)
        else map_option (\<lambda>v. (VESA_OK, v)) (vesa_get_modes io bios stack vbe_info tmp v))"

text \<open>The loop of \<open>vesa_destroy\<close> looks for the mode in the table and does nothing with it.\<close>

definition vesa_destroy where
  "vesa_destroy io bios stack v =
     (case vesa_current_mode io bios stack v of (current_mode_number, v) \<Rightarrow>
        if current_mode_number \<noteq> - 1 then snd (vesa_set_mode_bios io bios stack 0 v) else v)"

section \<open>Setting a mode\<close>

definition video_state_of :: "vbe_mode_info \<Rightarrow> video_state" where
  "video_state_of i = \<lparr>is_text_mode = 0, width = ucast (mi_width i), height = ucast (mi_height i),
     pitch = ucast (mi_pitch i), bits_per_pixel = ucast (bpp i), bytes_per_pixel = ucast (bpp i) div 8,
     video_size = ucast (mi_width i) * ucast (mi_height i) * (ucast (bpp i) div 8), lfb = physbase i\<rparr>"

partial_function (option) set_mode_loop where
  "set_mode_loop io bios stack mode i v =
     (if unat (i :: u8) < unat (vesa_mode_count v) then
        if number (vesa_modes v ! unat i) \<noteq> ucast (mode :: u16) then set_mode_loop io bios stack mode (i + 1) v
        else case vesa_set_mode_bios io bios stack mode v of (r, v) \<Rightarrow>
          if r \<noteq> 0 then Some (VESA_ERR, v)
          else Some (VESA_OK, v\<lparr>video := video_state_of (info (vesa_modes v ! unat i))\<rparr>)
      else Some (VESA_ERR, v))"

definition vesa_set_mode where
  "vesa_set_mode io bios stack mode v = set_mode_loop io bios stack mode 0 v"

definition vesa_get_all_modes :: "'s vesa \<Rightarrow> vesa_mode list \<times> u16" where
  "vesa_get_all_modes v = (vesa_modes v, vesa_mode_count v)"

text \<open>
  The loop of \<open>kernel_main\<close> that selects a mode. The inner option is \<open>None\<close> when it jumps to \<open>vesa_panic\<close>, and the
  value of \<open>selected_mode\<close> after the loop otherwise.
\<close>

definition suitable :: "vesa_mode \<Rightarrow> bool" where
  "suitable m \<longleftrightarrow> bpp (info m) = 16 \<and> 600 < mi_width (info m)"

partial_function (option) mode_select_loop where
  "mode_select_loop io bios stack modes mode_count selected_mode v =
     (if (selected_mode :: u16) < mode_count then
        if suitable (modes ! unat selected_mode) then
          Option.bind (vesa_set_mode io bios stack (ucast (number (modes ! unat selected_mode))) v) (\<lambda>(r, v).
            if r \<noteq> VESA_OK then mode_select_loop io bios stack modes mode_count (selected_mode + 1) v
            else Some (Some selected_mode, v))
        else if unat mode_count \<le> unat selected_mode + 1 then Some (None, v)
        else mode_select_loop io bios stack modes mode_count (selected_mode + 1) v
      else Some (Some selected_mode, v))"

definition select_video_mode where
  "select_video_mode io bios stack vbe_info tmp v =
     Option.bind (vesa_init io bios stack vbe_info tmp v) (\<lambda>(r, v).
       if r \<noteq> VESA_OK then Some (None, v)
       else case vesa_get_all_modes v of (modes, mode_count) \<Rightarrow>
         mode_select_loop io bios stack modes mode_count 0 v)"

section \<open>What every call keeps\<close>

text \<open>Interrupts and descriptor tables are the kernel's.\<close>

definition kernel_ready :: "'s bios32 \<Rightarrow> bool" where
  "kernel_ready b \<longleftrightarrow> interrupts_ok (irqs b) \<and> gdtr (tables b) = Some (gdt_ptr (tables b)) \<and>
     idtr (tables b) = Some (idt_ptr (tables b))"

text \<open>What a sequence of BIOS calls leaves alone.\<close>

definition same_kernel :: "'s vesa \<Rightarrow> 's vesa \<Rightarrow> bool" where
  "same_kernel v w \<longleftrightarrow> irqs (vesa_bios w) = irqs (vesa_bios v) \<and> pGDT (tables (vesa_bios w)) = pGDT (tables (vesa_bios v)) \<and>
     pIDT (tables (vesa_bios w)) = pIDT (tables (vesa_bios v)) \<and> kernel_ready (vesa_bios w)"

definition same_screen :: "'s vesa \<Rightarrow> 's vesa \<Rightarrow> bool" where
  "same_screen v w \<longleftrightarrow> vesa_modes w = vesa_modes v \<and> vesa_mode_count w = vesa_mode_count v \<and> video w = video v"

lemma same_kernel_refl [simp]: "kernel_ready (vesa_bios v) \<Longrightarrow> same_kernel v v"
  by (simp add: same_kernel_def)

lemma same_kernel_trans [trans]: "same_kernel u v \<Longrightarrow> same_kernel v w \<Longrightarrow> same_kernel u w"
  by (simp add: same_kernel_def)

lemma same_screen_refl [simp]: "same_screen v v"
  by (simp add: same_screen_def)

lemma same_screen_trans [trans]: "same_screen u v \<Longrightarrow> same_screen v w \<Longrightarrow> same_screen u w"
  by (simp add: same_screen_def)

lemma same_kernel_ready [dest]: "same_kernel v w \<Longrightarrow> kernel_ready (vesa_bios w)"
  by (simp add: same_kernel_def)

lemma service_ready:
  assumes "kernel_ready b" "kernel_bios32_service io bios stack n r b = (out, b')"
  shows "kernel_ready b' \<and> irqs b' = irqs b \<and> pGDT (tables b') = pGDT (tables b) \<and> pIDT (tables b') = pIDT (tables b)"
proof -
  have i: "(disable_interrupts i)\<lparr>interrupt_flag := False\<rparr> = disable_interrupts i" for i
    by (simp add: disable_interrupts_def)
  show ?thesis
    using assms by (auto simp: kernel_ready_def kernel_bios32_service_def bios32_helper_def Let_def gdt_flush_def
        kernel_interrupt_descriptor_table_finalize_def i split: prod.splits)
qed

lemma vbe_call_keeps:
  assumes "vbe_call io bios stack ax bx cx buffer v = (r, out, w)" "kernel_ready (vesa_bios v)"
  shows "same_kernel v w \<and> same_screen v w"
  using assms by (auto simp: vbe_call_def Let_def same_kernel_def same_screen_def split: prod.splits if_splits dest: service_ready)

lemma load_vbe_keeps:
  assumes "load_vbe io bios stack p v = (r, w)" "kernel_ready (vesa_bios v)"
  shows "same_kernel v w \<and> same_screen v w"
  using assms by (auto simp: load_vbe_def split: prod.splits dest: vbe_call_keeps)

lemma vesa_get_mode_keeps:
  assumes "vesa_get_mode io bios stack m p v = (r, w)" "kernel_ready (vesa_bios v)"
  shows "same_kernel v w \<and> same_screen v w"
  using assms by (auto simp: vesa_get_mode_def split: prod.splits dest: vbe_call_keeps)

lemma vesa_set_mode_bios_keeps:
  assumes "vesa_set_mode_bios io bios stack m v = (r, w)" "kernel_ready (vesa_bios v)"
  shows "same_kernel v w \<and> same_screen v w"
  using assms by (auto simp: vesa_set_mode_bios_def split: prod.splits dest: vbe_call_keeps)

section \<open>The table of modes\<close>

text \<open>The first \<open>c\<close> entries are different usable modes, and nothing stands behind them.\<close>

definition usable :: "vesa_mode \<Rightarrow> bool" where
  "usable m \<longleftrightarrow> number m < 0xFFFF \<and> attributes (info m) AND 0x90 = 0x90 \<and> memoryModel (info m) \<in> {4, 6}"

definition table_ok :: "nat \<Rightarrow> vesa_mode list \<Rightarrow> bool" where
  "table_ok c ms \<longleftrightarrow> length ms = VESA_MODE_SIZE \<and> c \<le> VESA_MODE_SIZE \<and> distinct (map number (take c ms)) \<and>
     (\<forall>x \<in> set (take c ms). usable x) \<and> (\<forall>x \<in> set (drop c ms). x = zero_mode)"

lemma table_ok_empty: "table_ok 0 (replicate VESA_MODE_SIZE zero_mode)"
  by (simp add: table_ok_def)

lemma table_ok_add:
  assumes "table_ok c ms" "c < VESA_MODE_SIZE" "usable x" "\<not> list_ex (\<lambda>y. number y = number x) (take c ms)"
  shows "table_ok (Suc c) (ms[c := x])"
proof -
  have c: "c < length ms" using assms by (simp add: table_ok_def)
  then have t: "take (Suc c) (ms[c := x]) = take c ms @ [x]" by (simp add: take_Suc_conv_app_nth)
  have d: "set (drop (Suc c) (ms[c := x])) \<subseteq> set (drop c ms)"
    by (simp add: drop_update_cancel set_drop_subset_set_drop)
  show ?thesis using assms d unfolding table_ok_def t by (auto simp: list_ex_iff)
qed

lemma add_mode_table:
  assumes "add_mode io bios stack tmp n (c, v) = (c', w)" "table_ok (unat c) (vesa_modes v)" "n \<noteq> 0xFFFF"
    "unat c < VESA_MODE_SIZE" "kernel_ready (vesa_bios v)"
  shows "table_ok (unat c') (vesa_modes w) \<and> same_kernel v w \<and> video w = video v"
proof -
  obtain r u where u: "vesa_get_mode io bios stack n tmp v = (r, u)" by (meson surj_pair)
  have k: "same_kernel v u" "same_screen v u" using vesa_get_mode_keeps [OF u assms(5)] by auto
  have "unat c < 255" using assms(4) by (simp add: VESA_MODE_SIZE_def)
  then have s: "unat (c + 1) = Suc (unat c)" by (simp add: unat_word_ariths)
  have "unat n < 65536" using unsigned_less [of n, where ?'a = nat] by simp
  moreover have "unat n \<noteq> 0xFFFF" using assms(3) by (simp add: word_unat_eq_iff)
  ultimately have "unat n < 0xFFFF" by simp
  then have m: "(ucast n :: u32) < 0xFFFF" by (simp add: word_less_nat_alt unsigned_ucast_eq take_bit_eq_mod)
  show ?thesis
  proof (cases "c' = c")
    case True
    then show ?thesis using assms u k by (auto simp: add_mode_def Let_def same_screen_def split: if_splits)
  next
    case False
    define t where "t = vbe_mode_info_of (bytes_at (video_mem u) tmp 256)"
    have t: "attributes t AND 0x90 = 0x90" "memoryModel t \<in> {4, 6}" "c' = c + 1"
      "\<not> list_ex (\<lambda>x. number x = ucast n) (take (unat c) (vesa_modes v))"
      "w = u\<lparr>vesa_modes := (vesa_modes u)[unat c := \<lparr>number = ucast n, info = t\<rparr>]\<rparr>"
      using False assms(1) u k(2) by (auto simp: add_mode_def Let_def t_def same_screen_def split: if_splits)
    have "table_ok (Suc (unat c)) ((vesa_modes u)[unat c := \<lparr>number = ucast n, info = t\<rparr>])"
      by (rule table_ok_add) (use assms k(2) t m in \<open>simp_all add: usable_def same_screen_def\<close>)
    then show ?thesis using k t s by (simp add: same_kernel_def same_screen_def)
  qed
qed

lemma list_step:
  assumes "list < (e :: u32)" "e \<noteq> - 1" "list + 2 < e"
  shows "unat (e - (list + 2)) < unat (e - list)"
proof -
  have "unat e \<noteq> 4294967295" using assms(2) by (metis unat_max_u32 word_unat_eq_iff)
  then have "unat e < 4294967295" using unat_less_2p32 [of e] by linarith
  then have "unat (list + 2) = unat list + 2"
    using assms(1) by (subst unat_add_noov) (simp_all add: word_less_nat_alt)
  then show ?thesis using assms by (simp add: unat_sub_le word_less_nat_alt order_less_imp_le)
qed

lemma modes_loop_table:
  assumes "e \<noteq> - 1" "table_ok (unat c) (vesa_modes v)" "kernel_ready (vesa_bios v)"
  shows "\<exists>c' w. modes_loop io bios stack tmp e list n c v = Some (c', w) \<and> table_ok (unat c') (vesa_modes w) \<and>
    same_kernel v w \<and> video w = video v"
  using assms
proof (induction "if list < e then Suc (unat (e - list)) else 0" arbitrary: list n c v rule: less_induct)
  case less
  show ?case
  proof (cases "n \<noteq> 0xFFFF \<and> unat c < VESA_MODE_SIZE \<and> list < e")
    case True
    obtain d u where d: "add_mode io bios stack tmp n (c, v) = (d, u)" by (meson surj_pair)
    have k: "table_ok (unat d) (vesa_modes u)" "same_kernel v u" "video u = video v"
      using add_mode_table [OF d] less.prems True by auto
    let ?n = "read_mode_number (video_mem u) list"
    have "\<exists>c' w. modes_loop io bios stack tmp e (list + 2) ?n d u = Some (c', w) \<and> table_ok (unat c') (vesa_modes w) \<and>
      same_kernel u w \<and> video w = video u"
      by (rule less.hyps) (use True less.prems(1) k list_step in auto)
    then show ?thesis using True d k by (subst modes_loop.simps) (auto intro: same_kernel_trans)
  next
    case False
    then show ?thesis using less.prems by (subst modes_loop.simps) auto
  qed
qed

lemma vesa_get_modes_table:
  assumes "vbe_info + 512 \<noteq> - 1" "kernel_ready (vesa_bios v)"
  shows "\<exists>w. vesa_get_modes io bios stack vbe_info tmp v = Some w \<and>
    table_ok (unat (vesa_mode_count w)) (vesa_modes w) \<and> same_kernel v w \<and> video w = video v"
proof -
  define u where "u = v\<lparr>vesa_bios := vesa_bios v\<lparr>low_mem := memset (low_mem (vesa_bios v)) tmp 0 256\<rparr>,
    vesa_modes := replicate VESA_MODE_SIZE zero_mode\<rparr>"
  have u: "kernel_ready (vesa_bios u)" "same_kernel v u" "table_ok (unat (0 :: u8)) (vesa_modes u)" "video u = video v"
    using assms(2) table_ok_empty by (simp_all add: u_def kernel_ready_def same_kernel_def)
  define l where "l = read32 (video_mem u) (vbe_info + 14)"
  from modes_loop_table [OF assms(1) u(3,1), of io bios stack tmp "l + 2" "read_mode_number (video_mem u) l"]
  obtain c w where w: "modes_loop io bios stack tmp (vbe_info + 512) (l + 2) (read_mode_number (video_mem u) l) 0 u = Some (c, w)"
    "table_ok (unat c) (vesa_modes w)" "same_kernel u w" "video w = video u" by blast
  have "vesa_get_modes io bios stack vbe_info tmp v = Some (w\<lparr>vesa_mode_count := ucast c\<rparr>)"
    using w(1) by (simp add: vesa_get_modes_def Let_def u_def l_def)
  moreover have "unat (ucast c :: u16) = unat c" using unat_less_256 [of c] by (simp add: unsigned_ucast_eq take_bit_eq_mod)
  ultimately show ?thesis using w u same_kernel_trans [OF u(2) w(3)] by (simp add: same_kernel_def)
qed

definition video_ok :: "'s vesa \<Rightarrow> bool" where
  "video_ok v \<longleftrightarrow> table_ok (unat (vesa_mode_count v)) (vesa_modes v) \<and> kernel_ready (vesa_bios v)"

definition vesa_signature :: "mem \<Rightarrow> u32 \<Rightarrow> bool" where
  "vesa_signature m a \<longleftrightarrow> m a = 0x56 \<and> m (a + 1) = 0x45 \<and> m (a + 2) = 0x53 \<and> m (a + 3) = 0x41"

lemma vesa_signature_bytes: "bytes_at m a 4 = [0x56, 0x45, 0x53, 0x41] \<longleftrightarrow> vesa_signature m a"
proof -
  have "bytes_at m a 4 = [m a, m (a + 1), m (a + 2), m (a + 3)]"
    by (simp add: bytes_at_def numeral_nat upt_rec)
  then show ?thesis by (simp add: vesa_signature_def)
qed

lemma vesa_init_table':
  assumes "vbe_info + 512 \<noteq> - 1" "kernel_ready (vesa_bios v)" "load_vbe io bios stack vbe_info v = (c, u)"
  shows "\<exists>w. vesa_init io bios stack vbe_info tmp v =
      Some (if c \<noteq> 0 then VESA_ERR else if \<not> vesa_signature (video_mem u) vbe_info then VESA_UNSUPPORTED else VESA_OK, w) \<and>
    same_kernel v w \<and> video w = video v \<and>
    (if c = 0 \<and> vesa_signature (video_mem u) vbe_info then video_ok w else w = u \<and> same_screen v w)"
proof -
  have k: "same_kernel v u" "same_screen v u" using load_vbe_keeps [OF assms(3,2)] by auto
  then have "kernel_ready (vesa_bios u)" by auto
  from vesa_get_modes_table [OF assms(1) this, of io bios stack tmp] obtain w where
    w: "vesa_get_modes io bios stack vbe_info tmp u = Some w" "table_ok (unat (vesa_mode_count w)) (vesa_modes w)"
    "same_kernel u w" "video w = video u" by blast
  have "same_kernel v w" by (rule same_kernel_trans [OF k(1) w(3)])
  with w assms(3) k show ?thesis
    by (auto simp: vesa_init_def same_screen_def video_ok_def vesa_signature_bytes)
qed

text \<open>
  C35: The start of the video driver always returns, whatever the BIOS answers, provided that the information block does not
  end at the last address. It returns an error exactly when the BIOS refuses the information block, "unsupported" exactly when
  the block it delivers has no VESA signature, and then the table of modes and the picture of the screen are as before. Otherwise
  the table holds different modes only, each with a linear frame buffer, a known memory model and a number other
  than the end mark, and zero entries behind them. In every case the kernel's interrupts, its descriptor tables and the
  picture of the screen are what they were.
\<close>

theorem vesa_init_table:
  assumes "vbe_info + 512 \<noteq> - 1" "kernel_ready (vesa_bios v)" "load_vbe io bios stack vbe_info v = (c, u)"
  shows "\<exists>w. vesa_init io bios stack vbe_info tmp v =
      Some (if c \<noteq> 0 then VESA_ERR else if \<not> vesa_signature (video_mem u) vbe_info then VESA_UNSUPPORTED else VESA_OK, w) \<and>
    same_kernel v w \<and> video w = video v \<and>
    (if c = 0 \<and> vesa_signature (video_mem u) vbe_info then video_ok w else w = u \<and> same_screen v w)"
  by (rule vesa_init_table' [OF assms])

section \<open>Setting a mode\<close>

definition mode_index :: "'s vesa \<Rightarrow> u16 \<Rightarrow> nat \<Rightarrow> nat option" where
  "mode_index v mode i = find (\<lambda>j. number (vesa_modes v ! j) = ucast mode) [i..<unat (vesa_mode_count v)]"

lemma set_mode_loop_find:
  assumes "unat (vesa_mode_count v) \<le> 255"
  shows "set_mode_loop io bios stack mode i v = Some (case mode_index v mode (unat i) of None \<Rightarrow> (VESA_ERR, v)
    | Some j \<Rightarrow> (case vesa_set_mode_bios io bios stack mode v of (r, w) \<Rightarrow>
        if r \<noteq> 0 then (VESA_ERR, w) else (VESA_OK, w\<lparr>video := video_state_of (info (vesa_modes w ! j))\<rparr>)))"
proof (induction "unat (vesa_mode_count v) - unat i" arbitrary: i)
  case 0
  then show ?case by (subst set_mode_loop.simps) (simp add: mode_index_def)
next
  case (Suc x)
  then have i: "unat i < unat (vesa_mode_count v)" by simp
  then have u: "[unat i..<unat (vesa_mode_count v)] = unat i # [Suc (unat i)..<unat (vesa_mode_count v)]"
    by (rule upt_conv_Cons)
  have n: "unat (i + 1) = Suc (unat i)" using i assms by (simp add: unat_word_ariths)
  show ?case
  proof (cases "number (vesa_modes v ! unat i) = ucast mode")
    case True
    with i show ?thesis
      by (subst set_mode_loop.simps) (auto simp: mode_index_def u split: prod.splits)
  next
    case False
    have "set_mode_loop io bios stack mode i v = set_mode_loop io bios stack mode (i + 1) v"
      using i False by (subst set_mode_loop.simps) simp
    moreover have "mode_index v mode (unat i) = mode_index v mode (unat (i + 1))"
      using False by (simp add: mode_index_def u n)
    moreover have "x = unat (vesa_mode_count v) - unat (i + 1)" using Suc.hyps(2) n by simp
    ultimately show ?thesis using Suc.hyps(1) [of "i + 1"] by (simp only:)
  qed
qed

lemma mode_index_Some:
  "mode_index v mode 0 = Some j \<longleftrightarrow> j < unat (vesa_mode_count v) \<and> number (vesa_modes v ! j) = ucast mode \<and>
     (\<forall>i<j. number (vesa_modes v ! i) \<noteq> ucast mode)"
  by (auto simp: mode_index_def find_upt_Some_iff)

lemma mode_index_None:
  "mode_index v mode 0 = None \<longleftrightarrow> (\<forall>i < unat (vesa_mode_count v). number (vesa_modes v ! i) \<noteq> ucast mode)"
  by (auto simp: mode_index_def find_upt_None_iff)

lemma video_ok_count: "video_ok v \<Longrightarrow> unat (vesa_mode_count v) \<le> 111 \<and> length (vesa_modes v) = 111"
  by (simp add: video_ok_def table_ok_def VESA_MODE_SIZE_def)

lemma video_ok_keeps: "video_ok v \<Longrightarrow> same_kernel v w \<Longrightarrow> same_screen v w \<Longrightarrow> video_ok w"
  by (auto simp: video_ok_def same_screen_def)

lemma set_mode_outcome:
  assumes "video_ok v"
  shows "\<exists>r w. vesa_set_mode io bios stack mode v = Some (r, w) \<and> same_kernel v w \<and> vesa_modes w = vesa_modes v \<and>
    vesa_mode_count w = vesa_mode_count v \<and>
    (if \<forall>i < unat (vesa_mode_count v). number (vesa_modes v ! i) \<noteq> ucast mode then r = VESA_ERR \<and> w = v
     else if fst (vesa_set_mode_bios io bios stack mode v) \<noteq> 0 then r = VESA_ERR \<and> video w = video v
     else r = VESA_OK \<and> (\<exists>i < unat (vesa_mode_count v). number (vesa_modes v ! i) = ucast mode \<and>
       video w = video_state_of (info (vesa_modes v ! i))))"
proof -
  obtain b u where u: "vesa_set_mode_bios io bios stack mode v = (b, u)" by (meson surj_pair)
  have r: "kernel_ready (vesa_bios v)" using assms by (simp add: video_ok_def)
  have k: "same_kernel v u" "same_screen v u" using vesa_set_mode_bios_keeps [OF u r] by auto
  have c: "unat (vesa_mode_count v) \<le> 255" using video_ok_count [OF assms] by simp
  note loop = set_mode_loop_find [OF c, of io bios stack mode 0, folded vesa_set_mode_def, simplified]
  show ?thesis
  proof (cases "mode_index v mode 0")
    case None
    moreover from None have "\<forall>i < unat (vesa_mode_count v). number (vesa_modes v ! i) \<noteq> ucast mode"
      by (simp add: mode_index_None)
    ultimately show ?thesis using loop r by simp
  next
    case (Some j)
    then have j: "j < unat (vesa_mode_count v)" "number (vesa_modes v ! j) = ucast mode"
      by (simp_all add: mode_index_Some)
    show ?thesis
    proof (cases "b = 0")
      case True
      then show ?thesis using loop Some u k j by (auto simp: same_kernel_def same_screen_def)
    next
      case False
      then show ?thesis using loop Some u k j by (auto simp: same_kernel_def same_screen_def)
    qed
  qed
qed

text \<open>
  C36: Setting a video mode either succeeds, and then the kernel's picture of the screen is that of the listed mode of this
  number, with the frame buffer in graphics mode; or it reports an error and leaves that picture alone. A number that is
  not in the table never reaches the BIOS. The table itself, the interrupts and the descriptor tables stay as they are.
\<close>

theorem vesa_set_mode_outcome:
  assumes "video_ok v"
  shows "\<exists>r w. vesa_set_mode io bios stack mode v = Some (r, w) \<and> same_kernel v w \<and> vesa_modes w = vesa_modes v \<and>
    vesa_mode_count w = vesa_mode_count v \<and>
    (if \<forall>i < unat (vesa_mode_count v). number (vesa_modes v ! i) \<noteq> ucast mode then r = VESA_ERR \<and> w = v
     else if fst (vesa_set_mode_bios io bios stack mode v) \<noteq> 0 then r = VESA_ERR \<and> video w = video v
     else r = VESA_OK \<and> (\<exists>i < unat (vesa_mode_count v). number (vesa_modes v ! i) = ucast mode \<and>
       video w = video_state_of (info (vesa_modes v ! i))))"
  by (rule set_mode_outcome [OF assms])

section \<open>Selecting a mode\<close>

lemma video_ok_entry:
  assumes "video_ok v" "i < unat (vesa_mode_count v)"
  shows "ucast (ucast (number (vesa_modes v ! i)) :: u16) = number (vesa_modes v ! i)"
    "j < unat (vesa_mode_count v) \<Longrightarrow> number (vesa_modes v ! j) = number (vesa_modes v ! i) \<Longrightarrow> j = i"
proof -
  let ?t = "take (unat (vesa_mode_count v)) (vesa_modes v)"
  have l: "length ?t = unat (vesa_mode_count v)" using video_ok_count [OF assms(1)] by simp
  have t: "?t ! k = vesa_modes v ! k" if "k < unat (vesa_mode_count v)" for k using that by simp
  have "?t ! i \<in> set ?t" by (rule nth_mem) (use assms(2) l in simp)
  then have "usable (vesa_modes v ! i)" using assms by (auto simp: video_ok_def table_ok_def t)
  then have "unat (number (vesa_modes v ! i)) < 65536" by (simp add: usable_def word_less_nat_alt)
  then have "unat (ucast (ucast (number (vesa_modes v ! i)) :: u16) :: u32) = unat (number (vesa_modes v ! i))"
    by (simp add: unsigned_ucast_eq take_bit_eq_mod unat_mod_distrib)
  then show "ucast (ucast (number (vesa_modes v ! i)) :: u16) = number (vesa_modes v ! i)"
    by (simp only: word_unat_eq_iff)
  have d: "distinct (map number ?t)" using assms(1) by (simp add: video_ok_def table_ok_def)
  show "j = i" if "j < unat (vesa_mode_count v)" "number (vesa_modes v ! j) = number (vesa_modes v ! i)"
    using nth_eq_iff_index_eq [OF d, of j i] that assms(2) l video_ok_count [OF assms(1)] by simp
qed

lemma select_step:
  assumes "video_ok v" "i < unat (vesa_mode_count v)"
    "vesa_set_mode io bios stack (ucast (number (vesa_modes v ! i))) v = Some (r, w)"
  shows "same_kernel v w \<and> vesa_modes w = vesa_modes v \<and> vesa_mode_count w = vesa_mode_count v \<and> video_ok w \<and>
    video w = (if r = VESA_OK then video_state_of (info (vesa_modes v ! i)) else video v)"
proof -
  let ?m = "ucast (number (vesa_modes v ! i)) :: u16"
  note e = video_ok_entry [OF assms(1,2)]
  obtain r' w' where o: "vesa_set_mode io bios stack ?m v = Some (r', w')" "same_kernel v w'" "vesa_modes w' = vesa_modes v"
    "vesa_mode_count w' = vesa_mode_count v"
    "if \<forall>i < unat (vesa_mode_count v). number (vesa_modes v ! i) \<noteq> ucast ?m then r' = VESA_ERR \<and> w' = v
     else if fst (vesa_set_mode_bios io bios stack ?m v) \<noteq> 0 then r' = VESA_ERR \<and> video w' = video v
     else r' = VESA_OK \<and> (\<exists>i < unat (vesa_mode_count v). number (vesa_modes v ! i) = ucast ?m \<and>
       video w' = video_state_of (info (vesa_modes v ! i)))"
    using set_mode_outcome [OF assms(1), of io bios stack ?m] by blast
  have "video w' = (if r' = VESA_OK then video_state_of (info (vesa_modes v ! i)) else video v)"
    using o(5) e assms(2) by (auto split: if_splits)
  moreover have "video_ok w'" using assms(1) o by (auto simp: video_ok_def)
  ultimately show ?thesis using o assms(3) by simp
qed

definition mode_selected :: "'s vesa \<Rightarrow> u16 option \<Rightarrow> 's vesa \<Rightarrow> bool" where
  "mode_selected v res w \<longleftrightarrow> (let n = unat (vesa_mode_count v); modes = vesa_modes v in case res of
     None \<Rightarrow> 0 < n \<and> \<not> suitable (modes ! (n - 1)) \<and> video w = video v
   | Some s \<Rightarrow> if unat s < n then suitable (modes ! unat s) \<and> video w = video_state_of (info (modes ! unat s))
       else unat s = n \<and> (n = 0 \<or> suitable (modes ! (n - 1))) \<and> video w = video v)"

lemma mode_selected_cong:
  assumes "mode_selected u res w" "vesa_modes u = vesa_modes v" "vesa_mode_count u = vesa_mode_count v" "video u = video v"
  shows "mode_selected v res w"
  using assms(1) by (simp only: mode_selected_def assms(2-4))

lemma mode_select_loop_outcome:
  assumes "video_ok v" "unat s \<le> unat (vesa_mode_count v)"
    "unat s = unat (vesa_mode_count v) \<longrightarrow> unat s = 0 \<or> suitable (vesa_modes v ! (unat s - 1))"
  shows "\<exists>res w. mode_select_loop io bios stack (vesa_modes v) (vesa_mode_count v) s v = Some (res, w) \<and> same_kernel v w \<and>
    vesa_modes w = vesa_modes v \<and> vesa_mode_count w = vesa_mode_count v \<and> mode_selected v res w"
  using assms
proof (induction "unat (vesa_mode_count v) - unat s" arbitrary: s v)
  case 0
  then have "\<not> s < vesa_mode_count v" by (simp add: word_less_nat_alt)
  with 0 show ?case by (subst mode_select_loop.simps) (auto simp: mode_selected_def Let_def video_ok_def)
next
  case (Suc x)
  let ?n = "vesa_mode_count v"
  have s: "unat s < unat ?n" "s < ?n" using Suc.hyps(2) by (auto simp: word_less_nat_alt)
  have n: "unat (s + 1) = Suc (unat s)" using s(1) video_ok_count [OF Suc.prems(1)] by (simp add: unat_word_ariths)
  have x: "x = unat ?n - unat (s + 1)" using Suc.hyps(2) n by simp
  have le: "unat (s + 1) \<le> unat ?n" using s n by simp
  show ?case
  proof (cases "suitable (vesa_modes v ! unat s)")
    case True
    then have p: "Suc (unat s) = unat ?n \<longrightarrow> suitable (vesa_modes v ! (unat ?n - Suc 0))"
      by (metis One_nat_def diff_Suc_1)
    define m where "m = (ucast (number (vesa_modes v ! unat s)) :: u16)"
    obtain r u where u: "vesa_set_mode io bios stack m v = Some (r, u)"
      using set_mode_outcome [OF Suc.prems(1), of io bios stack m] by blast
    have k: "same_kernel v u" "vesa_modes u = vesa_modes v" "vesa_mode_count u = ?n" "video_ok u"
      "video u = (if r = VESA_OK then video_state_of (info (vesa_modes v ! unat s)) else video v)"
      using select_step [OF Suc.prems(1) s(1) u [unfolded m_def]] by auto
    show ?thesis
    proof (cases "r = VESA_OK")
      case True
      with \<open>suitable _\<close> s u k show ?thesis
        by (subst mode_select_loop.simps) (auto simp: mode_selected_def Let_def m_def [symmetric])
    next
      case False
      from False have vu: "video u = video v" using k by simp
      have "\<exists>res w. mode_select_loop io bios stack (vesa_modes u) (vesa_mode_count u) (s + 1) u = Some (res, w) \<and> same_kernel u w \<and>
        vesa_modes w = vesa_modes u \<and> vesa_mode_count w = vesa_mode_count u \<and> mode_selected u res w"
        by (rule Suc.hyps(1)) (use x le n k p in simp_all)
      then obtain res w where w: "mode_select_loop io bios stack (vesa_modes u) (vesa_mode_count u) (s + 1) u = Some (res, w)"
        "same_kernel u w" "vesa_modes w = vesa_modes u" "vesa_mode_count w = vesa_mode_count u" "mode_selected u res w" by blast
      have "mode_select_loop io bios stack (vesa_modes v) ?n s v = Some (res, w)"
        using False \<open>suitable _\<close> s u k w(1) by (subst mode_select_loop.simps) (simp add: m_def [symmetric])
      with same_kernel_trans [OF k(1) w(2)] mode_selected_cong [OF w(5) k(2,3) vu] w(3,4) k(2,3) show ?thesis by simp
    qed
  next
    case False
    show ?thesis
    proof (cases "unat ?n \<le> unat s + 1")
      case True
      then have "unat ?n - 1 = unat s" using s by simp
      with True False s Suc.prems(1) show ?thesis
        by (subst mode_select_loop.simps) (auto simp: mode_selected_def Let_def video_ok_def)
    next
      case last: False
      have "\<exists>res w. mode_select_loop io bios stack (vesa_modes v) ?n (s + 1) v = Some (res, w) \<and> same_kernel v w \<and>
        vesa_modes w = vesa_modes v \<and> vesa_mode_count w = ?n \<and> mode_selected v res w"
        by (rule Suc.hyps(1)) (use x le n last Suc.prems(1) in simp_all)
      with False last s show ?thesis by (subst mode_select_loop.simps) auto
    qed
  qed
qed

text \<open>
  C37: The choice of a video mode at boot always ends, with the kernel's interrupts and descriptor tables as they were. It
  ends in the panic if VESA is missing or the last listed mode is not suitable; it ends with a mode of 16 bits per pixel and more than 600 pixels a line set; or it goes on
  in silence with no mode set: when the table is empty, or when the last mode is suitable and the BIOS refuses it.
\<close>

theorem select_video_mode_outcome:
  assumes "vbe_info + 512 \<noteq> - 1" "kernel_ready (vesa_bios v)"
  shows "\<exists>res w. select_video_mode io bios stack vbe_info tmp v = Some (res, w) \<and> same_kernel v w \<and>
    (\<exists>r u. vesa_init io bios stack vbe_info tmp v = Some (r, u) \<and>
      (if r = VESA_OK then vesa_modes w = vesa_modes u \<and> vesa_mode_count w = vesa_mode_count u \<and>
          (let n = unat (vesa_mode_count u); modes = vesa_modes u in case res of
             None \<Rightarrow> 0 < n \<and> \<not> suitable (modes ! (n - 1)) \<and> video w = video v
           | Some s \<Rightarrow> if unat s < n then bpp (info (modes ! unat s)) = 16 \<and> 600 < mi_width (info (modes ! unat s)) \<and> video w = video_state_of (info (modes ! unat s))
               else unat s = n \<and> (n = 0 \<or> suitable (modes ! (n - 1))) \<and> video w = video v)
       else res = None \<and> video w = video v))"
proof -
  obtain c0 u0 where "load_vbe io bios stack vbe_info v = (c0, u0)" by (meson surj_pair)
  from vesa_init_table' [OF assms this, of tmp] obtain r u where
    u: "vesa_init io bios stack vbe_info tmp v = Some (r, u)" "same_kernel v u" "video u = video v"
      "r = VESA_OK \<Longrightarrow> video_ok u" by (auto split: if_splits)
  show ?thesis
  proof (cases "r = VESA_OK")
    case True
    from mode_select_loop_outcome [OF u(4) [OF True], of 0 io bios stack] obtain res w where
      w: "mode_select_loop io bios stack (vesa_modes u) (vesa_mode_count u) 0 u = Some (res, w)" "same_kernel u w"
        "vesa_modes w = vesa_modes u" "vesa_mode_count w = vesa_mode_count u" "mode_selected u res w" by auto
    have "same_kernel v w" by (rule same_kernel_trans [OF u(2) w(2)])
    moreover have "select_video_mode io bios stack vbe_info tmp v = Some (res, w)"
      using u True w(1) by (simp add: select_video_mode_def vesa_get_all_modes_def)
    ultimately show ?thesis
      using u(1) True w(3,4) w(5) [unfolded mode_selected_def u(3) suitable_def] unfolding suitable_def by (intro exI [of _ res] exI [of _ w] exI [of _ VESA_OK] exI [of _ u] conjI) (simp_all only: if_True simp_thms conj_assoc)
  next
    case False
    then show ?thesis using u by (simp add: select_video_mode_def)
  qed
qed

text \<open>
  Leaving graphics always asks the BIOS for mode 0: the guard on the current mode never fails, since a failed query gives
  255 and not the 65535 the guard looks for.
\<close>

theorem vesa_destroy_sets_text_mode:
  "vesa_destroy io bios stack v =
     snd (vesa_set_mode_bios io bios stack 0 (snd (vesa_current_mode io bios stack v)))"
proof -
  obtain m u where u: "vesa_current_mode io bios stack v = (m, u)" by (meson surj_pair)
  have "x AND 0x3FFF \<noteq> - 1" for x :: u16
  proof
    assume "x AND 0x3FFF = - 1"
    then have "bit (x AND 0x3FFF) 15" by simp
    then show False by (simp add: bit_simps)
  qed
  moreover have "(ucast (- 1 :: u8) :: u16) \<noteq> - 1"
  proof -
    have "(ucast (255 :: u8) :: u16) \<noteq> - 1" by simp
    moreover have "(- 1 :: u8) = 255" by simp
    ultimately show ?thesis by (simp only: not_False_eq_True)
  qed
  ultimately have "m \<noteq> - 1" using u by (auto simp: vesa_current_mode_def split: prod.splits if_splits)
  with u show ?thesis by (simp add: vesa_destroy_def)
qed

section \<open>The properties at work\<close>

text \<open>A BIOS that grants every request, and a table of two modes.\<close>

definition granting_bios :: "u8 \<Rightarrow> registers16 \<Rightarrow> mem \<times> unit \<Rightarrow> registers16 \<times> mem \<times> unit" where
  "granting_bios n r s = (r\<lparr>ax16 := 0x004F\<rparr>, s)"

definition witness_mode :: "u16 \<Rightarrow> u32 \<Rightarrow> vesa_mode" where
  "witness_mode w n = \<lparr>number = n, info = (vbe_mode_info_of (replicate 256 0))
     \<lparr>attributes := 0x90, memoryModel := 6, mi_width := w, mi_height := 600, bpp := 16, mi_pitch := 1600, physbase := 0xFD000000\<rparr>\<rparr>"

definition witness_vesa :: "unit vesa" where
  "witness_vesa = \<lparr>vesa_bios = witness_bios32
     \<lparr>tables := (tables witness_bios32)\<lparr>gdtr := Some (gdt_ptr (tables witness_bios32)), idtr := Some (idt_ptr (tables witness_bios32))\<rparr>\<rparr>,
     vesa_mode_count = 2, vesa_modes = [witness_mode 640 0x111, witness_mode 800 0x114] @ replicate 109 zero_mode,
     video = \<lparr>is_text_mode = 1, width = 80, height = 25, pitch = 160, bits_per_pixel = 0, bytes_per_pixel = 0,
       video_size = 4000, lfb = 0xB8000\<rparr>\<rparr>"

lemma witness_vesa_ready: "kernel_ready (vesa_bios witness_vesa)"
  by (simp add: witness_vesa_def kernel_ready_def witness_bios32_def interrupts_ok_def)

lemma witness_vesa_ok: "video_ok witness_vesa"
  unfolding video_ok_def
proof (intro conjI witness_vesa_ready)
  show "table_ok (unat (vesa_mode_count witness_vesa)) (vesa_modes witness_vesa)"
    by (simp add: witness_vesa_def table_ok_def VESA_MODE_SIZE_def usable_def witness_mode_def)
qed

text \<open>The same machine with a signature in the information block.\<close>

definition witness_vesa_card :: "unit vesa" where
  "witness_vesa_card = witness_vesa\<lparr>vesa_bios := (vesa_bios witness_vesa)
     \<lparr>low_mem := (\<lambda>_. 0)(0x1000 := 0x56, 0x1001 := 0x45, 0x1002 := 0x53, 0x1003 := 0x41)\<rparr>\<rparr>"

theorem vesa_init_table_witness:
  "\<exists>w. vesa_init silent_io granting_bios 0x9000 0x1000 0x1200 witness_vesa_card = Some (VESA_OK, w) \<and> video_ok w"
proof -
  have e: "(0x1000 :: u32) + 512 \<noteq> - 1" by simp
  have r: "kernel_ready (vesa_bios witness_vesa_card)"
    using witness_vesa_ready by (simp add: witness_vesa_card_def kernel_ready_def)
  obtain c u where l: "load_vbe silent_io granting_bios 0x9000 0x1000 witness_vesa_card = (c, u)" by (meson surj_pair)
  then have "c = 0" "video_mem u = low_mem (vesa_bios witness_vesa_card)"
    by (auto simp: load_vbe_def vbe_call_def kernel_bios32_service_def bios32_helper_def granting_bios_def Let_def
        stored_registers_def video_mem_def VBE_IS_FUNCTION_SUPPORTED_def VBE_AL_def VBE_AH_def split: prod.splits if_splits)
  moreover from this have "vesa_signature (video_mem u) 0x1000" by (simp add: vesa_signature_def witness_vesa_card_def)
  ultimately show ?thesis using vesa_init_table [OF e r l, of "0x1200"] by auto
qed

theorem vesa_set_mode_outcome_witness:
  "\<exists>w. vesa_set_mode silent_io granting_bios 0x9000 0x114 witness_vesa = Some (VESA_OK, w) \<and> is_text_mode (video w) = 0 \<and>
     kernel_ready (vesa_bios w)"
proof -
  obtain r w where w: "vesa_set_mode silent_io granting_bios 0x9000 0x114 witness_vesa = Some (r, w)"
    "same_kernel witness_vesa w"
    "if \<forall>i < unat (vesa_mode_count witness_vesa). number (vesa_modes witness_vesa ! i) \<noteq> ucast (0x114 :: u16) then r = VESA_ERR \<and> w = witness_vesa
     else if fst (vesa_set_mode_bios silent_io granting_bios 0x9000 0x114 witness_vesa) \<noteq> 0 then r = VESA_ERR \<and> video w = video witness_vesa
     else r = VESA_OK \<and> (\<exists>i < unat (vesa_mode_count witness_vesa). number (vesa_modes witness_vesa ! i) = ucast (0x114 :: u16) \<and>
       video w = video_state_of (info (vesa_modes witness_vesa ! i)))"
    using vesa_set_mode_outcome [OF witness_vesa_ok, of silent_io granting_bios "0x9000" "0x114"] by blast
  have n1: "\<not> (\<forall>i < unat (vesa_mode_count witness_vesa). number (vesa_modes witness_vesa ! i) \<noteq> ucast (0x114 :: u16))"
    by (simp add: witness_vesa_def witness_mode_def exI [of _ 1])
  have n2: "fst (vesa_set_mode_bios silent_io granting_bios 0x9000 0x114 witness_vesa) = 0"
    by (simp add: vesa_set_mode_bios_def vbe_call_def kernel_bios32_service_def bios32_helper_def granting_bios_def Let_def
        stored_registers_def VBE_IS_FUNCTION_SUPPORTED_def VBE_AL_def VBE_AH_def split: prod.splits)
  from w(3) have "r = VESA_OK \<and> (\<exists>i < unat (vesa_mode_count witness_vesa). number (vesa_modes witness_vesa ! i) = ucast (0x114 :: u16) \<and>
       video w = video_state_of (info (vesa_modes witness_vesa ! i)))" by (simp only: n1 n2 if_False simp_thms)
  then have "r = VESA_OK" "is_text_mode (video w) = 0" by (auto simp: video_state_of_def)
  with w(1,2) show ?thesis by auto
qed

theorem select_video_mode_outcome_witness:
  "\<exists>res w. select_video_mode silent_io granting_bios 0x9000 0x1000 0x1200 witness_vesa = Some (res, w) \<and>
     kernel_ready (vesa_bios w)"
proof -
  have "(0x1000 :: u32) + 512 \<noteq> - 1" by simp
  from select_video_mode_outcome [OF this witness_vesa_ready, of silent_io granting_bios "0x9000" "0x1200"] show ?thesis by blast
qed

end
