(* ===== verification/CMOS.thy ===== *)
theory CMOS
  imports Ports
begin

text \<open>
  The battery-backed memory of the clock (src/include/kernel/drivers/cmos.h): 128 bytes behind an index port and
  a data port. Interrupts are disabled during the transfer.
\<close>

section \<open>The transfer\<close>

definition CMOS_ADDRESS :: u16 where "CMOS_ADDRESS = 0x70"
definition CMOS_DATA :: u16 where "CMOS_DATA = 0x71"

definition cmos_get :: "'s io \<Rightarrow> u8 \<Rightarrow> u8 list \<times> 's \<Rightarrow> u8 list \<times> 's" where
  "cmos_get io index = (\<lambda>(array, s).
     let s = perform io [Outb CMOS_ADDRESS index, io_wait] s;
         (v, s) = inportb io CMOS_DATA s
     in (array[unat index := v], perform io [io_wait] s))"

definition cmos_put :: "'s io \<Rightarrow> u8 list \<Rightarrow> u8 \<Rightarrow> 's \<Rightarrow> 's" where
  "cmos_put io array index s =
     (let tvalue = array ! unat index
      in perform io [Outb CMOS_ADDRESS index, io_wait, Outb CMOS_DATA tvalue, io_wait] s)"

definition read_from_cmos :: "'s io \<Rightarrow> u8 list \<Rightarrow> interrupts \<times> 's \<Rightarrow> u8 list \<times> interrupts \<times> 's" where
  "read_from_cmos io array = (\<lambda>(irq, s).
     let irq = disable_interrupts irq;
         (array, s) = fold (cmos_get io) (counter 128) (array, s)
     in (array, enable_interrupts irq, s))"

definition write_from_cmos :: "'s io \<Rightarrow> u8 list \<Rightarrow> interrupts \<times> 's \<Rightarrow> interrupts \<times> 's" where
  "write_from_cmos io array = (\<lambda>(irq, s).
     let irq = disable_interrupts irq; s = fold (cmos_put io array) (counter 128) s
     in (enable_interrupts irq, s))"

section \<open>The device\<close>

text \<open>
  \<open>R\<close> are the bytes that keep what is written to them (the first ones are the running clock), \<open>sel\<close> is the
  selected byte and \<open>cell\<close> the contents. The delay port does nothing.
\<close>

definition cmos_device :: "'s io \<Rightarrow> u8 set \<Rightarrow> ('s \<Rightarrow> u8) \<Rightarrow> ('s \<Rightarrow> u8 \<Rightarrow> u8) \<Rightarrow> bool" where
  "cmos_device io R sel cell \<longleftrightarrow>
     (\<forall>v s. sel (outportb io CMOS_ADDRESS v s) = v \<and> (\<forall>i \<in> R. cell (outportb io CMOS_ADDRESS v s) i = cell s i)) \<and>
     (\<forall>v s. \<forall>i \<in> R. cell (outportb io CMOS_DATA v s) i = (if sel s = i then v else cell s i)) \<and>
     (\<forall>v s. sel (outportb io 0x80 v s) = sel s \<and> (\<forall>i \<in> R. cell (outportb io 0x80 v s) i = cell s i)) \<and>
     (\<forall>s v s'. inportb io CMOS_DATA s = (v, s') \<longrightarrow> (sel s \<in> R \<longrightarrow> v = cell s (sel s)) \<and> (\<forall>i \<in> R. cell s' i = cell s i))"

lemma cmos_put_cell:
  assumes "cmos_device io R sel cell" "i \<in> R"
  shows "cell (cmos_put io a j s) i = (if i = j then a ! unat j else cell s i)"
  using assms by (simp add: cmos_device_def cmos_put_def perform_def io_wait_def)

lemma cmos_get_cell:
  assumes "cmos_device io R sel cell" "cmos_get io j (a, s) = (a', s')"
  shows "\<exists>v. a' = a[unat j := v] \<and> (j \<in> R \<longrightarrow> v = cell s j)" "\<forall>i \<in> R. cell s' i = cell s i"
proof -
  let ?t = "perform io [Outb CMOS_ADDRESS j, io_wait] s"
  obtain v u where v: "inportb io CMOS_DATA ?t = (v, u)" by fastforce
  have t: "sel ?t = j" "\<forall>i \<in> R. cell ?t i = cell s i"
    using assms(1) by (simp_all add: cmos_device_def perform_def io_wait_def)
  have u: "sel ?t \<in> R \<longrightarrow> v = cell ?t (sel ?t)" "\<forall>i \<in> R. cell u i = cell ?t i"
    using assms(1) v unfolding cmos_device_def by blast+
  have "a' = a[unat j := v]" "s' = perform io [io_wait] u" using assms(2) v by (simp_all add: cmos_get_def Let_def)
  moreover have "\<forall>i \<in> R. cell (perform io [io_wait] u) i = cell u i"
    using assms(1) by (simp add: cmos_device_def perform_def io_wait_def)
  ultimately show "\<exists>v. a' = a[unat j := v] \<and> (j \<in> R \<longrightarrow> v = cell s j)" "\<forall>i \<in> R. cell s' i = cell s i"
    using t u by auto
qed

lemma cmos_puts:
  assumes "cmos_device io R sel cell" "i \<in> R"
  shows "cell (fold (cmos_put io a) js s) i = (if i \<in> set js then a ! unat i else cell s i)"
  by (induction js arbitrary: s) (auto simp: cmos_put_cell [OF assms])

lemma cmos_gets:
  assumes "cmos_device io R sel cell" "fold (cmos_get io) js (a, s) = (a', s')"
  shows "length a' = length a \<and> (\<forall>i \<in> R. cell s' i = cell s i) \<and>
    (\<forall>n. (\<forall>j \<in> set js. unat j \<noteq> n) \<longrightarrow> a' ! n = a ! n) \<and>
    (\<forall>i \<in> R. i \<in> set js \<and> unat i < length a \<longrightarrow> a' ! unat i = cell s i)"
  using assms(2)
proof (induction js arbitrary: a s)
  case (Cons j js)
  obtain b t where b: "cmos_get io j (a, s) = (b, t)" by fastforce
  from cmos_get_cell [OF assms(1) b] obtain v where
    v: "b = a[unat j := v]" "j \<in> R \<longrightarrow> v = cell s j" "\<forall>i \<in> R. cell t i = cell s i" by blast
  have "fold (cmos_get io) js (b, t) = (a', s')" using Cons.prems b by simp
  note IH = Cons.IH [OF this]
  have "a' ! unat i = cell s i" if i: "i \<in> R" "i \<in> set (j # js)" "unat i < length a" for i
  proof (cases "i \<in> set js")
    case True
    then show ?thesis using IH v(1,3) i by simp
  next
    case False
    moreover have "unat k = unat i \<longleftrightarrow> k = i" for k :: u8 by (simp add: word_unat_eq_iff)
    ultimately have "i = j" "\<forall>k \<in> set js. unat k \<noteq> unat i" using i by auto
    then show ?thesis using IH v(1,2) i by simp
  qed
  then show ?case using IH v(1,3) by auto
qed simp

section \<open>Property\<close>

text \<open>
  What is written to the device is read back from it, for every byte that keeps its contents; the nesting of disabled interrupts is
  as before, and nothing behind the first 128 bytes of the array changes.
\<close>

theorem cmos_round_trip:
  assumes "cmos_device io R sel cell" "interrupts_ok i" "128 \<le> length b"
    "write_from_cmos io a (i, s) = (i1, s1)" "read_from_cmos io b (i1, s1) = (b', i2, s2)"
  shows "i2 = i \<and> length b' = length b \<and> (\<forall>j \<in> R. unat j < 128 \<longrightarrow> b' ! unat j = a ! unat j) \<and>
    (\<forall>n. 128 \<le> n \<longrightarrow> b' ! n = b ! n)"
proof -
  have c: "j \<in> set (counter 128) \<longleftrightarrow> unat j < 128" for j :: u8 by (simp add: set_counter)
  have w: "i1 = i" "s1 = fold (cmos_put io a) (counter 128) s" using assms(2,4) by (simp_all add: write_from_cmos_def Let_def)
  obtain t where r: "fold (cmos_get io) (counter 128) (b, s1) = (b', t)" "i2 = i"
    using assms(2,5) w(1) by (auto simp: read_from_cmos_def Let_def split: prod.splits)
  note g = cmos_gets [OF assms(1) r(1)]
  have "b' ! unat j = a ! unat j" if "j \<in> R" "unat j < 128" for j
    using g cmos_puts [OF assms(1) that(1), of a "counter 128" s] that assms(3) by (simp add: c w(2))
  moreover have "b' ! n = b ! n" if "128 \<le> n" for n using g c that by force
  ultimately show ?thesis using g r(2) by simp
qed

definition witness_cmos :: "(u8 \<times> (u8 \<Rightarrow> u8)) io" where
  "witness_cmos = silent_io\<lparr>inportb := \<lambda>p s. (if p = CMOS_DATA then snd s (fst s) else 0, s),
     outportb := \<lambda>p v s. if p = CMOS_ADDRESS then (v, snd s) else if p = CMOS_DATA then (fst s, (snd s)(fst s := v)) else s\<rparr>"

theorem cmos_round_trip_witness:
  "\<exists>i1 s1 b' i2 s2. write_from_cmos witness_cmos (replicate 128 7) (\<lparr>disable_counter = 0, interrupt_flag = True\<rparr>, 0, \<lambda>_. 0) = (i1, s1) \<and>
     read_from_cmos witness_cmos (replicate 128 0) (i1, s1) = (b', i2, s2) \<and> b' ! 100 = 7"
proof -
  have d: "cmos_device witness_cmos UNIV fst snd"
    by (simp add: cmos_device_def witness_cmos_def silent_io_def CMOS_ADDRESS_def CMOS_DATA_def)
  obtain i1 s1 b' i2 s2 where r: "write_from_cmos witness_cmos (replicate 128 7) (\<lparr>disable_counter = 0, interrupt_flag = True\<rparr>, 0, \<lambda>_. 0) = (i1, s1)"
    "read_from_cmos witness_cmos (replicate 128 0) (i1, s1) = (b', i2, s2)" by (metis surj_pair)
  have "interrupts_ok \<lparr>disable_counter = 0, interrupt_flag = True\<rparr>" by (simp add: interrupts_ok_def)
  from cmos_round_trip [OF d this _ r] have "\<forall>j :: u8. unat j < 128 \<longrightarrow> b' ! unat j = replicate 128 7 ! unat j" by simp
  from this [rule_format, of 100] have "b' ! 100 = 7" by simp
  with r show ?thesis by blast
qed

end
