(* ===== verification/Spec2Isabelle.thy ===== *)
theory Spec2Isabelle
  imports Kernel_Main Device_Discovery Vesa CMOS
begin

text \<open>
  A development on the kernel in this repository: a 32-bit x86 kernel in C for one processor, started by a
  Multiboot 2 boot loader. This theory imports all others and says what they hold.

  \<^bold>\<open>The program.\<close> \<open>kernel_main\<close> (src/kernel/kernel-main.c) looks at the boot loader's magic number (but never refuses one), sets up the serial
  port, the processor's descriptor tables, the interrupt controllers and the interrupt handlers, reads the memory map,
  registers the system calls, and turns on paging with memory from a bump allocator. Then it starts the heap, which maps pages through the
  paging manager, which takes frames from the physical memory manager and page tables from the heap. The storage
  manager is set up, the PCI buses are scanned and each device is offered to the drivers, of which there is one: the IDE
  driver identifies the four ATA drives and registers them. Video modes are asked of the BIOS through
  a switch to real mode and one is set. At last the task table, the scheduler, its two threads and the timer
  are started and interrupts are enabled. From then on every tick of the timer calls the scheduler,
  and programs call the kernel through interrupt 0x80.

  \<^bold>\<open>Conventions.\<close> Integers have the width of the C type and wrap. Memory is a function from 32-bit addresses to bytes and a pointer is
  its address, except where a component holds pointers only to the entries of a fixed array (tasks, drives,
  modes), where it is the index. A \<open>void\<close> function is a function on the state; the state of a component is a
  record with a field for each of its variables. \<open>None\<close> as the result of an operation means that it does not return or has no
  defined behaviour in C: a loop that never ends, \<open>hlt\<close> for ever, a call through an empty table entry, a write behind an array on the stack.
  Error codes are values. Statements that an operation returns are statements that its result is \<open>Some\<close>.

  \<^bold>\<open>Theories and sources.\<close>
  \<^item> Prelude: integers, memory, results, and generic lemmas on words, lists and loops. Memory: include/memory.h.
  \<^item> Bitmap: bitmap.c, include/bitmap.h. Ordered_Array: ordered-array.c, include/ordered-array.h, arrays of pointers in memory.
  \<^item> Sync: include/spinlock.h and the disabling of interrupts of include/kernel/util.h, a counter and a flag.
  \<^item> Physical_Memory, Paging, Heap: the three files of kernel/memory-mangement; Kernel_State is the record they share (memory, the three
    managers, the control registers). Kernel_Memory: kernel-memory.c and the two parts of \<open>kernel_main\<close> that set memory up.
    Allocation_Table: allocation-table.c.
  \<^item> Descriptors: kernel/descriptors. Interrupts: kernel/interrupts/interrupts.c, pic-8259.c, programable-interval-timer.c. Port output
    there is a list of writes; Ports turns it into instructions on a machine. Syscalls: kernel/syscalls.
  \<^item> Sleep_Queue, Task_Queue, User_Stacks, Scheduler: the files of these names of kernel/scheduler; the record \<open>kernel\<close> of Scheduler is
    the state of all that runs after boot. Round_Robin has the theorems on scheduling. Task_Table: task.c, kthread.c, the start of the
    scheduler, its cleaner thread and its memory calls. Task_Memory: what ties the tables of tasks to the heap.
  \<^item> CString and Trim: include/string.h. Debug_Output: kernel/debug/serial-com1.c, kernel/interrupts/exceptions.c.
  \<^item> Multiboot: multiboot2.c. Storage_Manager: kernel/storage. PCI, ATA_PIO, IDE_Controller, Vesa: the drivers of these
    names. Bios32: kernel/bios32. CMOS: include/kernel/drivers/cmos.h.
  \<^item> Kernel_Main and Device_Discovery: the parts of \<open>kernel_main\<close> that compose the others. User_Calls: lib/syscalls-lib.h on top of
    the dispatcher, the table of system calls and the functions of the scheduler.

  \<^bold>\<open>Interfaces.\<close> Where one component relies on another the contract is a locale, interpreted on the model of the provider:
  \<open>frame_allocator\<close> (frames handed out are free and different; interpreted on the frame bitmap), \<open>page_allocator\<close> (memory for page tables
  is apart from what is in use; interpreted on the bump allocator; the paging proofs are inside it), \<open>wake_queue\<close> (a priority
  queue with bounded room; on the binary heap of sleepers), \<open>fifo\<close> (on the linked list of tasks), \<open>probing\<close> (a driver's
  probe keeps an invariant of the machine; the scan of the buses is proved for every such driver; on the IDE probe).

  \<^bold>\<open>What the lemmas show.\<close>
  \<^item> Memory: the word-wise copies and fills are the byte-wise ones. A bit of a bitmap is independent of the others. Ordered arrays stay
    sorted. Allocation of frames is first-fit and never hands out a frame twice. Mapping a page or a range gives frames nobody has and keeps
    every other mapping; the set-up of paging keeps the addresses of the kernel. These hold in the boot phase, before paging is on and
    with page tables from the bump allocator, and for two views that agree: the kernel's own translation over its table pointers
    (\<open>virtual_2_physical\<close>) and the walk of the processor from CR3 over the hardware entries (\<open>processor_walk\<close>). A request to the
    heap that asks for no page boundary takes the smallest hole that fits, keeps the heap well formed (headers, index, no overlap)
    and is apart from all blocks in use; a release gives the block back.
  \<^item> Scheduling: the queue invariant holds in every reachable state (induction over the step relation \<open>sched_step\<close>); a ready task
    runs after the tasks before it; a sleeper wakes when due; a context is restored as it was saved; the tables of tasks, stacks and allocations
    refine a map, a set of disjoint regions and a multiset. The places where the code does not do what it means
    to are theorems as well: the first switch loses the cleaner thread, an ended task is in no queue.
  \<^item> Interrupts and calls: the gates, segments and handlers after boot; which handler an interrupt runs and how it is acknowledged;
    a function of the user library does what the kernel's function does, and a call that ends in another task (\<open>Switched\<close>) leaves
    its rest for the time when the caller is selected again.
  \<^item> Devices: the scan returns, finds every function that answers and records its true header; a byte written to configuration space changes that
    byte as its read-only and write-1-to-clear bits allow, and clears bits of the second kind in the bytes beside it; the state of the drives
    stays well formed; a transfer does its sectors in order up to the first that fails, and says so; the
    probe registers the drives that initialise, in their order; after discovery the tables of devices, controllers and handlers are as they should be.
  \<^item> Output and video: \<open>dbgprintf\<close> prints its format as a specification over lists says, with numerals of its own; a BIOS call leaves the kernel's
    tables and interrupts as they were and loses a result in \<open>cx\<close>; the table of modes has no duplicates; the outcome of the choice of a mode.

  \<^bold>\<open>Bounds and fuel.\<close> \<open>malloc n\<close> may call itself through the paging manager (growing the heap maps pages, whose
    tables come from the heap); \<open>n\<close> bounds this nesting, and while the bump allocator is in use \<open>Suc n\<close> suffices for every \<open>n\<close>. \<open>pci_scan_bus n\<close> has
    a nesting of buses; 257 is enough since a bridge leads to a higher bus of at most 256. \<open>wait_loop\<close> has the code's own bound of a million rounds.
    All other loops are structural, have a measure, or are partial functions whose end is proved under the hypotheses stated.

  \<^bold>\<open>Parameters.\<close> The machine behind the port instructions is a record \<open>io\<close> of functions on a state of any type; hypotheses on it say
    that configuration space answers as PCI demands (\<open>pci_hardware\<close>, \<open>pci_registers\<close>) or that drives which are idle answer
    the command IDENTIFY (\<open>drives_answer\<close>). \<open>irq\<close> decides which interrupt
    arrives at a point where the ATA driver can be interrupted: after a command and in each round of a wait. \<open>bios\<close> is the effect of
    a software interrupt in real mode, \<open>run\<close> and \<open>call\<close> are what a handler or a function does that is known by
    its tag only, \<open>junk\<close> is the value of a variable the code reads before setting it, \<open>void\<close> is what a function without a
    result leaves in \<open>eax\<close>. Addresses that the linker chooses, and the entries it collects from the sections of drivers, threads and system calls, are arguments.

  \<^bold>\<open>Not modelled.\<close> \<open>ftoa\<close> computes with floating-point numbers and is an argument of \<open>dbgprintf\<close>. The assembly
    of kernel/boot sets up the first page directory and stack; that of kernel/interrupts pushes the registers. Of
    include/multiboot2.h, the header of the Multiboot specification, only the declarations in use are modelled.
    include/msr.h reads and writes model-specific registers of the processor and is not used; \<open>storage_devices_iterate_handle\<close>
    has no caller. The parts of \<open>kernel_main\<close> are modelled one by one, on the state each of them uses; only those of
    Kernel_Main share one record. Caches of address translation are not represented, and interrupts arrive only where said above.
    The linker script and the build files are outside of the model.
\<close>

end
